(* ===== verification/But_Prelude.thy ===== *)
theory But_Prelude
  imports Main "HOL-Library.Word" "HOL-Library.Signed_Division"
begin

text \<open>
  Shared vocabulary of the development: the names of the machine types the node's code
  uses, the collections that carry the component proofs, and the lemmas on lists, words
  and little-endian digit strings that several components need.

  Machine integers that can wrap are words of their width (\<open>u8\<close>, \<open>u16\<close>, \<open>u32\<close>,
  \<open>u64\<close>). Signed C integers are \<open>int\<close>; where the code's \<open>int64_t\<close> or \<open>int32_t\<close>
  arithmetic can leave its range the wrap-around or the range check is written out with
  \<open>s64\<close>. C's division truncates towards zero: it is \<open>sdiv\<close> of
  \<open>HOL-Library.Signed_Division\<close>.
\<close>

unbundle bit_operations_syntax

type_synonym u8 = "8 word"
type_synonym u16 = "16 word"
type_synonym u32 = "32 word"
type_synonym u64 = "64 word"

type_synonym bytes = "u8 list"

text \<open>
  An opaque 256-bit blob (\<open>uint256\<close>, \<open>src/uint256.h\<close>) is its byte array, least
  significant byte first; the well-formed ones have 32 bytes.
\<close>

type_synonym uint256 = bytes

text \<open>\<open>CAmount\<close> is \<open>int64_t\<close>.\<close>

type_synonym CAmount = int

text \<open>
  \<open>limb_val\<close> collects the equations that evaluate a digit string, \<open>c_int\<close> the
  bounds on C integers, \<open>bytes_rw\<close> the read/write laws of the byte-level codecs.
\<close>

named_theorems limb_val "values of little-endian digit strings"
named_theorems c_int "ranges of C integers"
named_theorems bytes_rw "read after write on byte strings"

definition INT_MAX :: int where "INT_MAX = 2147483647"

definition in_s64 :: "int \<Rightarrow> bool" where
  "in_s64 x \<longleftrightarrow> - (2 ^ 63) \<le> x \<and> x < 2 ^ 63"

definition s64 :: "int \<Rightarrow> int" where
  "s64 x = signed_take_bit 63 x"

lemma s64_id [c_int]: "in_s64 x \<Longrightarrow> s64 x = x"
  by (simp add: in_s64_def s64_def signed_take_bit_int_eq_self)

lemma in_s64_s64 [c_int]: "in_s64 (s64 x)"
  using signed_take_bit_int_less_exp [of 63 x] signed_take_bit_int_greater_eq_minus_exp [of 63 x]
  by (simp add: in_s64_def s64_def)

subsection \<open>Lists\<close>

lemma length_fold_list_update [simp]:
  assumes "\<And>x ys. length (f x ys) = length ys"
  shows "length (fold f xs ys) = length ys"
  using assms by (induction xs arbitrary: ys) simp_all

lemma list_eq_nthI:
  assumes "length xs = length ys" and "\<And>i. i < length xs \<Longrightarrow> xs ! i = ys ! i"
  shows "xs = ys"
  using assms by (simp add: list_eq_iff_nth_eq)

lemma nth_rev_hd: "xs \<noteq> [] \<Longrightarrow> rev xs ! 0 = last xs"
  by (simp add: rev_nth last_conv_nth)

subsection \<open>Positional values\<close>

text \<open>
  The value of a little-endian string of \<open>'a word\<close> digits: the abstraction function of
  every multi-word integer of the code (32-bit limbs, bytes).
\<close>

fun digits_val :: "'a::len word list \<Rightarrow> nat" where
  "digits_val [] = 0"
| "digits_val (x # xs) = unat x + 2 ^ LENGTH('a) * digits_val xs"

lemma digits_val_append [limb_val]:
  "digits_val (xs @ ys :: 'a::len word list) =
     digits_val xs + 2 ^ (LENGTH('a) * length xs) * digits_val ys"
  by (induction xs) (simp_all add: power_add algebra_simps)

lemma digits_val_less: "digits_val (xs :: 'a::len word list) < 2 ^ (LENGTH('a) * length xs)"
proof (induction xs)
  case Nil
  then show ?case by simp
next
  case (Cons x xs)
  have "unat x < 2 ^ LENGTH('a)" by (rule unsigned_less)
  moreover have "Suc (digits_val xs) \<le> 2 ^ (LENGTH('a) * length xs)" using Cons by simp
  then have "2 ^ LENGTH('a) * Suc (digits_val xs)
      \<le> 2 ^ LENGTH('a) * (2 ^ (LENGTH('a) * length xs) :: nat)"
    by (rule mult_le_mono2)
  ultimately have "unat x + 2 ^ LENGTH('a) * digits_val xs
      < 2 ^ LENGTH('a) * 2 ^ (LENGTH('a) * length xs)"
    unfolding mult_Suc_right by linarith
  then show ?case by (simp add: power_add)
qed

lemma digits_val_replicate_0 [simp, limb_val]: "digits_val (replicate n 0) = 0"
  by (induction n) simp_all

lemma digits_val_inject:
  fixes xs ys :: "'a::len word list"
  assumes "length xs = length ys" and "digits_val xs = digits_val ys"
  shows "xs = ys"
  using assms
proof (induction xs ys rule: list_induct2)
  case Nil
  then show ?case by simp
next
  case (Cons x xs y ys)
  have lt: "unat x < 2 ^ LENGTH('a)" "unat y < 2 ^ LENGTH('a)" by (rule unsigned_less)+
  have eq: "unat x + 2 ^ LENGTH('a) * digits_val xs = unat y + 2 ^ LENGTH('a) * digits_val ys"
    using Cons.prems by simp
  have "(unat x + 2 ^ LENGTH('a) * digits_val xs) mod 2 ^ LENGTH('a) = unat x"
    "(unat y + 2 ^ LENGTH('a) * digits_val ys) mod 2 ^ LENGTH('a) = unat y"
    using lt by simp_all
  with eq have "unat x = unat y" by simp
  with eq Cons.IH show ?case by (simp add: word_unat_eq_iff)
qed

lemma digits_val_eq_0_iff:
  fixes xs :: "'a::len word list"
  shows "digits_val xs = 0 \<longleftrightarrow> (\<forall>x \<in> set xs. x = 0)"
  by (induction xs) (auto simp: unat_eq_zero)

lemma bit_digit_split:
  fixes a b n :: nat
  assumes "a < 2 ^ n"
  shows "bit (a + 2 ^ n * b) p \<longleftrightarrow> (if p < n then bit a p else bit b (p - n))"
proof (cases "p < n")
  case True
  then obtain d where d: "n = p + Suc d" using less_imp_Suc_add by auto
  have "a + 2 ^ n * b = a + 2 * (2 ^ d * b) * 2 ^ p"
    by (simp add: d power_add)
  then have "(a + 2 ^ n * b) div 2 ^ p = a div 2 ^ p + 2 * (2 ^ d * b)"
    by (simp only: div_mult_self1) simp
  with True show ?thesis by (simp add: bit_iff_odd)
next
  case False
  then obtain d where d: "p = n + d" using le_Suc_ex by (auto simp: not_less)
  have "(a + 2 ^ n * b) div 2 ^ p = (a + 2 ^ n * b) div 2 ^ n div 2 ^ d"
    by (simp add: d power_add div_mult2_eq)
  also have "\<dots> = b div 2 ^ d" using assms by simp
  finally show ?thesis using False by (simp add: bit_iff_odd d)
qed

lemma bit_unat_word: "bit (unat (w :: 'a::len word)) p \<longleftrightarrow> bit w p"
  by transfer (simp add: bit_take_bit_iff bit_nat_iff)

lemma unat_drop_bit_div: "unat (drop_bit n (w :: 'a::len word)) = unat w div 2 ^ n"
  by (subst unat_drop_bit_eq) (simp add: drop_bit_eq_div)

lemma bit_digits_val:
  fixes xs :: "'a::len word list"
  shows "bit (digits_val xs) p \<longleftrightarrow>
    p div LENGTH('a) < length xs \<and> bit (xs ! (p div LENGTH('a))) (p mod LENGTH('a))"
proof (induction xs arbitrary: p)
  case Nil
  then show ?case by simp
next
  case (Cons x xs)
  have lt: "unat x < 2 ^ LENGTH('a)" by (rule unsigned_less)
  show ?case
  proof (cases "p < LENGTH('a)")
    case True
    then show ?thesis by (simp add: bit_digit_split [OF lt] bit_unat_word)
  next
    case False
    then have "p div LENGTH('a) = Suc ((p - LENGTH('a)) div LENGTH('a))"
      "p mod LENGTH('a) = (p - LENGTH('a)) mod LENGTH('a)"
      by (simp_all add: le_div_geq le_mod_geq)
    with False show ?thesis by (simp add: bit_digit_split [OF lt] Cons.IH)
  qed
qed

end
