(* ===== verification/Bytes.thy ===== *)
theory Bytes
  imports But_Prelude
begin

text \<open>
  Byte-level access to integers: \<open>src/crypto/common.h\<close> (fixed-width little- and
  big-endian reads and writes, \<open>CountBits\<close>) and the opaque blobs of
  \<open>src/uint256.h\<close>. A pointer into a buffer is the suffix of the byte string it
  points at; a read looks at the first bytes of that suffix.
\<close>

unbundle bit_operations_syntax

subsection \<open>Definitions\<close>

text \<open>The bytes of a word in memory order on a little-endian machine, and back.\<close>

definition le_bytes :: "nat \<Rightarrow> 'a::len word \<Rightarrow> bytes" where
  "le_bytes n x = map (\<lambda>i. ucast (drop_bit (8 * i) x)) [0..<n]"

definition le_word :: "bytes \<Rightarrow> 'a::len word" where
  "le_word bs = word_of_nat (digits_val bs)"

definition ReadLE16 :: "bytes \<Rightarrow> u16" where
  "ReadLE16 ptr = le_word (take 2 ptr)"

definition ReadLE32 :: "bytes \<Rightarrow> u32" where
  "ReadLE32 ptr = le_word (take 4 ptr)"

definition ReadLE64 :: "bytes \<Rightarrow> u64" where
  "ReadLE64 ptr = le_word (take 8 ptr)"

definition WriteLE16 :: "u16 \<Rightarrow> bytes" where
  "WriteLE16 x = le_bytes 2 x"

definition WriteLE32 :: "u32 \<Rightarrow> bytes" where
  "WriteLE32 x = le_bytes 4 x"

definition WriteLE64 :: "u64 \<Rightarrow> bytes" where
  "WriteLE64 x = le_bytes 8 x"

definition ReadBE32 :: "bytes \<Rightarrow> u32" where
  "ReadBE32 ptr = le_word (rev (take 4 ptr))"

definition ReadBE64 :: "bytes \<Rightarrow> u64" where
  "ReadBE64 ptr = le_word (rev (take 8 ptr))"

definition WriteBE32 :: "u32 \<Rightarrow> bytes" where
  "WriteBE32 x = rev (le_bytes 4 x)"

definition WriteBE64 :: "u64 \<Rightarrow> bytes" where
  "WriteBE64 x = rev (le_bytes 8 x)"

text \<open>The portable loop of \<open>CountBits\<close>: shift right until nothing is left.\<close>

function CountBits :: "u64 \<Rightarrow> nat" where
  "CountBits x = (if x \<noteq> 0 then Suc (CountBits (drop_bit 1 x)) else 0)"
  by pat_completeness auto
termination
proof (relation "measure unat")
  fix x :: u64
  assume "x \<noteq> 0"
  then have "unat x > 0" by (simp add: unat_gt_0)
  then show "(drop_bit 1 x, x) \<in> measure unat"
    by (simp add: unat_drop_bit_div)
qed simp

declare CountBits.simps [simp del]

text \<open>\<open>base_blob\<close>: a fixed-size byte array.\<close>

definition blob_IsNull :: "bytes \<Rightarrow> bool" where
  "blob_IsNull data = list_all (\<lambda>b. b = 0) data"

definition blob_null :: "nat \<Rightarrow> bytes" where
  "blob_null width = replicate width 0"

text \<open>\<open>memcmp\<close>: the sign of the first difference, bytes compared as unsigned.\<close>

fun blob_Compare :: "bytes \<Rightarrow> bytes \<Rightarrow> int" where
  "blob_Compare (x # xs) (y # ys) =
     (if x < y then - 1 else if y < x then 1 else blob_Compare xs ys)"
| "blob_Compare _ _ = 0"

definition GetUint64 :: "bytes \<Rightarrow> nat \<Rightarrow> u64" where
  "GetUint64 data pos = (let ptr = drop (pos * 8) data in
     ucast (ptr ! 0) OR push_bit 8 (ucast (ptr ! 1)) OR push_bit 16 (ucast (ptr ! 2)) OR
     push_bit 24 (ucast (ptr ! 3)) OR push_bit 32 (ucast (ptr ! 4)) OR
     push_bit 40 (ucast (ptr ! 5)) OR push_bit 48 (ucast (ptr ! 6)) OR
     push_bit 56 (ucast (ptr ! 7)))"

text \<open>The nibble at \<open>index\<close>, counted from the most significant end.\<close>

definition GetNibble :: "uint256 \<Rightarrow> nat \<Rightarrow> nat" where
  "GetNibble data index = (let i = 63 - index in
     if i mod 2 = 1 then unat (drop_bit 4 (data ! (i div 2)))
     else unat (data ! (i div 2) AND 0x0F))"

subsection \<open>Little-endian laws\<close>

lemma length_le_bytes [simp]: "length (le_bytes n x) = n"
  by (simp add: le_bytes_def)

lemma bit_le_bytes_val:
  "bit (digits_val (le_bytes n (x :: 'a::len word))) p \<longleftrightarrow> p < 8 * n \<and> bit x p"
proof (cases "p div 8 < n")
  case True
  then have "p < 8 * n" by (simp add: div_less_iff_less_mult mult.commute)
  moreover have "8 * (p div 8) + p mod 8 = p" by simp
  ultimately show ?thesis using True
    by (simp add: bit_digits_val le_bytes_def bit_ucast_iff bit_drop_bit_eq)
next
  case False
  then have "\<not> p < 8 * n" by (simp add: div_less_iff_less_mult mult.commute)
  with False show ?thesis by (simp add: bit_digits_val)
qed

lemma digits_val_le_bytes [limb_val]:
  "digits_val (le_bytes n (x :: 'a::len word)) = take_bit (8 * n) (unat x)"
  by (rule bit_eqI) (simp add: bit_le_bytes_val bit_take_bit_iff bit_unat_word)

lemma le_word_le_bytes [bytes_rw]:
  assumes "LENGTH('a) \<le> 8 * n"
  shows "le_word (le_bytes n (x :: 'a::len word)) = x"
proof -
  have "unat x < 2 ^ LENGTH('a)" by (rule unsigned_less)
  also have "\<dots> \<le> (2::nat) ^ (8 * n)" using assms by (simp add: power_increasing)
  finally have "take_bit (8 * n) (unat x) = unat x" by (simp add: take_bit_nat_eq_self)
  then show ?thesis by (simp add: le_word_def digits_val_le_bytes)
qed

lemma unat_le_word:
  assumes "8 * length bs \<le> LENGTH('a)"
  shows "unat (le_word bs :: 'a::len word) = digits_val bs"
proof -
  have "digits_val bs < 2 ^ (8 * length bs)" using digits_val_less [of bs] by simp
  also have "\<dots> \<le> (2::nat) ^ LENGTH('a)" using assms by (simp add: power_increasing)
  finally show ?thesis by (simp add: le_word_def unat_of_nat take_bit_nat_eq_self)
qed

lemma le_bytes_le_word [bytes_rw]:
  assumes "length bs = n" and "8 * n \<le> LENGTH('a)"
  shows "le_bytes n (le_word bs :: 'a::len word) = bs"
proof (rule digits_val_inject)
  have "digits_val bs < 2 ^ (8 * n)" using digits_val_less [of bs] assms(1) by simp
  then show "digits_val (le_bytes n (le_word bs :: 'a word)) = digits_val bs"
    using assms by (simp add: digits_val_le_bytes unat_le_word take_bit_nat_eq_self)
qed (simp add: assms)

lemma Read_Write_LE [bytes_rw]:
  "ReadLE16 (WriteLE16 a @ rest) = a"
  "ReadLE32 (WriteLE32 b @ rest) = b"
  "ReadLE64 (WriteLE64 c @ rest) = c"
  by (simp_all add: ReadLE16_def WriteLE16_def ReadLE32_def WriteLE32_def ReadLE64_def
      WriteLE64_def bytes_rw)

lemma Read_Write_BE [bytes_rw]:
  "ReadBE32 (WriteBE32 b @ rest) = b"
  "ReadBE64 (WriteBE64 c @ rest) = c"
  by (simp_all add: ReadBE32_def WriteBE32_def ReadBE64_def WriteBE64_def bytes_rw)

lemma length_Write [simp]:
  "length (WriteLE16 a) = 2" "length (WriteLE32 b) = 4" "length (WriteLE64 c) = 8"
  "length (WriteBE32 b) = 4" "length (WriteBE64 c) = 8"
  by (simp_all add: WriteLE16_def WriteLE32_def WriteLE64_def WriteBE32_def WriteBE64_def)

subsection \<open>Blobs\<close>

lemma blob_IsNull_iff: "blob_IsNull data \<longleftrightarrow> data = blob_null (length data)"
  by (induction data) (auto simp: blob_IsNull_def blob_null_def)

lemma blob_Compare_0_iff:
  "length xs = length ys \<Longrightarrow> blob_Compare xs ys = 0 \<longleftrightarrow> xs = ys"
  by (induction xs ys rule: list_induct2) auto

lemma blob_Compare_antisym:
  "length xs = length ys \<Longrightarrow> blob_Compare ys xs = - blob_Compare xs ys"
  by (induction xs ys rule: list_induct2) auto

lemma blob_Compare_trans:
  assumes "length xs = length ys" and "length ys = length zs"
    and "blob_Compare xs ys < 0" and "blob_Compare ys zs < 0"
  shows "blob_Compare xs zs < 0"
  using assms
  by (induction xs ys zs rule: list_induct3) (auto split: if_splits)

lemma CountBits_bound: "unat x < 2 ^ CountBits x"
proof (induction x rule: CountBits.induct)
  case (1 x)
  show ?case
  proof (cases "x = 0")
    case True
    then show ?thesis by simp
  next
    case False
    with "1.IH" have "unat (drop_bit 1 x) < 2 ^ CountBits (drop_bit 1 x)" by simp
    then have "unat x div 2 < 2 ^ CountBits (drop_bit 1 x)"
      by (simp add: unat_drop_bit_div)
    with False show ?thesis by (simp add: CountBits.simps [of x])
  qed
qed

lemma GetNibble_less: "GetNibble data index < 16"
proof (cases "(63 - index) mod 2 = 1")
  case True
  have "unat (drop_bit 4 (data ! ((63 - index) div 2))) = unat (data ! ((63 - index) div 2)) div 16"
    by (simp add: unat_drop_bit_div)
  moreover have "unat (data ! ((63 - index) div 2)) < 2 ^ LENGTH(8)" by (rule unsigned_less)
  ultimately show ?thesis using True
    by (simp add: GetNibble_def Let_def less_mult_imp_div_less)
next
  case False
  have "data ! ((63 - index) div 2) AND 0x0F \<le> (15 :: u8)" by (rule word_and_le1)
  then have "unat (data ! ((63 - index) div 2) AND 0x0F) \<le> 15"
    by (simp add: word_le_nat_alt)
  with False show ?thesis by (simp add: GetNibble_def Let_def)
qed

end
