(* ===== verification/Block_Header.thy ===== *)
theory Block_Header
  imports Arith_Uint256
begin

text \<open>
  Block headers (\<open>primitives/block.h\<close>, \<open>primitives/block.cpp\<close>): the header record, its
  80-byte wire form, the mining algorithm selected by the version bits and the proof-of-work
  hash of each algorithm.  The hash functions themselves are arguments, collected in
  \<open>pow_hashes\<close>.  \<open>int32_t nVersion\<close> is kept as its 32-bit pattern.
\<close>

unbundle bit_operations_syntax

subsection \<open>Algorithms\<close>

definition ALGO_BUTKSCRYPT :: int where "ALGO_BUTKSCRYPT = 0"
definition ALGO_SHA256D :: int where "ALGO_SHA256D = 1"
definition ALGO_LYRA2 :: int where "ALGO_LYRA2 = 2"
definition ALGO_GHOSTRIDER :: int where "ALGO_GHOSTRIDER = 3"
definition ALGO_YESPOWER :: int where "ALGO_YESPOWER = 4"
definition ALGO_SCRYPT :: int where "ALGO_SCRYPT = 5"

lemmas ALGO_defs = ALGO_BUTKSCRYPT_def ALGO_SHA256D_def ALGO_LYRA2_def ALGO_GHOSTRIDER_def
  ALGO_YESPOWER_def ALGO_SCRYPT_def

definition NUM_ALGOS :: int where "NUM_ALGOS = 3"
definition NUM_ALGOSV2 :: int where "NUM_ALGOSV2 = 4"
definition NUM_ALGOSV3 :: int where "NUM_ALGOSV3 = 5"
definition NUM_ALGOSV4 :: int where "NUM_ALGOSV4 = 6"

lemmas NUM_ALGOS_defs = NUM_ALGOS_def NUM_ALGOSV2_def NUM_ALGOSV3_def NUM_ALGOSV4_def

definition BLOCK_VERSION_ALGO :: u32 where "BLOCK_VERSION_ALGO = push_bit 11 15"
definition BLOCK_VERSION_BUTKSCRYPT :: u32 where "BLOCK_VERSION_BUTKSCRYPT = push_bit 11 1"
definition BLOCK_VERSION_SHA256D :: u32 where "BLOCK_VERSION_SHA256D = push_bit 11 2"
definition BLOCK_VERSION_GHOSTRIDER :: u32 where "BLOCK_VERSION_GHOSTRIDER = push_bit 11 3"
definition BLOCK_VERSION_YESPOWER :: u32 where "BLOCK_VERSION_YESPOWER = push_bit 11 4"
definition BLOCK_VERSION_LYRA2 :: u32 where "BLOCK_VERSION_LYRA2 = push_bit 11 10"
definition BLOCK_VERSION_SCRYPT :: u32 where "BLOCK_VERSION_SCRYPT = push_bit 11 5"

lemmas BLOCK_VERSION_defs = BLOCK_VERSION_ALGO_def BLOCK_VERSION_BUTKSCRYPT_def
  BLOCK_VERSION_SHA256D_def BLOCK_VERSION_GHOSTRIDER_def BLOCK_VERSION_YESPOWER_def
  BLOCK_VERSION_LYRA2_def BLOCK_VERSION_SCRYPT_def

definition GetAlgoByName :: "string \<Rightarrow> int" where
  "GetAlgoByName strAlgo =
     (if strAlgo = ''butkscrypt'' then ALGO_BUTKSCRYPT
      else if strAlgo = ''sha'' \<or> strAlgo = ''sha256'' \<or> strAlgo = ''sha256d'' then ALGO_SHA256D
      else if strAlgo = ''ghostrider'' then ALGO_GHOSTRIDER
      else if strAlgo = ''lyra'' \<or> strAlgo = ''lyra2re'' \<or> strAlgo = ''lyra2v2'' \<or>
              strAlgo = ''lyra2'' \<or> strAlgo = ''lyra2rev2'' then ALGO_LYRA2
      else if strAlgo = ''yespower'' then ALGO_YESPOWER
      else if strAlgo = ''scrypt'' then ALGO_SCRYPT
      else ALGO_BUTKSCRYPT)"

definition GetAlgoName :: "int \<Rightarrow> string" where
  "GetAlgoName algo =
     (if algo = ALGO_SCRYPT then ''scrypt''
      else if algo = ALGO_BUTKSCRYPT then ''butkscrypt''
      else if algo = ALGO_SHA256D then ''sha256d''
      else if algo = ALGO_LYRA2 then ''lyra2''
      else if algo = ALGO_YESPOWER then ''yespower''
      else if algo = ALGO_GHOSTRIDER then ''ghostrider''
      else ''unknown'')"

definition GetAlgo_version :: "u32 \<Rightarrow> int" where
  "GetAlgo_version nVersion =
     (let v = nVersion AND BLOCK_VERSION_ALGO
      in if v = BLOCK_VERSION_SCRYPT then ALGO_SCRYPT
         else if v = BLOCK_VERSION_BUTKSCRYPT then ALGO_BUTKSCRYPT
         else if v = BLOCK_VERSION_SHA256D then ALGO_SHA256D
         else if v = BLOCK_VERSION_LYRA2 then ALGO_LYRA2
         else if v = BLOCK_VERSION_GHOSTRIDER then ALGO_GHOSTRIDER
         else if v = BLOCK_VERSION_YESPOWER then ALGO_YESPOWER
         else ALGO_BUTKSCRYPT)"

subsection \<open>The header\<close>

record CBlockHeader =
  hdr_nVersion :: u32
  hdr_hashPrevBlock :: uint256
  hdr_hashMerkleRoot :: uint256
  hdr_nTime :: u32
  hdr_nBits :: u32
  hdr_nNonce :: u32
  hdr_hash :: uint256

definition CBlockHeader_GetAlgo :: "CBlockHeader \<Rightarrow> int" where
  "CBlockHeader_GetAlgo h = GetAlgo_version (hdr_nVersion h)"

definition CBlockHeader_GetBlockTime :: "CBlockHeader \<Rightarrow> int" where
  "CBlockHeader_GetBlockTime h = uint (hdr_nTime h)"

text \<open>The 80 bytes written by \<open>SerializationOp\<close>, which are also the memory from
  \<open>BEGIN(nVersion)\<close> to \<open>END(nNonce)\<close> handed to the proof-of-work hashes.\<close>

definition header_bytes :: "CBlockHeader \<Rightarrow> bytes" where
  "header_bytes h = WriteLE32 (hdr_nVersion h) @ hdr_hashPrevBlock h @ hdr_hashMerkleRoot h @
     WriteLE32 (hdr_nTime h) @ WriteLE32 (hdr_nBits h) @ WriteLE32 (hdr_nNonce h)"

record pow_hashes =
  SerializeHash :: "bytes \<Rightarrow> uint256"
  HashGR :: "bytes \<Rightarrow> uint256 \<Rightarrow> uint256"
  yespower_hash :: "bytes \<Rightarrow> uint256"
  LYRA2 :: "bytes \<Rightarrow> bytes \<Rightarrow> nat \<Rightarrow> nat \<Rightarrow> nat \<Rightarrow> uint256"
  scrypt_1024_1_1_256 :: "bytes \<Rightarrow> uint256"

definition CBlockHeader_GetHash :: "pow_hashes \<Rightarrow> CBlockHeader \<Rightarrow> uint256" where
  "CBlockHeader_GetHash H h = SerializeHash H (header_bytes h)"

definition CBlockHeader_GetSerializedHash :: "pow_hashes \<Rightarrow> CBlockHeader \<Rightarrow> uint256" where
  "CBlockHeader_GetSerializedHash H h = SerializeHash H (header_bytes h)"

text \<open>In the \<open>default\<close> branch the scrypt digest goes to a local that is then dropped.\<close>

definition CBlockHeader_GetPOWHash :: "pow_hashes \<Rightarrow> CBlockHeader \<Rightarrow> int \<Rightarrow> uint256" where
  "CBlockHeader_GetPOWHash H h algo =
     (if algo = ALGO_SHA256D then CBlockHeader_GetSerializedHash H h
      else if algo = ALGO_GHOSTRIDER then HashGR H (header_bytes h) (hdr_hashPrevBlock h)
      else if algo = ALGO_YESPOWER then yespower_hash H (header_bytes h)
      else if algo = ALGO_LYRA2 then LYRA2 H (header_bytes h) (header_bytes h) 2 330 256
      else if algo = ALGO_SCRYPT then scrypt_1024_1_1_256 H (header_bytes h)
      else let thash = scrypt_1024_1_1_256 H (header_bytes h)
           in CBlockHeader_GetHash H h)"

text \<open>Reading a header: \<open>None\<close> when the stream ends early.\<close>

definition read_header :: "pow_hashes \<Rightarrow> bytes \<Rightarrow> (CBlockHeader \<times> bytes) option" where
  "read_header H s =
     (if length s < 80 then None
      else let h = \<lparr>hdr_nVersion = ReadLE32 s, hdr_hashPrevBlock = take 32 (drop 4 s),
                    hdr_hashMerkleRoot = take 32 (drop 36 s), hdr_nTime = ReadLE32 (drop 68 s),
                    hdr_nBits = ReadLE32 (drop 72 s), hdr_nNonce = ReadLE32 (drop 76 s),
                    hdr_hash = blob_null 32\<rparr>
           in Some (h\<lparr>hdr_hash := CBlockHeader_GetPOWHash H h ALGO_SCRYPT\<rparr>, drop 80 s))"

definition wf_header :: "CBlockHeader \<Rightarrow> bool" where
  "wf_header h \<longleftrightarrow> length (hdr_hashPrevBlock h) = 32 \<and> length (hdr_hashMerkleRoot h) = 32"

subsection \<open>Lemmas\<close>

lemma GetAlgo_version_range: "0 \<le> GetAlgo_version v" "GetAlgo_version v < NUM_ALGOSV4"
  by (simp_all add: GetAlgo_version_def Let_def ALGO_defs NUM_ALGOS_defs)

lemma GetAlgoByName_GetAlgoName:
  "0 \<le> algo \<Longrightarrow> algo < NUM_ALGOSV4 \<Longrightarrow> GetAlgoByName (GetAlgoName algo) = algo"
proof -
  assume "0 \<le> algo" "algo < NUM_ALGOSV4"
  then consider "algo = 0" | "algo = 1" | "algo = 2" | "algo = 3" | "algo = 4" | "algo = 5"
    by (fastforce simp: NUM_ALGOS_defs)
  then show ?thesis by cases (simp_all add: GetAlgoByName_def GetAlgoName_def ALGO_defs)
qed

lemma length_header_bytes: "wf_header h \<Longrightarrow> length (header_bytes h) = 80"
  by (simp add: header_bytes_def wf_header_def)

text \<open>Reading back the bytes of a header gives its fields; the memory-only hash is recomputed.\<close>

lemma read_header_bytes:
  assumes "wf_header h"
  shows "read_header H (header_bytes h @ rest) =
    Some (h\<lparr>hdr_hash := scrypt_1024_1_1_256 H (header_bytes h)\<rparr>, rest)"
proof -
  have [simp]: "length (hdr_hashPrevBlock h) = 32" "length (hdr_hashMerkleRoot h) = 32"
    using assms by (simp_all add: wf_header_def)
  have len: "length (header_bytes h @ rest) \<ge> 80" using length_header_bytes [OF assms] by simp
  have f: "ReadLE32 (header_bytes h @ rest) = hdr_nVersion h"
    "take 32 (drop 4 (header_bytes h @ rest)) = hdr_hashPrevBlock h"
    "take 32 (drop 36 (header_bytes h @ rest)) = hdr_hashMerkleRoot h"
    "ReadLE32 (drop 68 (header_bytes h @ rest)) = hdr_nTime h"
    "ReadLE32 (drop 72 (header_bytes h @ rest)) = hdr_nBits h"
    "ReadLE32 (drop 76 (header_bytes h @ rest)) = hdr_nNonce h"
    by (simp_all add: header_bytes_def bytes_rw)
  show ?thesis
    using len unfolding read_header_def Let_def f
    by (simp add: CBlockHeader_GetPOWHash_def ALGO_defs header_bytes_def)
qed

end
