(* ===== verification/Block_Index.thy ===== *)
theory Block_Index
  imports Block_Header "HOL-Library.Monad_Syntax" "HOL-Library.Multiset"
begin

text \<open>
  The block tree (\<open>chain.h\<close>, \<open>chain.cpp\<close>): index entries live in a store and refer to each
  other by position, \<open>None\<close> being \<open>nullptr\<close>.  A loop over \<open>pprev\<close> is a partial function, so
  that a walk that does not return, a failed \<open>assert\<close> or a dangling pointer is \<open>None\<close>.
  Proved here: skip heights decrease, \<open>GetAncestor\<close> returns the ancestor that following
  \<open>pprev\<close> reaches, and the skip pointers stay correct when an entry is added.
\<close>

unbundle bit_operations_syntax

subsection \<open>Entries and their store\<close>

type_synonym block_id = nat

record CBlockIndex =
  phashBlock :: "uint256 option"
  pprev :: "block_id option"
  pskip :: "block_id option"
  nHeight :: int
  nFile :: int
  nDataPos :: u32
  nUndoPos :: u32
  nChainWork :: arith_uint256
  nTx :: u32
  nChainTx :: u32
  nStatus :: u32
  nVersion :: u32
  hashMerkleRoot :: uint256
  nTime :: u32
  nBits :: u32
  nNonce :: u32
  nSequenceId :: int
  nTimeMax :: u32

type_synonym block_store = "CBlockIndex list"

definition deref :: "block_store \<Rightarrow> block_id \<Rightarrow> CBlockIndex option" where
  "deref st p = (if p < length st then Some (st ! p) else None)"

definition CBlockIndex_SetNull :: CBlockIndex where
  "CBlockIndex_SetNull =
     \<lparr>phashBlock = None, pprev = None, pskip = None, nHeight = 0, nFile = 0, nDataPos = 0,
      nUndoPos = 0, nChainWork = base_uint_zero 8, nTx = 0, nChainTx = 0, nStatus = 0,
      nVersion = 0, hashMerkleRoot = blob_null 32, nTime = 0, nBits = 0, nNonce = 0,
      nSequenceId = 0, nTimeMax = 0\<rparr>"

definition CBlockIndex_of_header :: "CBlockHeader \<Rightarrow> CBlockIndex" where
  "CBlockIndex_of_header block =
     CBlockIndex_SetNull\<lparr>nVersion := hdr_nVersion block, hashMerkleRoot := hdr_hashMerkleRoot block,
       nTime := hdr_nTime block, nBits := hdr_nBits block, nNonce := hdr_nNonce block\<rparr>"

definition GetBlockHash :: "CBlockIndex \<Rightarrow> uint256" where
  "GetBlockHash b = (case phashBlock b of None \<Rightarrow> blob_null 32 | Some h \<Rightarrow> h)"

definition GetBlockHeader :: "block_store \<Rightarrow> CBlockIndex \<Rightarrow> CBlockHeader option" where
  "GetBlockHeader st b =
     do { hp \<leftarrow> (case pprev b of None \<Rightarrow> Some (blob_null 32)
                 | Some q \<Rightarrow> map_option GetBlockHash (deref st q));
          Some \<lparr>hdr_nVersion = nVersion b, hdr_hashPrevBlock = hp,
                hdr_hashMerkleRoot = hashMerkleRoot b, hdr_nTime = nTime b, hdr_nBits = nBits b,
                hdr_nNonce = nNonce b, hdr_hash = blob_null 32\<rparr> }"

definition GetAlgo :: "CBlockIndex \<Rightarrow> int" where
  "GetAlgo b = GetAlgo_version (nVersion b)"

definition GetBlockPoWHash :: "pow_hashes \<Rightarrow> block_store \<Rightarrow> CBlockIndex \<Rightarrow> uint256 option" where
  "GetBlockPoWHash H st b =
     do { block \<leftarrow> GetBlockHeader st b;
          Some (CBlockHeader_GetPOWHash H block (CBlockHeader_GetAlgo block)) }"

definition GetBlockTime :: "CBlockIndex \<Rightarrow> int" where
  "GetBlockTime b = uint (nTime b)"

definition GetBlockTimeMax :: "CBlockIndex \<Rightarrow> int" where
  "GetBlockTimeMax b = uint (nTimeMax b)"

subsection \<open>Median time past\<close>

definition nMedianTimeSpan :: nat where "nMedianTimeSpan = 11"

fun median_times :: "block_store \<Rightarrow> nat \<Rightarrow> block_id option \<Rightarrow> int list option" where
  "median_times st 0 pindex = Some []"
| "median_times st (Suc i) None = Some []"
| "median_times st (Suc i) (Some p) =
     do { b \<leftarrow> deref st p; ts \<leftarrow> median_times st i (pprev b); Some (GetBlockTime b # ts) }"

definition GetMedianTimePast :: "block_store \<Rightarrow> block_id \<Rightarrow> int option" where
  "GetMedianTimePast st p =
     do { ts \<leftarrow> median_times st nMedianTimeSpan (Some p);
          Some (sort (rev ts) ! (length ts div 2)) }"

subsection \<open>Validity status\<close>

definition BLOCK_VALID_TREE :: u32 where "BLOCK_VALID_TREE = 2"
definition BLOCK_VALID_TRANSACTIONS :: u32 where "BLOCK_VALID_TRANSACTIONS = 3"
definition BLOCK_VALID_SCRIPTS :: u32 where "BLOCK_VALID_SCRIPTS = 5"
definition BLOCK_VALID_MASK :: u32 where "BLOCK_VALID_MASK = 1 OR 2 OR 3 OR 4 OR 5"
definition BLOCK_HAVE_DATA :: u32 where "BLOCK_HAVE_DATA = 8"
definition BLOCK_HAVE_UNDO :: u32 where "BLOCK_HAVE_UNDO = 16"
definition BLOCK_FAILED_VALID :: u32 where "BLOCK_FAILED_VALID = 32"
definition BLOCK_FAILED_CHILD :: u32 where "BLOCK_FAILED_CHILD = 64"
definition BLOCK_FAILED_MASK :: u32 where
  "BLOCK_FAILED_MASK = BLOCK_FAILED_VALID OR BLOCK_FAILED_CHILD"
definition BLOCK_CONFLICT_CHAINLOCK :: u32 where "BLOCK_CONFLICT_CHAINLOCK = 128"

text \<open>\<open>None\<close> is the failed assertion that only validity flags are passed.\<close>

definition IsValid :: "CBlockIndex \<Rightarrow> u32 \<Rightarrow> bool option" where
  "IsValid b nUpTo =
     (if nUpTo AND NOT BLOCK_VALID_MASK \<noteq> 0 then None
      else if nStatus b AND BLOCK_FAILED_MASK \<noteq> 0 then Some False
      else Some (nStatus b AND BLOCK_VALID_MASK \<ge> nUpTo))"

definition RaiseValidity :: "CBlockIndex \<Rightarrow> u32 \<Rightarrow> (CBlockIndex \<times> bool) option" where
  "RaiseValidity b nUpTo =
     (if nUpTo AND NOT BLOCK_VALID_MASK \<noteq> 0 then None
      else if nStatus b AND BLOCK_FAILED_MASK \<noteq> 0 then Some (b, False)
      else if nStatus b AND BLOCK_VALID_MASK < nUpTo
      then Some (b\<lparr>nStatus := (nStatus b AND NOT BLOCK_VALID_MASK) OR nUpTo\<rparr>, True)
      else Some (b, False))"

record CDiskBlockPos =
  pos_nFile :: int
  pos_nPos :: u32

subsection \<open>Skip list\<close>

definition InvertLowestOne :: "int \<Rightarrow> int" where
  "InvertLowestOne n = n AND (n - 1)"

definition GetSkipHeight :: "int \<Rightarrow> int" where
  "GetSkipHeight height =
     (if height < 2 then 0
      else if height AND 1 \<noteq> 0 then InvertLowestOne (InvertLowestOne (height - 1)) + 1
      else InvertLowestOne height)"

partial_function (option) ancestor_walk ::
  "block_store \<Rightarrow> int \<Rightarrow> block_id \<Rightarrow> int \<Rightarrow> block_id option" where
  "ancestor_walk st height pindexWalk heightWalk =
     (if \<not> heightWalk > height then Some pindexWalk
      else do {
        b \<leftarrow> deref st pindexWalk;
        let heightSkip = GetSkipHeight heightWalk;
            heightSkipPrev = GetSkipHeight (heightWalk - 1)
        in if pskip b \<noteq> None \<and>
              (heightSkip = height \<or>
               (heightSkip > height \<and> \<not> (heightSkipPrev < heightSkip - 2 \<and> heightSkipPrev \<ge> height)))
           then do { q \<leftarrow> pskip b; ancestor_walk st height q heightSkip }
           else do { q \<leftarrow> pprev b; ancestor_walk st height q (heightWalk - 1) } })"

definition GetAncestor :: "block_store \<Rightarrow> block_id \<Rightarrow> int \<Rightarrow> block_id option option" where
  "GetAncestor st p height =
     do { b \<leftarrow> deref st p;
          if height > nHeight b \<or> height < 0 then Some None
          else map_option Some (ancestor_walk st height p (nHeight b)) }"

definition BuildSkip :: "block_store \<Rightarrow> block_id \<Rightarrow> block_store option" where
  "BuildSkip st p =
     do { b \<leftarrow> deref st p;
          case pprev b of
            None \<Rightarrow> Some st
          | Some q \<Rightarrow> do { s \<leftarrow> GetAncestor st q (GetSkipHeight (nHeight b));
                          Some (st[p := b\<lparr>pskip := s\<rparr>]) } }"

text \<open>Reference: \<open>n\<close> steps along \<open>pprev\<close>.\<close>

fun pprev_n :: "block_store \<Rightarrow> nat \<Rightarrow> block_id \<Rightarrow> block_id option" where
  "pprev_n st 0 p = Some p"
| "pprev_n st (Suc n) p = do { b \<leftarrow> deref st p; q \<leftarrow> pprev b; pprev_n st n q }"

definition ancestor_at :: "block_store \<Rightarrow> block_id \<Rightarrow> int \<Rightarrow> block_id option" where
  "ancestor_at st p h = do { b \<leftarrow> deref st p; pprev_n st (nat (nHeight b - h)) p }"

definition wf_link :: "block_store \<Rightarrow> CBlockIndex \<Rightarrow> bool" where
  "wf_link st b \<longleftrightarrow> 0 \<le> nHeight b \<and>
     (case pprev b of None \<Rightarrow> nHeight b = 0
      | Some q \<Rightarrow> q < length st \<and> nHeight (st ! q) = nHeight b - 1)"

definition wf_skip :: "block_store \<Rightarrow> block_id \<Rightarrow> bool" where
  "wf_skip st p \<longleftrightarrow>
     (case pskip (st ! p) of None \<Rightarrow> True
      | Some q \<Rightarrow> pprev (st ! p) \<noteq> None \<and> ancestor_at st p (GetSkipHeight (nHeight (st ! p))) = Some q)"

definition wf_links :: "block_store \<Rightarrow> bool" where
  "wf_links st \<longleftrightarrow> list_all (wf_link st) st"

definition wf_store :: "block_store \<Rightarrow> bool" where
  "wf_store st \<longleftrightarrow> wf_links st \<and> list_all (wf_skip st) [0..<length st]"

subsection \<open>Skip heights\<close>

lemma InvertLowestOne_bounds:
  assumes "0 \<le> n"
  shows "0 \<le> InvertLowestOne n" and "0 < n \<Longrightarrow> InvertLowestOne n < n" and "InvertLowestOne n \<le> n"
proof -
  show "0 \<le> InvertLowestOne n" using assms by (simp add: InvertLowestOne_def)
  show less: "InvertLowestOne n < n" if "0 < n"
    using that AND_upper2 [of "n - 1" n] by (simp add: InvertLowestOne_def)
  show "InvertLowestOne n \<le> n"
    using assms less by (cases "n = 0") (simp_all add: InvertLowestOne_def)
qed

lemma GetSkipHeight_bounds:
  assumes "0 < h"
  shows "0 \<le> GetSkipHeight h" and "GetSkipHeight h < h"
proof -
  let ?i = "InvertLowestOne (h - 1)"
  have i: "0 \<le> ?i" "2 \<le> h \<Longrightarrow> ?i < h - 1" using assms InvertLowestOne_bounds [of "h - 1"] by simp_all
  show "0 \<le> GetSkipHeight h"
    using assms i(1) InvertLowestOne_bounds(1) [of ?i] InvertLowestOne_bounds(1) [of h]
    by (simp add: GetSkipHeight_def)
  show "GetSkipHeight h < h"
    using assms i InvertLowestOne_bounds(3) [of ?i] InvertLowestOne_bounds(2) [of h]
    by (auto simp: GetSkipHeight_def)
qed

subsection \<open>Walking back\<close>

lemma deref_Some_iff: "deref st p = Some b \<longleftrightarrow> p < length st \<and> st ! p = b"
  by (auto simp: deref_def)

lemma deref_nth [simp]: "p < length st \<Longrightarrow> deref st p = Some (st ! p)"
  by (simp add: deref_def)

lemma wf_linkD:
  assumes "wf_links st" and "p < length st"
  shows "0 \<le> nHeight (st ! p)"
    and "pprev (st ! p) = None \<Longrightarrow> nHeight (st ! p) = 0"
    and "pprev (st ! p) = Some q \<Longrightarrow> q < length st \<and> nHeight (st ! q) = nHeight (st ! p) - 1"
  using assms by (auto simp: wf_links_def list_all_length wf_link_def split: option.splits)

lemma pprev_n_add: "pprev_n st (m + n) p = pprev_n st m p \<bind> pprev_n st n"
proof (induction m arbitrary: p)
  case (Suc m)
  then show ?case by (cases "deref st p") (auto split: bind_splits)
qed simp

lemma pprev_n_height:
  assumes "wf_links st" and "p < length st" and "int n \<le> nHeight (st ! p)"
  shows "\<exists>q < length st. pprev_n st n p = Some q \<and> nHeight (st ! q) = nHeight (st ! p) - int n"
  using assms(2,3)
proof (induction n arbitrary: p)
  case (Suc n)
  then obtain r where r: "pprev (st ! p) = Some r"
    using wf_linkD(2) [OF assms(1) Suc.prems(1)] by (cases "pprev (st ! p)") auto
  with wf_linkD(3) [OF assms(1) Suc.prems(1)] have "r < length st" "nHeight (st ! r) = nHeight (st ! p) - 1"
    by auto
  with Suc.IH [of r] Suc.prems r show ?case by auto
qed simp

lemma ancestor_at_ex:
  assumes "wf_links st" and "p < length st" and "0 \<le> h" and "h \<le> nHeight (st ! p)"
  obtains q where "ancestor_at st p h = Some q" and "q < length st" and "nHeight (st ! q) = h"
  using pprev_n_height [of st p "nat (nHeight (st ! p) - h)"] assms
  by (auto simp: ancestor_at_def)

text \<open>Ancestors compose: an ancestor of an ancestor is an ancestor.\<close>

lemma ancestor_at_trans:
  assumes wf: "wf_links st" and p: "p < length st"
    and q: "ancestor_at st p k = Some q" and k: "0 \<le> k" "k \<le> nHeight (st ! p)"
    and h: "0 \<le> h" "h \<le> k"
  shows "ancestor_at st q h = ancestor_at st p h"
proof -
  have q': "q < length st" "nHeight (st ! q) = k"
    using ancestor_at_ex [OF wf p k] q by auto
  have "nat (nHeight (st ! p) - h) = nat (nHeight (st ! p) - k) + nat (k - h)"
    using k h by simp
  then have "ancestor_at st p h = pprev_n st (nat (nHeight (st ! p) - k)) p \<bind> pprev_n st (nat (k - h))"
    using p by (simp add: ancestor_at_def pprev_n_add)
  moreover have "pprev_n st (nat (nHeight (st ! p) - k)) p = Some q"
    using q p by (simp add: ancestor_at_def)
  ultimately show ?thesis using q' by (simp add: ancestor_at_def)
qed

lemma ancestor_at_self: "p < length st \<Longrightarrow> ancestor_at st p (nHeight (st ! p)) = Some p"
  by (simp add: ancestor_at_def)

lemma ancestor_at_prev:
  assumes "wf_links st" and "p < length st" and "pprev (st ! p) = Some q"
  shows "ancestor_at st p (nHeight (st ! p) - 1) = Some q"
  using assms wf_linkD(3) [OF assms(1,2)] by (simp add: ancestor_at_def)

lemma wf_store_links: "wf_store st \<Longrightarrow> wf_links st"
  by (simp add: wf_store_def)

lemma wf_storeD:
  assumes "wf_store st" and "p < length st" and "pskip (st ! p) = Some q"
  shows "ancestor_at st p (GetSkipHeight (nHeight (st ! p))) = Some q" and "0 < nHeight (st ! p)"
proof -
  have w: "wf_skip st p" using assms(1,2) by (simp add: wf_store_def list_all_iff)
  then show "ancestor_at st p (GetSkipHeight (nHeight (st ! p))) = Some q"
    using assms(3) by (simp add: wf_skip_def)
  from w assms(3) obtain r where "pprev (st ! p) = Some r" by (auto simp: wf_skip_def)
  then have "r < length st" "nHeight (st ! r) = nHeight (st ! p) - 1"
    using wf_linkD(3) [OF wf_store_links [OF assms(1)] assms(2)] by auto
  then show "0 < nHeight (st ! p)"
    using wf_linkD(1) [OF wf_store_links [OF assms(1)], of r] by simp
qed

lemma ancestor_walk_correct:
  assumes wf: "wf_store st" and "p < length st" and "0 \<le> h" and "h \<le> nHeight (st ! p)"
  shows "ancestor_walk st h p (nHeight (st ! p)) = ancestor_at st p h"
  using assms(2,4)
proof (induction "nat (nHeight (st ! p) - h)" arbitrary: p rule: less_induct)
  case less
  note wl = wf_store_links [OF wf]
  have step: "ancestor_walk st h q (nHeight (st ! q)) = ancestor_at st p h"
    if "ancestor_at st p k = Some q" "0 \<le> k" "h \<le> k" "k < nHeight (st ! p)" for q k
  proof -
    have q: "q < length st" "nHeight (st ! q) = k"
      using ancestor_at_ex [OF wl less.prems(1), of k] that by auto
    then have "ancestor_walk st h q (nHeight (st ! q)) = ancestor_at st q h"
      using less.hyps [of q] that by simp
    then show ?thesis using ancestor_at_trans [OF wl less.prems(1), of k q h] that assms(3) by simp
  qed
  show ?case
  proof (cases "nHeight (st ! p) > h")
    case False
    then have "nHeight (st ! p) = h" using less.prems by simp
    then show ?thesis
      using less.prems by (simp add: ancestor_walk.simps [of st h p] ancestor_at_def)
  next
    case True
    then obtain r where r: "pprev (st ! p) = Some r"
      using wf_linkD(2) [OF wl less.prems(1)] assms(3) by (cases "pprev (st ! p)") auto
    let ?s = "GetSkipHeight (nHeight (st ! p))"
    have prev: "ancestor_walk st h r (nHeight (st ! p) - 1) = ancestor_at st p h"
      using step [OF ancestor_at_prev [OF wl less.prems(1) r]] True assms(3)
        wf_linkD(3) [OF wl less.prems(1) r] by simp
    have skip: "ancestor_walk st h q ?s = ancestor_at st p h"
      if "pskip (st ! p) = Some q" "h \<le> ?s" for q
    proof -
      note a = wf_storeD [OF wf less.prems(1) that(1)]
      note b = GetSkipHeight_bounds [OF a(2)]
      have "nHeight (st ! q) = ?s" using ancestor_at_ex [OF wl less.prems(1), of ?s] a b by auto
      then show ?thesis using step [OF a(1) b(1) that(2) b(2)] by simp
    qed
    define c where "c \<longleftrightarrow> pskip (st ! p) \<noteq> None \<and> (?s = h \<or> (?s > h \<and>
      \<not> (GetSkipHeight (nHeight (st ! p) - 1) < ?s - 2 \<and> GetSkipHeight (nHeight (st ! p) - 1) \<ge> h)))"
    have eq: "ancestor_walk st h p (nHeight (st ! p)) =
        (if c then pskip (st ! p) \<bind> (\<lambda>q. ancestor_walk st h q ?s)
         else ancestor_walk st h r (nHeight (st ! p) - 1))"
      using True less.prems(1) r by (subst ancestor_walk.simps) (auto simp: Let_def c_def)
    show ?thesis
    proof (cases c)
      case True
      then obtain q where "pskip (st ! p) = Some q" "h \<le> ?s" by (auto simp: c_def)
      then show ?thesis using eq True skip by simp
    qed (use eq prev in simp)
  qed
qed

lemma GetAncestor_correct:
  assumes "wf_store st" and "p < length st"
  shows "GetAncestor st p h =
    Some (if 0 \<le> h \<and> h \<le> nHeight (st ! p) then ancestor_at st p h else None)"
proof (cases "0 \<le> h \<and> h \<le> nHeight (st ! p)")
  case True
  then obtain q where "ancestor_at st p h = Some q"
    using ancestor_at_ex [OF wf_store_links [OF assms(1)] assms(2), of h] by blast
  then show ?thesis
    using True assms ancestor_walk_correct [OF assms, of h] by (simp add: GetAncestor_def)
qed (use assms in \<open>auto simp: GetAncestor_def\<close>)

subsection \<open>Adding entries\<close>

lemma pprev_n_cong:
  "map pprev st = map pprev st' \<Longrightarrow> pprev_n st n p = pprev_n st' n p"
proof (induction n arbitrary: p)
  case (Suc n)
  then have "length st = length st'" "p < length st \<Longrightarrow> pprev (st ! p) = pprev (st' ! p)"
    by (metis length_map, metis length_map nth_map)
  moreover have "pprev_n st n = pprev_n st' n" using Suc by (intro ext) simp
  ultimately show ?case by (simp add: deref_def)
qed simp

text \<open>The invariant speaks about the links and heights only.\<close>

definition same_links :: "block_store \<Rightarrow> block_store \<Rightarrow> bool" where
  "same_links st st' \<longleftrightarrow> map (\<lambda>b. (pprev b, pskip b, nHeight b)) st =
     map (\<lambda>b. (pprev b, pskip b, nHeight b)) st'"

lemma same_linksD:
  assumes "same_links st st'"
  shows "length st = length st'" and "map pprev st = map pprev st'"
    and "p < length st \<Longrightarrow> pprev (st ! p) = pprev (st' ! p) \<and> pskip (st ! p) = pskip (st' ! p) \<and>
      nHeight (st ! p) = nHeight (st' ! p)"
proof -
  show len: "length st = length st'" 
    using assms unfolding same_links_def by (rule map_eq_imp_length_eq)
  show f: "pprev (st ! p) = pprev (st' ! p) \<and> pskip (st ! p) = pskip (st' ! p) \<and>
      nHeight (st ! p) = nHeight (st' ! p)" if "p < length st" for p
  proof -
    have "map (\<lambda>b. (pprev b, pskip b, nHeight b)) st ! p = map (\<lambda>b. (pprev b, pskip b, nHeight b)) st' ! p"
      using assms by (simp only: same_links_def)
    then show ?thesis using that len by simp
  qed
  show "map pprev st = map pprev st'" using f len by (intro nth_equalityI) simp_all
qed

lemma wf_store_same_links:
  assumes "same_links st st'" and "wf_store st"
  shows "wf_store st'"
proof -
  note d = same_linksD [OF assms(1)]
  have anc: "ancestor_at st' p h = ancestor_at st p h" for p h
    using pprev_n_cong [OF d(2)] d(1) d(3) [of p] by (simp add: ancestor_at_def deref_def)
  have "wf_link st' (st' ! p)" if "p < length st'" for p
    using assms(2) that d by (auto simp: wf_store_def wf_links_def list_all_length wf_link_def split: option.splits)
  moreover have "wf_skip st' p" if "p < length st'" for p
    using assms(2) that d by (auto simp: wf_store_def list_all_iff wf_skip_def anc split: option.splits)
  ultimately show ?thesis by (simp add: wf_store_def wf_links_def list_all_length list_all_iff)
qed

lemma pprev_n_append:
  assumes "wf_links st" and "p < length st"
  shows "pprev_n (st @ bs) n p = pprev_n st n p"
  using assms(2)
proof (induction n arbitrary: p)
  case (Suc n)
  then show ?case
    using wf_linkD(3) [OF assms(1) Suc.prems] by (cases "pprev (st ! p)") (simp_all add: nth_append)
qed simp

lemma wf_store_append:
  assumes "wf_store st" and "wf_link st b" and "pskip b = None"
  shows "wf_store (st @ [b])"
proof -
  note wl = wf_store_links [OF assms(1)]
  have "wf_link (st @ [b]) c" if "wf_link st c" for c
    using that by (auto simp: wf_link_def nth_append split: option.splits)
  then have "wf_links (st @ [b])" using wl assms(2) by (auto simp: wf_links_def list_all_iff)
  moreover have "wf_skip (st @ [b]) p" if "p < length st" for p
  proof -
    have "ancestor_at (st @ [b]) p h = ancestor_at st p h" for h
      using that wl by (simp add: ancestor_at_def nth_append pprev_n_append)
    moreover have "wf_skip st p" using assms(1) that by (simp add: wf_store_def list_all_iff)
    ultimately show ?thesis
      using that by (cases "pskip (st ! p)") (simp_all add: wf_skip_def nth_append)
  qed
  moreover have "wf_skip (st @ [b]) (length st)" by (simp add: wf_skip_def assms(3))
  ultimately show ?thesis by (auto simp: wf_store_def list_all_iff less_Suc_eq)
qed

lemma BuildSkip_correct:
  assumes wf: "wf_store st" and p: "p < length st"
  obtains s where "BuildSkip st p = Some (st[p := (st ! p)\<lparr>pskip := s\<rparr>])"
    and "wf_store (st[p := (st ! p)\<lparr>pskip := s\<rparr>])"
    and "pprev (st ! p) \<noteq> None \<Longrightarrow> s = ancestor_at st p (GetSkipHeight (nHeight (st ! p)))"
    and "pprev (st ! p) = None \<Longrightarrow> s = pskip (st ! p)"
proof (cases "pprev (st ! p)")
  case None
  then have "BuildSkip st p = Some (st[p := (st ! p)\<lparr>pskip := pskip (st ! p)\<rparr>])"
    using p by (simp add: BuildSkip_def)
  then show ?thesis using wf None by (intro that) simp_all
next
  case (Some q)
  note wl = wf_store_links [OF wf]
  let ?k = "GetSkipHeight (nHeight (st ! p))"
  have q: "q < length st" "nHeight (st ! q) = nHeight (st ! p) - 1"
    using wf_linkD(3) [OF wl p Some] by auto
  then have h: "0 < nHeight (st ! p)" using wf_linkD(1) [OF wl, of q] by simp
  note b = GetSkipHeight_bounds [OF h]
  have anc: "ancestor_at st q ?k = ancestor_at st p ?k"
    using ancestor_at_trans [OF wl p ancestor_at_prev [OF wl p Some], of ?k] b h by simp
  define s where "s = ancestor_at st p ?k"
  define T where "T = st[p := (st ! p)\<lparr>pskip := s\<rparr>]"
  have "GetAncestor st q ?k = Some s"
    using GetAncestor_correct [OF wf q(1), of ?k] b q by (simp add: anc s_def)
  then have eq: "BuildSkip st p = Some T" using p Some by (simp add: BuildSkip_def T_def)
  have len: "length T = length st" by (simp add: T_def)
  have nth: "T ! i = (if i = p then (st ! p)\<lparr>pskip := s\<rparr> else st ! i)" if "i < length st" for i
    using that p by (simp add: T_def nth_list_update)
  have "map pprev st = map pprev T"
    using p by (intro nth_equalityI) (auto simp: len nth)
  then have anc': "ancestor_at T i k = ancestor_at st i k" for i k
    using pprev_n_cong [of st T] by (simp add: ancestor_at_def deref_def nth len)
  have "wf_link T (T ! i)" if "i < length st" for i
  proof -
    have "wf_link st (st ! i)" using wl that by (simp add: wf_links_def list_all_length)
    then show ?thesis using that by (cases "pprev (st ! i)") (auto simp: wf_link_def nth len)
  qed
  moreover have "wf_skip T i" if "i < length st" for i
  proof -
    have "wf_skip st i" using wf that by (simp add: wf_store_def list_all_iff)
    then show ?thesis
      using that Some s_def by (cases "i = p") (auto simp: wf_skip_def anc' nth split: option.splits)
  qed
  ultimately have "wf_store T" by (simp add: wf_store_def wf_links_def list_all_length list_all_iff len)
  with eq show ?thesis unfolding T_def using Some s_def by (intro that) simp_all
qed

subsection \<open>Median time past\<close>

text \<open>Entries that \<open>n\<close> steps of a walk can reach, newest first.\<close>

fun recent :: "block_store \<Rightarrow> nat \<Rightarrow> block_id option \<Rightarrow> block_id list" where
  "recent st 0 p = []"
| "recent st (Suc n) None = []"
| "recent st (Suc n) (Some p) = p # recent st n (pprev (st ! p))"

definition valid_ptr :: "block_store \<Rightarrow> block_id option \<Rightarrow> bool" where
  "valid_ptr st p \<longleftrightarrow> (case p of None \<Rightarrow> True | Some q \<Rightarrow> q < length st)"

lemma valid_ptr_simps [simp]: "valid_ptr st None" "valid_ptr st (Some q) \<longleftrightarrow> q < length st"
  by (simp_all add: valid_ptr_def)

lemma valid_ptr_pprev [simp]:
  "wf_links st \<Longrightarrow> q < length st \<Longrightarrow> valid_ptr st (pprev (st ! q))"
  using wf_linkD(3) [of st q] by (cases "pprev (st ! q)") auto

lemma median_times_recent:
  assumes "wf_links st" and "valid_ptr st p"
  shows "median_times st n p = Some (map (\<lambda>q. GetBlockTime (st ! q)) (recent st n p))"
  using assms(2)
proof (induction n arbitrary: p)
  case (Suc n)
  then show ?case using assms(1) by (cases p) simp_all
qed simp

lemma recent_nonempty: "0 < n \<Longrightarrow> recent st n (Some p) \<noteq> []"
  by (cases n) simp_all

text \<open>The median: sorted, the middle one of the times of up to eleven recent entries.\<close>

lemma GetMedianTimePast_recent:
  assumes "wf_links st" and "p < length st"
  shows "GetMedianTimePast st p =
    (let ts = map (\<lambda>q. GetBlockTime (st ! q)) (recent st 11 (Some p))
     in Some (sort ts ! (length ts div 2)))"
proof -
  have "sort (rev ts) = sort ts" for ts :: "int list"
    by (rule properties_for_sort) simp_all
  then show ?thesis
    using assms by (simp add: GetMedianTimePast_def nMedianTimeSpan_def median_times_recent Let_def)
qed

end
