(* ===== verification/Consensus_Params.thy ===== *)
theory Consensus_Params
  imports But_Prelude
begin

text \<open>
  The consensus parameters (\<open>consensus/params.h\<close>) that the modelled code reads, and the
  values the main network gives them (\<open>chainparams.cpp\<close>).  Every field is an \<open>int\<close> or
  \<open>int64_t\<close> of the source unless its type says otherwise.
\<close>

record BIP9Deployment =
  dep_bit :: nat
  dep_nStartTime :: int
  dep_nTimeout :: int
  dep_nWindowSize :: int
  dep_nThreshold :: int

record Params =
  nSmartnodePaymentsStartBlock :: int
  nSuperblockStartBlock :: int
  nSuperblockCycle :: int
  DIP0001Enabled :: bool
  DIP0003Enabled :: bool
  BIP34Enabled :: bool
  nRuleChangeActivationThreshold :: u32
  nMinerConfirmationWindow :: u32
  vDeployments :: "BIP9Deployment list"
  powLimit :: uint256
  fPowAllowMinDifficultyBlocks :: bool
  fPowNoRetargeting :: bool
  nPowTargetSpacing :: int
  nAveragingInterval :: int
  nAveragingTargetTimespan :: int
  nAveragingTargetTimespanV2 :: int
  nMinActualTimespan :: int
  nMaxActualTimespan :: int
  nMinActualTimespanV2 :: int
  nMaxActualTimespanV2 :: int
  nMinActualTimespanV3 :: int
  nMaxActualTimespanV3 :: int
  nLocalTargetAdjustment :: int
  v2DiffChangeHeight :: int
  v3DiffChangeHeight :: int
  AlgoChangeHeight :: int
  nSwitchHeight :: int
  nMaxCash :: int

text \<open>
  \<open>CMainParams\<close>: the derived timespans are computed by the constructor from the averaging
  interval (10), the per-algorithm spacings (\<open>90 * 3\<close> and \<open>90 * 4\<close> seconds) and the
  percentages 16/8 and 12/10.
\<close>

definition mainnet :: Params where
  "mainnet = (let
     interval = 10; spacing = 90 * 3; spacingV2 = 90 * 4;
     target = interval * spacing; targetV2 = interval * spacingV2
   in \<lparr>nSmartnodePaymentsStartBlock = 5761, nSuperblockStartBlock = INT_MAX, nSuperblockCycle = 16616,
     DIP0001Enabled = True, DIP0003Enabled = True, BIP34Enabled = True,
     nRuleChangeActivationThreshold = 1916, nMinerConfirmationWindow = 2016,
     vDeployments = [\<lparr>dep_bit = 28, dep_nStartTime = 1199145601, dep_nTimeout = 1230767999,
       dep_nWindowSize = 0, dep_nThreshold = 0\<rparr>],
     powLimit = replicate 31 0xff @ [0x00],
     fPowAllowMinDifficultyBlocks = False, fPowNoRetargeting = False, nPowTargetSpacing = 60,
     nAveragingInterval = interval,
     nAveragingTargetTimespan = target, nAveragingTargetTimespanV2 = targetV2,
     nMinActualTimespan = target * (100 - 8) sdiv 100,
     nMaxActualTimespan = target * (100 + 16) sdiv 100,
     nMinActualTimespanV2 = target * (100 - 10) sdiv 100,
     nMaxActualTimespanV2 = target * (100 + 12) sdiv 100,
     nMinActualTimespanV3 = targetV2 * (100 - 10) sdiv 100,
     nMaxActualTimespanV3 = targetV2 * (100 + 12) sdiv 100,
     nLocalTargetAdjustment = 4,
     v2DiffChangeHeight = 5, v3DiffChangeHeight = 10, AlgoChangeHeight = 28,
     nSwitchHeight = 150000, nMaxCash = 400000\<rparr>)"

end
