(* ===== verification/Arith_Uint256_Props.thy ===== *)
theory Arith_Uint256_Props
  imports Arith_Uint256
begin

text \<open>
  The limb loops of \<open>Arith_Uint256\<close> implement arithmetic on naturals. \<open>digits_val\<close>
  is the abstraction function; for each operation there is an equation
  \<open>digits_val (op a b) = ...\<close> in the collection \<open>limb_val\<close>.
\<close>

unbundle bit_operations_syntax

subsection \<open>Arithmetic of digits\<close>

abbreviation W :: nat where "W \<equiv> 4294967296"

lemma W_power: "W ^ k = 2 ^ (32 * k)"
  by (simp add: power_mult)

lemma digit_step:
  fixes n M B K :: nat
  assumes "0 < B"
  shows "(n + B * M) mod (B * K) = n mod B + B * ((n div B + M) mod K)"
  using assms by (simp add: mod_mult2_eq add.commute)

lemma limb_step: "n mod W + W * ((n div W + M) mod W ^ k) = (n + W * M) mod W ^ Suc k"
  using digit_step [of W n M "W ^ k"] by simp

lemma limbs_less: "digits_val (a :: u32 list) < W ^ length a"
  using digits_val_less [of a] by (simp add: W_power)

lemma low_digits_mod:
  fixes t m K L :: nat
  assumes "t < K"
  shows "(t + K * m) mod (K * L) = t + K * (m mod L)"
  using digit_step [of K t m L] assms by simp

lemma lex_less:
  fixes a b x y K :: nat
  assumes "a < K" and "b < K"
  shows "a + K * x < b + K * y \<longleftrightarrow> x < y \<or> (x = y \<and> a < b)"
proof -
  consider "x < y" | "x = y" | "y < x" by linarith
  then show ?thesis
  proof cases
    case 1
    then have "K * Suc x \<le> K * y" by (intro mult_le_mono2) simp
    with assms 1 show ?thesis by simp
  next
    case 2
    then show ?thesis by simp
  next
    case 3
    then have "K * Suc y \<le> K * x" by (intro mult_le_mono2) simp
    with assms 3 show ?thesis by simp
  qed
qed

lemma unat_u32_less: "unat (x :: u32) < W"
  using unsigned_less [of x, where ?'a = nat] by simp

lemma low32: "unat (ucast (n AND 0xffffffff) :: u32) = unat (n :: u64) mod W"
proof -
  have "(0xffffffff :: u64) = mask 32" by (simp add: mask_eq_exp_minus_1)
  then have "n AND 0xffffffff = take_bit 32 n" by (simp only: take_bit_eq_mask)
  then have "unat (ucast (n AND 0xffffffff) :: u32) = take_bit 32 (take_bit 32 (unat n))"
    by (simp only: unsigned_ucast_eq unsigned_take_bit_eq) simp
  then show ?thesis by (simp add: take_bit_eq_mod)
qed

lemma high32: "unat (drop_bit 32 (n :: u64)) = unat n div W"
  by (simp add: unat_drop_bit_div)

lemma unat_ucast_u32 [simp]: "unat (ucast (x :: u32) :: u64) = unat x"
  by (simp add: unsigned_ucast_eq take_bit_nat_eq_self_iff)
     (rule less_trans [OF unat_u32_less], simp)

lemma unat_u64_id:
  "m < 18446744073709551616 \<Longrightarrow> unat (word_of_nat m :: u64) = m"
  by (simp add: unat_of_nat take_bit_nat_eq_self)

subsection \<open>Addition and subtraction\<close>

lemma length_add_loop [simp]: "length (add_loop c xs ys) = min (length xs) (length ys)"
  by (induction c xs ys rule: add_loop.induct) (simp_all add: Let_def)

lemma unat_add3:
  assumes "unat (c :: u64) < W"
  shows "unat (c + ucast (x :: u32) + ucast (y :: u32)) = unat c + unat x + unat y"
proof -
  have "c + ucast x + ucast y = word_of_nat (unat c + unat x + unat y)" by simp
  moreover have "unat c + unat x + unat y < 18446744073709551616"
    using assms unat_u32_less [of x] unat_u32_less [of y] by linarith
  ultimately show ?thesis by (simp only: unat_u64_id)
qed

lemma add_loop_val:
  assumes "length xs = length ys" and "unat c \<le> 1"
  shows "digits_val (add_loop c xs ys) =
    (unat c + digits_val xs + digits_val ys) mod W ^ length xs"
  using assms
proof (induction xs ys arbitrary: c rule: list_induct2)
  case Nil
  then show ?case by simp
next
  case (Cons x xs y ys)
  let ?n = "c + ucast x + ucast y"
  have n: "unat ?n = unat c + unat x + unat y"
    by (rule unat_add3) (use Cons.prems in simp)
  have "unat (drop_bit 32 ?n) \<le> 1"
    unfolding high32 n using Cons.prems unat_u32_less [of x] unat_u32_less [of y] by simp
  note IH = Cons.IH [OF this]
  have e: "unat c + digits_val (x # xs) + digits_val (y # ys) =
      unat ?n + W * (digits_val xs + digits_val ys)"
    unfolding n by (simp add: distrib_left)
  have "digits_val (add_loop c (x # xs) (y # ys)) = unat ?n mod W +
      W * ((unat ?n div W + (digits_val xs + digits_val ys)) mod W ^ length xs)"
    by (simp add: Let_def IH low32 high32 add.assoc [symmetric])
  then show ?case unfolding e limb_step by simp
qed

lemma length_base_uint_add [simp]: "length (base_uint_add a b) = min (length a) (length b)"
  by (simp add: base_uint_add_def)

lemma base_uint_add_val [limb_val]:
  "length a = length b \<Longrightarrow>
   digits_val (base_uint_add a b) = (digits_val a + digits_val b) mod W ^ length a"
  by (simp add: base_uint_add_def add_loop_val)

lemma length_base_uint_inc [simp]: "length (base_uint_inc a) = length a"
  by (induction a) simp_all

lemma length_base_uint_compl [simp]: "length (base_uint_compl a) = length a"
  by (simp add: base_uint_compl_def)

lemma unat_inc_u32: "(x :: u32) + 1 \<noteq> 0 \<Longrightarrow> unat (x + 1) = unat x + 1"
  by (metis Suc_eq_plus1 unatSuc add.commute)

lemma unat_minus_1_u32: "unat (- 1 :: u32) = (W - 1)"
  by (simp add: unsigned_minus_1_eq_mask mask_eq_exp_minus_1)

lemma base_uint_inc_val [limb_val]:
  "digits_val (base_uint_inc a) = (digits_val a + 1) mod W ^ length a"
proof (induction a)
  case Nil
  then show ?case by simp
next
  case (Cons x xs)
  show ?case
  proof (cases "x + 1 = 0")
    case True
    then have "x = - 1" by (simp add: eq_neg_iff_add_eq_0)
    then have x: "unat x = (W - 1)" by (simp add: unat_minus_1_u32)
    have "digits_val (base_uint_inc (x # xs)) =
        W * ((digits_val xs + 1) mod W ^ length xs)"
      using True Cons by simp
    also have "\<dots> = (0 + W * (digits_val xs + 1)) mod W ^ Suc (length xs)"
      by (subst limb_step [symmetric]) simp
    also have "0 + W * (digits_val xs + 1) = digits_val (x # xs) + 1"
      using x by simp
    finally show ?thesis by simp
  next
    case False
    then have eq: "digits_val (base_uint_inc (x # xs)) = digits_val (x # xs) + 1"
      by (simp add: unat_inc_u32)
    have "digits_val (base_uint_inc (x # xs)) < W ^ length (x # xs)"
      using limbs_less [of "base_uint_inc (x # xs)"] unfolding length_base_uint_inc .
    then show ?thesis unfolding eq by simp
  qed
qed

lemma unat_not_u32: "unat (NOT (x :: u32)) = (W - 1) - unat x"
proof -
  have "NOT x = - 1 - x" by (simp add: not_eq_complement)
  moreover have "unat (- 1 - x) = unat (- 1 :: u32) - unat x" by (rule unat_sub) simp
  ultimately show ?thesis by (simp only: unat_minus_1_u32)
qed

lemma base_uint_compl_sum:
  "digits_val (base_uint_compl a) + digits_val a + 1 = W ^ length a"
proof (induction a)
  case Nil
  then show ?case by (simp add: base_uint_compl_def)
next
  case (Cons x xs)
  let ?c = "digits_val (base_uint_compl xs)"
  have "digits_val (base_uint_compl (x # xs)) + digits_val (x # xs) + 1 =
      ((W - 1) - unat x) + unat x + 1 + W * (?c + digits_val xs)"
    by (simp add: base_uint_compl_def unat_not_u32)
  also have "\<dots> = W * (?c + digits_val xs + 1)"
    using unat_u32_less [of x] by simp
  also have "\<dots> = W ^ length (x # xs)"
    unfolding Cons.IH by simp
  finally show ?case .
qed

lemma base_uint_compl_val [limb_val]:
  "digits_val (base_uint_compl a) = W ^ length a - 1 - digits_val a"
  using base_uint_compl_sum [of a] by linarith

lemma length_base_uint_neg [simp]: "length (base_uint_neg a) = length a"
  by (simp add: base_uint_neg_def)

lemma base_uint_neg_val [limb_val]:
  "digits_val (base_uint_neg a) = (W ^ length a - digits_val a) mod W ^ length a"
proof -
  have "digits_val a < W ^ length a" by (rule limbs_less)
  then have "W ^ length a - 1 - digits_val a + 1 = W ^ length a - digits_val a"
    by simp
  then show ?thesis
    by (simp add: base_uint_neg_def base_uint_inc_val base_uint_compl_val)
qed

lemma length_base_uint_sub [simp]: "length (base_uint_sub a b) = min (length a) (length b)"
  by (simp add: base_uint_sub_def)

lemma base_uint_sub_val:
  assumes "length a = length b" and "digits_val b \<le> digits_val a"
  shows "digits_val (base_uint_sub a b) = digits_val a - digits_val b"
proof -
  have a: "digits_val a < W ^ length a" by (rule limbs_less)
  have "digits_val (base_uint_sub a b) =
      (digits_val a + (W ^ length a - digits_val b)) mod W ^ length a"
    using assms(1) by (simp add: base_uint_sub_def limb_val mod_add_right_eq)
  also have "digits_val a + (W ^ length a - digits_val b) =
      (digits_val a - digits_val b) + W ^ length a"
    using a assms(2) by simp
  finally show ?thesis using a by simp
qed

lemma base_uint_sub_wraps:
  assumes "length a = length b"
  shows "digits_val (base_uint_sub a b) =
    (digits_val a + (W ^ length a - digits_val b)) mod W ^ length a"
  using assms by (simp add: base_uint_sub_def limb_val mod_add_right_eq)

subsection \<open>Multiplication\<close>

lemma unat_mul_add:
  assumes "unat (c :: u64) < W"
  shows "unat (c + ucast (p :: u32) + ucast (x :: u32) * ucast (y :: u32)) =
    unat c + unat p + unat x * unat y"
proof -
  have "unat x * unat y \<le> (W - 1) * (W - 1)"
    using unat_u32_less [of x] unat_u32_less [of y] by (intro mult_le_mono) auto
  then have "unat c + unat p + unat x * unat y < 18446744073709551616"
    using assms unat_u32_less [of p] by simp
  moreover have "c + ucast p + ucast x * ucast y =
      word_of_nat (unat c + unat p + unat x * unat y)" by simp
  ultimately show ?thesis by (simp only: unat_u64_id)
qed

lemma mul_carry:
  assumes "unat (c :: u64) < W"
  shows "(unat c + unat (p :: u32) + unat (x :: u32) * unat (y :: u32)) div W < W"
proof -
  have "unat x * unat y \<le> (W - 1) * (W - 1)"
    using unat_u32_less [of x] unat_u32_less [of y] by (intro mult_le_mono) auto
  then have "unat c + unat p + unat x * unat y < W * W"
    using assms unat_u32_less [of p] by simp
  then show ?thesis by (rule less_mult_imp_div_less)
qed

lemma length_mul_inner [simp]: "length (mul_inner c aj ps bs) = min (length ps) (length bs)"
  by (induction c aj ps bs rule: mul_inner.induct) (simp_all add: Let_def)

lemma mul_inner_val:
  assumes "length ps \<le> length bs" and "unat c < W"
  shows "digits_val (mul_inner c aj ps bs) =
    (unat c + digits_val ps + unat aj * digits_val bs) mod W ^ length ps"
  using assms
proof (induction c aj ps bs rule: mul_inner.induct)
  case (1 c aj p ps b bs)
  let ?n = "c + ucast p + ucast aj * ucast b"
  have n: "unat ?n = unat c + unat p + unat aj * unat b"
    using "1.prems"(2) by (rule unat_mul_add)
  have "unat (drop_bit 32 ?n) < W"
    unfolding high32 n using "1.prems"(2) by (rule mul_carry)
  then have IH: "digits_val (mul_inner (drop_bit 32 ?n) aj ps bs) =
      (unat (drop_bit 32 ?n) + digits_val ps + unat aj * digits_val bs) mod W ^ length ps"
    using "1.IH" [OF refl] "1.prems"(1) by simp
  have e: "unat c + digits_val (p # ps) + unat aj * digits_val (b # bs) =
      unat ?n + W * (digits_val ps + unat aj * digits_val bs)"
    unfolding n by (simp add: distrib_left)
  have "digits_val (mul_inner c aj (p # ps) (b # bs)) = unat ?n mod W +
      W * ((unat ?n div W + (digits_val ps + unat aj * digits_val bs)) mod W ^ length ps)"
    by (simp add: Let_def IH low32 high32 add.assoc [symmetric])
  then show ?case unfolding e limb_step by simp
qed simp_all

lemma mul32_loop_inner:
  "mul32_loop c b32 xs = mul_inner c b32 (replicate (length xs) 0) xs"
  by (induction c b32 xs rule: mul32_loop.induct) (simp_all add: Let_def)

lemma length_base_uint_mul32 [simp]: "length (base_uint_mul32 a b) = length a"
  by (simp add: base_uint_mul32_def mul32_loop_inner)

lemma base_uint_mul32_val [limb_val]:
  "digits_val (base_uint_mul32 a b32) = (digits_val a * unat b32) mod W ^ length a"
  by (simp add: base_uint_mul32_def mul32_loop_inner mul_inner_val mult.commute)

lemma digits_val_take_drop:
  "j \<le> length xs \<Longrightarrow>
   digits_val (xs :: u32 list) = digits_val (take j xs) + W ^ j * digits_val (drop j xs)"
  using digits_val_append [of "take j xs" "drop j xs"] by (simp add: W_power)

lemma length_mul_row [simp]:
  "length b = length pn \<Longrightarrow> length (mul_row a b j pn) = length pn"
  by (simp add: mul_row_def)

lemma mul_row_val:
  assumes "j < length pn" and "length b = length pn"
  shows "digits_val (mul_row a b j pn) =
    (digits_val pn + W ^ j * (unat (a ! j) * digits_val b)) mod W ^ length pn"
proof -
  let ?t = "digits_val (take j pn)" and ?d = "digits_val (drop j pn)"
  have t: "?t < W ^ j" using limbs_less [of "take j pn"] assms(1) by simp
  have split: "W ^ length pn = W ^ j * W ^ (length pn - j)"
    using assms(1) by (simp flip: power_add)
  have "digits_val (mul_inner 0 (a ! j) (drop j pn) b) =
      (?d + unat (a ! j) * digits_val b) mod W ^ (length pn - j)"
    using assms by (subst mul_inner_val) simp_all
  then have "digits_val (mul_row a b j pn) =
      ?t + W ^ j * ((?d + unat (a ! j) * digits_val b) mod W ^ (length pn - j))"
    using assms(1) by (simp add: mul_row_def digits_val_append W_power)
  also have "\<dots> = (?t + W ^ j * (?d + unat (a ! j) * digits_val b)) mod W ^ length pn"
    unfolding split using t by (rule low_digits_mod [symmetric])
  also have "?t + W ^ j * (?d + unat (a ! j) * digits_val b) =
      digits_val pn + W ^ j * (unat (a ! j) * digits_val b)"
    using digits_val_take_drop [of j pn] assms(1) by (simp add: distrib_left)
  finally show ?thesis .
qed

lemma mul_rows:
  assumes "length b = length a" and "j \<le> length a"
  shows "length (fold (mul_row a b) [0..<j] (base_uint_zero (length a))) = length a \<and>
    digits_val (fold (mul_row a b) [0..<j] (base_uint_zero (length a))) =
      (digits_val (take j a) * digits_val b) mod W ^ length a"
  using assms(2)
proof (induction j)
  case 0
  then show ?case by (simp add: base_uint_zero_def)
next
  case (Suc j)
  let ?pn = "fold (mul_row a b) [0..<j] (base_uint_zero (length a))"
  have pn: "length ?pn = length a"
    "digits_val ?pn = (digits_val (take j a) * digits_val b) mod W ^ length a"
    using Suc by simp_all
  have "digits_val (take (Suc j) a) = digits_val (take j a) + W ^ j * unat (a ! j)"
    using Suc.prems by (simp add: take_Suc_conv_app_nth digits_val_append W_power)
  then have "digits_val (take (Suc j) a) * digits_val b =
      digits_val (take j a) * digits_val b + W ^ j * (unat (a ! j) * digits_val b)"
    by (simp add: distrib_right)
  moreover have "digits_val (mul_row a b j ?pn) =
      (digits_val ?pn + W ^ j * (unat (a ! j) * digits_val b)) mod W ^ length a"
    using Suc.prems assms(1) pn(1) by (subst mul_row_val) simp_all
  ultimately show ?case using assms(1) pn by (simp add: mod_add_left_eq)
qed

lemma length_base_uint_mul [simp]:
  "length b = length a \<Longrightarrow> length (base_uint_mul a b) = length a"
  using mul_rows [of b a "length a"] by (simp add: base_uint_mul_def)

lemma base_uint_mul_val [limb_val]:
  "length b = length a \<Longrightarrow>
   digits_val (base_uint_mul a b) = (digits_val a * digits_val b) mod W ^ length a"
  using mul_rows [of b a "length a"] by (simp add: base_uint_mul_def)

subsection \<open>Shifts\<close>

lemma bit_limb:
  "q < 32 \<Longrightarrow> bit (digits_val (xs :: u32 list)) (32 * m + q) \<longleftrightarrow> m < length xs \<and> bit (xs ! m) q"
  by (simp add: bit_digits_val)

lemma length_shl_step [simp]: "length (shl_step a k s i pn) = length pn"
  by (simp add: shl_step_def Let_def)

lemma length_shr_step [simp]: "length (shr_step a k s i pn) = length pn"
  by (simp add: shr_step_def Let_def)

lemma length_base_uint_shl [simp]: "length (base_uint_shl a n) = length a"
  by (simp add: base_uint_shl_def base_uint_zero_def Let_def)

lemma length_base_uint_shr [simp]: "length (base_uint_shr a n) = length a"
  by (simp add: base_uint_shr_def base_uint_zero_def Let_def)

lemma shl_fold_nth:
  assumes "m < length a"
  shows "fold (shl_step a k s) [0..<i] (base_uint_zero (length a)) ! m =
    (if k \<le> m \<and> m - k < i then push_bit s (a ! (m - k)) else 0) OR
    (if s \<noteq> 0 \<and> k + 1 \<le> m \<and> m - k - 1 < i then drop_bit (32 - s) (a ! (m - k - 1)) else 0)"
proof (induction i)
  case 0
  then show ?case using assms by (simp add: base_uint_zero_def)
next
  case (Suc i)
  let ?pn = "fold (shl_step a k s) [0..<i] (base_uint_zero (length a))"
  have len: "length ?pn = length a" by (simp add: base_uint_zero_def)
  have "shl_step a k s i ?pn ! m = ?pn ! m OR
      (if m = i + k then push_bit s (a ! i) else 0) OR
      (if m = i + k + 1 \<and> s \<noteq> 0 then drop_bit (32 - s) (a ! i) else 0)"
    using assms len by (auto simp: shl_step_def Let_def nth_list_update or.assoc)
  then show ?case using Suc.IH by (auto simp: or.assoc or.left_commute)
qed

lemma bit_base_uint_shl:
  "bit (digits_val (base_uint_shl a shift)) p \<longleftrightarrow>
     p < 32 * length a \<and> shift \<le> p \<and> bit (digits_val a) (p - shift)"
proof (cases "p div 32 < length a")
  case False
  then have "\<not> p < 32 * length a" by (simp add: div_less_iff_less_mult mult.commute)
  with False show ?thesis by (simp add: bit_digits_val)
next
  case True
  then have lt: "p < 32 * length a" by (simp add: div_less_iff_less_mult mult.commute)
  define k s m q where defs: "k = shift div 32" "s = shift mod 32" "m = p div 32" "q = p mod 32"
  have q: "q < 32" and s: "s < 32" by (simp_all add: defs)
  have p: "p = 32 * m + q" and sh: "shift = 32 * k + s" by (simp_all add: defs)
  have mlt: "m < length a" using True by (simp add: defs)
  have r: "base_uint_shl a shift ! m =
      (if k \<le> m \<and> m - k < length a then push_bit s (a ! (m - k)) else 0) OR
      (if s \<noteq> 0 \<and> k + 1 \<le> m \<and> m - k - 1 < length a
       then drop_bit (32 - s) (a ! (m - k - 1)) else 0)"
    using True by (simp add: base_uint_shl_def Let_def shl_fold_nth flip: defs)
  have "bit (digits_val (base_uint_shl a shift)) p \<longleftrightarrow> bit (base_uint_shl a shift ! m) q"
    using True by (simp add: bit_digits_val defs)
  also have "\<dots> \<longleftrightarrow> (k \<le> m \<and> s \<le> q \<and> bit (a ! (m - k)) (q - s)) \<or>
      (s \<noteq> 0 \<and> k + 1 \<le> m \<and> q < s \<and> bit (a ! (m - k - 1)) (32 - s + q))"
    using mlt q s bit_imp_le_length [of "a ! (m - k - 1)" "32 - s + q"]
    by (auto simp: r bit_or_iff bit_push_bit_iff bit_drop_bit_eq)
  also have "\<dots> \<longleftrightarrow> shift \<le> p \<and> bit (digits_val a) (p - shift)"
  proof (cases "s \<le> q")
    case True
    have "k \<le> m \<Longrightarrow> p - shift = 32 * (m - k) + (q - s)"
      using True by (simp add: p sh algebra_simps)
    moreover have "shift \<le> p \<longleftrightarrow> k \<le> m" using True q s unfolding p sh by linarith
    moreover have "bit (digits_val a) (32 * (m - k) + (q - s)) \<longleftrightarrow> bit (a ! (m - k)) (q - s)"
      using q mlt by (subst bit_limb) auto
    ultimately show ?thesis using True by auto
  next
    case False
    have "k + 1 \<le> m \<Longrightarrow> p - shift = 32 * (m - k - 1) + (32 - s + q)"
      using s q by (simp add: p sh algebra_simps)
    moreover have "shift \<le> p \<longleftrightarrow> k + 1 \<le> m" using False q s unfolding p sh by linarith
    moreover have "32 - s + q < 32" "s \<noteq> 0" using False s by linarith+
    ultimately show ?thesis using False mlt by (auto simp: bit_limb)
  qed
  finally show ?thesis using lt by simp
qed

lemma base_uint_shl_val [limb_val]:
  "digits_val (base_uint_shl a shift) = (digits_val a * 2 ^ shift) mod 2 ^ (32 * length a)"
proof -
  have "digits_val (base_uint_shl a shift) = take_bit (32 * length a) (push_bit shift (digits_val a))"
    by (rule bit_eqI) (auto simp: bit_base_uint_shl bit_take_bit_iff bit_push_bit_iff)
  then show ?thesis by (simp add: take_bit_eq_mod push_bit_eq_mult)
qed

lemma shr_fold_nth:
  assumes "m < length a" and "i \<le> length a"
  shows "fold (shr_step a k s) [0..<i] (base_uint_zero (length a)) ! m =
    (if m + k < i then drop_bit s (a ! (m + k)) else 0) OR
    (if s \<noteq> 0 \<and> m + k + 1 < i then push_bit (32 - s) (a ! (m + k + 1)) else 0)"
  using assms(2)
proof (induction i)
  case 0
  then show ?case using assms by (simp add: base_uint_zero_def)
next
  case (Suc i)
  let ?pn = "fold (shr_step a k s) [0..<i] (base_uint_zero (length a))"
  have len: "length ?pn = length a" by (simp add: base_uint_zero_def)
  have "shr_step a k s i ?pn ! m = ?pn ! m OR
      (if m + k = i then drop_bit s (a ! i) else 0) OR
      (if m + k + 1 = i \<and> s \<noteq> 0 then push_bit (32 - s) (a ! i) else 0)"
    using assms(1) len Suc.prems
    by (auto simp: shr_step_def Let_def nth_list_update or.assoc)
  then show ?case using Suc by (auto simp: or.assoc or.left_commute less_Suc_eq)
qed

lemma bit_base_uint_shr:
  "bit (digits_val (base_uint_shr a shift)) p \<longleftrightarrow> bit (digits_val a) (p + shift)"
proof (cases "p div 32 < length a")
  case False
  then have "\<not> (p + shift) div 32 < length a"
    using div_le_mono [of p "p + shift" 32] by linarith
  with False show ?thesis by (simp add: bit_digits_val)
next
  case True
  define k s m q where defs: "k = shift div 32" "s = shift mod 32" "m = p div 32" "q = p mod 32"
  have q: "q < 32" and s: "s < 32" by (simp_all add: defs)
  have p: "p = 32 * m + q" and sh: "shift = 32 * k + s" by (simp_all add: defs)
  have r: "base_uint_shr a shift ! m =
      (if m + k < length a then drop_bit s (a ! (m + k)) else 0) OR
      (if s \<noteq> 0 \<and> m + k + 1 < length a then push_bit (32 - s) (a ! (m + k + 1)) else 0)"
    using True by (simp add: base_uint_shr_def Let_def shr_fold_nth flip: defs)
  have "bit (digits_val (base_uint_shr a shift)) p \<longleftrightarrow> bit (base_uint_shr a shift ! m) q"
    using True by (simp add: bit_digits_val defs)
  also have "\<dots> \<longleftrightarrow> (m + k < length a \<and> q + s < 32 \<and> bit (a ! (m + k)) (q + s)) \<or>
      (s \<noteq> 0 \<and> m + k + 1 < length a \<and> 32 \<le> q + s \<and> bit (a ! (m + k + 1)) (q + s - 32))"
    using q s bit_imp_le_length [of "a ! (m + k)" "s + q"]
    by (auto simp: r bit_or_iff bit_push_bit_iff bit_drop_bit_eq add.commute)
  also have "\<dots> \<longleftrightarrow> bit (digits_val a) (p + shift)"
  proof (cases "q + s < 32")
    case True
    have "p + shift = 32 * (m + k) + (q + s)" by (simp add: p sh)
    with True show ?thesis by (simp only: bit_limb) auto
  next
    case False
    have "p + shift = 32 * (m + k + 1) + (q + s - 32)" using False by (simp add: p sh)
    moreover have "q + s - 32 < 32" "s \<noteq> 0" using False q s by linarith+
    ultimately show ?thesis using False by (simp only: bit_limb) auto
  qed
  finally show ?thesis .
qed

lemma base_uint_shr_val [limb_val]:
  "digits_val (base_uint_shr a shift) = digits_val a div 2 ^ shift"
proof -
  have "digits_val (base_uint_shr a shift) = drop_bit shift (digits_val a)"
    by (rule bit_eqI) (simp add: bit_base_uint_shr bit_drop_bit_eq add.commute)
  then show ?thesis by (simp add: drop_bit_eq_div)
qed

end
