(* ===== verification/Arith_Uint256_Div.thy ===== *)
theory Arith_Uint256_Div
  imports Arith_Uint256_Props
begin

text \<open>
  Comparison, bit length, long division and integer roots of \<open>Arith_Uint256\<close>: each loop
  computes the corresponding operation on naturals, and the division and root loops
  return on every input their asserts allow.
\<close>

unbundle bit_operations_syntax

subsection \<open>Comparison\<close>

lemma CompareTo_val:
  assumes "length a = length b"
  shows "CompareTo a b = (if digits_val a < digits_val b then - 1
    else if digits_val b < digits_val a then 1 else 0)"
  using assms
proof (induction a arbitrary: b rule: rev_induct)
  case Nil
  then show ?case by (simp add: CompareTo_def)
next
  case (snoc x xs)
  then obtain y ys where b: "b = ys @ [y]" and len: "length xs = length ys"
    by (cases b rule: rev_cases) auto
  have xs: "digits_val xs < W ^ length xs" and ys: "digits_val ys < W ^ length xs"
    using limbs_less [of xs] limbs_less [of ys] len by simp_all
  have val: "digits_val (xs @ [x]) = digits_val xs + W ^ length xs * unat x"
    "digits_val b = digits_val ys + W ^ length xs * unat y"
    using len by (simp_all add: b digits_val_append W_power)
  have cmp: "CompareTo (xs @ [x]) b = (if x < y then - 1 else if y < x then 1 else CompareTo xs ys)"
    by (simp add: CompareTo_def b)
  show ?case
    unfolding cmp val lex_less [OF xs ys] lex_less [OF ys xs] snoc.IH [OF len]
    by (auto simp: word_less_nat_alt)
qed

lemma CompareTo_ge_0:
  "length a = length b \<Longrightarrow> CompareTo a b \<ge> 0 \<longleftrightarrow> digits_val b \<le> digits_val a"
  by (simp add: CompareTo_val)

lemma CompareTo_gt_0:
  "length a = length b \<Longrightarrow> CompareTo a b > 0 \<longleftrightarrow> digits_val b < digits_val a"
  by (simp add: CompareTo_val)

subsection \<open>Bit length\<close>

lemma and_push_bit_1: "(x :: u32) AND push_bit n 1 \<noteq> 0 \<longleftrightarrow> bit x n"
proof -
  have "x AND push_bit n 1 = (if bit x n then push_bit n 1 else 0)"
    by (rule bit_eqI) (auto simp: bit_and_iff bit_exp_iff)
  moreover have "bit x n \<Longrightarrow> push_bit n (1 :: u32) \<noteq> 0"
    using bit_imp_le_length [of x n] by (auto simp: exp_eq_0_imp_not_bit)
  ultimately show ?thesis by auto
qed

lemma nbits_loop_bounds:
  assumes "unat x < 2 ^ (m + 1)" and "x \<noteq> 0" and "m < 32"
  shows "1 \<le> nbits_loop x m \<and> 2 ^ (nbits_loop x m - 1) \<le> unat x \<and> unat x < 2 ^ nbits_loop x m"
  using assms
proof (induction m)
  case 0
  then show ?case by (simp add: Suc_le_eq unat_gt_0)
next
  case (Suc m)
  show ?case
  proof (cases "bit x (Suc m)")
    case True
    then have "odd (unat x div 2 ^ Suc m)" by (simp add: bit_unat_word [symmetric] bit_iff_odd)
    then have "unat x div 2 ^ Suc m > 0" by (cases "unat x div 2 ^ Suc m = 0") simp_all
    then have "2 ^ Suc m \<le> unat x" by (simp only: div_greater_zero_iff)
    then show ?thesis using True Suc.prems(1) and_push_bit_1 [of x "Suc m"] by simp
  next
    case False
    then have "even (unat x div 2 ^ Suc m)" by (simp add: bit_unat_word [symmetric] bit_iff_odd)
    moreover have "unat x div 2 ^ Suc m < 2"
      using Suc.prems(1) by (simp add: div_less_iff_less_mult)
    ultimately have "unat x div 2 ^ Suc m = 0" by (auto elim!: evenE simp del: power_Suc)
    then have "unat x < 2 ^ (m + 1)" by (simp add: div_eq_0_iff)
    with False Suc and_push_bit_1 [of x "Suc m"] show ?thesis by simp
  qed
qed

lemma bits_loop_bounds:
  "digits_val (rev xs) < 2 ^ bits_loop xs \<and>
   (0 < bits_loop xs \<longrightarrow> 2 ^ (bits_loop xs - 1) \<le> digits_val (rev xs)) \<and>
   bits_loop xs \<le> 32 * length xs"
proof (induction xs)
  case Nil
  then show ?case by simp
next
  case (Cons x xs)
  have val: "digits_val (rev (x # xs)) = digits_val (rev xs) + 2 ^ (32 * length xs) * unat x"
    by (simp add: digits_val_append)
  have rest: "digits_val (rev xs) < 2 ^ (32 * length xs)"
    using limbs_less [of "rev xs"] by (simp add: W_power)
  show ?case
  proof (cases "x = 0")
    case True
    with Cons show ?thesis by (simp add: digits_val_append)
  next
    case False
    let ?n = "nbits_loop x 31"
    have n: "1 \<le> ?n" "2 ^ (?n - 1) \<le> unat x" "unat x < 2 ^ ?n"
      using nbits_loop_bounds [of x 31] False unat_u32_less [of x] by simp_all
    have n32: "?n \<le> 32"
    proof (rule ccontr)
      assume "\<not> ?n \<le> 32"
      then have "(2::nat) ^ 32 \<le> 2 ^ (?n - 1)" by (intro power_increasing) auto
      with n(2) unat_u32_less [of x] show False by simp
    qed
    have "2 ^ (32 * length xs) * Suc (unat x) \<le> 2 ^ (32 * length xs) * (2::nat) ^ ?n"
      using n(3) by (intro mult_le_mono2) simp
    then have "digits_val (rev (x # xs)) < 2 ^ (32 * length xs + ?n)"
      unfolding val power_add using rest by simp
    moreover have "2 ^ (32 * length xs) * (2::nat) ^ (?n - 1) \<le> 2 ^ (32 * length xs) * unat x"
      using n(2) by (rule mult_le_mono2)
    then have "2 ^ (32 * length xs + ?n - 1) \<le> digits_val (rev (x # xs))"
      unfolding val using n(1) by (simp add: power_add [symmetric])
    ultimately show ?thesis using False n(1) n32 by simp
  qed
qed

lemma bits_less: "digits_val a < 2 ^ base_uint_bits a"
  using bits_loop_bounds [of "rev a"] by (simp add: base_uint_bits_def)

lemma bits_ge: "0 < base_uint_bits a \<Longrightarrow> 2 ^ (base_uint_bits a - 1) \<le> digits_val a"
  using bits_loop_bounds [of "rev a"] by (simp add: base_uint_bits_def)

lemma bits_width: "base_uint_bits a \<le> 32 * length a"
  using bits_loop_bounds [of "rev a"] by (simp add: base_uint_bits_def)

lemma bits_eq_0_iff: "base_uint_bits a = 0 \<longleftrightarrow> digits_val a = 0"
proof
  assume "base_uint_bits a = 0"
  then show "digits_val a = 0" using bits_less [of a] by simp
next
  assume "digits_val a = 0"
  then show "base_uint_bits a = 0" using bits_ge [of a] by (cases "base_uint_bits a") auto
qed

lemma bits_unique:
  assumes "2 ^ n \<le> digits_val a" and "digits_val a < 2 ^ Suc n"
  shows "base_uint_bits a = Suc n"
proof -
  have "2 ^ n < (2::nat) ^ base_uint_bits a" using assms(1) bits_less [of a] by (rule le_less_trans)
  then have "n < base_uint_bits a" by (rule power_less_imp_less_exp [rotated]) simp
  moreover have "2 ^ (base_uint_bits a - 1) < (2::nat) ^ Suc n"
    using assms(2) bits_ge [of a] calculation by simp
  then have "base_uint_bits a - 1 < Suc n" by (rule power_less_imp_less_exp [rotated]) simp
  ultimately show ?thesis by simp
qed

subsection \<open>Division\<close>

lemma length_set_quotient_bit [simp]: "length (set_quotient_bit s pn) = length pn"
  by (simp add: set_quotient_bit_def)

lemma bit_set_quotient_bit:
  assumes "s < 32 * length pn"
  shows "bit (digits_val (set_quotient_bit s pn)) p \<longleftrightarrow> bit (digits_val pn) p \<or> p = s"
proof -
  have s: "s div 32 < length pn" using assms by (simp add: div_less_iff_less_mult mult.commute)
  have "p = s \<longleftrightarrow> p div 32 = s div 32 \<and> p mod 32 = s mod 32" by (metis div_mult_mod_eq)
  then show ?thesis using s
    by (auto simp: bit_digits_val set_quotient_bit_def nth_list_update bit_or_iff
        bit_exp_iff)
qed

lemma set_quotient_bit_val:
  assumes "s < 32 * length pn" and "2 ^ Suc s dvd digits_val pn"
  shows "digits_val (set_quotient_bit s pn) = digits_val pn + 2 ^ s"
proof -
  have clear: "\<not> bit (digits_val pn) s"
  proof -
    from assms(2) obtain c where "digits_val pn = 2 ^ s * (2 * c)" by (auto elim: dvdE)
    then have "digits_val pn div 2 ^ s = 2 * c" by simp
    then show ?thesis by (simp add: bit_iff_odd)
  qed
  have "digits_val pn + 2 ^ s = digits_val pn OR 2 ^ s"
    by (rule disjunctive_add) (use clear in \<open>auto simp: bit_exp_iff\<close>)
  moreover have "digits_val (set_quotient_bit s pn) = digits_val pn OR 2 ^ s"
    by (rule bit_eqI) (auto simp: bit_set_quotient_bit [OF assms(1)] bit_or_iff bit_exp_iff)
  ultimately show ?thesis by simp
qed

text \<open>
  Loop invariant: with \<open>s\<close> quotient bits to go, the divisor is aligned at bit \<open>s - 1\<close>,
  the running remainder is below \<open>2 ^ s\<close> divisors and the quotient bits found so far are
  multiples of \<open>2 ^ s\<close>.
\<close>

lemma div_loop_val:
  assumes "length num = length dv" and "length pn = length dv" and "s \<le> 32 * length dv"
    and "0 < s \<Longrightarrow> digits_val dv = d * 2 ^ (s - 1)"
    and "digits_val num < d * 2 ^ s" and "2 ^ s dvd digits_val pn"
  shows "digits_val (fst (div_loop s num dv pn)) * d + digits_val (snd (div_loop s num dv pn)) =
      digits_val pn * d + digits_val num \<and>
    digits_val (snd (div_loop s num dv pn)) < d \<and>
    length (fst (div_loop s num dv pn)) = length dv"
  using assms
proof (induction s arbitrary: num dv pn)
  case 0
  then show ?case by simp
next
  case (Suc s)
  have dv: "digits_val dv = d * 2 ^ s" using Suc.prems(4) by simp
  have shr: "0 < s \<Longrightarrow> digits_val (base_uint_shr dv 1) = d * 2 ^ (s - 1)"
    by (cases s) (simp_all add: base_uint_shr_val dv)
  have dvd: "2 ^ s dvd digits_val pn"
    using Suc.prems(6) by (rule power_le_dvd) simp
  show ?case
  proof (cases "digits_val dv \<le> digits_val num")
    case True
    let ?num = "base_uint_sub num dv" and ?pn = "set_quotient_bit s pn"
    have num: "digits_val ?num = digits_val num - d * 2 ^ s"
      using True Suc.prems(1) by (simp add: base_uint_sub_val dv)
    have pn: "digits_val ?pn = digits_val pn + 2 ^ s"
      using Suc.prems by (intro set_quotient_bit_val) auto
    have "digits_val ?num < d * 2 ^ s" using Suc.prems(5) by (simp add: num)
    moreover have "2 ^ s dvd digits_val ?pn" using dvd by (simp add: pn)
    ultimately have IH: "digits_val (fst (div_loop s ?num (base_uint_shr dv 1) ?pn)) * d +
        digits_val (snd (div_loop s ?num (base_uint_shr dv 1) ?pn)) =
        digits_val ?pn * d + digits_val ?num \<and>
      digits_val (snd (div_loop s ?num (base_uint_shr dv 1) ?pn)) < d \<and>
      length (fst (div_loop s ?num (base_uint_shr dv 1) ?pn)) = length dv"
      using Suc.IH [of ?num "base_uint_shr dv 1" ?pn] shr Suc.prems(1-3) by simp
    have "digits_val ?pn * d + digits_val ?num = digits_val pn * d + digits_val num"
      using True by (simp add: pn num dv algebra_simps)
    with IH True Suc.prems(1) show ?thesis by (simp add: CompareTo_ge_0)
  next
    case False
    then have "digits_val num < d * 2 ^ s" by (simp add: dv)
    with Suc.IH [of num "base_uint_shr dv 1" pn] shr dvd Suc.prems(1-3) False
    show ?thesis by (simp add: CompareTo_ge_0)
  qed
qed

lemma base_uint_div_val:
  assumes len: "length a = length b" and nz: "digits_val b \<noteq> 0"
  obtains q where "base_uint_div a b = Inr q" and "length q = length a"
    and "digits_val q = digits_val a div digits_val b"
proof (cases "base_uint_bits b > base_uint_bits a")
  case True
  have "digits_val a < 2 ^ base_uint_bits a" by (rule bits_less)
  also have "\<dots> \<le> (2::nat) ^ (base_uint_bits b - 1)"
    using True by (intro power_increasing) auto
  also have "\<dots> \<le> digits_val b" using True by (intro bits_ge) simp
  finally have "digits_val a div digits_val b = 0" by simp
  with True show ?thesis
    by (intro that [of "base_uint_zero (length a)"])
       (simp_all add: base_uint_div_def base_uint_zero_def Let_def)
next
  case False
  let ?s = "base_uint_bits a - base_uint_bits b"
  let ?r = "div_loop (Suc ?s) a (base_uint_shl b ?s) (base_uint_zero (length a))"
  have pos: "0 < base_uint_bits b" using nz bits_eq_0_iff [of b] by simp
  have "digits_val b * 2 ^ ?s < 2 ^ base_uint_bits b * 2 ^ ?s"
    using bits_less [of b] by simp
  also have "\<dots> = (2::nat) ^ base_uint_bits a" using False by (simp flip: power_add)
  also have "\<dots> \<le> 2 ^ (32 * length b)"
    using bits_width [of a] len by (intro power_increasing) auto
  finally have shl: "digits_val (base_uint_shl b ?s) = digits_val b * 2 ^ ?s"
    by (simp add: base_uint_shl_val)
  have "digits_val a < 2 ^ base_uint_bits a" by (rule bits_less)
  also have "\<dots> = (2::nat) ^ (base_uint_bits b - 1) * 2 ^ Suc ?s"
    using False pos by (simp flip: power_add power_Suc)
  also have "\<dots> \<le> digits_val b * 2 ^ Suc ?s"
    using bits_ge [OF pos] by (rule mult_le_mono1)
  finally have num: "digits_val a < digits_val b * 2 ^ Suc ?s" .
  have w: "Suc ?s \<le> 32 * length b"
    using bits_width [of a] pos False len by linarith
  have r: "digits_val (fst ?r) * digits_val b + digits_val (snd ?r) = digits_val a"
    "digits_val (snd ?r) < digits_val b" "length (fst ?r) = length a"
    using div_loop_val [of a "base_uint_shl b ?s" "base_uint_zero (length a)" "Suc ?s" "digits_val b"]
      shl num w len by (simp_all add: base_uint_zero_def)
  have "digits_val a div digits_val b = digits_val (fst ?r)"
    unfolding r(1) [symmetric] using r(2) nz by simp
  with r(3) False pos show ?thesis
    by (intro that [of "fst ?r"]) (simp_all add: base_uint_div_def Let_def)
qed

lemma base_uint_div_by_zero:
  "digits_val b = 0 \<Longrightarrow> base_uint_div a b = Inl Division_by_zero"
  by (simp add: base_uint_div_def Let_def bits_eq_0_iff)

end
