(* ===== verification/Arith_Uint256_Compact.thy ===== *)
theory Arith_Uint256_Compact
  imports Arith_Uint256_Div
begin

text \<open>
  Values of the 64-bit views of \<open>base_uint\<close>, the integer root, the compact encoding of
  targets and the conversions between numbers and blobs.
\<close>

unbundle bit_operations_syntax

subsection \<open>64-bit views\<close>

lemma digits_val_2: "digits_val [x, y :: u32] = unat x + W * unat y"
  by simp

lemma u64_halves:
  "unat (ucast b :: u32) = unat (b :: u64) mod W"
  "unat (ucast (drop_bit 32 b) :: u32) = unat (b :: u64) div W"
proof -
  have "unat b div W < W"
    using unsigned_less [of b, where ?'a = nat] by (simp add: div_less_iff_less_mult)
  then show "unat (ucast b :: u32) = unat b mod W"
    "unat (ucast (drop_bit 32 b) :: u32) = unat b div W"
    by (simp_all add: unsigned_ucast_eq unsigned_take_bit_eq unat_drop_bit_div take_bit_eq_mod)
qed

lemma base_uint_of_u64_val:
  assumes "2 \<le> w"
  shows "digits_val (base_uint_of_u64 w b) = unat b"
proof -
  have "digits_val (base_uint_of_u64 w b) = unat (ucast b :: u32) + W * unat (ucast (drop_bit 32 b) :: u32)"
    by (simp add: base_uint_of_u64_def digits_val_replicate_0 del: unsigned_ucast_eq)
  then show ?thesis unfolding u64_halves(1) [of b] u64_halves(2) [of b] by simp
qed

lemma length_base_uint_of_u64 [simp]: "2 \<le> w \<Longrightarrow> length (base_uint_of_u64 w b) = w"
  by (simp add: base_uint_of_u64_def)

lemma two_limbs:
  assumes "2 \<le> length a"
  obtains x y :: u32 and r where "a = x # y # r" and "unat x + W * unat y < 2 ^ 64"
    and "digits_val a = (unat x + W * unat y) + 2 ^ 64 * digits_val r"
proof -
  obtain x y r where a: "a = x # y # r"
    using assms by (cases a; cases "tl a") auto
  show ?thesis
  proof (rule that [OF a])
    show "unat x + W * unat y < 2 ^ 64"
      using unat_u32_less [of x] unat_u32_less [of y] by simp
    show "digits_val a = (unat x + W * unat y) + 2 ^ 64 * digits_val r"
      by (simp add: a)
  qed
qed

lemma GetLow64_val:
  assumes "2 \<le> length a"
  shows "unat (GetLow64 a) = digits_val a mod 2 ^ 64"
proof -
  obtain x y r where a: "a = x # y # r" and less: "unat x + W * unat y < 2 ^ 64"
    and val: "digits_val a = (unat x + W * unat y) + 2 ^ 64 * digits_val r"
    using assms by (rule two_limbs)
  have "GetLow64 a = ucast x + push_bit 32 (ucast y)"
    unfolding GetLow64_def a
    by (simp, rule disjunctive_add [symmetric])
       (auto simp: bit_push_bit_iff bit_ucast_iff dest: bit_imp_le_length)
  then have "unat (GetLow64 a) = unat x + W * unat y"
    using less by (simp add: push_bit_eq_mult unat_word_ariths)
  then show ?thesis using less by (simp add: val)
qed

lemma two_digits: "x < W \<Longrightarrow> x + W * y = b \<longleftrightarrow> y = b div W \<and> x = b mod W"
  by auto

lemma EqualTo_val:
  assumes "2 \<le> length a"
  shows "EqualTo a b \<longleftrightarrow> digits_val a = unat b"
proof -
  obtain x y r where a: "a = x # y # r" and less: "unat x + W * unat y < 2 ^ 64"
    and val: "digits_val a = (unat x + W * unat y) + 2 ^ 64 * digits_val r"
    using assms by (rule two_limbs)
  have "unat (b AND 0xffffffff) = unat b mod W"
    using low32 [of b] u64_halves(1) [of "b AND 0xffffffff"] word_and_le1 [of b "0xffffffff"]
    by (simp add: word_le_nat_alt)
  then have x: "ucast x = b AND 0xffffffff \<longleftrightarrow> unat x = unat b mod W"
    by (subst word_unat_eq_iff) simp
  have y: "ucast y = drop_bit 32 b \<longleftrightarrow> unat y = unat b div W"
    by (simp add: word_unat_eq_iff unat_drop_bit_div)
  have "unat b < 2 ^ 64" using unsigned_less [of b, where ?'a = nat] by simp
  then have "unat x + W * unat y + 2 ^ 64 * digits_val r = unat b \<longleftrightarrow>
      digits_val r = 0 \<and> unat x + W * unat y = unat b" by (cases "digits_val r") auto
  then have "unat x + W * unat y + 2 ^ 64 * digits_val r = unat b \<longleftrightarrow>
      digits_val r = 0 \<and> unat y = unat b div W \<and> unat x = unat b mod W"
    unfolding two_digits [OF unat_u32_less [of x], of "unat y" "unat b"] .
  then show ?thesis
    unfolding val by (simp add: EqualTo_def a x y digits_val_eq_0_iff list_all_iff add.assoc)
qed

subsection \<open>Integer roots\<close>

lemma root_power_val:
  assumes "unat x ^ n < 2 ^ 64" and "0 < n"
  shows "unat (root_power n x) = unat x ^ n"
proof -
  have "((\<lambda>p. p * x) ^^ k) x = x ^ Suc k" for k
    by (induction k) (simp_all add: mult.commute)
  then have "root_power n x = x ^ n" using assms(2) by (cases n) (simp_all add: root_power_def)
  moreover have "x ^ n = word_of_nat (unat x ^ n)" by simp
  ultimately have eq: "root_power n x = word_of_nat (unat x ^ n)" by (rule trans)
  from assms(1) have "unat x ^ n < 18446744073709551616" by simp
  then show ?thesis unfolding eq by (rule unat_u64_id)
qed

lemma unat_or_bit:
  assumes "2 ^ Suc i dvd unat (x :: u64)" and "i < 64"
  shows "unat (x OR 2 ^ i) = unat x + 2 ^ i"
proof -
  have clear: "\<not> bit x i"
  proof -
    from assms(1) obtain c where "unat x = 2 ^ i * (2 * c)" by (auto elim: dvdE)
    then have "unat x div 2 ^ i = 2 * c" by simp
    then show ?thesis by (simp add: bit_unat_word [symmetric] bit_iff_odd)
  qed
  have "unat (x OR 2 ^ i) = unat x OR 2 ^ i"
    by (rule bit_eqI) (use assms(2) in \<open>auto simp: bit_unsigned_iff bit_or_iff bit_exp_iff\<close>)
  also have "\<dots> = unat x + 2 ^ i"
    by (rule disjunctive_add [symmetric]) (use clear in \<open>auto simp: bit_unsigned_iff bit_exp_iff\<close>)
  finally show ?thesis .
qed

text \<open>The binary search keeps \<open>nRoot\<close> the largest multiple of \<open>2 ^ k\<close> whose power fits.\<close>

lemma root_loop_val:
  assumes "0 < n" and "n * m \<le> 64" and "k \<le> m" and "m < 64"
    and "2 ^ k dvd unat r" and "unat r + 2 ^ k \<le> 2 ^ m"
    and "unat r ^ n \<le> unat h" and "unat h < (unat r + 2 ^ k) ^ n"
  shows "unat (root_loop n k h r) ^ n \<le> unat h \<and> unat h < (unat (root_loop n k h r) + 1) ^ n \<and>
    unat (root_loop n k h r) < 2 ^ m"
  using assms(3,5-8)
proof (induction k arbitrary: r)
  case 0
  then show ?case by simp
next
  case (Suc k)
  let ?x = "r OR 2 ^ k"
  have x: "unat ?x = unat r + 2 ^ k"
    using Suc.prems assms(4) by (intro unat_or_bit) auto
  have "2 ^ k dvd unat r" using Suc.prems(2) by (rule power_le_dvd) simp
  then have dvd: "2 ^ k dvd unat r" "2 ^ k dvd unat ?x" by (simp_all add: x)
  have le: "unat ?x + 2 ^ k \<le> 2 ^ m" "unat r + 2 ^ k \<le> 2 ^ m"
    using Suc.prems(3) by (simp_all add: x)
  have "unat ?x < unat r + 2 ^ Suc k" by (simp add: x)
  with Suc.prems(3) have "unat ?x < 2 ^ m" by linarith
  then have "unat ?x ^ n < (2 ^ m) ^ n" using assms(1) by (intro power_strict_mono) auto
  also have "(2 ^ m) ^ n \<le> (2::nat) ^ 64"
    unfolding power_mult [symmetric] using assms(2) by (intro power_increasing) (auto simp: mult.commute)
  finally have p: "unat (root_power n ?x) = unat ?x ^ n"
    using assms(1) by (rule root_power_val)
  show ?case
  proof (cases "root_power n ?x \<le> h")
    case True
    then have "unat ?x ^ n \<le> unat h" by (simp add: word_le_nat_alt p)
    moreover have "unat h < (unat ?x + 2 ^ k) ^ n"
      using Suc.prems(5) by (simp add: x ac_simps mult_2)
    ultimately show ?thesis using Suc.IH [of ?x] Suc.prems(1) dvd le True by simp
  next
    case False
    then have "unat h < (unat r + 2 ^ k) ^ n" by (simp add: word_le_nat_alt p x)
    then show ?thesis using Suc.IH [of r] Suc.prems(1,4) dvd le False by simp
  qed
qed

lemma root_shift:
  fixes L n :: nat
  assumes "1 < n" and "n < 64"
  shows "nat (max 0 (((int L - 1) sdiv int n) + 1 - (64 sdiv int n))) =
      (L - 1) div n + 1 - 64 div n" (is ?sh)
    and "L \<le> n * ((L - 1) div n + 1 - 64 div n) + n * (64 div n)" (is ?L)
proof -
  have d: "(64 sdiv int n) = int (64 div n)"
    using assms by (simp add: signed_divide_int_def zdiv_int sgn_if)
  have "64 div n > 0" using assms by (simp add: div_greater_zero_iff)
  moreover have "(- 1) sdiv int n = 0"
    using assms(1) by (simp add: signed_divide_int_def)
  ultimately have "L = 0 \<Longrightarrow> ?sh" by (simp add: d)
  moreover have "0 < L \<Longrightarrow> ?sh"
  proof -
    assume "0 < L"
    then have "((int L - 1) sdiv int n) = int ((L - 1) div n)"
      by (simp add: signed_divide_int_def zdiv_int sgn_if of_nat_diff)
    then show ?sh by (simp add: d)
  qed
  ultimately show ?sh by blast
  have "(L - 1) div n + 1 \<le> ((L - 1) div n + 1 - 64 div n) + 64 div n" by simp
  then have "n * ((L - 1) div n + 1) \<le> n * (((L - 1) div n + 1 - 64 div n) + 64 div n)"
    by (rule mult_le_mono2)
  moreover have "L - 1 < n * ((L - 1) div n + 1)"
    using assms(1) dividend_less_times_div [of n "L - 1"] by simp
  ultimately show ?L by (simp add: distrib_left)
qed

lemma ApproxNthRoot_bounds:
  assumes "1 < n" and "n < 64" and len: "2 \<le> length a"
  obtains r s where "ApproxNthRoot a n = Some r" and "length r = length a"
    and "digits_val r ^ n \<le> digits_val a" and "digits_val a < (digits_val r + 2 ^ s) ^ n"
    and "s = (base_uint_bits a - 1) div n + 1 - 64 div n"
proof -
  define sh where "sh = (base_uint_bits a - 1) div n + 1 - 64 div n"
  define h where "h = GetLow64 (base_uint_shr a (n * sh))"
  define q where "q = root_loop n (64 div n) h 0"
  have "base_uint_bits a \<le> n * sh + n * (64 div n)"
    using root_shift(2) [OF assms(1,2)] by (simp add: sh_def)
  then have "digits_val a < 2 ^ (n * sh + n * (64 div n))"
    using bits_less [of a] by (meson less_le_trans one_le_numeral power_increasing)
  then have "digits_val a div 2 ^ (n * sh) < 2 ^ (n * (64 div n))"
    by (simp add: div_less_iff_less_mult power_add mult.commute)
  moreover have "(2::nat) ^ (n * (64 div n)) \<le> 2 ^ 64" by (intro power_increasing) auto
  ultimately have h: "unat h = digits_val a div 2 ^ (n * sh)" "unat h < 2 ^ (n * (64 div n))"
    using len by (simp_all add: h_def GetLow64_val base_uint_shr_val)
  have q: "unat q ^ n \<le> unat h" "unat h < (unat q + 1) ^ n"
    using root_loop_val [of n "64 div n" "64 div n" 0 h] assms(1,2) h(2) zero_power [of n, where ?'a = nat]
    by (simp_all add: q_def power_mult [symmetric] mult.commute div_less_iff_less_mult)
  have pw: "(2::nat) ^ (n * sh) = (2 ^ sh) ^ n"
    unfolding mult.commute [of n] by (rule power_mult)
  have "(unat q * 2 ^ sh) ^ n = unat q ^ n * 2 ^ (n * sh)"
    unfolding pw by (rule power_mult_distrib)
  also have "\<dots> \<le> unat h * 2 ^ (n * sh)" using q(1) by simp
  also have "\<dots> \<le> digits_val a" by (simp add: h(1))
  finally have low: "(unat q * 2 ^ sh) ^ n \<le> digits_val a" .
  have "digits_val a < (unat h + 1) * 2 ^ (n * sh)"
    unfolding h(1) using dividend_less_div_times [of "2 ^ (n * sh)" "digits_val a"] by simp
  also have "\<dots> \<le> (unat q + 1) ^ n * 2 ^ (n * sh)"
    using q(2) by (intro mult_le_mono1) simp
  also have "\<dots> = ((unat q + 1) * 2 ^ sh) ^ n"
    unfolding pw by (rule power_mult_distrib [symmetric])
  finally have high: "digits_val a < (unat q * 2 ^ sh + 2 ^ sh) ^ n"
    unfolding distrib_right mult_1_left .
  have "unat q * 2 ^ sh \<le> (unat q * 2 ^ sh) ^ n"
    using assms(1) by (cases "unat q = 0") (simp_all add: self_le_power)
  with low limbs_less [of a] have "unat q * 2 ^ sh < W ^ length a" by linarith
  then have val: "digits_val (base_uint_shl (base_uint_of_u64 (length a) q) sh) = unat q * 2 ^ sh"
    using len by (simp add: base_uint_shl_val base_uint_of_u64_val W_power)
  show ?thesis
  proof (rule that)
    show "ApproxNthRoot a n = Some (base_uint_shl (base_uint_of_u64 (length a) q) sh)"
      using assms by (simp add: ApproxNthRoot_def Let_def q_def h_def sh_def root_shift(1))
  qed (use len low high val in \<open>simp_all add: sh_def\<close>)
qed

subsection \<open>The compact encoding\<close>

lemma packed_fields:
  fixes m e n B :: nat
  assumes "m < B" and "e < 2"
  shows "(m + B * e + 2 * B * n) div (2 * B) = n"
    and "(m + B * e + 2 * B * n) mod B = m"
    and "(m + B * e + 2 * B * n) div B = e + 2 * n"
proof -
  have "m + B * e < 2 * B" using assms by (cases e) auto
  then show "(m + B * e + 2 * B * n) div (2 * B) = n" by simp
  have eq: "m + B * e + 2 * B * n = m + B * (e + 2 * n)" by (simp add: distrib_left)
  show "(m + B * e + 2 * B * n) mod B = m" "(m + B * e + 2 * B * n) div B = e + 2 * n"
    unfolding eq using assms(1) by simp_all
qed

lemma compact_fields:
  fixes c :: u32
  assumes c: "unat c = m + 2 ^ 23 * of_bool neg + 2 ^ 24 * n" and m: "m < 2 ^ 23"
  shows "unat (drop_bit 24 c) = n" and "unat (c AND 0x007fffff) = m"
    and "c AND 0x00800000 \<noteq> 0 \<longleftrightarrow> neg"
proof -
  have c': "unat c = m + 2 ^ 23 * of_bool neg + 2 * 2 ^ 23 * n" by (simp add: c)
  have neg: "of_bool neg < (2 :: nat)" by simp
  note fields = packed_fields [OF m neg, of n, folded c']
  show "unat (drop_bit 24 c) = n"
    using fields(1) by (simp add: unat_drop_bit_div)
  have "(0x007fffff :: u32) = mask 23" by (simp add: mask_eq_exp_minus_1)
  then have "c AND 0x007fffff = take_bit 23 c" by (simp only: take_bit_eq_mask)
  then have "unat (c AND 0x007fffff) = unat c mod 2 ^ 23"
    by (simp only: unsigned_take_bit_eq) (rule take_bit_eq_mod)
  then show "unat (c AND 0x007fffff) = m" by (simp only: fields(2))
  have "bit c 23 \<longleftrightarrow> odd (unat c div 2 ^ 23)"
    by (simp add: bit_unat_word [symmetric] bit_iff_odd)
  then have "bit c 23 \<longleftrightarrow> neg" unfolding fields(3) by simp
  then show "c AND 0x00800000 \<noteq> 0 \<longleftrightarrow> neg"
    using and_push_bit_1 [of c 23] by simp
qed

lemma bit_imp_le_unat: "bit (w :: 'a::len word) i \<Longrightarrow> 2 ^ i \<le> unat w"
  by (metis bit_iff_odd bit_unat_word div_less even_zero not_less)

lemma unat_u32_of_nat: "m < W \<Longrightarrow> unat (word_of_nat m :: u32) = m"
  by (simp add: unat_of_nat take_bit_nat_eq_self)

lemma compact_or:
  assumes "m < 2 ^ 23" and "n < 256"
  shows "unat (word_of_nat m OR push_bit 24 (word_of_nat n) OR
    (if neg then 0x00800000 else 0) :: u32) = m + 2 ^ 23 * of_bool neg + 2 ^ 24 * n"
proof -
  have mb: "bit (word_of_nat m :: u32) i \<Longrightarrow> i < 23" for i
    using bit_imp_le_unat [of "word_of_nat m :: u32" i] assms(1) unat_u32_of_nat [of m]
      power_less_imp_less_exp [of "2 :: nat" i 23] by simp
  have nb: "bit (push_bit 24 (word_of_nat n :: u32)) i \<Longrightarrow> 24 \<le> i" for i
    by (simp add: bit_push_bit_iff)
  have sb: "bit (0x00800000 :: u32) i \<longleftrightarrow> i = 23" for i
    using bit_exp_iff [of 23 i, where ?'a = u32] by auto
  let ?A = "word_of_nat m :: u32" and ?B = "push_bit 24 (word_of_nat n) :: u32"
    and ?C = "if neg then 0x00800000 else 0 :: u32"
  have "\<not> bit ?A i \<or> \<not> bit ?B i" for i using mb [of i] nb [of i] by linarith
  then have AB: "?A OR ?B = ?A + ?B" by (intro disjunctive_add [symmetric]) blast
  have Cb: "bit ?C i \<Longrightarrow> i = 23" for i using sb [of i] by (simp split: if_splits)
  have "\<not> bit (?A OR ?B) i \<or> \<not> bit ?C i" for i
    using mb [of i] nb [of i] Cb [of i] unfolding bit_or_iff by linarith
  then have "?A OR ?B OR ?C = (?A + ?B) + ?C"
    unfolding AB [symmetric] or.assoc [symmetric] by (intro disjunctive_add [symmetric]) blast
  also have "\<dots> = word_of_nat (m + 2 ^ 23 * of_bool neg + 2 ^ 24 * n)"
    by (simp add: push_bit_eq_mult)
  finally have eq: "?A OR ?B OR ?C = word_of_nat (m + 2 ^ 23 * of_bool neg + 2 ^ 24 * n)" .
  show ?thesis unfolding eq by (rule unat_u32_of_nat) (use assms in \<open>cases neg; simp\<close>)
qed

lemma pow256: "(256 :: nat) ^ k = 2 ^ (8 * k)"
  by (simp add: power_mult)

lemma pow256_split: "\<not> n \<le> 3 \<Longrightarrow> (256 :: nat) ^ n = 256 ^ 3 * 256 ^ (n - 3)"
  by (simp only: power_add [symmetric]) simp

lemma compact_size:
  fixes L v :: nat
  assumes "v < 2 ^ L" and "0 < L \<Longrightarrow> 2 ^ (L - 1) \<le> v"
  defines "n \<equiv> (L + 7) div 8"
  shows "v < 256 ^ n" and "0 < n \<Longrightarrow> 256 ^ (n - 1) \<le> v"
proof -
  have "v < 2 ^ L" by fact
  also have "(2 :: nat) ^ L \<le> 2 ^ (8 * n)" by (intro power_increasing) (auto simp: n_def)
  finally show "v < 256 ^ n" by (simp only: pow256)
  show "256 ^ (n - 1) \<le> v" if "0 < n"
  proof -
    have "0 < L" "8 * (n - 1) \<le> L - 1" using that by (auto simp: n_def)
    then have "(2 :: nat) ^ (8 * (n - 1)) \<le> 2 ^ (L - 1)" by (intro power_increasing) auto
    with assms(2) \<open>0 < L\<close> show ?thesis unfolding pow256 by (meson le_trans)
  qed
qed

lemma compact_mantissa:
  fixes v n :: nat
  assumes "v < 256 ^ n" and "0 < n \<Longrightarrow> 256 ^ (n - 1) \<le> v"
  defines "m \<equiv> if n \<le> 3 then v * 256 ^ (3 - n) else v div 256 ^ (n - 3)"
  shows "m < 2 ^ 24" and "3 < n \<Longrightarrow> 2 ^ 16 \<le> m"
proof -
  have p24: "(2 :: nat) ^ 24 = 256 ^ 3" and p16: "(2 :: nat) ^ 16 = 256 ^ 2" by simp_all
  show "m < 2 ^ 24"
  proof (cases "n \<le> 3")
    case True
    then have "v * 256 ^ (3 - n) < 256 ^ n * 256 ^ (3 - n)" using assms(1) by simp
    also have "\<dots> = (256 :: nat) ^ 3" using True by (simp flip: power_add)
    finally show ?thesis using True unfolding p24 by (simp add: m_def)
  next
    case False
    then have "v < 256 ^ 3 * 256 ^ (n - 3)" using assms(1) pow256_split [of n] by simp
    then have "v div 256 ^ (n - 3) < 256 ^ 3" by (simp add: div_less_iff_less_mult)
    then show ?thesis unfolding p24 using False by (simp add: m_def)
  qed
  show "2 ^ 16 \<le> m" if "3 < n"
  proof -
    have "n - 1 = 2 + (n - 3)" using that by simp
    then have "(256 :: nat) ^ (n - 1) = 256 ^ 2 * 256 ^ (n - 3)" by (simp only: power_add)
    then have "256 ^ 2 * 256 ^ (n - 3) \<le> v" using assms(2) that by simp
    then show ?thesis using that unfolding p16 m_def by (simp add: less_eq_div_iff_mult_less_eq)
  qed
qed

lemma unat_compact_word:
  assumes a: "2 \<le> length a" and n: "digits_val a < 256 ^ n"
  shows "unat ((if n \<le> 3 then ucast (push_bit (8 * (3 - n)) (GetLow64 a))
      else ucast (GetLow64 (base_uint_shr a (8 * (n - 3))))) :: u32) =
    (if n \<le> 3 then digits_val a * 256 ^ (3 - n) else digits_val a div 256 ^ (n - 3))"
proof (cases "n \<le> 3")
  case True
  then have "digits_val a * 256 ^ (3 - n) < 256 ^ n * 256 ^ (3 - n)" using n by simp
  also have "\<dots> = (256 :: nat) ^ 3" using True by (simp flip: power_add)
  finally have lt: "digits_val a * 256 ^ (3 - n) < 16777216" by simp
  have "digits_val a \<le> digits_val a * 256 ^ (3 - n)" by simp
  from this lt have v: "digits_val a < 16777216" by (rule le_less_trans)
  then have low: "unat (GetLow64 a) = digits_val a" using a by (simp add: GetLow64_val)
  have "push_bit (8 * (3 - n)) (GetLow64 a) = word_of_nat (digits_val a * 256 ^ (3 - n))"
    unfolding low [symmetric] by (simp add: push_bit_eq_mult pow256)
  then have "unat (push_bit (8 * (3 - n)) (GetLow64 a)) = digits_val a * 256 ^ (3 - n)"
    using lt by (simp only: unat_u64_id)
  then show ?thesis using True lt by (simp add: u64_halves)
next
  case False
  then have "digits_val a < 256 ^ 3 * 256 ^ (n - 3)" using n pow256_split [of n] by simp
  then have "digits_val a div 256 ^ (n - 3) < 256 ^ 3" by (simp add: div_less_iff_less_mult)
  then have lt: "digits_val a div 256 ^ (n - 3) < 16777216" by simp
  then have "unat (GetLow64 (base_uint_shr a (8 * (n - 3)))) = digits_val a div 256 ^ (n - 3)"
    using a by (simp add: GetLow64_val base_uint_shr_val pow256)
  then show ?thesis using False lt by (simp add: u64_halves)
qed

definition compact_of :: "nat \<Rightarrow> nat \<Rightarrow> nat \<Rightarrow> bool" where
  "compact_of v m n \<longleftrightarrow> m < 2 ^ 23 \<and> (n = 33 \<longrightarrow> m < 2 ^ 16) \<and> (3 < n \<longrightarrow> 2 ^ 15 \<le> m) \<and>
     m = (if n \<le> 3 then v * 256 ^ (3 - n) else v div 256 ^ (n - 3))"

lemma compact_carry:
  fixes v n0 :: nat
  assumes "v < 256 ^ n0" and "0 < n0 \<Longrightarrow> 256 ^ (n0 - 1) \<le> v" and "n0 \<le> 32"
  defines "m0 \<equiv> if n0 \<le> 3 then v * 256 ^ (3 - n0) else v div 256 ^ (n0 - 3)"
  shows "m0 < 2 ^ 23 \<Longrightarrow> compact_of v m0 n0"
    and "2 ^ 23 \<le> m0 \<Longrightarrow> compact_of v (m0 div 256) (Suc n0)"
proof -
  note m = compact_mantissa [OF assms(1,2), folded m0_def]
  show "compact_of v m0 n0" if "m0 < 2 ^ 23"
  proof -
    have "3 < n0 \<longrightarrow> 2 ^ 15 \<le> m0" using m(2) by auto
    then show ?thesis
      unfolding compact_of_def using that assms(3) by (simp only: m0_def) auto
  qed
  show "compact_of v (m0 div 256) (Suc n0)" if "2 ^ 23 \<le> m0"
  proof -
    have b: "m0 div 256 < 2 ^ 16" "2 ^ 15 \<le> m0 div 256"
      using m(1) that by (simp_all add: div_less_iff_less_mult less_eq_div_iff_mult_less_eq)
    have "v * 256 ^ (3 - n0) div 256 = v * 256 ^ (2 - n0)" if "n0 < 3"
    proof -
      have "v * 256 ^ (3 - n0) = v * 256 ^ (2 - n0) * 256"
        using power_Suc [of "256 :: nat" "2 - n0"] Suc_diff_le [of n0 2] that by simp
      then show ?thesis by (metis nonzero_mult_div_cancel_right zero_neq_numeral)
    qed
    moreover have "v div 256 ^ (n0 - 3) div 256 = v div 256 ^ (Suc n0 - 3)" if "3 < n0"
    proof -
      have "Suc n0 - 3 = Suc (n0 - 3)" using that by simp
      then show ?thesis by (simp only: div_mult2_eq [symmetric] power_Suc2)
    qed
    ultimately have eq: "m0 div 256 = (if Suc n0 \<le> 3 then v * 256 ^ (3 - Suc n0) else v div 256 ^ (Suc n0 - 3))"
      by (cases "n0 = 3") (auto simp: m0_def)
    show ?thesis unfolding compact_of_def
    proof (intro conjI impI)
      show "m0 div 256 = (if Suc n0 \<le> 3 then v * 256 ^ (3 - Suc n0) else v div 256 ^ (Suc n0 - 3))"
        by (rule eq)
    qed (use b in simp_all)
  qed
qed

lemma compact_assert:
  fixes x :: u32
  assumes "unat x < 2 ^ 23"
  shows "x AND NOT 0x007fffff = 0"
proof -
  have "unat (x AND 0x007fffff) = unat x"
    using compact_fields(2) [of x "unat x" False 0] assms by simp
  then have "x AND 0x007fffff = x" by (simp only: word_unat_eq_iff)
  then have "x AND NOT 0x007fffff = (x AND 0x007fffff) AND NOT 0x007fffff" by simp
  then show ?thesis by (simp only: and.assoc bit.conj_cancel_right and_zero_eq)
qed

lemma GetCompact_val:
  assumes len: "length a = 8"
  obtains c m n where "GetCompact a f = Some c" and "compact_of (digits_val a) m n"
    and "n \<le> 33" and "unat c = m + 2 ^ 23 * of_bool (f \<and> m \<noteq> 0) + 2 ^ 24 * n"
proof -
  define n0 where "n0 = (base_uint_bits a + 7) div 8"
  define x0 :: u32 where "x0 = (if n0 \<le> 3 then ucast (push_bit (8 * (3 - n0)) (GetLow64 a))
     else ucast (GetLow64 (base_uint_shr a (8 * (n0 - 3)))))"
  have n0: "n0 \<le> 32" using bits_width [of a] len by (simp add: n0_def)
  note v = compact_size [OF bits_less bits_ge, of a, folded n0_def]
  have x0: "unat x0 = (if n0 \<le> 3 then digits_val a * 256 ^ (3 - n0) else digits_val a div 256 ^ (n0 - 3))"
    unfolding x0_def using len v(1) by (intro unat_compact_word) auto
  have lt: "unat x0 < 2 ^ 24" unfolding x0 using v by (rule compact_mantissa)
  note carry = compact_carry [OF v n0, folded x0]
  define big where "big \<longleftrightarrow> x0 AND 0x00800000 \<noteq> 0"
  have "unat x0 = unat x0 mod 2 ^ 23 + 2 ^ 23 * of_bool (2 ^ 23 \<le> unat x0) + 2 ^ 24 * 0"
    using lt by (cases "2 ^ 23 \<le> unat x0") (simp_all add: le_mod_geq)
  then have big: "big \<longleftrightarrow> 2 ^ 23 \<le> unat x0"
    unfolding big_def by (rule compact_fields(3)) simp
  define x1 where "x1 = (if big then drop_bit 8 x0 else x0)"
  define n where "n = (if big then n0 + 1 else n0)"
  have c: "compact_of (digits_val a) (unat x1) n"
    using carry big by (simp add: x1_def n_def unat_drop_bit_div)
  then have x1: "unat x1 < 2 ^ 23" by (simp add: compact_of_def)
  have n: "n \<le> 33" using n0 by (simp add: n_def)
  define y where "y = x1 OR push_bit 24 (word_of_nat n)"
  have res: "unat (y OR (if neg then 0x00800000 else 0)) = unat x1 + 2 ^ 23 * of_bool neg + 2 ^ 24 * n" for neg
    using compact_or [OF x1, of n neg] n by (simp add: y_def or.assoc)
  have y: "y AND 0x007fffff \<noteq> 0 \<longleftrightarrow> unat x1 \<noteq> 0"
    using compact_fields(2) [OF _ x1, of y False n] res [of False] by (simp add: word_unat_eq_iff)
  have "GetCompact a f = Some (y OR (if f \<and> unat x1 \<noteq> 0 then 0x00800000 else 0))"
    using compact_assert [OF x1] n
    by (simp only: GetCompact_def Let_def n0_def [symmetric] x0_def [symmetric] big_def [symmetric]
        x1_def [symmetric] n_def [symmetric] y_def [symmetric] y) simp
  from this c n res show ?thesis by (rule that)
qed

text \<open>
  Compact encoding keeps the leading bytes of a number: decoding gives the number with
  its low \<open>nSize - 3\<close> bytes cleared, and never the overflow flag.
\<close>

lemma SetCompact_val:
  assumes c: "unat c = m + 2 ^ 23 * of_bool neg + 2 ^ 24 * n" and m: "m < 2 ^ 23"
  shows "SetCompact c = (v, g, ov) \<Longrightarrow> length v = 8 \<and>
    digits_val v = (if n \<le> 3 then m div 256 ^ (3 - n) else m * 256 ^ (n - 3)) mod 2 ^ 256 \<and>
    (g \<longleftrightarrow> neg \<and> (if n \<le> 3 then m div 256 ^ (3 - n) else m) \<noteq> 0) \<and>
    (ov \<longleftrightarrow> n > 3 \<and> m \<noteq> 0 \<and> (n > 34 \<or> m > 0xff \<and> n > 33 \<or> m > 0xffff \<and> n > 32))"
proof -
  assume S: "SetCompact c = (v, g, ov)"
  note F = compact_fields [OF c m]
  define w0 where "w0 = c AND 0x007fffff"
  have w0: "unat w0 = m" by (simp add: w0_def F(2))
  define w where "w = (if n \<le> 3 then drop_bit (8 * (3 - n)) w0 else w0)"
  have w: "unat w = (if n \<le> 3 then m div 256 ^ (3 - n) else m)"
    by (simp add: w_def w0 unat_drop_bit_div pow256)
  then have "unat w \<le> m" by simp
  with m have lt: "unat w < 2 ^ 23" by linarith
  have v0: "digits_val (base_uint_of_u64 8 (ucast w)) = unat w" by (simp add: base_uint_of_u64_val)
  from S have v: "v = (if n \<le> 3 then base_uint_of_u64 8 (ucast w)
      else base_uint_shl (base_uint_of_u64 8 (ucast w)) (8 * (n - 3)))"
    and g: "g = (w \<noteq> 0 \<and> neg)"
    and ov: "ov = (w \<noteq> 0 \<and> (n > 34 \<or> (w > 0xff \<and> n > 33) \<or> (w > 0xffff \<and> n > 32)))"
    by (simp_all only: SetCompact_def Let_def F w0_def [symmetric] w_def [symmetric] prod.inject)
  have val: "digits_val v = (if n \<le> 3 then m div 256 ^ (3 - n) else m * 256 ^ (n - 3)) mod 2 ^ 256"
  proof (cases "n \<le> 3")
    case True
    then have "digits_val v = unat w" by (simp add: v v0)
    then show ?thesis using True w lt by simp
  next
    case False
    then show ?thesis using w by (simp add: v base_uint_shl_val v0 pow256)
  qed
  have len: "length v = 8" by (simp add: v)
  have "unat w = 0 \<longleftrightarrow> w = 0" by (rule unat_eq_zero)
  moreover have "w > 0xff \<longleftrightarrow> unat w > 0xff" "w > 0xffff \<longleftrightarrow> unat w > 0xffff"
    by (simp_all add: word_less_nat_alt)
  ultimately show ?thesis using val len w by (auto simp: g ov)
qed

lemma compact_decode:
  assumes "compact_of v m n" and "v < 2 ^ 256" and "n \<le> 33"
  shows "(if n \<le> 3 then m div 256 ^ (3 - n) else m * 256 ^ (n - 3)) mod 2 ^ 256 =
      v div 256 ^ (n - 3) * 256 ^ (n - 3)"
    and "m = 0 \<longleftrightarrow> v = 0"
    and "\<not> (n > 33 \<or> m > 0xffff \<and> n > 32)"
proof -
  have m: "m = (if n \<le> 3 then v * 256 ^ (3 - n) else v div 256 ^ (n - 3))"
    and big: "3 < n \<Longrightarrow> 0 < m" and n: "n = 33 \<Longrightarrow> m < 65536"
    using assms(1) by (simp_all add: compact_of_def split: if_splits)
  have "v div 256 ^ (n - 3) * 256 ^ (n - 3) \<le> v" by simp
  from this assms(2) have "v div 256 ^ (n - 3) * 256 ^ (n - 3) < 2 ^ 256" by (rule le_less_trans)
  moreover have "(if n \<le> 3 then m div 256 ^ (3 - n) else m * 256 ^ (n - 3)) =
      v div 256 ^ (n - 3) * 256 ^ (n - 3)" by (simp add: m)
  ultimately show "(if n \<le> 3 then m div 256 ^ (3 - n) else m * 256 ^ (n - 3)) mod 2 ^ 256 =
      v div 256 ^ (n - 3) * 256 ^ (n - 3)" by (simp only: mod_less)
  show "m = 0 \<longleftrightarrow> v = 0" using m big by (cases "v = 0"; cases "n \<le> 3") auto
  show "\<not> (n > 33 \<or> m > 0xffff \<and> n > 32)" using assms(3) n by (cases "n = 33") auto
qed

lemma limbs_less_256: "length a = 8 \<Longrightarrow> digits_val (a :: u32 list) < 2 ^ 256"
  using digits_val_less [of a] by simp

lemma SetCompact_GetCompact_val:
  assumes len: "length a = 8"
  obtains c v where "GetCompact a f = Some c"
    and "SetCompact c = (v, f \<and> digits_val a \<noteq> 0, False)" and "length v = 8"
    and "digits_val v = digits_val a div 256 ^ (unat (drop_bit 24 c) - 3) *
           256 ^ (unat (drop_bit 24 c) - 3)"
    and "3 < unat (drop_bit 24 c) \<Longrightarrow> 2 ^ 15 \<le> digits_val a div 256 ^ (unat (drop_bit 24 c) - 3)"
proof -
  obtain c m n where c: "GetCompact a f = Some c" and mn: "compact_of (digits_val a) m n"
    and n: "n \<le> 33" and uc: "unat c = m + 2 ^ 23 * of_bool (f \<and> m \<noteq> 0) + 2 ^ 24 * n"
    using len by (rule GetCompact_val)
  have m: "m < 2 ^ 23" using mn by (simp add: compact_of_def)
  note dec = compact_decode [OF mn limbs_less_256 [OF len] n]
  obtain v g ov where S: "SetCompact c = (v, g, ov)" by (cases "SetCompact c") auto
  note val = SetCompact_val [OF uc m S, unfolded dec(1)]
  have "(if n \<le> 3 then m div 256 ^ (3 - n) else m) = 0 \<longleftrightarrow> digits_val a = 0"
    using mn dec(2) by (auto simp: compact_of_def split: if_splits)
  with val dec(2) have g: "g \<longleftrightarrow> f \<and> digits_val a \<noteq> 0" by auto
  have ov: "\<not> ov" using val dec(3) by auto
  have size: "unat (drop_bit 24 c) = n" using uc m by (rule compact_fields)
  show ?thesis
  proof (rule that [OF c, of v])
    show "SetCompact c = (v, f \<and> digits_val a \<noteq> 0, False)" using S g ov by simp
  qed (use val mn in \<open>auto simp: size compact_of_def\<close>)
qed

subsection \<open>Conversions\<close>

lemma drop_concat_WriteLE32:
  "x < length a \<Longrightarrow> drop (x * 4) (concat (map WriteLE32 a)) =
     WriteLE32 (a ! x) @ drop (Suc x * 4) (concat (map WriteLE32 a))"
proof (induction a arbitrary: x)
  case (Cons w a)
  then show ?case by (cases x) simp_all
qed simp

lemma UintToArith256_ArithToUint256:
  "length a = 8 \<Longrightarrow> UintToArith256 (ArithToUint256 a) = a"
  by (rule nth_equalityI)
     (simp_all add: UintToArith256_def ArithToUint256_def drop_concat_WriteLE32 Read_Write_LE)

lemma digits_val_concat_bytes:
  "digits_val (concat (map WriteLE32 a)) = digits_val a"
proof (induction a)
  case (Cons w a)
  then show ?case using unat_u32_less [of w]
    by (simp add: digits_val_append WriteLE32_def digits_val_le_bytes take_bit_nat_eq_self)
qed simp

lemma length_concat_bytes: "length (concat (map WriteLE32 a)) = 4 * length a"
  by (induction a) simp_all

lemma ArithToUint256_UintToArith256:
  assumes "length b = 32"
  shows "ArithToUint256 (UintToArith256 b) = b"
proof -
  have "concat (map (\<lambda>x. take 4 (drop (x * 4) b)) [0..<k]) = take (4 * k) b" for k
    by (induction k) (simp_all add: take_add [symmetric] mult.commute add.commute)
  moreover have "WriteLE32 (ReadLE32 (drop (x * 4) b)) = take 4 (drop (x * 4) b)" if "x < 8" for x
    unfolding WriteLE32_def ReadLE32_def using assms that by (intro le_bytes_le_word) simp_all
  then have "ArithToUint256 (UintToArith256 b) = concat (map (\<lambda>x. take 4 (drop (x * 4) b)) [0..<8])"
    unfolding ArithToUint256_def UintToArith256_def map_map comp_def
    by (intro arg_cong [of _ _ concat] map_cong) simp_all
  ultimately show ?thesis using assms by simp
qed

lemma base_uint_sub_cancel:
  assumes "length a = length b"
  shows "(digits_val (base_uint_sub a b) + digits_val b) mod W ^ length a = digits_val a"
proof -
  let ?M = "W ^ length a"
  have "digits_val b < ?M" "digits_val a < ?M"
    using limbs_less [of b] limbs_less [of a] assms by simp_all
  then have "digits_val a + (?M - digits_val b) + digits_val b = digits_val a + ?M" by simp
  then show ?thesis
    unfolding base_uint_sub_wraps [OF assms] mod_add_left_eq using \<open>digits_val a < ?M\<close> by simp
qed

subsection \<open>Properties\<close>

text \<open>
  (C11) Long division of two numbers of the same width either reports a division by
  zero, exactly when the divisor is zero, or returns the quotient of the two numbers at the
  same width.
\<close>

theorem base_uint_div_correct:
  assumes "length a = length b"
  shows "case base_uint_div a b of
      Inl e \<Rightarrow> e = Division_by_zero \<and> digits_val b = 0
    | Inr q \<Rightarrow> digits_val b \<noteq> 0 \<and> length q = length a \<and>
        digits_val q = digits_val a div digits_val b"
proof (cases "digits_val b = 0")
  case False
  with assms show ?thesis by (rule base_uint_div_val) (use False in simp)
qed (simp add: base_uint_div_by_zero)

theorem base_uint_div_correct_witness:
  "case base_uint_div [7, 0, 1] [3, 0, 0] of
      Inl e \<Rightarrow> e = Division_by_zero \<and> digits_val [3, 0, 0 :: u32] = 0
    | Inr q \<Rightarrow> digits_val [3, 0, 0 :: u32] \<noteq> 0 \<and> length q = length [7, 0, 1 :: u32] \<and>
        digits_val q = digits_val [7, 0, 1 :: u32] div digits_val [3, 0, 0 :: u32]"
  by (rule base_uint_div_correct) simp

text \<open>
  (C18) Addition, subtraction, negation and the two multiplications of limb vectors
  are the ring operations on numbers modulo two to the width.
\<close>

theorem base_uint_ring:
  assumes "length a = length b"
  shows "digits_val (base_uint_add a b) = (digits_val a + digits_val b) mod 2 ^ (32 * length a) \<and>
    digits_val (base_uint_neg a) = (2 ^ (32 * length a) - digits_val a) mod 2 ^ (32 * length a) \<and>
    (digits_val (base_uint_sub a b) + digits_val b) mod 2 ^ (32 * length a) = digits_val a \<and>
    digits_val (base_uint_mul a b) = (digits_val a * digits_val b) mod 2 ^ (32 * length a) \<and>
    digits_val (base_uint_mul32 a k) = (digits_val a * unat k) mod 2 ^ (32 * length a)"
  unfolding W_power [symmetric] using assms base_uint_sub_cancel [OF assms]
  by (simp add: limb_val)

theorem base_uint_ring_witness:
  "digits_val (base_uint_add [0xffffffff, 0xffffffff] [2, 0]) =
      (digits_val [0xffffffff, 0xffffffff :: u32] + digits_val [2, 0 :: u32]) mod 2 ^ (32 * length [0xffffffff, 0xffffffff :: u32]) \<and>
    digits_val (base_uint_neg [0xffffffff, 0xffffffff]) = (2 ^ (32 * length [0xffffffff, 0xffffffff :: u32]) -
      digits_val [0xffffffff, 0xffffffff :: u32]) mod 2 ^ (32 * length [0xffffffff, 0xffffffff :: u32]) \<and>
    (digits_val (base_uint_sub [0xffffffff, 0xffffffff] [2, 0]) + digits_val [2, 0 :: u32]) mod
      2 ^ (32 * length [0xffffffff, 0xffffffff :: u32]) = digits_val [0xffffffff, 0xffffffff :: u32] \<and>
    digits_val (base_uint_mul [0xffffffff, 0xffffffff] [2, 0]) =
      (digits_val [0xffffffff, 0xffffffff :: u32] * digits_val [2, 0 :: u32]) mod 2 ^ (32 * length [0xffffffff, 0xffffffff :: u32]) \<and>
    digits_val (base_uint_mul32 [0xffffffff, 0xffffffff] 5) =
      (digits_val [0xffffffff, 0xffffffff :: u32] * unat (5 :: u32)) mod 2 ^ (32 * length [0xffffffff, 0xffffffff :: u32])"
  by (rule base_uint_ring) simp

text \<open>
  (C16) Encoding a 256-bit number into compact form never fails an assertion.  Decoding
  the result gives the same sign, no overflow, and the number with all but its three leading
  bytes cleared; when bytes are cleared at least fifteen significant bits are kept.
\<close>

theorem SetCompact_GetCompact:
  assumes "length a = 8"
  shows "\<exists>c v. GetCompact a f = Some c \<and> SetCompact c = (v, f \<and> digits_val a \<noteq> 0, False) \<and>
    (let k = unat (drop_bit 24 c) - 3
     in digits_val v = digits_val a div 256 ^ k * 256 ^ k \<and>
        (0 < k \<longrightarrow> 2 ^ 15 \<le> digits_val a div 256 ^ k))"
  using assms by (rule SetCompact_GetCompact_val [where f = f]) (auto simp: Let_def)

theorem SetCompact_GetCompact_witness:
  "\<exists>c v. GetCompact [0, 0, 0, 0, 0, 0, 0xffff0000, 0] False = Some c \<and>
     SetCompact c = (v, False \<and> digits_val [0, 0, 0, 0, 0, 0, 0xffff0000, 0 :: u32] \<noteq> 0, False) \<and>
    (let k = unat (drop_bit 24 c) - 3
     in digits_val v = digits_val [0, 0, 0, 0, 0, 0, 0xffff0000, 0 :: u32] div 256 ^ k * 256 ^ k \<and>
        (0 < k \<longrightarrow> 2 ^ 15 \<le> digits_val [0, 0, 0, 0, 0, 0, 0xffff0000, 0 :: u32] div 256 ^ k))"
  by (rule SetCompact_GetCompact) simp

text \<open>
  (C19) For a degree between 2 and 63 the integer root passes its assertion and brackets
  the number: the root to the power is at most the number, and adding one unit at the
  granularity of the result exceeds it.
\<close>

theorem ApproxNthRoot_correct:
  assumes "1 < n" and "n < 64" and "2 \<le> length a"
  shows "\<exists>r. ApproxNthRoot a n = Some r \<and> length r = length a \<and> digits_val r ^ n \<le> digits_val a \<and>
    digits_val a < (digits_val r + 2 ^ ((base_uint_bits a - 1) div n + 1 - 64 div n)) ^ n"
  using assms by (rule ApproxNthRoot_bounds) blast

theorem ApproxNthRoot_correct_witness:
  "\<exists>r. ApproxNthRoot [0, 0, 4, 0, 0, 0, 0, 0] 2 = Some r \<and> length r = length [0, 0, 4, 0, 0, 0, 0, 0 :: u32] \<and>
    digits_val r ^ 2 \<le> digits_val [0, 0, 4, 0, 0, 0, 0, 0 :: u32] \<and>
    digits_val [0, 0, 4, 0, 0, 0, 0, 0 :: u32] <
      (digits_val r + 2 ^ ((base_uint_bits [0, 0, 4, 0, 0, 0, 0, 0] - 1) div 2 + 1 - 64 div 2)) ^ 2"
  by (rule ApproxNthRoot_correct) simp_all

end
