(* ===== verification/Pow.thy ===== *)
theory Pow
  imports Block_Index Consensus_Params Arith_Uint256_Compact
begin

text \<open>
  Proof of work (\<open>pow.cpp\<close>): the three retargeting rules, the search for the previous block
  of an algorithm and the check of a hash against its target.  Results are wrapped twice:
  the outer \<open>option\<close> is a walk over the block tree that does not return, the sum is an
  exception or failed assertion of the 256-bit arithmetic.
\<close>

unbundle bit_operations_syntax

datatype pow_error = Pow_uint uint_error | Pow_assert

subsection \<open>Model\<close>

definition too_late :: "Params \<Rightarrow> CBlockIndex \<Rightarrow> CBlockIndex \<Rightarrow> bool" where
  "too_late params b prev \<longleftrightarrow> uint (nTime b) > uint (nTime prev) + nPowTargetSpacing params * 6"

partial_function (option) GetLastBlockIndexForAlgo ::
  "block_store \<Rightarrow> block_id option \<Rightarrow> Params \<Rightarrow> int \<Rightarrow> block_id option option" where
  "GetLastBlockIndexForAlgo st pindex params algo =
     (case pindex of
        None \<Rightarrow> Some None
      | Some p \<Rightarrow> do {
          b \<leftarrow> deref st p;
          if GetAlgo b \<noteq> algo then GetLastBlockIndexForAlgo st (pprev b) params algo
          else do {
            skip \<leftarrow> (if fPowAllowMinDifficultyBlocks params then
                       (case pprev b of None \<Rightarrow> Some False
                        | Some q \<Rightarrow> map_option (too_late params b) (deref st q))
                     else Some False);
            if skip then GetLastBlockIndexForAlgo st (pprev b) params algo else Some (Some p) } })"

fun walk_back :: "block_store \<Rightarrow> nat \<Rightarrow> block_id option \<Rightarrow> block_id option option" where
  "walk_back st 0 pindex = Some pindex"
| "walk_back st (Suc n) None = Some None"
| "walk_back st (Suc n) (Some p) = do { b \<leftarrow> deref st p; walk_back st n (pprev b) }"

definition clamp_timespan :: "int \<Rightarrow> int \<Rightarrow> int \<Rightarrow> int \<Rightarrow> int" where
  "clamp_timespan target minTs maxTs nActual =
     (let n1 = target + (nActual - target) sdiv 4;
          n2 = (if n1 < minTs then minTs else n1)
      in if n2 > maxTs then maxTs else n2)"

text \<open>
  \<open>bnNew *= x; bnNew /= y\<close>: an \<open>int64_t\<close> factor selects the \<open>uint32_t\<close> multiplication, an
  \<open>int64_t\<close> divisor is widened through \<open>uint64_t\<close>.
\<close>

definition scale :: "arith_uint256 \<Rightarrow> u32 \<Rightarrow> u64 \<Rightarrow> uint_error + arith_uint256" where
  "scale bn x y = base_uint_div (base_uint_mul32 bn x) (base_uint_of_u64 8 y)"

fun scale_n :: "nat \<Rightarrow> u32 \<Rightarrow> u64 \<Rightarrow> arith_uint256 \<Rightarrow> uint_error + arith_uint256" where
  "scale_n 0 x y bn = Inr bn"
| "scale_n (Suc n) x y bn =
     (case scale bn x y of Inl e \<Rightarrow> Inl e | Inr bn' \<Rightarrow> scale_n n x y bn')"

definition adjust :: "Params \<Rightarrow> int \<Rightarrow> arith_uint256 \<Rightarrow> uint_error + arith_uint256" where
  "adjust params nAdjustments bn =
     (let step = 100 + nLocalTargetAdjustment params
      in if nAdjustments > 0 then scale_n (nat nAdjustments) 100 (word_of_int step) bn
         else if nAdjustments < 0 then scale_n (nat (- nAdjustments)) (word_of_int step) 100 bn
         else Inr bn)"

definition retarget :: "Params \<Rightarrow> u32 \<Rightarrow> int \<Rightarrow> int \<Rightarrow> int \<Rightarrow> pow_error + u32" where
  "retarget params prevBits nActualTimespan target nAdjustments =
     (case scale (fst (SetCompact prevBits)) (word_of_int nActualTimespan) (word_of_int target) of
        Inl e \<Rightarrow> Inl (Pow_uint e)
      | Inr bn1 \<Rightarrow>
        (case adjust params nAdjustments bn1 of
           Inl e \<Rightarrow> Inl (Pow_uint e)
         | Inr bn2 \<Rightarrow>
           let limit = UintToArith256 (powLimit params);
               bnNew = (if CompareTo bn2 limit > 0 then limit else bn2)
           in case GetCompact bnNew False of None \<Rightarrow> Inl Pow_assert | Some c \<Rightarrow> Inr c))"

text \<open>
  The common shape of the three versions: \<open>nWalk\<close> blocks of averaging interval, a target
  timespan with its bounds, and the number of algorithms of the per-algorithm adjustment.
\<close>

definition next_work ::
  "block_store \<Rightarrow> block_id option \<Rightarrow> Params \<Rightarrow> int \<Rightarrow> int \<Rightarrow> int \<Rightarrow> int \<Rightarrow> int \<Rightarrow> int \<Rightarrow> (pow_error + u32) option"
where
  "next_work st pindexLast params algo nWalk target minTs maxTs nAlgos =
     (case GetCompact (UintToArith256 (powLimit params)) False of
        None \<Rightarrow> Some (Inl Pow_assert)
      | Some npowWorkLimit \<Rightarrow>
        (case pindexLast of
           None \<Rightarrow> Some (Inr npowWorkLimit)
         | Some pLast \<Rightarrow> do {
             pindexFirst \<leftarrow> walk_back st (nat nWalk) (Some pLast);
             pindexPrevAlgo \<leftarrow> GetLastBlockIndexForAlgo st (Some pLast) params algo;
             case (pindexPrevAlgo, pindexFirst) of
               (Some pPrev, Some pFirst) \<Rightarrow>
                 if fPowNoRetargeting params then Some (Inr npowWorkLimit)
                 else do {
                   mLast \<leftarrow> GetMedianTimePast st pLast;
                   mFirst \<leftarrow> GetMedianTimePast st pFirst;
                   bLast \<leftarrow> deref st pLast;
                   bPrev \<leftarrow> deref st pPrev;
                   Some (retarget params (nBits bPrev)
                           (clamp_timespan target minTs maxTs (mLast - mFirst)) target
                           (nHeight bPrev + nAlgos - 1 - nHeight bLast)) }
             | _ \<Rightarrow> Some (Inr npowWorkLimit) }))"

definition GetNextWorkRequiredV1 ::
  "block_store \<Rightarrow> block_id option \<Rightarrow> Params \<Rightarrow> int \<Rightarrow> (pow_error + u32) option" where
  "GetNextWorkRequiredV1 st pindexLast params algo =
     next_work st pindexLast params algo (NUM_ALGOS * nAveragingInterval params)
       (nAveragingTargetTimespan params) (nMinActualTimespan params) (nMaxActualTimespan params)
       NUM_ALGOS"

definition GetNextWorkRequiredV2 ::
  "block_store \<Rightarrow> block_id option \<Rightarrow> Params \<Rightarrow> int \<Rightarrow> (pow_error + u32) option" where
  "GetNextWorkRequiredV2 st pindexLast params algo =
     next_work st pindexLast params algo (NUM_ALGOSV2 * nAveragingInterval params)
       (nAveragingTargetTimespanV2 params) (nMinActualTimespanV2 params) (nMaxActualTimespanV2 params)
       NUM_ALGOSV2"

definition GetNextWorkRequiredV3 ::
  "block_store \<Rightarrow> block_id option \<Rightarrow> Params \<Rightarrow> int \<Rightarrow> (pow_error + u32) option" where
  "GetNextWorkRequiredV3 st pindexLast params algo =
     do { h \<leftarrow> (case pindexLast of None \<Rightarrow> Some 0 | Some p \<Rightarrow> map_option nHeight (deref st p));
          next_work st pindexLast params algo
            ((if h < AlgoChangeHeight params then NUM_ALGOSV2 else NUM_ALGOSV3) *
             nAveragingInterval params)
            (nAveragingTargetTimespanV2 params) (nMinActualTimespanV3 params)
            (nMaxActualTimespanV3 params)
            (if h < AlgoChangeHeight params then NUM_ALGOSV2
             else if h < nSwitchHeight params then NUM_ALGOSV3 else NUM_ALGOSV4) }"

definition GetNextWorkRequired ::
  "block_store \<Rightarrow> block_id option \<Rightarrow> Params \<Rightarrow> int \<Rightarrow> (pow_error + u32) option" where
  "GetNextWorkRequired st pindexLast params algo =
     (case pindexLast of
        None \<Rightarrow> GetNextWorkRequiredV1 st pindexLast params algo
      | Some p \<Rightarrow> do {
          b \<leftarrow> deref st p;
          if nHeight b < v2DiffChangeHeight params then GetNextWorkRequiredV1 st pindexLast params algo
          else if nHeight b < v3DiffChangeHeight params
          then GetNextWorkRequiredV2 st pindexLast params algo
          else GetNextWorkRequiredV3 st pindexLast params algo })"

definition CheckProofOfWork :: "uint256 \<Rightarrow> u32 \<Rightarrow> Params \<Rightarrow> bool" where
  "CheckProofOfWork hash bits params =
     (let (bnTarget, fNegative, fOverflow) = SetCompact bits
      in if fNegative \<or> EqualTo bnTarget 0 \<or> fOverflow \<or>
            CompareTo bnTarget (UintToArith256 (powLimit params)) > 0
         then False
         else if CompareTo (UintToArith256 hash) bnTarget > 0 then False
         else True)"

text \<open>
  The products are \<open>double\<close>s rounded towards zero: \<open>0.00015 * 100000\<close> is the largest
  \<open>double\<close> below 15.
\<close>

definition GetAlgoWeight :: "int \<Rightarrow> u32" where
  "GetAlgoWeight algo =
     (if algo = ALGO_SHA256D then 500
      else if algo = ALGO_YESPOWER then 14
      else if algo = ALGO_GHOSTRIDER then 600000
      else if algo = ALGO_LYRA2 then 600000
      else if algo = ALGO_BUTKSCRYPT then 140000
      else if algo = ALGO_SCRYPT then 120000
      else 14)"

subsection \<open>Scaling\<close>

text \<open>
  What the retargeting rules need from the 256-bit arithmetic: a scaling step that returns
  for every divisor but zero, wrapping at \<open>M\<close> before it divides.
\<close>

locale scaling =
  fixes ok :: "'n \<Rightarrow> bool" and val :: "'n \<Rightarrow> nat" and M :: nat
    and scl :: "'n \<Rightarrow> u32 \<Rightarrow> u64 \<Rightarrow> 'e + 'n"
    and scln :: "nat \<Rightarrow> u32 \<Rightarrow> u64 \<Rightarrow> 'n \<Rightarrow> 'e + 'n"
  assumes scl: "ok a \<Longrightarrow> d \<noteq> 0 \<Longrightarrow>
      \<exists>b. scl a m d = Inr b \<and> ok b \<and> val b = val a * unat m mod M div unat d"
    and scln_0: "scln 0 m d a = Inr a"
    and scln_Suc: "scln (Suc n) m d a =
      (case scl a m d of Inl e \<Rightarrow> Inl e | Inr b \<Rightarrow> scln n m d b)"
begin

lemma scln_total:
  "ok a \<Longrightarrow> d \<noteq> 0 \<Longrightarrow> \<exists>b. scln n m d a = Inr b \<and> ok b"
proof (induction n arbitrary: a)
  case (Suc n)
  then obtain c where "scl a m d = Inr c" "ok c" using scl by blast
  with Suc show ?case by (simp add: scln_Suc)
qed (simp add: scln_0)

lemma scln_exact:
  assumes "ok a" and "d \<noteq> 0"
    and "\<And>k. k < n \<Longrightarrow> ((\<lambda>v. v * unat m div unat d) ^^ k) (val a) * unat m < M"
  shows "\<exists>b. scln n m d a = Inr b \<and> ok b \<and> val b = ((\<lambda>v. v * unat m div unat d) ^^ n) (val a)"
  using assms(1,3)
proof (induction n arbitrary: a)
  case (Suc n)
  obtain c where c: "scl a m d = Inr c" "ok c" "val c = val a * unat m mod M div unat d"
    using scl [OF Suc.prems(1) assms(2)] by blast
  have v: "val c = val a * unat m div unat d" using Suc.prems(2) [of 0] c(3) by simp
  have "((\<lambda>v. v * unat m div unat d) ^^ k) (val c) * unat m < M" if "k < n" for k
    using Suc.prems(2) [of "Suc k"] that by (simp add: v funpow_Suc_right del: funpow.simps)
  from Suc.IH [OF c(2) this] show ?case
    by (simp add: scln_Suc c(1) v funpow_Suc_right del: funpow.simps)
qed (simp add: scln_0)

lemma scl_le:
  assumes "ok a" and "d \<noteq> 0" and "unat m \<le> unat d"
  shows "\<exists>b. scl a m d = Inr b \<and> ok b \<and> val b \<le> val a"
proof -
  obtain b where b: "scl a m d = Inr b" "ok b" "val b = val a * unat m mod M div unat d"
    using scl [OF assms(1,2)] by blast
  have "val a * unat m mod M div unat d \<le> val a * unat d div unat d"
    by (rule div_le_mono) (meson assms(3) le_trans mod_less_eq_dividend mult_le_mono2)
  also have "\<dots> = val a" using assms(2) by (simp add: unat_eq_zero)
  finally show ?thesis using b by simp
qed

lemma scln_le:
  assumes "ok a" and "d \<noteq> 0" and "unat m \<le> unat d"
  shows "\<exists>b. scln n m d a = Inr b \<and> ok b \<and> val b \<le> val a"
  using assms(1)
proof (induction n arbitrary: a)
  case (Suc n)
  obtain c where "scl a m d = Inr c" "ok c" "val c \<le> val a" using scl_le [OF Suc.prems assms(2,3)] by blast
  then show ?case using Suc.IH [of c] by (auto simp: scln_Suc)
qed (simp add: scln_0)

end

lemma unat_eq_0_u64: "unat (d :: u64) = 0 \<longleftrightarrow> d = 0"
  by (rule unat_eq_zero)

lemma scale_val:
  assumes "length a = 8" and "d \<noteq> 0"
  shows "\<exists>b. scale a m d = Inr b \<and> length b = 8 \<and>
    digits_val b = digits_val a * unat m mod 2 ^ 256 div unat d"
proof -
  have d: "digits_val (base_uint_of_u64 8 d) \<noteq> 0"
    using assms(2) by (simp add: base_uint_of_u64_val unat_eq_0_u64)
  have len: "length (base_uint_mul32 a m) = length (base_uint_of_u64 8 d)"
    using assms(1) by simp
  obtain q where "base_uint_div (base_uint_mul32 a m) (base_uint_of_u64 8 d) = Inr q"
    and "length q = length (base_uint_mul32 a m)"
    and "digits_val q = digits_val (base_uint_mul32 a m) div digits_val (base_uint_of_u64 8 d)"
    using len d by (rule base_uint_div_val)
  then show ?thesis
    using assms(1) by (simp add: scale_def base_uint_mul32_val base_uint_of_u64_val)
qed

interpretation uint256: scaling "\<lambda>a. length a = 8" digits_val "2 ^ 256" scale scale_n
proof
  show "\<exists>b. scale a m d = Inr b \<and> length b = 8 \<and>
      digits_val b = digits_val a * unat m mod 2 ^ 256 div unat d"
    if "length a = 8" "d \<noteq> 0" for a m d
    using that by (rule scale_val)
qed simp_all

subsection \<open>Walks over the tree\<close>

lemma walk_back_pprev_n:
  assumes "wf_links st" and "valid_ptr st p"
  shows "\<exists>r. walk_back st n p = Some r \<and> valid_ptr st r"
  using assms(2)
proof (induction n arbitrary: p)
  case (Suc n)
  then show ?case using assms(1) by (cases p) simp_all
qed simp

lemma walk_back_beyond:
  assumes "wf_links st" and "p < length st" and "nHeight (st ! p) < int n"
  shows "walk_back st n (Some p) = Some None"
  using assms(2,3)
proof (induction n arbitrary: p)
  case 0
  then show ?case using wf_linkD(1) [OF assms(1) 0(1)] by simp
next
  case (Suc n)
  show ?case
  proof (cases "pprev (st ! p)")
    case None
    then show ?thesis using Suc.prems by (cases n) simp_all
  next
    case (Some q)
    then show ?thesis using Suc wf_linkD(3) [OF assms(1) Suc.prems(1) Some] by simp
  qed
qed

lemma walk_back_within:
  assumes "wf_links st" and "p < length st" and "int n \<le> nHeight (st ! p)"
  shows "\<exists>f. walk_back st n (Some p) = Some (Some f) \<and> f < length st"
  using assms(2,3)
proof (induction n arbitrary: p)
  case (Suc n)
  then obtain q where "pprev (st ! p) = Some q" using wf_linkD(2) [OF assms(1) Suc.prems(1)] by (cases "pprev (st ! p)") auto
  then show ?case using Suc wf_linkD(3) [OF assms(1) Suc.prems(1)] by simp
qed simp

text \<open>The entries the search accepts: the algorithm's blocks, without the late ones.\<close>

definition eligible :: "block_store \<Rightarrow> Params \<Rightarrow> int \<Rightarrow> block_id \<Rightarrow> bool" where
  "eligible st params algo p \<longleftrightarrow> GetAlgo (st ! p) = algo \<and>
     \<not> (fPowAllowMinDifficultyBlocks params \<and>
        (case pprev (st ! p) of None \<Rightarrow> False | Some q \<Rightarrow> too_late params (st ! p) (st ! q)))"

lemma GetLastBlockIndexForAlgo_step:
  assumes "wf_links st" and "p < length st"
  shows "GetLastBlockIndexForAlgo st (Some p) params algo =
    (if eligible st params algo p then Some (Some p)
     else GetLastBlockIndexForAlgo st (pprev (st ! p)) params algo)"
  using assms wf_linkD(3) [OF assms]
  by (subst GetLastBlockIndexForAlgo.simps) (cases "pprev (st ! p)"; auto simp: eligible_def)

lemma GetLastBlockIndexForAlgo_None [simp]:
  "GetLastBlockIndexForAlgo st None params algo = Some None"
  by (simp add: GetLastBlockIndexForAlgo.simps)

text \<open>
  The search returns, and what it returns is the first eligible entry on the way back:
  either there is none, or one exists \<open>n\<close> steps back and none is nearer.
\<close>

lemma GetLastBlockIndexForAlgo_nearest:
  assumes wf: "wf_links st" and "p < length st"
  shows "(\<exists>n q. GetLastBlockIndexForAlgo st (Some p) params algo = Some (Some q) \<and>
            q < length st \<and> pprev_n st n p = Some q \<and> eligible st params algo q \<and>
            (\<forall>m r. m < n \<longrightarrow> pprev_n st m p = Some r \<longrightarrow> \<not> eligible st params algo r)) \<or>
         GetLastBlockIndexForAlgo st (Some p) params algo = Some None \<and>
           (\<forall>m r. pprev_n st m p = Some r \<longrightarrow> \<not> eligible st params algo r)"
  using assms(2)
proof (induction "nat (nHeight (st ! p))" arbitrary: p rule: less_induct)
  case less
  note step = GetLastBlockIndexForAlgo_step [OF wf less.prems]
  show ?case
  proof (cases "eligible st params algo p")
    case True
    then have "GetLastBlockIndexForAlgo st (Some p) params algo = Some (Some p) \<and>
        p < length st \<and> pprev_n st 0 p = Some p \<and> eligible st params algo p \<and>
        (\<forall>m r. m < 0 \<longrightarrow> pprev_n st m p = Some r \<longrightarrow> \<not> eligible st params algo r)"
      using step less.prems by simp
    then show ?thesis by blast
  next
    case no: False
    show ?thesis
    proof (cases "pprev (st ! p)")
      case None
      then have "pprev_n st m p = Some r \<Longrightarrow> r = p" for m r
        using less.prems by (cases m) auto
      then show ?thesis using step no None by auto
    next
      case (Some q)
      have q: "q < length st" "nHeight (st ! q) = nHeight (st ! p) - 1"
        using wf_linkD(3) [OF wf less.prems Some] by auto
      have "nat (nHeight (st ! q)) < nat (nHeight (st ! p))"
        using wf_linkD(1) [OF wf q(1)] q(2) by simp
      note IH = less.hyps [OF this q(1)]
      have eq: "GetLastBlockIndexForAlgo st (Some p) params algo = GetLastBlockIndexForAlgo st (Some q) params algo"
        using step no Some by simp
      have prv: "pprev_n st (Suc m) p = pprev_n st m q" for m
        using less.prems Some by simp
      have none: "\<not> eligible st params algo r"
        if "\<forall>m' r. m' < n \<longrightarrow> pprev_n st m' q = Some r \<longrightarrow> \<not> eligible st params algo r"
          and "m < Suc n" and "pprev_n st m p = Some r" for n m r
        using that no prv by (cases m) auto
      from IH show ?thesis
      proof (elim disjE exE conjE)
        fix n r
        assume *: "GetLastBlockIndexForAlgo st (Some q) params algo = Some (Some r)" "r < length st"
          "pprev_n st n q = Some r" "eligible st params algo r"
          "\<forall>m r. m < n \<longrightarrow> pprev_n st m q = Some r \<longrightarrow> \<not> eligible st params algo r"
        then have "pprev_n st (Suc n) p = Some r" by (simp only: prv)
        moreover have "\<forall>m r. m < Suc n \<longrightarrow> pprev_n st m p = Some r \<longrightarrow> \<not> eligible st params algo r"
          using none [OF *(5)] by blast
        ultimately show ?thesis using eq * by metis
      next
        assume *: "GetLastBlockIndexForAlgo st (Some q) params algo = Some None"
          "\<forall>m r. pprev_n st m q = Some r \<longrightarrow> \<not> eligible st params algo r"
        have "\<not> eligible st params algo r" if "pprev_n st m p = Some r" for m r
          using that * no prv by (cases m) auto
        then show ?thesis using eq * by simp
      qed
    qed
  qed
qed

subsection \<open>Retargeting\<close>

definition limit_val :: "Params \<Rightarrow> nat" where
  "limit_val params = digits_val (UintToArith256 (powLimit params))"

text \<open>Parameters with which no division by zero can occur.\<close>

definition wf_pow_params :: "Params \<Rightarrow> bool" where
  "wf_pow_params params \<longleftrightarrow>
     (word_of_int (nAveragingTargetTimespan params) :: u64) \<noteq> 0 \<and>
     (word_of_int (nAveragingTargetTimespanV2 params) :: u64) \<noteq> 0 \<and>
     (word_of_int (100 + nLocalTargetAdjustment params) :: u64) \<noteq> 0"

lemma length_UintToArith256 [simp]: "length (UintToArith256 b) = 8"
  by (simp add: UintToArith256_def)

text \<open>A compact target in range: not negative, no overflow, at most the limit.\<close>

definition valid_bits :: "Params \<Rightarrow> u32 \<Rightarrow> bool" where
  "valid_bits params c \<longleftrightarrow>
     (let (t, neg, ov) = SetCompact c
      in \<not> neg \<and> \<not> ov \<and> length t = 8 \<and> digits_val t \<le> limit_val params)"

lemma GetCompact_valid:
  assumes "length a = 8" and "digits_val a \<le> limit_val params"
  obtains c where "GetCompact a False = Some c" and "valid_bits params c"
proof -
  obtain c v where c: "GetCompact a False = Some c" "SetCompact c = (v, False \<and> digits_val a \<noteq> 0, False)"
    "length v = 8"
    and v: "digits_val v = digits_val a div 256 ^ (unat (drop_bit 24 c) - 3) * 256 ^ (unat (drop_bit 24 c) - 3)"
    using assms(1) by (rule SetCompact_GetCompact_val)
  have "digits_val v \<le> digits_val a" by (simp add: v)
  with assms(2) c show ?thesis by (intro that [of c]) (simp_all add: valid_bits_def)
qed

lemma adjust_total:
  assumes "wf_pow_params params" and "length bn = 8"
  shows "\<exists>b. adjust params n bn = Inr b \<and> length b = 8"
proof -
  have "(word_of_int (100 + nLocalTargetAdjustment params) :: u64) \<noteq> 0"
    using assms(1) by (simp add: wf_pow_params_def)
  moreover have "(100 :: u64) \<noteq> 0" by simp
  ultimately show ?thesis
    unfolding adjust_def Let_def using uint256.scln_total [OF assms(2)] assms(2) by simp
qed

lemma length_SetCompact [simp]: "length (fst (SetCompact c)) = 8"
  by (simp add: SetCompact_def Let_def)

lemma retarget_valid:
  assumes "wf_pow_params params" and "(word_of_int target :: u64) \<noteq> 0"
  shows "\<exists>c. retarget params bits ts target n = Inr c \<and> valid_bits params c"
proof -
  obtain b1 where b1: "scale (fst (SetCompact bits)) (word_of_int ts) (word_of_int target) = Inr b1"
    "length b1 = 8"
    using uint256.scl [OF length_SetCompact assms(2)] by blast
  obtain b2 where b2: "adjust params n b1 = Inr b2" "length b2 = 8"
    using adjust_total [OF assms(1) b1(2)] by blast
  let ?l = "UintToArith256 (powLimit params)"
  let ?new = "if CompareTo b2 ?l > 0 then ?l else b2"
  have "length ?new = 8" "digits_val ?new \<le> limit_val params"
    using b2(2) by (simp_all add: CompareTo_gt_0 limit_val_def)
  then obtain c where "GetCompact ?new False = Some c" "valid_bits params c"
    by (rule GetCompact_valid)
  with b1 b2 show ?thesis by (simp add: retarget_def Let_def)
qed

lemma next_work_valid:
  assumes wf: "wf_links st" and p: "valid_ptr st pindexLast"
    and params: "wf_pow_params params" "(word_of_int target :: u64) \<noteq> 0"
  shows "\<exists>c. next_work st pindexLast params algo w target mn mx k = Some (Inr c) \<and> valid_bits params c"
proof -
  obtain l where l: "GetCompact (UintToArith256 (powLimit params)) False = Some l" "valid_bits params l"
    by (rule GetCompact_valid [of "UintToArith256 (powLimit params)" params]) (simp_all add: limit_val_def)
  show ?thesis
  proof (cases pindexLast)
    case None
    with l show ?thesis by (simp add: next_work_def)
  next
    case (Some q)
    with p have q: "q < length st" by simp
    obtain f where f: "walk_back st (nat w) (Some q) = Some f" "valid_ptr st f"
      using walk_back_pprev_n [OF wf, of "Some q" "nat w"] q by auto
    consider (found) r where "GetLastBlockIndexForAlgo st (Some q) params algo = Some (Some r)" "r < length st"
      | (none) "GetLastBlockIndexForAlgo st (Some q) params algo = Some None"
      using GetLastBlockIndexForAlgo_nearest [OF wf q, of params algo] by blast
    then show ?thesis
    proof cases
      case none
      with l f Some show ?thesis by (simp add: next_work_def)
    next
      case (found r)
      obtain m1 where m1: "GetMedianTimePast st q = Some m1"
        using GetMedianTimePast_recent [OF wf q] by (simp add: Let_def)
      show ?thesis
      proof (cases f)
        case None
        with l f(1) found Some show ?thesis by (simp add: next_work_def)
      next
        case (Some g)
        with f(2) have g: "g < length st" by simp
        obtain m2 where m2: "GetMedianTimePast st g = Some m2"
          using GetMedianTimePast_recent [OF wf g] by (simp add: Let_def)
        show ?thesis
          using l f(1) found \<open>pindexLast = Some q\<close> Some m1 m2 q
            retarget_valid [OF params, of "nBits (st ! r)" "clamp_timespan target mn mx (m1 - m2)"
              "nHeight (st ! r) + k - 1 - nHeight (st ! q)"]
          by (simp add: next_work_def)
      qed
    qed
  qed
qed

lemma GetNextWorkRequired_valid:
  assumes "wf_links st" and "valid_ptr st pindexLast" and "wf_pow_params params"
  shows "\<exists>c. GetNextWorkRequired st pindexLast params algo = Some (Inr c) \<and> valid_bits params c"
proof -
  have t: "(word_of_int (nAveragingTargetTimespan params) :: u64) \<noteq> 0"
    "(word_of_int (nAveragingTargetTimespanV2 params) :: u64) \<noteq> 0"
    using assms(3) by (simp_all add: wf_pow_params_def)
  note nw = next_work_valid [OF assms]
  show ?thesis
  proof (cases pindexLast)
    case None
    with nw [OF t(1)] show ?thesis by (simp add: GetNextWorkRequired_def GetNextWorkRequiredV1_def)
  next
    case (Some p)
    with assms(2) have "p < length st" by simp
    with Some nw [OF t(1)] nw [OF t(2)] show ?thesis
      by (simp add: GetNextWorkRequired_def GetNextWorkRequiredV1_def GetNextWorkRequiredV2_def
          GetNextWorkRequiredV3_def)
  qed
qed

lemma CheckProofOfWork_val:
  "CheckProofOfWork hash bits params \<longleftrightarrow>
     valid_bits params bits \<and> 0 < digits_val (fst (SetCompact bits)) \<and>
     digits_val (UintToArith256 hash) \<le> digits_val (fst (SetCompact bits))"
proof -
  obtain t g ov where S: "SetCompact bits = (t, g, ov)" by (cases "SetCompact bits") auto
  then have "length t = 8" using length_SetCompact [of bits] by simp
  then show ?thesis
    by (auto simp: CheckProofOfWork_def valid_bits_def S EqualTo_val CompareTo_gt_0 limit_val_def)
qed

subsection \<open>Exact retargeting\<close>

text \<open>The adjustment on unbounded numbers, and when the 256-bit products do not wrap.\<close>

definition adjust_factor :: "Params \<Rightarrow> int \<Rightarrow> nat \<times> nat" where
  "adjust_factor params n = (let step = nat (100 + nLocalTargetAdjustment params)
     in if n > 0 then (100, step) else (step, 100))"

definition adjust_val :: "Params \<Rightarrow> int \<Rightarrow> nat \<Rightarrow> nat \<Rightarrow> nat" where
  "adjust_val params n k v = (let (x, y) = adjust_factor params n in ((\<lambda>v. v * x div y) ^^ k) v)"

definition adjust_fits :: "Params \<Rightarrow> int \<Rightarrow> nat \<Rightarrow> bool" where
  "adjust_fits params n v \<longleftrightarrow>
     list_all (\<lambda>k. adjust_val params n k v * fst (adjust_factor params n) < 2 ^ 256) [0..<nat \<bar>n\<bar>]"

lemma unat_word_of_int_small:
  "0 \<le> i \<Longrightarrow> i < 2 ^ LENGTH('a) \<Longrightarrow> unat (word_of_int i :: 'a::len word) = nat i"
  by (simp add: unsigned_of_int take_bit_int_eq_self)

lemma adjust_exact:
  assumes a: "0 \<le> nLocalTargetAdjustment params" "nLocalTargetAdjustment params < 2 ^ 31"
    and bn: "length bn = 8" and fits: "adjust_fits params n (digits_val bn)"
  shows "\<exists>b. adjust params n bn = Inr b \<and> length b = 8 \<and>
    digits_val b = adjust_val params n (nat \<bar>n\<bar>) (digits_val bn)"
proof -
  define s where "s = 100 + nLocalTargetAdjustment params"
  have s: "0 < s" "s < 2 ^ 32" "s < 2 ^ 64" using a by (simp_all add: s_def)
  have s32: "unat (word_of_int s :: u32) = nat s" and s64: "unat (word_of_int s :: u64) = nat s"
    using s by (simp_all add: unat_word_of_int_small)
  have nz: "(word_of_int s :: u64) \<noteq> 0" using s64 s(1) by auto
  have f: "adjust_val params n k (digits_val bn) * fst (adjust_factor params n) < 2 ^ 256"
    if "k < nat \<bar>n\<bar>" for k using fits that by (simp add: adjust_fits_def list_all_iff)
  consider "n > 0" | "n < 0" | "n = 0" by linarith
  then show ?thesis
  proof cases
    case 1
    then show ?thesis
      using uint256.scln_exact [OF bn nz, of "nat n" 100] f
      by (simp add: adjust_def adjust_val_def adjust_factor_def s64 Let_def s_def [symmetric])
  next
    case 2
    then show ?thesis
      using uint256.scln_exact [OF bn, of 100 "nat (- n)" "word_of_int s"] f
      by (simp add: adjust_def adjust_val_def adjust_factor_def s32 Let_def s_def [symmetric])
  next
    case 3
    then show ?thesis using bn by (simp add: adjust_def adjust_val_def Let_def split: prod.splits)
  qed
qed

lemma retarget_val:
  assumes a: "0 \<le> nLocalTargetAdjustment params" "nLocalTargetAdjustment params < 2 ^ 31"
    and ts: "0 \<le> ts" "ts < 2 ^ 32" and target: "0 < target" "target < 2 ^ 63"
    and v: "v = digits_val (fst (SetCompact bits))" and fit: "v * nat ts < 2 ^ 256"
    and fits: "adjust_fits params n (v * nat ts div nat target)"
    and w: "w = min (limit_val params) (adjust_val params n (nat \<bar>n\<bar>) (v * nat ts div nat target))"
  shows "\<exists>c k. retarget params bits ts target n = Inr c \<and> k = unat (drop_bit 24 c) - 3 \<and>
    digits_val (fst (SetCompact c)) = w div 256 ^ k * 256 ^ k"
proof -
  have uts: "unat (word_of_int ts :: u32) = nat ts" and ut: "unat (word_of_int target :: u64) = nat target"
    using ts target by (simp_all add: unat_word_of_int_small)
  have nz: "(word_of_int target :: u64) \<noteq> 0" using ut target(1) by auto
  obtain b1 where b1: "scale (fst (SetCompact bits)) (word_of_int ts) (word_of_int target) = Inr b1"
    "length b1 = 8" "digits_val b1 = v * nat ts div nat target"
    using uint256.scl [OF length_SetCompact nz, of bits "word_of_int ts"] fit by (auto simp: uts ut v)
  obtain b2 where b2: "adjust params n b1 = Inr b2" "length b2 = 8"
    "digits_val b2 = adjust_val params n (nat \<bar>n\<bar>) (v * nat ts div nat target)"
    using adjust_exact [OF a b1(2), of n] fits by (auto simp: b1(3))
  let ?l = "UintToArith256 (powLimit params)"
  let ?new = "if CompareTo b2 ?l > 0 then ?l else b2"
  have new: "length ?new = 8" "digits_val ?new = w"
    using b2(2,3) by (simp_all add: CompareTo_gt_0 limit_val_def w min_def)
  obtain c t where c: "GetCompact ?new False = Some c" "SetCompact c = (t, False \<and> digits_val ?new \<noteq> 0, False)"
    "digits_val t = digits_val ?new div 256 ^ (unat (drop_bit 24 c) - 3) * 256 ^ (unat (drop_bit 24 c) - 3)"
    using new(1) by (rule SetCompact_GetCompact_val)
  have "retarget params bits ts target n = Inr c"
    using b1(1) b2(1) c(1) by (simp add: retarget_def Let_def)
  moreover have "digits_val (fst (SetCompact c)) =
      w div 256 ^ (unat (drop_bit 24 c) - 3) * 256 ^ (unat (drop_bit 24 c) - 3)"
    using c(2,3) unfolding new(2) by simp
  ultimately show ?thesis by blast
qed

lemma clamp_timespan_bounds:
  "mn \<le> mx \<Longrightarrow> mn \<le> clamp_timespan t mn mx n \<and> clamp_timespan t mn mx n \<le> mx"
  by (simp add: clamp_timespan_def Let_def)

lemma mainnet_timespans:
  "nAveragingTargetTimespan mainnet = 2700" "nAveragingTargetTimespanV2 mainnet = 3600"
  "nMinActualTimespan mainnet = 2484" "nMaxActualTimespan mainnet = 3132"
  "nMinActualTimespanV2 mainnet = 2430" "nMaxActualTimespanV2 mainnet = 3024"
  "nMinActualTimespanV3 mainnet = 3240" "nMaxActualTimespanV3 mainnet = 4032"
  "nLocalTargetAdjustment mainnet = 4"
  by (simp_all add: mainnet_def Let_def signed_divide_int_def)

lemma mainnet_limit_val: "limit_val mainnet = 2 ^ 248 - 1"
proof -
  have "digits_val (replicate n (0xff :: u8)) + 1 = 256 ^ n" for n by (induction n) simp_all
  from this [of 31] have "digits_val (replicate 31 (0xff :: u8)) = 2 ^ 248 - 1" by simp
  moreover have "digits_val (UintToArith256 (powLimit mainnet)) = digits_val (ArithToUint256 (UintToArith256 (powLimit mainnet)))"
    by (simp add: ArithToUint256_def digits_val_concat_bytes)
  moreover have "\<dots> = digits_val (powLimit mainnet)"
    by (subst ArithToUint256_UintToArith256) (simp_all add: mainnet_def Let_def)
  moreover have "\<dots> = digits_val (replicate 31 (0xff :: u8))"
    by (simp add: mainnet_def Let_def digits_val_append)
  ultimately show ?thesis by (simp only: limit_val_def)
qed

lemma retarget_cap:
  assumes "(word_of_int target :: u64) \<noteq> 0" and "0 \<le> n"
    and "0 \<le> nLocalTargetAdjustment params" and "nLocalTargetAdjustment params < 2 ^ 31"
  shows "\<exists>c. retarget params bits ts target n = Inr c \<and>
    digits_val (fst (SetCompact c)) \<le> (2 ^ 256 - 1) div unat (word_of_int target :: u64)"
proof -
  obtain b1 where b1: "scale (fst (SetCompact bits)) (word_of_int ts) (word_of_int target) = Inr b1" "length b1 = 8"
    "digits_val b1 = digits_val (fst (SetCompact bits)) * unat (word_of_int ts :: u32) mod 2 ^ 256 div unat (word_of_int target :: u64)"
    using uint256.scl [OF length_SetCompact assms(1)] by blast
  define step where "step = 100 + nLocalTargetAdjustment params"
  have "100 \<le> step" "step < 2 ^ 64" using assms(3,4) by (simp_all add: step_def)
  then have step: "unat (word_of_int step :: u64) = nat step" "100 \<le> step" by (simp_all add: unat_word_of_int_small)
  then have "(word_of_int step :: u64) \<noteq> 0" "unat (100 :: u32) \<le> unat (word_of_int step :: u64)" by auto
  from uint256.scln_le [OF b1(2) this] obtain b2 where b2: "adjust params n b1 = Inr b2" "length b2 = 8" "digits_val b2 \<le> digits_val b1"
    using assms(2) b1(2) by (cases "n = 0") (auto simp: adjust_def Let_def step_def)
  let ?l = "UintToArith256 (powLimit params)"
  let ?new = "if CompareTo b2 ?l > 0 then ?l else b2"
  have new: "length ?new = 8" "digits_val ?new \<le> digits_val b2" using b2(2) by (simp_all add: CompareTo_gt_0)
  obtain c t where c: "GetCompact ?new False = Some c" "SetCompact c = (t, False \<and> digits_val ?new \<noteq> 0, False)"
    "digits_val t = digits_val ?new div 256 ^ (unat (drop_bit 24 c) - 3) * 256 ^ (unat (drop_bit 24 c) - 3)"
    using new(1) by (rule SetCompact_GetCompact_val)
  have "digits_val t \<le> digits_val ?new" unfolding c(3) by simp
  also have "\<dots> \<le> digits_val b1" using new(2) b2(3) by (rule le_trans)
  also have "\<dots> \<le> (2 ^ 256 - 1) div unat (word_of_int target :: u64)"
    unfolding b1(3) by (rule div_le_mono) (simp add: less_Suc_eq_le [symmetric])
  finally have "digits_val (fst (SetCompact c)) \<le> (2 ^ 256 - 1) div unat (word_of_int target :: u64)" using c(2) by simp
  moreover have "retarget params bits ts target n = Inr c" using b1(1) b2(1) c(1) by (simp add: retarget_def Let_def)
  ultimately show ?thesis by blast
qed

text \<open>The two ways through \<open>next_work\<close>: the averaging interval reaches beyond the root, or it does not.\<close>

lemma next_work_early:
  assumes "wf_links st" and "p < length st" and "nHeight (st ! p) < w"
    and "GetCompact (UintToArith256 (powLimit params)) False = Some c"
  shows "next_work st (Some p) params algo w target mn mx k = Some (Inr c)"
proof -
  obtain a where "GetLastBlockIndexForAlgo st (Some p) params algo = Some a"
    using GetLastBlockIndexForAlgo_nearest [OF assms(1,2), of params algo] by blast
  moreover have "walk_back st (nat w) (Some p) = Some None" using assms(3) by (intro walk_back_beyond [OF assms(1,2)]) simp
  ultimately show ?thesis using assms(4) by (cases a) (simp_all add: next_work_def)
qed

lemma next_work_retargets:
  assumes wf: "wf_links st" and p: "p < length st" and w: "0 \<le> w" "w \<le> nHeight (st ! p)"
    and r: "GetLastBlockIndexForAlgo st (Some p) params algo = Some (Some r)" and "\<not> fPowNoRetargeting params"
  shows "\<exists>ts. next_work st (Some p) params algo w target mn mx k =
    Some (retarget params (nBits (st ! r)) (clamp_timespan target mn mx ts) target (nHeight (st ! r) + k - 1 - nHeight (st ! p)))"
proof -
  obtain f where f: "walk_back st (nat w) (Some p) = Some (Some f)" "f < length st"
    using walk_back_within [OF wf p, of "nat w"] w by auto
  obtain m1 m2 where m: "GetMedianTimePast st p = Some m1" "GetMedianTimePast st f = Some m2"
    using GetMedianTimePast_recent [OF wf p] GetMedianTimePast_recent [OF wf f(2)] by (auto simp: Let_def)
  have "r < length st" using GetLastBlockIndexForAlgo_nearest [OF wf p, of params algo] r by auto
  moreover obtain l where "GetCompact (UintToArith256 (powLimit params)) False = Some l"
    by (rule GetCompact_valid [of "UintToArith256 (powLimit params)" params]) (simp_all add: limit_val_def)
  ultimately have "next_work st (Some p) params algo w target mn mx k =
      Some (retarget params (nBits (st ! r)) (clamp_timespan target mn mx (m1 - m2)) target (nHeight (st ! r) + k - 1 - nHeight (st ! p)))"
    using f m p r assms(6) by (simp add: next_work_def)
  then show ?thesis by blast
qed

lemma mainnet_heights:
  "v2DiffChangeHeight mainnet = 5" "v3DiffChangeHeight mainnet = 10" "AlgoChangeHeight mainnet = 28"
  "nSwitchHeight mainnet = 150000" "nAveragingInterval mainnet = 10" "\<not> fPowNoRetargeting mainnet"
  by (simp_all add: mainnet_def Let_def)

subsection \<open>Properties\<close>

text \<open>
  (C6) On a tree with consistent links the next work required is computed for every
  algorithm, without exception and without an endless walk, and it is a compact target that
  is not negative, does not overflow and does not exceed the proof-of-work limit.
\<close>

theorem GetNextWorkRequired_in_range:
  assumes "wf_links st" and "valid_ptr st pindexLast" and "wf_pow_params params"
  shows "\<exists>c. GetNextWorkRequired st pindexLast params algo = Some (Inr c) \<and> valid_bits params c"
  using assms by (rule GetNextWorkRequired_valid)

definition genesis_entry :: CBlockIndex where
  "genesis_entry = CBlockIndex_SetNull\<lparr>nVersion := 4, nTime := 1618800784, nBits := 0x20001fff\<rparr>"

theorem GetNextWorkRequired_in_range_witness:
  "\<exists>c. GetNextWorkRequired [genesis_entry] (Some 0) mainnet ALGO_SHA256D = Some (Inr c) \<and>
     valid_bits mainnet c"
proof (rule GetNextWorkRequired_in_range)
  show "wf_links [genesis_entry]"
    by (simp add: wf_links_def wf_link_def genesis_entry_def CBlockIndex_SetNull_def)
  show "wf_pow_params mainnet" by (simp add: wf_pow_params_def mainnet_timespans)
qed simp

text \<open>
  (C20) When the 256-bit products do not wrap, retargeting is exact: the previous target
  times the timespan over the target timespan, then one percentage step per adjustment,
  capped by the limit and rounded down to the three leading bytes of the compact form.
\<close>

theorem retarget_exact:
  assumes "0 \<le> nLocalTargetAdjustment params" and "nLocalTargetAdjustment params < 2 ^ 31"
    and "0 \<le> ts" and "ts < 2 ^ 32" and "0 < target" and "target < 2 ^ 63"
    and "v = digits_val (fst (SetCompact bits))" and "v * nat ts < 2 ^ 256"
    and "adjust_fits params n (v * nat ts div nat target)"
  shows "\<exists>c k. retarget params bits ts target n = Inr c \<and> k = unat (drop_bit 24 c) - 3 \<and>
    digits_val (fst (SetCompact c)) =
      min (limit_val params) (adjust_val params n (nat \<bar>n\<bar>) (v * nat ts div nat target))
        div 256 ^ k * 256 ^ k"
  using assms by (intro retarget_val) simp_all

lemma SetCompact_1b00ffff: "digits_val (fst (SetCompact 0x1b00ffff)) = 65535 * 256 ^ 24"
proof -
  obtain t g ov where S: "SetCompact 0x1b00ffff = (t, g, ov)" by (cases "SetCompact 0x1b00ffff") auto
  have "unat (0x1b00ffff :: u32) = 65535 + 2 ^ 23 * of_bool False + 2 ^ 24 * 27" by simp
  from SetCompact_val [OF this _ S] show ?thesis by (simp add: S)
qed

theorem retarget_exact_witness:
  "\<exists>c k. retarget mainnet 0x1b00ffff 3132 2700 1 = Inr c \<and> k = unat (drop_bit 24 c) - 3 \<and>
    digits_val (fst (SetCompact c)) =
      min (limit_val mainnet) (adjust_val mainnet 1 (nat \<bar>1\<bar>) (65535 * 256 ^ 24 * nat 3132 div nat 2700))
        div 256 ^ k * 256 ^ k"
  by (rule retarget_exact)
     (simp_all add: mainnet_timespans SetCompact_1b00ffff adjust_fits_def adjust_factor_def adjust_val_def)

text \<open>
  (C21) A hash passes the check exactly when the compact bits encode a positive target
  that is neither negative nor overflowing nor above the limit, and the hash, read as a
  little-endian number, is at most that target.
\<close>

theorem CheckProofOfWork_iff:
  "CheckProofOfWork hash bits params \<longleftrightarrow>
     valid_bits params bits \<and> 0 < digits_val (fst (SetCompact bits)) \<and>
     digits_val (UintToArith256 hash) \<le> digits_val (fst (SetCompact bits))"
  by (rule CheckProofOfWork_val)

text \<open>
  The search for the last block of an algorithm returns, and it returns the nearest
  eligible entry on the path to the root: none when there is none, otherwise one such that
  no entry nearer to the start is eligible.
\<close>

theorem GetLastBlockIndexForAlgo_first:
  assumes "wf_links st" and "p < length st"
  shows "(\<exists>n q. GetLastBlockIndexForAlgo st (Some p) params algo = Some (Some q) \<and>
            pprev_n st n p = Some q \<and> eligible st params algo q \<and>
            (\<forall>m r. m < n \<longrightarrow> pprev_n st m p = Some r \<longrightarrow> \<not> eligible st params algo r)) \<or>
         GetLastBlockIndexForAlgo st (Some p) params algo = Some None \<and>
           (\<forall>m r. pprev_n st m p = Some r \<longrightarrow> \<not> eligible st params algo r)"
  using GetLastBlockIndexForAlgo_nearest [OF assms, of params algo] by blast

theorem GetLastBlockIndexForAlgo_first_witness:
  "(\<exists>n q. GetLastBlockIndexForAlgo [genesis_entry] (Some 0) mainnet 0 = Some (Some q) \<and>
      pprev_n [genesis_entry] n 0 = Some q \<and> eligible [genesis_entry] mainnet 0 q \<and>
      (\<forall>m r. m < n \<longrightarrow> pprev_n [genesis_entry] m 0 = Some r \<longrightarrow> \<not> eligible [genesis_entry] mainnet 0 r)) \<or>
    GetLastBlockIndexForAlgo [genesis_entry] (Some 0) mainnet 0 = Some None \<and>
      (\<forall>m r. pprev_n [genesis_entry] m 0 = Some r \<longrightarrow> \<not> eligible [genesis_entry] mainnet 0 r)"
  by (rule GetLastBlockIndexForAlgo_first)
     (simp_all add: wf_links_def wf_link_def genesis_entry_def CBlockIndex_SetNull_def)

text \<open>
  (C22) How the targets of the main network start, on every tree.  While the last block is below
  height 50 every rule gives the proof-of-work limit: the averaging interval is not filled, so
  that neither the first nor the second rule ever retargets.  From height 50 on the target of an algorithm
  that was used recently, within as many blocks as there are algorithms, is at most a fourteenth of the
  limit, whatever the block times and the target before: the product with the timespan
  wraps at 256 bits.  So the targets fall at least fourteenfold after height 50 even if every block is on schedule,
  and the limit is out of reach for the algorithms in use.
\<close>

theorem mainnet_limit_unreachable:
  assumes "wf_links st" and "p < length st"
  shows "(nHeight (st ! p) < 50 \<longrightarrow>
      (\<exists>c. GetNextWorkRequired st (Some p) mainnet algo = Some (Inr c) \<and> GetCompact (UintToArith256 (powLimit mainnet)) False = Some c)) \<and>
    (50 \<le> nHeight (st ! p) \<and> GetLastBlockIndexForAlgo st (Some p) mainnet algo = Some (Some r) \<and>
     nHeight (st ! p) - nHeight (st ! r) < (if nHeight (st ! p) < 150000 then 5 else 6) \<longrightarrow>
      (\<exists>c. GetNextWorkRequired st (Some p) mainnet algo = Some (Inr c) \<and>
        14 * digits_val (fst (SetCompact c)) \<le> limit_val mainnet))"
proof (intro conjI impI)
  assume h: "nHeight (st ! p) < 50"
  obtain c where c: "GetCompact (UintToArith256 (powLimit mainnet)) False = Some c"
    by (rule GetCompact_valid [of "UintToArith256 (powLimit mainnet)" mainnet]) (simp_all add: limit_val_def)
  have "next_work st (Some p) mainnet algo w target mn mx k = Some (Inr c)" if "nHeight (st ! p) < w" for w target mn mx k
    using that by (intro next_work_early [OF assms _ c])
  then have "GetNextWorkRequired st (Some p) mainnet algo = Some (Inr c)"
    using assms(2) h
    by (simp add: GetNextWorkRequired_def GetNextWorkRequiredV1_def GetNextWorkRequiredV2_def GetNextWorkRequiredV3_def
        mainnet_heights NUM_ALGOS_def NUM_ALGOSV2_def NUM_ALGOSV3_def)
  with c show "\<exists>c. GetNextWorkRequired st (Some p) mainnet algo = Some (Inr c) \<and> GetCompact (UintToArith256 (powLimit mainnet)) False = Some c"
    by blast
next
  define k :: int where "k = (if nHeight (st ! p) < 150000 then 5 else 6)"
  assume "50 \<le> nHeight (st ! p) \<and> GetLastBlockIndexForAlgo st (Some p) mainnet algo = Some (Some r) \<and>
     nHeight (st ! p) - nHeight (st ! r) < (if nHeight (st ! p) < 150000 then 5 else 6)"
  then have h: "50 \<le> nHeight (st ! p)" and r: "GetLastBlockIndexForAlgo st (Some p) mainnet algo = Some (Some r)"
    and n: "0 \<le> nHeight (st ! r) + k - 1 - nHeight (st ! p)" by (auto simp: k_def)
  obtain ts where "next_work st (Some p) mainnet algo 50 3600 3240 4032 k =
      Some (retarget mainnet (nBits (st ! r)) (clamp_timespan 3600 3240 4032 ts) 3600 (nHeight (st ! r) + k - 1 - nHeight (st ! p)))"
    using next_work_retargets [OF assms _ h r mainnet_heights(6), of 3600 3240 4032 k] by auto
  then have "GetNextWorkRequired st (Some p) mainnet algo =
      Some (retarget mainnet (nBits (st ! r)) (clamp_timespan 3600 3240 4032 ts) 3600 (nHeight (st ! r) + k - 1 - nHeight (st ! p)))"
    using assms(2) h
    by (simp add: GetNextWorkRequired_def GetNextWorkRequiredV3_def mainnet_heights mainnet_timespans k_def
        NUM_ALGOSV3_def NUM_ALGOSV4_def split: if_splits)
  moreover obtain c where "retarget mainnet (nBits (st ! r)) (clamp_timespan 3600 3240 4032 ts) 3600
      (nHeight (st ! r) + k - 1 - nHeight (st ! p)) = Inr c" "digits_val (fst (SetCompact c)) \<le> (2 ^ 256 - 1) div 3600"
    using retarget_cap [OF _ n, of 3600 mainnet "nBits (st ! r)" "clamp_timespan 3600 3240 4032 ts"] by (auto simp: mainnet_timespans)
  ultimately show "\<exists>c. GetNextWorkRequired st (Some p) mainnet algo = Some (Inr c) \<and> 14 * digits_val (fst (SetCompact c)) \<le> limit_val mainnet"
    by (auto simp: mainnet_limit_val)
qed

definition uniform_chain :: "nat \<Rightarrow> block_store" where
  "uniform_chain n = map (\<lambda>i. genesis_entry\<lparr>nHeight := int i, pprev := (if i = 0 then None else Some (i - 1))\<rparr>) [0..<n]"

theorem mainnet_limit_unreachable_witness:
  "(\<exists>c. GetNextWorkRequired (uniform_chain 51) (Some 3) mainnet (GetAlgo genesis_entry) = Some (Inr c) \<and>
      GetCompact (UintToArith256 (powLimit mainnet)) False = Some c) \<and>
   (\<exists>c. GetNextWorkRequired (uniform_chain 51) (Some 50) mainnet (GetAlgo genesis_entry) = Some (Inr c) \<and>
      14 * digits_val (fst (SetCompact c)) \<le> limit_val mainnet)"
proof -
  have wf: "wf_links (uniform_chain 51)" by (auto simp: wf_links_def wf_link_def uniform_chain_def list_all_iff)
  have len: "length (uniform_chain 51) = 51" by (simp add: uniform_chain_def)
  have "eligible (uniform_chain 51) mainnet (GetAlgo genesis_entry) 50"
    by (simp add: eligible_def uniform_chain_def GetAlgo_def mainnet_def Let_def)
  then have "GetLastBlockIndexForAlgo (uniform_chain 51) (Some 50) mainnet (GetAlgo genesis_entry) = Some (Some 50)"
    using GetLastBlockIndexForAlgo_step [OF wf, of 50] len by simp
  moreover have "nHeight (uniform_chain 51 ! 3) = 3" "nHeight (uniform_chain 51 ! 50) = 50"
    by (simp_all add: uniform_chain_def del: upt_Suc)
  ultimately show ?thesis
    using mainnet_limit_unreachable [OF wf, of 3 "GetAlgo genesis_entry"] mainnet_limit_unreachable [OF wf, of 50 "GetAlgo genesis_entry" 50] len
    by simp
qed

end
