(* ===== verification/Chain.thy ===== *)
theory Chain
  imports Pow
begin

text \<open>
  The active chain and the growth of the block tree (\<open>chain.h\<close>, \<open>chain.cpp\<close>, and
  \<open>FindForkInGlobalIndex\<close>, \<open>AddToBlockIndex\<close> and the candidate order of \<open>validation.cpp\<close>).
  A \<open>CChain\<close> is its vector of entry pointers, indexed by height.
\<close>

unbundle bit_operations_syntax

subsection \<open>The active chain\<close>

type_synonym CChain = "block_id option list"

definition Genesis :: "CChain \<Rightarrow> block_id option" where
  "Genesis vChain = (if length vChain > 0 then vChain ! 0 else None)"

definition Tip :: "CChain \<Rightarrow> block_id option" where
  "Tip vChain = (if length vChain > 0 then vChain ! (length vChain - 1) else None)"

definition chain_at :: "CChain \<Rightarrow> int \<Rightarrow> block_id option" where
  "chain_at vChain h = (if h < 0 \<or> h \<ge> int (length vChain) then None else vChain ! nat h)"

definition Height :: "CChain \<Rightarrow> int" where
  "Height vChain = int (length vChain) - 1"

definition Contains :: "block_store \<Rightarrow> CChain \<Rightarrow> block_id \<Rightarrow> bool option" where
  "Contains st vChain p = do { b \<leftarrow> deref st p; Some (chain_at vChain (nHeight b) = Some p) }"

text \<open>\<open>vector::resize\<close> cuts the vector or pads it with null pointers.\<close>

definition resize :: "nat \<Rightarrow> CChain \<Rightarrow> CChain" where
  "resize n v = take n v @ replicate (n - length v) None"

partial_function (option) set_tip_loop ::
  "block_store \<Rightarrow> CChain \<Rightarrow> block_id option \<Rightarrow> CChain option" where
  "set_tip_loop st vChain pindex =
     (case pindex of
        None \<Rightarrow> Some vChain
      | Some p \<Rightarrow> do {
          b \<leftarrow> deref st p;
          if \<not> (0 \<le> nHeight b \<and> nHeight b < int (length vChain)) then None
          else if vChain ! nat (nHeight b) = Some p then Some vChain
          else set_tip_loop st (vChain[nat (nHeight b) := Some p]) (pprev b) })"

definition SetTip :: "block_store \<Rightarrow> CChain \<Rightarrow> block_id option \<Rightarrow> CChain option" where
  "SetTip st vChain pindex =
     (case pindex of
        None \<Rightarrow> Some []
      | Some p \<Rightarrow> do { b \<leftarrow> deref st p;
                      set_tip_loop st (resize (nat (nHeight b + 1)) vChain) pindex })"

partial_function (option) locator_loop ::
  "block_store \<Rightarrow> CChain \<Rightarrow> block_id option \<Rightarrow> int \<Rightarrow> uint256 list \<Rightarrow> uint256 list option" where
  "locator_loop st vChain pindex nStep vHave =
     (case pindex of
        None \<Rightarrow> Some vHave
      | Some p \<Rightarrow> do {
          b \<leftarrow> deref st p;
          let vHave' = vHave @ [GetBlockHash b]
          in if nHeight b = 0 then Some vHave'
             else do {
               let h = max (nHeight b - nStep) 0;
               c \<leftarrow> Contains st vChain p;
               pindex' \<leftarrow> (if c then Some (chain_at vChain h) else GetAncestor st p h);
               locator_loop st vChain pindex'
                 (if length vHave' > 10 then nStep * 2 else nStep) vHave' } })"

definition GetLocator :: "block_store \<Rightarrow> CChain \<Rightarrow> block_id option \<Rightarrow> uint256 list option" where
  "GetLocator st vChain pindex =
     locator_loop st vChain (case pindex of None \<Rightarrow> Tip vChain | Some p \<Rightarrow> Some p) 1 []"

partial_function (option) find_fork_loop ::
  "block_store \<Rightarrow> CChain \<Rightarrow> block_id option \<Rightarrow> block_id option option" where
  "find_fork_loop st vChain pindex =
     (case pindex of
        None \<Rightarrow> Some None
      | Some p \<Rightarrow> do {
          b \<leftarrow> deref st p; c \<leftarrow> Contains st vChain p;
          if c then Some (Some p) else find_fork_loop st vChain (pprev b) })"

definition FindFork :: "block_store \<Rightarrow> CChain \<Rightarrow> block_id option \<Rightarrow> block_id option option" where
  "FindFork st vChain pindex =
     (case pindex of
        None \<Rightarrow> Some None
      | Some p \<Rightarrow> do {
          b \<leftarrow> deref st p;
          pindex' \<leftarrow> (if nHeight b > Height vChain then GetAncestor st p (Height vChain) else Some (Some p));
          find_fork_loop st vChain pindex' })"

text \<open>\<open>std::lower_bound\<close>: halve the range, keeping the part that holds the boundary.\<close>

function lower_bound :: "('a \<Rightarrow> bool) \<Rightarrow> 'a list \<Rightarrow> nat \<Rightarrow> nat \<Rightarrow> nat" where
  "lower_bound before xs first len =
     (if len = 0 then first
      else let half = len div 2
           in if before (xs ! (first + half))
              then lower_bound before xs (first + half + 1) (len - half - 1)
              else lower_bound before xs first half)"
  by pat_completeness auto
termination by (relation "measure (\<lambda>(_, _, _, len). len)") auto

declare lower_bound.simps [simp del]

definition FindEarliestAtLeast :: "block_store \<Rightarrow> CChain \<Rightarrow> int \<Rightarrow> block_id option" where
  "FindEarliestAtLeast st vChain t =
     (let blt = (\<lambda>e. case e of None \<Rightarrow> False | Some p \<Rightarrow> GetBlockTimeMax (st ! p) < t);
          i = lower_bound blt vChain 0 (length vChain)
      in if i = length vChain then None else vChain ! i)"

fun FindForkInGlobalIndex ::
  "block_store \<Rightarrow> (uint256 \<rightharpoonup> block_id) \<Rightarrow> CChain \<Rightarrow> uint256 list \<Rightarrow> block_id option option" where
  "FindForkInGlobalIndex st mapBlockIndex chain [] = Some (Genesis chain)"
| "FindForkInGlobalIndex st mapBlockIndex chain (hash # vHave) =
     (case mapBlockIndex hash of
        None \<Rightarrow> FindForkInGlobalIndex st mapBlockIndex chain vHave
      | Some p \<Rightarrow> do {
          c \<leftarrow> Contains st chain p;
          if c then Some (Some p) else FindForkInGlobalIndex st mapBlockIndex chain vHave })"

partial_function (option) common_loop ::
  "block_store \<Rightarrow> block_id option \<Rightarrow> block_id option \<Rightarrow> (block_id option \<times> block_id option) option" where
  "common_loop st pa pb =
     (case (pa, pb) of
        (Some a, Some b) \<Rightarrow>
          if a = b then Some (pa, pb)
          else do { ba \<leftarrow> deref st a; bb \<leftarrow> deref st b; common_loop st (pprev ba) (pprev bb) }
      | _ \<Rightarrow> Some (pa, pb))"

text \<open>The outer \<open>None\<close> also stands for the failed \<open>assert(pa == pb)\<close>.\<close>

definition LastCommonAncestor :: "block_store \<Rightarrow> block_id \<Rightarrow> block_id \<Rightarrow> block_id option option" where
  "LastCommonAncestor st a b =
     do { ba \<leftarrow> deref st a; bb \<leftarrow> deref st b;
          pa \<leftarrow> (if nHeight ba > nHeight bb then GetAncestor st a (nHeight bb) else Some (Some a));
          pb \<leftarrow> (if \<not> nHeight ba > nHeight bb \<and> nHeight bb > nHeight ba
                then GetAncestor st b (nHeight ba) else Some (Some b));
          (pa', pb') \<leftarrow> common_loop st pa pb;
          if pa' = pb' then Some pa' else None }"

subsection \<open>Work\<close>

definition CURRENT_ALGOS :: "Params \<Rightarrow> int \<Rightarrow> int" where
  "CURRENT_ALGOS params h =
     (if h \<ge> nSwitchHeight params then NUM_ALGOSV4
      else if h \<ge> AlgoChangeHeight params then NUM_ALGOSV3
      else if h \<ge> v2DiffChangeHeight params then NUM_ALGOSV2
      else NUM_ALGOS)"

text \<open>The inner \<open>None\<close> is the early \<open>return 0\<close>.\<close>

fun proof_product ::
  "block_store \<Rightarrow> block_id option \<Rightarrow> Params \<Rightarrow> int \<Rightarrow> int list \<Rightarrow> arith_uint256 \<Rightarrow>
     (pow_error + arith_uint256 option) option" where
  "proof_product st prev params n [] bnAvgTarget = Some (Inr (Some bnAvgTarget))"
| "proof_product st prev params n (i # algos) bnAvgTarget =
     do { r \<leftarrow> GetNextWorkRequired st prev params i;
          case r of
            Inl e \<Rightarrow> Some (Inl e)
          | Inr bits \<Rightarrow>
            let (bnTarget, fNegative, fOverflow) = SetCompact bits
            in if fNegative \<or> fOverflow \<or> EqualTo bnTarget 0 then Some (Inr None)
               else case ApproxNthRoot bnTarget (nat n) of
                 None \<Rightarrow> Some (Inl Pow_assert)
               | Some root \<Rightarrow>
                   proof_product st prev params n algos (base_uint_mul bnAvgTarget root) }"

definition work_of_target :: "arith_uint256 \<Rightarrow> pow_error + arith_uint256" where
  "work_of_target bnAvgTarget =
     (case base_uint_div (base_uint_compl bnAvgTarget)
             (base_uint_add bnAvgTarget (base_uint_of_u64 8 1)) of
        Inl e \<Rightarrow> Inl (Pow_uint e)
      | Inr q \<Rightarrow> Inr (base_uint_shl (base_uint_add q (base_uint_of_u64 8 1)) 7))"

definition GetBlockProof ::
  "block_store \<Rightarrow> CBlockIndex \<Rightarrow> Params \<Rightarrow> (pow_error + arith_uint256) option" where
  "GetBlockProof st block params =
     (let n = CURRENT_ALGOS params (nHeight block)
      in do { r \<leftarrow> proof_product st (pprev block) params n [0..n - 1] (base_uint_of_u64 8 1);
              Some (case r of
                 Inl e \<Rightarrow> Inl e
               | Inr None \<Rightarrow> Inr (base_uint_of_u64 8 0)
               | Inr (Some bnAvgTarget) \<Rightarrow> work_of_target bnAvgTarget) })"

text \<open>The product \<open>sign * r.GetLow64()\<close> is computed on \<open>uint64_t\<close> and converted back.\<close>

definition GetBlockProofEquivalentTime ::
  "block_store \<Rightarrow> CBlockIndex \<Rightarrow> CBlockIndex \<Rightarrow> CBlockIndex \<Rightarrow> Params \<Rightarrow> (pow_error + int) option" where
  "GetBlockProofEquivalentTime st to_blk from_blk tip params =
     (let greater = CompareTo (nChainWork to_blk) (nChainWork from_blk) > 0;
          r0 = (if greater then base_uint_sub (nChainWork to_blk) (nChainWork from_blk)
                else base_uint_sub (nChainWork from_blk) (nChainWork to_blk));
          sign = (if greater then 1 else - 1 :: int)
      in do { w \<leftarrow> GetBlockProof st tip params;
              Some (case w of
                Inl e \<Rightarrow> Inl e
              | Inr p \<Rightarrow>
                (case base_uint_div
                        (base_uint_mul r0 (base_uint_of_u64 8 (word_of_int (nPowTargetSpacing params)))) p of
                   Inl e \<Rightarrow> Inl (Pow_uint e)
                 | Inr r \<Rightarrow> Inr (if base_uint_bits r > 63 then sign * (2 ^ 63 - 1)
                                else sint (word_of_int sign * GetLow64 r)))) })"

subsection \<open>Order of candidate tips\<close>

definition CBlockIndexWorkComparator :: "block_store \<Rightarrow> block_id \<Rightarrow> block_id \<Rightarrow> bool" where
  "CBlockIndexWorkComparator st pa pb =
     (let a = st ! pa; b = st ! pb
      in if CompareTo (nChainWork a) (nChainWork b) > 0 then False
         else if CompareTo (nChainWork a) (nChainWork b) < 0 then True
         else if nSequenceId a < nSequenceId b then False
         else if nSequenceId a > nSequenceId b then True
         else if pa < pb then False
         else if pa > pb then True
         else False)"

subsection \<open>Growth of the tree\<close>

record block_tree =
  bt_store :: block_store
  mapBlockIndex :: "uint256 \<rightharpoonup> block_id"
  mapPrevBlockIndex :: "(uint256 \<times> block_id) list"
  pindexBestHeader :: "block_id option"
  setDirtyBlockIndex :: "block_id set"

text \<open>The new entry with its links: everything up to \<open>BuildSkip\<close>.\<close>

definition link_entry :: "block_tree \<Rightarrow> uint256 \<Rightarrow> CBlockHeader \<Rightarrow> (block_tree \<times> block_id) option" where
  "link_entry bt hash block =
     (let p = length (bt_store bt);
          b = (CBlockIndex_of_header block)\<lparr>nSequenceId := 0, phashBlock := Some hash\<rparr>;
          m = (mapBlockIndex bt)(hash \<mapsto> p);
          st = bt_store bt @ [b]
      in case m (hdr_hashPrevBlock block) of
           None \<Rightarrow> Some (bt\<lparr>bt_store := st, mapBlockIndex := m\<rparr>, p)
         | Some q \<Rightarrow> do {
             bq \<leftarrow> deref st q;
             st' \<leftarrow> BuildSkip (st[p := b\<lparr>pprev := Some q, nHeight := nHeight bq + 1\<rparr>]) p;
             Some (bt\<lparr>bt_store := st', mapBlockIndex := m\<rparr>, p) })"

definition AddToBlockIndex ::
  "pow_hashes \<Rightarrow> Params \<Rightarrow> block_tree \<Rightarrow> CBlockHeader \<Rightarrow> u32 \<Rightarrow> (pow_error + block_tree \<times> block_id) option"
where
  "AddToBlockIndex H params bt block status =
     (let hash = CBlockHeader_GetHash H block
      in case mapBlockIndex bt hash of
           Some p \<Rightarrow> Some (Inr (bt, p))
         | None \<Rightarrow> do {
             (bt1, p) \<leftarrow> link_entry bt hash block;
             b \<leftarrow> deref (bt_store bt1) p;
             prev \<leftarrow> (case pprev b of None \<Rightarrow> Some None
                      | Some q \<Rightarrow> map_option Some (deref (bt_store bt1) q));
             let tmax = (case prev of None \<Rightarrow> nTime b | Some bq \<Rightarrow> max (nTimeMax bq) (nTime b));
                 base = (case prev of None \<Rightarrow> base_uint_of_u64 8 0 | Some bq \<Rightarrow> nChainWork bq);
                 b2 = b\<lparr>nTimeMax := tmax\<rparr>
             in do {
               w \<leftarrow> GetBlockProof (bt_store bt1) b2 params;
               case w of
                 Inl e \<Rightarrow> Some (Inl e)
               | Inr wk \<Rightarrow>
                 let b3 = b2\<lparr>nChainWork := base_uint_add base wk\<rparr>
                 in do {
                   (b4, best) \<leftarrow>
                     (if status AND BLOCK_VALID_MASK \<noteq> 0 then do {
                        (b', changed) \<leftarrow> RaiseValidity b3 status;
                        best \<leftarrow> (case pindexBestHeader bt1 of
                                  None \<Rightarrow> Some (Some p)
                                | Some o1 \<Rightarrow> do { bo \<leftarrow> deref (bt_store bt1) o1;
                                    Some (if CompareTo (nChainWork bo) (nChainWork b') < 0
                                          then Some p else Some o1) });
                        Some (b', best) }
                      else do {
                        (b', changed) \<leftarrow> RaiseValidity b3 BLOCK_VALID_TREE;
                        Some (b'\<lparr>nStatus := nStatus b' OR status\<rparr>, pindexBestHeader bt1) });
                   Some (Inr (bt1\<lparr>bt_store := (bt_store bt1)[p := b4], pindexBestHeader := best,
                       setDirtyBlockIndex := insert p (setDirtyBlockIndex bt1),
                       mapPrevBlockIndex :=
                         (case prev of None \<Rightarrow> mapPrevBlockIndex bt1
                          | Some bq \<Rightarrow> mapPrevBlockIndex bt1 @ [(GetBlockHash bq, p)])\<rparr>, p)) } } })"

end
