(* ===== verification/Chain_Props.thy ===== *)
theory Chain_Props
  imports Chain "HOL-Library.Product_Lexorder"
begin

text \<open>
  Properties of the active chain and of the block tree: what the tree promises about
  ancestors is a locale, interpreted on the store; the chain operations are proved from it.
\<close>

subsection \<open>Ancestry\<close>

locale ancestry =
  fixes wf :: "'s \<Rightarrow> bool" and node :: "'s \<Rightarrow> 'p \<Rightarrow> bool" and height :: "'s \<Rightarrow> 'p \<Rightarrow> int"
    and anc :: "'s \<Rightarrow> 'p \<Rightarrow> int \<Rightarrow> 'p option"
  assumes anc_ex: "wf s \<Longrightarrow> node s p \<Longrightarrow> 0 \<le> h \<Longrightarrow> h \<le> height s p \<Longrightarrow>
      \<exists>q. anc s p h = Some q \<and> node s q \<and> height s q = h"
    and anc_trans: "wf s \<Longrightarrow> node s p \<Longrightarrow> anc s p k = Some q \<Longrightarrow> 0 \<le> h \<Longrightarrow> h \<le> k \<Longrightarrow>
      k \<le> height s p \<Longrightarrow> anc s q h = anc s p h"
    and anc_self: "wf s \<Longrightarrow> node s p \<Longrightarrow> anc s p (height s p) = Some p"
begin

lemma anc_node:
  assumes "wf s" and "node s p" and "0 \<le> h" and "h \<le> height s p" and "anc s p h = Some q"
  shows "node s q" and "height s q = h"
  using anc_ex [OF assms(1-4)] assms(5) by auto

text \<open>Two branches that meet at a height agree below it.\<close>

lemma meet_below:
  assumes "wf s" and "node s p" and "node s q" and "anc s p k = anc s q k"
    and "0 \<le> h" and "h \<le> k" and "k \<le> height s p" and "k \<le> height s q"
  shows "anc s p h = anc s q h"
proof -
  have "0 \<le> k" using assms by simp
  then obtain r where "anc s p k = Some r" using anc_ex [OF assms(1,2)] assms(7) by blast
  with assms show ?thesis by (metis anc_trans)
qed

text \<open>Two branches that differ at a height differ above it.\<close>

lemma differ_above:
  assumes "wf s" and "node s p" and "node s q" and "anc s p h \<noteq> anc s q h"
    and "0 \<le> h" and "h \<le> k" and "k \<le> height s p" and "k \<le> height s q"
  shows "anc s p k \<noteq> anc s q k"
  using meet_below [OF assms(1-3) _ assms(5-8)] assms(4) by blast

end

interpretation tree: ancestry wf_links "\<lambda>st p. p < length st" "\<lambda>st p. nHeight (st ! p)" ancestor_at
proof
  show "\<exists>q. ancestor_at st p h = Some q \<and> q < length st \<and> nHeight (st ! q) = h"
    if "wf_links st" "p < length st" "0 \<le> h" "h \<le> nHeight (st ! p)" for st p h
    using ancestor_at_ex [OF that] by blast
  show "ancestor_at st q h = ancestor_at st p h"
    if "wf_links st" "p < length st" "ancestor_at st p k = Some q" "0 \<le> h" "h \<le> k" "k \<le> nHeight (st ! p)"
    for st p k q h
    using that by (intro ancestor_at_trans) simp_all
  show "ancestor_at st p (nHeight (st ! p)) = Some p" if "p < length st" for st p
    using that by (rule ancestor_at_self)
qed

subsection \<open>Setting the tip\<close>

definition on_chain :: "block_store \<Rightarrow> CChain \<Rightarrow> block_id \<Rightarrow> bool" where
  "on_chain st vc p \<longleftrightarrow> int (length vc) = nHeight (st ! p) + 1 \<and>
     list_all (\<lambda>i. vc ! i = ancestor_at st p (int i)) [0..<length vc]"

text \<open>A chain is empty or the path from the root to its tip.\<close>

definition chain_ok :: "block_store \<Rightarrow> CChain \<Rightarrow> bool" where
  "chain_ok st vc \<longleftrightarrow> (case Tip vc of None \<Rightarrow> vc = [] | Some p \<Rightarrow> p < length st \<and> on_chain st vc p)"

lemma on_chainD:
  "on_chain st vc p \<Longrightarrow> i < length vc \<Longrightarrow> vc ! i = ancestor_at st p (int i)"
  "on_chain st vc p \<Longrightarrow> int (length vc) = nHeight (st ! p) + 1"
  by (simp_all add: on_chain_def list_all_iff)

lemma on_chain_Tip:
  assumes "wf_links st" and "p < length st" and "on_chain st vc p"
  shows "Tip vc = Some p"
proof -
  have len: "int (length vc) = nHeight (st ! p) + 1" using assms(3) by (rule on_chainD)
  with wf_linkD(1) [OF assms(1,2)] have "length vc > 0" by linarith
  then have "Tip vc = ancestor_at st p (int (length vc - 1))"
    using on_chainD(1) [OF assms(3), of "length vc - 1"] by (simp add: Tip_def)
  then show ?thesis using len \<open>length vc > 0\<close> ancestor_at_self [OF assms(2)] by (simp add: of_nat_diff)
qed

text \<open>Below any of its entries a chain coherently holds that entry's ancestors.\<close>

definition coherent :: "block_store \<Rightarrow> CChain \<Rightarrow> int \<Rightarrow> bool" where
  "coherent st vc k \<longleftrightarrow> (\<forall>i r. int i \<le> k \<longrightarrow> i < length vc \<longrightarrow> vc ! i = Some r \<longrightarrow>
     (\<forall>j \<le> i. vc ! j = ancestor_at st r (int j)))"

lemma coherent_update:
  "coherent st vc k \<Longrightarrow> 0 \<le> k \<Longrightarrow> coherent st (vc[nat k := x]) (k - 1)"
  unfolding coherent_def
proof (intro allI impI)
  fix i r j
  assume *: "\<forall>i r. int i \<le> k \<longrightarrow> i < length vc \<longrightarrow> vc ! i = Some r \<longrightarrow>
      (\<forall>j\<le>i. vc ! j = ancestor_at st r (int j))" "0 \<le> k"
    and i: "int i \<le> k - 1" "i < length (vc[nat k := x])" "vc[nat k := x] ! i = Some r" "j \<le> i"
  then have ij: "nat k \<noteq> i" "nat k \<noteq> j" "int i \<le> k" by auto
  then have "vc ! i = Some r" using i(3) by simp
  then have "vc ! j = ancestor_at st r (int j)" 
    using *(1) [rule_format, OF ij(3) _ _ i(4), of r] i(2) by simp
  with ij show "vc[nat k := x] ! j = ancestor_at st r (int j)" by simp
qed

lemma root_no_prev:
  assumes "wf_links st" and "q < length st" and "nHeight (st ! q) = 0"
  shows "pprev (st ! q) = None"
proof (cases "pprev (st ! q)")
  case (Some r)
  then have "r < length st" "nHeight (st ! r) = - 1"
    using wf_linkD(3) [OF assms(1,2), of r] assms(3) by auto
  then show ?thesis using wf_linkD(1) [OF assms(1), of r] by simp
qed simp

lemma set_tip_loop_correct:
  assumes wf: "wf_links st" and p: "p < length st" and len: "int (length vc) = nHeight (st ! p) + 1"
    and q: "ancestor_at st p k = Some q" and k: "0 \<le> k" "k \<le> nHeight (st ! p)"
    and above: "\<And>i. k < int i \<Longrightarrow> i < length vc \<Longrightarrow> vc ! i = ancestor_at st p (int i)"
    and coh: "coherent st vc k"
  shows "\<exists>vc'. set_tip_loop st vc (Some q) = Some vc' \<and> on_chain st vc' p"
  using len q k above coh
proof (induction "nat k" arbitrary: k q vc)
  case (0 k q vc)
  then have k: "k = 0" by simp
  have q: "q < length st" "nHeight (st ! q) = 0"
    using tree.anc_node [OF wf p _ _ "0.prems"(2)] "0.prems"(3,4) k by auto
  then have root: "pprev (st ! q) = None" using wf by (intro root_no_prev)
  have pos: "0 < length vc" using "0.prems"(1,4) k by linarith
  have oc: "on_chain st (vc[0 := Some q]) p"
    unfolding on_chain_def list_all_iff
  proof (intro conjI ballI)
    fix i assume i: "i \<in> set [0..<length (vc[0 := Some q])]"
    show "vc[0 := Some q] ! i = ancestor_at st p (int i)"
      using i "0.prems"(2) "0.prems"(5) [of i] k pos by (cases "i = 0") simp_all
  qed (use "0.prems"(1) in simp)
  have "vc ! 0 = Some q \<Longrightarrow> vc[0 := Some q] = vc" by (metis list_update_id)
  with oc show ?case
    using q pos root by (subst set_tip_loop.simps) (cases "vc ! 0 = Some q"; simp add: set_tip_loop.simps [of _ _ None])
next
  case (Suc m k q vc)
  have q: "q < length st" "nHeight (st ! q) = k"
    using tree.anc_node [OF wf p _ _ Suc.prems(2)] Suc.prems(3,4) by auto
  have kl: "0 \<le> k" "k < int (length vc)" using Suc.prems by auto
  show ?case
  proof (cases "vc ! nat k = Some q")
    case True
    have "vc ! i = ancestor_at st p (int i)" if "i < length vc" for i
    proof (cases "int i \<le> k")
      case le: True
      have "i \<le> nat k" "int (nat k) \<le> k" "nat k < length vc" using le kl by auto
      then have "vc ! i = ancestor_at st q (int i)"
        using Suc.prems(6) True unfolding coherent_def by blast
      then show ?thesis
        using ancestor_at_trans [OF wf p Suc.prems(2)] Suc.prems(3,4) le by simp
    qed (use Suc.prems(5) that in simp)
    then have "on_chain st vc p" using Suc.prems(1) by (simp add: on_chain_def list_all_iff)
    then show ?thesis using True q kl by (subst set_tip_loop.simps) simp
  next
    case False
    have "0 < k" using Suc.hyps(2) by simp
    then obtain r where r: "pprev (st ! q) = Some r"
      using wf_linkD(2) [OF wf q(1)] q(2) by (cases "pprev (st ! q)") auto
    have "ancestor_at st q (k - 1) = Some r"
      using ancestor_at_prev [OF wf q(1) r] q(2) by simp
    then have anc: "ancestor_at st p (k - 1) = Some r"
      using ancestor_at_trans [OF wf p Suc.prems(2), of "k - 1"] Suc.prems(3,4) \<open>0 < k\<close> by simp
    let ?vc = "vc[nat k := Some q]"
    have ab: "?vc ! i = ancestor_at st p (int i)" if "k - 1 < int i" "i < length ?vc" for i
      using that Suc.prems(2,5) kl by (cases "i = nat k") auto
    have "\<exists>vc'. set_tip_loop st ?vc (Some r) = Some vc' \<and> on_chain st vc' p"
      using Suc.hyps(1) [of "k - 1" ?vc r] Suc.hyps(2) Suc.prems anc ab \<open>0 < k\<close>
        coherent_update [OF Suc.prems(6)] by auto
    then show ?thesis using False q kl r by (subst set_tip_loop.simps) simp
  qed
qed

lemma resize_nth:
  "i < n \<Longrightarrow> resize n v ! i = (if i < length v then v ! i else None)" "length (resize n v) = n"
  by (auto simp: resize_def nth_append)

lemma chain_ok_coherent:
  assumes wf: "wf_links st" and ok: "chain_ok st vc"
  shows "coherent st (resize n vc) k"
  unfolding coherent_def
proof (intro allI impI)
  fix i r j
  assume i: "i < length (resize n vc)" and r: "resize n vc ! i = Some r" and j: "j \<le> i"
  then have iv: "i < length vc" "vc ! i = Some r" by (auto simp: resize_nth split: if_splits)
  then obtain t where t: "t < length st" "on_chain st vc t"
    using ok by (auto simp: chain_ok_def split: option.splits)
  have "ancestor_at st t (int i) = Some r" using on_chainD(1) [OF t(2) iv(1)] iv(2) by simp
  moreover have "vc ! j = ancestor_at st t (int j)" using on_chainD(1) [OF t(2)] j iv(1) by simp
  moreover have "int i \<le> nHeight (st ! t)" using on_chainD(2) [OF t(2)] iv(1) by simp
  ultimately have "vc ! j = ancestor_at st r (int j)"
    using ancestor_at_trans [OF wf t(1), of "int i" r "int j"] j by simp
  then show "resize n vc ! j = ancestor_at st r (int j)"
    using i j iv by (simp add: resize_nth)
qed

lemma SetTip_on_chain:
  assumes wf: "wf_links st" and ok: "chain_ok st vc" and p: "p < length st"
  shows "\<exists>vc'. SetTip st vc (Some p) = Some vc' \<and> on_chain st vc' p"
proof -
  let ?h = "nHeight (st ! p)" and ?vc = "resize (nat (nHeight (st ! p) + 1)) vc"
  have h: "0 \<le> ?h" using wf p by (rule wf_linkD)
  have "\<exists>vc'. set_tip_loop st ?vc (Some p) = Some vc' \<and> on_chain st vc' p"
  proof (rule set_tip_loop_correct [OF wf p, where k = ?h])
    show "coherent st ?vc ?h" using wf ok by (rule chain_ok_coherent)
  qed (use h p in \<open>simp_all add: resize_nth ancestor_at_self\<close>)
  then show ?thesis using p by (simp add: SetTip_def)
qed

subsection \<open>Membership and forks\<close>

lemma chain_okE:
  assumes "chain_ok st vc"
  obtains "vc = []" | t where "t < length st" and "on_chain st vc t"
  using assms by (auto simp: chain_ok_def split: option.splits)

lemma Contains_iff:
  assumes wf: "wf_links st" and p: "p < length st" and t: "t < length st" "on_chain st vc t"
  shows "Contains st vc p = Some (nHeight (st ! p) \<le> nHeight (st ! t) \<and>
    ancestor_at st t (nHeight (st ! p)) = Some p)"
proof -
  have h: "0 \<le> nHeight (st ! p)" using wf p by (rule wf_linkD)
  have len: "int (length vc) = nHeight (st ! t) + 1" using t(2) by (rule on_chainD)
  show ?thesis
  proof (cases "nHeight (st ! p) \<le> nHeight (st ! t)")
    case True
    then have "vc ! nat (nHeight (st ! p)) = ancestor_at st t (nHeight (st ! p))"
      using on_chainD(1) [OF t(2), of "nat (nHeight (st ! p))"] h len by simp
    then show ?thesis using True h len p by (simp add: Contains_def chain_at_def)
  next
    case False
    then show ?thesis using h len p by (simp add: Contains_def chain_at_def)
  qed
qed

lemma Contains_empty: "p < length st \<Longrightarrow> Contains st [] p = Some False"
  by (auto simp: Contains_def chain_at_def)

text \<open>
  \<open>common st p t q\<close>: \<open>q\<close> is on both branches and no higher common entry exists.
\<close>

definition highest_common :: "block_store \<Rightarrow> block_id \<Rightarrow> block_id \<Rightarrow> block_id option \<Rightarrow> bool" where
  "highest_common st p t res \<longleftrightarrow>
     (let m = min (nHeight (st ! p)) (nHeight (st ! t)) in
      case res of
        Some q \<Rightarrow> q < length st \<and> nHeight (st ! q) \<le> m \<and>
          ancestor_at st p (nHeight (st ! q)) = Some q \<and> ancestor_at st t (nHeight (st ! q)) = Some q \<and>
          list_all (\<lambda>h. ancestor_at st p h \<noteq> ancestor_at st t h) [nHeight (st ! q) + 1..m]
      | None \<Rightarrow> list_all (\<lambda>h. ancestor_at st p h \<noteq> ancestor_at st t h) [0..m])"

lemma find_fork_loop_correct:
  assumes wf: "wf_links st" and p: "p < length st" and t: "t < length st" "on_chain st vc t"
    and q: "ancestor_at st p k = Some q" and k: "0 \<le> k" "k \<le> nHeight (st ! p)" "k \<le> nHeight (st ! t)"
    and above: "\<And>h. k < h \<Longrightarrow> h \<le> min (nHeight (st ! p)) (nHeight (st ! t)) \<Longrightarrow>
      ancestor_at st p h \<noteq> ancestor_at st t h"
  shows "\<exists>r. find_fork_loop st vc (Some q) = Some r \<and> highest_common st p t r"
  using q k above
proof (induction "nat k" arbitrary: k q)
  case (0 k q)
  then have k: "k = 0" by simp
  have q: "q < length st" "nHeight (st ! q) = 0"
    using tree.anc_node [OF wf p _ _ "0.prems"(1)] "0.prems"(2,3) k by auto
  then have root: "pprev (st ! q) = None" using wf by (intro root_no_prev)
  have c: "Contains st vc q = Some (ancestor_at st t 0 = Some q)"
    using Contains_iff [OF wf q(1) t] q(2) "0.prems"(4) k by simp
  show ?case
  proof (cases "ancestor_at st t 0 = Some q")
    case True
    then have "highest_common st p t (Some q)"
      using "0.prems" k q by (auto simp: highest_common_def list_all_iff Let_def)
    then show ?thesis using True c q by (subst find_fork_loop.simps) simp
  next
    case False
    have "ancestor_at st p h \<noteq> ancestor_at st t h"
      if "0 \<le> h" "h \<le> min (nHeight (st ! p)) (nHeight (st ! t))" for h
      using that False "0.prems"(1) "0.prems"(5) [of h] k by (cases "h = 0") auto
    then have "highest_common st p t None" by (simp add: highest_common_def list_all_iff Let_def)
    then show ?thesis
      using False c q root by (subst find_fork_loop.simps) (simp add: find_fork_loop.simps [of _ _ None])
  qed
next
  case (Suc m k q)
  have q: "q < length st" "nHeight (st ! q) = k"
    using tree.anc_node [OF wf p _ _ Suc.prems(1)] Suc.prems(2,3) by auto
  have c: "Contains st vc q = Some (ancestor_at st t k = Some q)"
    using Contains_iff [OF wf q(1) t] q(2) Suc.prems(4) by simp
  show ?case
  proof (cases "ancestor_at st t k = Some q")
    case True
    then have "highest_common st p t (Some q)"
      using Suc.prems q by (auto simp: highest_common_def list_all_iff Let_def)
    then show ?thesis using True c q by (subst find_fork_loop.simps) simp
  next
    case False
    have "0 < k" using Suc.hyps(2) by simp
    then obtain r where r: "pprev (st ! q) = Some r"
      using wf_linkD(2) [OF wf q(1)] q(2) by (cases "pprev (st ! q)") auto
    have "ancestor_at st q (k - 1) = Some r" using ancestor_at_prev [OF wf q(1) r] q(2) by simp
    then have anc: "ancestor_at st p (k - 1) = Some r"
      using ancestor_at_trans [OF wf p Suc.prems(1), of "k - 1"] Suc.prems(2,3) \<open>0 < k\<close> by simp
    have ab: "ancestor_at st p h \<noteq> ancestor_at st t h"
      if "k - 1 < h" "h \<le> min (nHeight (st ! p)) (nHeight (st ! t))" for h
      using that False Suc.prems(1) Suc.prems(5) [of h] by (cases "h = k") auto
    have "\<exists>r'. find_fork_loop st vc (Some r) = Some r' \<and> highest_common st p t r'"
      using Suc.hyps(1) [of "k - 1" r] Suc.hyps(2) Suc.prems(3,4) anc ab \<open>0 < k\<close> by simp
    then show ?thesis using False c q r by (subst find_fork_loop.simps) simp
  qed
qed

lemma FindFork_highest:
  assumes wf: "wf_store st" and p: "p < length st" and t: "t < length st" "on_chain st vc t"
  shows "\<exists>r. FindFork st vc (Some p) = Some r \<and> highest_common st p t r"
proof -
  note wl = wf_store_links [OF wf]
  let ?k = "min (nHeight (st ! p)) (nHeight (st ! t))"
  have len: "Height vc = nHeight (st ! t)" using on_chainD(2) [OF t(2)] by (simp add: Height_def)
  have h: "0 \<le> nHeight (st ! p)" "0 \<le> nHeight (st ! t)" using wl p t(1) by (auto intro: wf_linkD)
  obtain q where q: "ancestor_at st p ?k = Some q"
    using tree.anc_ex [OF wl p, of ?k] h by auto
  have "FindFork st vc (Some p) = find_fork_loop st vc (Some q)"
  proof (cases "nHeight (st ! p) > nHeight (st ! t)")
    case True
    then show ?thesis
      using GetAncestor_correct [OF wf p, of "nHeight (st ! t)"] q h p by (simp add: FindFork_def len)
  next
    case False
    then show ?thesis using q p ancestor_at_self [OF p] by (simp add: FindFork_def len)
  qed
  moreover have "\<exists>r. find_fork_loop st vc (Some q) = Some r \<and> highest_common st p t r"
    using wl p t q by (rule find_fork_loop_correct) (use h in auto)
  ultimately show ?thesis by simp
qed

lemma pprev_ancestor:
  assumes wf: "wf_links st" and p: "p < length st" and q: "ancestor_at st p k = Some q"
    and k: "0 \<le> k" "k \<le> nHeight (st ! p)"
  shows "q < length st" and "nHeight (st ! q) = k"
    and "pprev (st ! q) = (if k = 0 then None else ancestor_at st p (k - 1))"
proof -
  show q': "q < length st" "nHeight (st ! q) = k" using tree.anc_node [OF wf p k q] by auto
  show "pprev (st ! q) = (if k = 0 then None else ancestor_at st p (k - 1))"
  proof (cases "k = 0")
    case True
    then show ?thesis using root_no_prev [OF wf q'(1)] q'(2) by simp
  next
    case False
    then obtain r where r: "pprev (st ! q) = Some r"
      using wf_linkD(2) [OF wf q'(1)] q'(2) by (cases "pprev (st ! q)") auto
    have "ancestor_at st q (k - 1) = Some r" using ancestor_at_prev [OF wf q'(1) r] q'(2) by simp
    then show ?thesis
      using ancestor_at_trans [OF wf p q k, of "k - 1"] r False k by simp
  qed
qed

lemma common_loop_correct:
  assumes wf: "wf_links st" and a: "a < length st" and b: "b < length st"
    and pa: "ancestor_at st a k = Some pa" and pb: "ancestor_at st b k = Some pb"
    and k: "0 \<le> k" "k \<le> nHeight (st ! a)" "k \<le> nHeight (st ! b)"
    and above: "\<And>h. k < h \<Longrightarrow> h \<le> min (nHeight (st ! a)) (nHeight (st ! b)) \<Longrightarrow>
      ancestor_at st a h \<noteq> ancestor_at st b h"
  shows "\<exists>r. common_loop st (Some pa) (Some pb) = Some (r, r) \<and> highest_common st a b r"
  using pa pb k above
proof (induction "nat k" arbitrary: k pa pb)
  case (0 k pa pb)
  then have k: "k = 0" by simp
  note A = pprev_ancestor [OF wf a "0.prems"(1,3,4)] and B = pprev_ancestor [OF wf b "0.prems"(2,3,5)]
  show ?case
  proof (cases "pa = pb")
    case True
    then have "highest_common st a b (Some pa)"
      using "0.prems" A k by (auto simp: highest_common_def list_all_iff Let_def)
    then show ?thesis using True by (subst common_loop.simps) simp
  next
    case False
    have "ancestor_at st a h \<noteq> ancestor_at st b h"
      if "0 \<le> h" "h \<le> min (nHeight (st ! a)) (nHeight (st ! b))" for h
      using that False "0.prems"(1,2) "0.prems"(6) [of h] k by (cases "h = 0") auto
    then have "highest_common st a b None" by (simp add: highest_common_def list_all_iff Let_def)
    then show ?thesis
      using False A B k by (subst common_loop.simps) (simp add: common_loop.simps [of _ None None])
  qed
next
  case (Suc m k pa pb)
  note A = pprev_ancestor [OF wf a Suc.prems(1,3,4)] and B = pprev_ancestor [OF wf b Suc.prems(2,3,5)]
  have k: "0 < k" using Suc.hyps(2) by simp
  show ?case
  proof (cases "pa = pb")
    case True
    then have "highest_common st a b (Some pa)"
      using Suc.prems A by (auto simp: highest_common_def list_all_iff Let_def)
    then show ?thesis using True by (subst common_loop.simps) simp
  next
    case False
    obtain qa where qa: "ancestor_at st a (k - 1) = Some qa"
      using tree.anc_ex [OF wf a, of "k - 1"] Suc.prems k by auto
    obtain qb where qb: "ancestor_at st b (k - 1) = Some qb"
      using tree.anc_ex [OF wf b, of "k - 1"] Suc.prems k by auto
    have ab: "ancestor_at st a h \<noteq> ancestor_at st b h"
      if "k - 1 < h" "h \<le> min (nHeight (st ! a)) (nHeight (st ! b))" for h
      using that False Suc.prems(1,2) Suc.prems(6) [of h] by (cases "h = k") auto
    have "\<exists>r. common_loop st (Some qa) (Some qb) = Some (r, r) \<and> highest_common st a b r"
      using Suc.hyps(1) [of "k - 1" qa qb] Suc.hyps(2) Suc.prems(4,5) qa qb ab k by simp
    then show ?thesis using False A B k qa qb by (subst common_loop.simps) simp
  qed
qed

lemma LastCommonAncestor_highest:
  assumes wf: "wf_store st" and a: "a < length st" and b: "b < length st"
  shows "\<exists>r. LastCommonAncestor st a b = Some r \<and> highest_common st a b r"
proof -
  note wl = wf_store_links [OF wf]
  let ?k = "min (nHeight (st ! a)) (nHeight (st ! b))"
  have h: "0 \<le> nHeight (st ! a)" "0 \<le> nHeight (st ! b)" using wl a b by (auto intro: wf_linkD)
  obtain pa where pa: "ancestor_at st a ?k = Some pa" using tree.anc_ex [OF wl a, of ?k] h by auto
  obtain pb where pb: "ancestor_at st b ?k = Some pb" using tree.anc_ex [OF wl b, of ?k] h by auto
  have ga: "(if nHeight (st ! a) > nHeight (st ! b) then GetAncestor st a (nHeight (st ! b)) else Some (Some a)) = Some (Some pa)"
    using GetAncestor_correct [OF wf a, of "nHeight (st ! b)"] pa h ancestor_at_self [OF a]
    by (auto simp: min_def split: if_splits)
  have gb: "(if \<not> nHeight (st ! a) > nHeight (st ! b) \<and> nHeight (st ! b) > nHeight (st ! a)
      then GetAncestor st b (nHeight (st ! a)) else Some (Some b)) = Some (Some pb)"
    using GetAncestor_correct [OF wf b, of "nHeight (st ! a)"] pb h ancestor_at_self [OF b]
    by (auto simp: min_def split: if_splits)
  obtain r where "common_loop st (Some pa) (Some pb) = Some (r, r)" "highest_common st a b r"
    using common_loop_correct [OF wl a b pa pb] h by auto
  then show ?thesis
    using a b ga gb unfolding LastCommonAncestor_def by (simp add: deref_nth)
qed

subsection \<open>Binary search\<close>

text \<open>On a range split into elements before and not before, the search finds the split.\<close>

lemma lower_bound_split:
  assumes "\<And>i j. i \<le> j \<Longrightarrow> j < length xs \<Longrightarrow> f (xs ! j) \<Longrightarrow> f (xs ! i)"
    and "first + len \<le> length xs"
    and "\<And>i. i < first \<Longrightarrow> f (xs ! i)"
    and "\<And>i. first + len \<le> i \<Longrightarrow> i < length xs \<Longrightarrow> \<not> f (xs ! i)"
  shows "lower_bound f xs first len \<le> length xs \<and>
    (\<forall>i < lower_bound f xs first len. f (xs ! i)) \<and>
    (\<forall>i. lower_bound f xs first len \<le> i \<longrightarrow> i < length xs \<longrightarrow> \<not> f (xs ! i))"
  using assms(2-4)
proof (induction len arbitrary: first rule: less_induct)
  case (less len)
  show ?case
  proof (cases "len = 0")
    case True
    then have eq: "lower_bound f xs first len = first" by (subst lower_bound.simps) simp
    show ?thesis unfolding eq using less.prems unfolding True add_0_right by blast
  next
    case False
    let ?m = "first + len div 2"
    have m: "?m < length xs" "?m < first + len" using less.prems(1) False by simp_all
    show ?thesis
    proof (cases "f (xs ! ?m)")
      case True
      have eq: "lower_bound f xs first len = lower_bound f xs (?m + 1) (len - len div 2 - 1)"
        using False True by (subst lower_bound.simps) (simp add: Let_def)
      have sum: "?m + 1 + (len - len div 2 - 1) = first + len" using False by simp
      show ?thesis unfolding eq
      proof (rule less.IH)
        show "f (xs ! i)" if "i < ?m + 1" for i
          using assms(1) [of i ?m] True m(1) that by simp
      qed (use False less.prems(1,3) in \<open>unfold sum, simp_all\<close>)
    next
      case no: False
      have eq: "lower_bound f xs first len = lower_bound f xs first (len div 2)"
        using False no by (subst lower_bound.simps) (simp add: Let_def)
      show ?thesis unfolding eq
      proof (rule less.IH)
        show "\<not> f (xs ! i)" if "?m \<le> i" "i < length xs" for i
          using assms(1) [of ?m i] no that by blast
      qed (use False m less.prems(2) in simp_all)
    qed
  qed
qed

text \<open>Maximal times along a chain that grows by the rule of \<open>AddToBlockIndex\<close>.\<close>

definition time_max_ok :: "block_store \<Rightarrow> bool" where
  "time_max_ok st \<longleftrightarrow> list_all (\<lambda>b. nTime b \<le> nTimeMax b \<and>
     (case pprev b of None \<Rightarrow> True | Some q \<Rightarrow> nTimeMax (st ! q) \<le> nTimeMax b)) st"

lemma time_max_ancestor:
  assumes wf: "wf_links st" and tm: "time_max_ok st" and p: "p < length st"
    and q: "ancestor_at st p k = Some q" and k: "0 \<le> k" "k \<le> nHeight (st ! p)"
  shows "nTimeMax (st ! q) \<le> nTimeMax (st ! p)"
  using q k
proof (induction "nat (nHeight (st ! p) - k)" arbitrary: k q)
  case (0 k q)
  then show ?case using ancestor_at_self [OF p] by simp
next
  case (Suc m k q)
  have le: "k + 1 \<le> nHeight (st ! p)" using Suc.hyps(2) by arith
  then obtain r where r: "ancestor_at st p (k + 1) = Some r"
    using tree.anc_ex [OF wf p, of "k + 1"] Suc.prems by auto
  note R = pprev_ancestor [OF wf p r]
  have "nTimeMax (st ! r) \<le> nTimeMax (st ! p)"
    using Suc.hyps(1) [of "k + 1" r] Suc.hyps(2) Suc.prems le r by simp
  moreover have "pprev (st ! r) = Some q" "r < length st" using R Suc.prems le by auto
  then have "nTimeMax (st ! q) \<le> nTimeMax (st ! r)"
    using tm by (auto simp: time_max_ok_def list_all_length)
  ultimately show ?case by (rule order_trans [rotated])
qed

lemma FindEarliestAtLeast_first:
  assumes wf: "wf_links st" and tm: "time_max_ok st" and t: "t < length st" "on_chain st vc t"
  shows "case FindEarliestAtLeast st vc tm0 of
      None \<Rightarrow> \<forall>i < length vc. \<forall>p. vc ! i = Some p \<longrightarrow> GetBlockTimeMax (st ! p) < tm0
    | Some q \<Rightarrow> GetBlockTimeMax (st ! q) \<ge> tm0 \<and> chain_at vc (nHeight (st ! q)) = Some q \<and>
        (\<forall>i p. int i < nHeight (st ! q) \<longrightarrow> vc ! i = Some p \<longrightarrow> GetBlockTimeMax (st ! p) < tm0)"
proof -
  define f where "f = (\<lambda>e. case e of None \<Rightarrow> False | Some p \<Rightarrow> GetBlockTimeMax (st ! p) < tm0)"
  define n where "n = lower_bound f vc 0 (length vc)"
  have len: "int (length vc) = nHeight (st ! t) + 1" using t(2) by (rule on_chainD)
  have entry: "\<exists>p. vc ! i = Some p \<and> p < length st \<and> nHeight (st ! p) = int i \<and> ancestor_at st t (int i) = Some p"
    if "i < length vc" for i
    using tree.anc_ex [OF wf t(1), of "int i"] on_chainD(1) [OF t(2) that] len that by auto
  have mono: "f (vc ! i)" if ij: "i \<le> j" "j < length vc" "f (vc ! j)" for i j
  proof -
    obtain p where p: "vc ! i = Some p" "ancestor_at st t (int i) = Some p" using entry [of i] ij(1,2) by auto
    obtain q where q: "vc ! j = Some q" "q < length st" "nHeight (st ! q) = int j" "ancestor_at st t (int j) = Some q"
      using entry [of j] ij by auto
    have "ancestor_at st q (int i) = Some p"
      using ancestor_at_trans [OF wf t(1) q(4), of "int i"] p(2) ij(1,2) len by simp
    then have "nTimeMax (st ! p) \<le> nTimeMax (st ! q)"
      using time_max_ancestor [OF wf tm q(2)] q(3) ij(1) by simp
    then have "GetBlockTimeMax (st ! p) \<le> GetBlockTimeMax (st ! q)"
      by (simp add: GetBlockTimeMax_def word_le_def)
    then show ?thesis using ij(3) p(1) q(1) by (simp add: f_def)
  qed
  have lb: "n \<le> length vc" "\<And>i. i < n \<Longrightarrow> f (vc ! i)" "n < length vc \<Longrightarrow> \<not> f (vc ! n)"
    using lower_bound_split [of vc f 0 "length vc"] mono unfolding n_def by auto
  have eq: "FindEarliestAtLeast st vc tm0 = (if n = length vc then None else vc ! n)"
    by (simp add: FindEarliestAtLeast_def f_def [symmetric] n_def [symmetric] Let_def)
  show ?thesis
  proof (cases "n = length vc")
    case True
    have "GetBlockTimeMax (st ! p) < tm0" if "i < length vc" "vc ! i = Some p" for i p
      using lb(2) [of i] that True by (simp add: f_def)
    then show ?thesis using eq True by simp
  next
    case False
    then obtain q where q: "vc ! n = Some q" "nHeight (st ! q) = int n" using lb(1) entry [of n] by auto
    have "\<not> f (vc ! n)" using lb(1,3) False by simp
    then have "GetBlockTimeMax (st ! q) \<ge> tm0" using q(1) by (simp add: f_def)
    moreover have "chain_at vc (int n) = Some q" using lb(1) False q(1) by (simp add: chain_at_def)
    moreover have "GetBlockTimeMax (st ! p) < tm0" if "i < n" "vc ! i = Some p" for i p
      using lb(2) [OF that(1)] that(2) by (simp add: f_def)
    ultimately show ?thesis using eq False q by simp
  qed
qed

subsection \<open>Candidate order\<close>

lemma CBlockIndexWorkComparator_iff:
  assumes "length (nChainWork (st ! a)) = 8" and "length (nChainWork (st ! b)) = 8"
  shows "CBlockIndexWorkComparator st a b \<longleftrightarrow>
    (digits_val (nChainWork (st ! a)), - nSequenceId (st ! a), - int a) <
    (digits_val (nChainWork (st ! b)), - nSequenceId (st ! b), - int b)"
  using assms by (auto simp: CBlockIndexWorkComparator_def Let_def CompareTo_val less_prod_simp)

subsection \<open>Work\<close>

lemma ApproxNthRoot_pos:
  assumes "1 < n" and "n < 64" and "length a = 8" and "0 < digits_val a"
  obtains r where "ApproxNthRoot a n = Some r" and "length r = 8" and "0 < digits_val r"
    and "digits_val r ^ n \<le> digits_val a"
proof -
  obtain r s where r: "ApproxNthRoot a n = Some r" "length r = length a" "digits_val r ^ n \<le> digits_val a"
    "digits_val a < (digits_val r + 2 ^ s) ^ n" and s: "s = (base_uint_bits a - 1) div n + 1 - 64 div n"
    by (rule ApproxNthRoot_bounds [of n a]) (use assms in auto)
  have "0 < digits_val r"
  proof (rule ccontr)
    assume "\<not> 0 < digits_val r"
    then have lt: "digits_val a < 2 ^ (s * n)" using r(4) by (simp add: power_mult)
    have "64 div n \<ge> 1" using assms(1,2) by (simp add: Suc_le_eq div_greater_zero_iff)
    then have "s * n \<le> (base_uint_bits a - 1) div n * n" unfolding s by (intro mult_le_mono1) simp
    also have "\<dots> \<le> base_uint_bits a - 1" by simp
    finally have "(2 :: nat) ^ (s * n) \<le> 2 ^ (base_uint_bits a - 1)" by (intro power_increasing) auto
    also have "\<dots> \<le> digits_val a" using assms(4) bits_eq_0_iff [of a] by (intro bits_ge) auto
    finally show False using lt by simp
  qed
  with r assms(3) show ?thesis by (intro that) simp_all
qed

text \<open>The target that the next block of an algorithm needs, and its root as the block proof takes it.\<close>

definition next_target :: "block_store \<Rightarrow> block_id option \<Rightarrow> Params \<Rightarrow> int \<Rightarrow> nat" where
  "next_target st prev params i =
     (case GetNextWorkRequired st prev params i of Some (Inr c) \<Rightarrow> digits_val (fst (SetCompact c)) | _ \<Rightarrow> 0)"

definition next_root :: "block_store \<Rightarrow> block_id option \<Rightarrow> Params \<Rightarrow> int \<Rightarrow> int \<Rightarrow> nat" where
  "next_root st prev params n i =
     (case GetNextWorkRequired st prev params i of
        Some (Inr c) \<Rightarrow> (case ApproxNthRoot (fst (SetCompact c)) (nat n) of Some r \<Rightarrow> digits_val r | None \<Rightarrow> 0)
      | _ \<Rightarrow> 0)"

lemma next_target_root:
  assumes wf: "wf_links st" "valid_ptr st prev" "wf_pow_params params" and n: "1 < n" "n < 64"
  obtains c t where "GetNextWorkRequired st prev params i = Some (Inr c)" and "SetCompact c = (t, False, False)" and "length t = 8"
    and "digits_val t = next_target st prev params i" and "next_target st prev params i \<le> limit_val params"
    and "next_target st prev params i \<noteq> 0 \<Longrightarrow> \<exists>r. ApproxNthRoot t (nat n) = Some r \<and> length r = 8 \<and>
      digits_val r = next_root st prev params n i \<and> 0 < digits_val r \<and> digits_val r ^ nat n \<le> next_target st prev params i"
proof -
  obtain c where c: "GetNextWorkRequired st prev params i = Some (Inr c)" "valid_bits params c"
    using GetNextWorkRequired_valid [OF wf] by blast
  obtain t g ov where S: "SetCompact c = (t, g, ov)" by (cases "SetCompact c") auto
  have t: "\<not> g" "\<not> ov" "length t = 8" "digits_val t \<le> limit_val params" using c(2) by (simp_all add: valid_bits_def S)
  have nt: "next_target st prev params i = digits_val t" by (simp add: next_target_def c(1) S)
  show ?thesis
  proof (rule that [OF c(1)])
    assume nz: "next_target st prev params i \<noteq> 0"
    obtain r where "ApproxNthRoot t (nat n) = Some r" "length r = 8" "0 < digits_val r" "digits_val r ^ nat n \<le> digits_val t"
      by (rule ApproxNthRoot_pos [of "nat n" t]) (use n t nt nz in auto)
    then show "\<exists>r. ApproxNthRoot t (nat n) = Some r \<and> length r = 8 \<and>
        digits_val r = next_root st prev params n i \<and> 0 < digits_val r \<and> digits_val r ^ nat n \<le> next_target st prev params i"
      using nt by (simp add: next_root_def c(1) S)
  qed (use S t nt in simp_all)
qed

lemma proof_product_val:
  assumes wf: "wf_links st" "valid_ptr st prev" "wf_pow_params params" and n: "1 < n" "n < 64"
    and "length acc = 8" and "0 < digits_val acc"
    and "digits_val acc ^ nat n \<le> limit_val params ^ k" and "k + length algos \<le> nat n"
  shows "\<exists>avg. proof_product st prev params n algos acc =
      Some (Inr (if list_ex (\<lambda>i. next_target st prev params i = 0) algos then None else Some avg)) \<and>
    (list_all (\<lambda>i. next_target st prev params i \<noteq> 0) algos \<longrightarrow> length avg = 8 \<and> 0 < digits_val avg \<and>
      digits_val avg = digits_val acc * (\<Prod>i\<leftarrow>algos. next_root st prev params n i) \<and>
      digits_val avg ^ nat n \<le> limit_val params ^ (k + length algos))"
  using assms(6-9)
proof (induction algos arbitrary: acc k)
  case (Cons i algos)
  let ?L = "limit_val params"
  obtain c t where c: "GetNextWorkRequired st prev params i = Some (Inr c)" and S: "SetCompact c = (t, False, False)" "length t = 8"
    and t: "digits_val t = next_target st prev params i" "next_target st prev params i \<le> ?L"
    and root: "next_target st prev params i \<noteq> 0 \<Longrightarrow> \<exists>r. ApproxNthRoot t (nat n) = Some r \<and> length r = 8 \<and>
      digits_val r = next_root st prev params n i \<and> 0 < digits_val r \<and> digits_val r ^ nat n \<le> next_target st prev params i"
    by (rule next_target_root [OF wf n, of i]) (rule that)
  show ?case
  proof (cases "next_target st prev params i = 0")
    case True
    then show ?thesis using c S t by (simp add: EqualTo_val)
  next
    case False
    then obtain r where r: "ApproxNthRoot t (nat n) = Some r" "length r = 8" "digits_val r = next_root st prev params n i"
      "0 < digits_val r" "digits_val r ^ nat n \<le> next_target st prev params i" using root by blast
    have L: "1 \<le> ?L" using False t(2) by simp
    have "(digits_val acc * digits_val r) ^ nat n \<le> ?L ^ k * ?L"
      unfolding power_mult_distrib using Cons.prems(3) r(5) t(2) by (intro mult_le_mono) simp_all
    then have p: "(digits_val acc * digits_val r) ^ nat n \<le> ?L ^ Suc k" by (simp add: mult.commute)
    also have "\<dots> \<le> ?L ^ nat n" using Cons.prems(4) L by (intro power_increasing) auto
    finally have "digits_val acc * digits_val r \<le> ?L"
      using n(1) by (subst (asm) power_mono_iff) auto
    moreover have "?L < 2 ^ 256" by (simp add: limit_val_def limbs_less_256 del: power_numeral)
    ultimately have "digits_val acc * digits_val r < 2 ^ 256" by (rule le_less_trans)
    then have val: "digits_val (base_uint_mul acc r) = digits_val acc * digits_val r"
      using Cons.prems(1) r(2) by (simp add: base_uint_mul_val)
    have acc: "length (base_uint_mul acc r) = 8" "0 < digits_val (base_uint_mul acc r)"
      "digits_val (base_uint_mul acc r) ^ nat n \<le> ?L ^ Suc k" "Suc k + length algos \<le> nat n"
      using Cons.prems r(2,4) p by (simp_all only: val) simp_all
    from Cons.IH [OF this] show ?thesis
      using c S t False r by (simp add: EqualTo_val val mult.assoc)
  qed
qed simp

lemma next_root_product:
  assumes wf: "wf_links st" "valid_ptr st prev" "wf_pow_params params" and n: "1 < n" "n < 64"
    and "list_all (\<lambda>i. next_target st prev params i \<noteq> 0) algos"
  shows "(\<Prod>i\<leftarrow>algos. next_root st prev params n i) ^ nat n \<le> (\<Prod>i\<leftarrow>algos. next_target st prev params i)"
  using assms(6)
proof (induction algos)
  case (Cons i algos)
  have "next_root st prev params n i ^ nat n \<le> next_target st prev params i"
    by (rule next_target_root [OF wf n, of i]) (use Cons.prems in auto)
  then show ?case using Cons by (simp add: power_mult_distrib mult_le_mono)
qed simp

lemma work_of_target_val:
  assumes "length a = 8" and "0 < digits_val a" and "digits_val a + 1 < 2 ^ 256"
  shows "\<exists>w. work_of_target a = Inr w \<and> length w = 8 \<and>
    digits_val w = 2 ^ 256 div (digits_val a + 1) * 2 ^ 7 mod 2 ^ 256"
proof -
  let ?M = "2 ^ 256 :: nat"
  have W: "W ^ 8 = ?M" by simp
  let ?one = "base_uint_of_u64 8 1"
  have add: "digits_val (base_uint_add a ?one) = digits_val a + 1"
    using assms by (simp add: base_uint_add_val base_uint_of_u64_val)
  have compl: "digits_val (base_uint_compl a) = ?M - 1 - digits_val a"
    unfolding base_uint_compl_val assms(1) W ..
  obtain q where q: "base_uint_div (base_uint_compl a) (base_uint_add a ?one) = Inr q" "length q = 8"
    "digits_val q = (?M - 1 - digits_val a) div (digits_val a + 1)"
    by (rule base_uint_div_val [of "base_uint_compl a" "base_uint_add a ?one"]) (use assms(1) in \<open>simp_all add: add compl\<close>)
  have "?M = (?M - 1 - digits_val a) + (digits_val a + 1)" using assms(3) by linarith
  then have "?M div (digits_val a + 1) = digits_val q + 1"
    unfolding q(3) by (metis add_is_0 div_add_self2 one_neq_zero)
  moreover have "?M div (digits_val a + 1) \<le> ?M div 2" using assms(2) by (intro div_le_mono2) simp_all
  ultimately have "digits_val q + 1 < ?M" by simp
  then have "digits_val (base_uint_add q ?one) = digits_val q + 1"
    using q(2) by (simp add: base_uint_add_val base_uint_of_u64_val)
  then show ?thesis
    using q(1,2) \<open>?M div (digits_val a + 1) = digits_val q + 1\<close>
    by (simp add: work_of_target_def base_uint_shl_val)
qed

lemma CURRENT_ALGOS_range: "1 < CURRENT_ALGOS params h \<and> CURRENT_ALGOS params h < 64"
  by (simp add: CURRENT_ALGOS_def NUM_ALGOS_defs)

lemma GetBlockProof_val:
  assumes wf: "wf_links st" "valid_ptr st (pprev b)" "wf_pow_params params"
    and lim: "limit_val params + 1 < 2 ^ 256" and n: "n = CURRENT_ALGOS params (nHeight b)"
    and avg: "avg = (\<Prod>i\<leftarrow>[0..n - 1]. next_root st (pprev b) params n i)"
  shows "\<exists>w. GetBlockProof st b params = Some (Inr w) \<and> length w = 8 \<and>
    digits_val w = (if list_ex (\<lambda>i. next_target st (pprev b) params i = 0) [0..n - 1] then 0
      else 2 ^ 256 div (avg + 1) * 2 ^ 7 mod 2 ^ 256)"
    and "list_all (\<lambda>i. next_target st (pprev b) params i \<noteq> 0) [0..n - 1] \<Longrightarrow> 0 < avg \<and> avg \<le> limit_val params"
proof -
  let ?one = "base_uint_of_u64 8 1" and ?z = "list_ex (\<lambda>i. next_target st (pprev b) params i = 0) [0..n - 1]"
  have n1: "1 < n" "n < 64" using CURRENT_ALGOS_range [of params "nHeight b"] n by simp_all
  have len: "length [0..n - 1] = nat n" using n1 by simp
  obtain a where a: "proof_product st (pprev b) params n [0..n - 1] ?one = Some (Inr (if ?z then None else Some a))"
    "list_all (\<lambda>i. next_target st (pprev b) params i \<noteq> 0) [0..n - 1] \<longrightarrow> length a = 8 \<and> 0 < digits_val a \<and>
      digits_val a = avg \<and> digits_val a ^ nat n \<le> limit_val params ^ nat n"
    using proof_product_val [OF wf n1, of ?one 0 "[0..n - 1]"] by (auto simp: base_uint_of_u64_val avg simp del: upto.simps)
  have z: "?z \<longleftrightarrow> \<not> list_all (\<lambda>i. next_target st (pprev b) params i \<noteq> 0) [0..n - 1]" by (auto simp: list_ex_iff list_all_iff)
  have le: "0 < avg \<and> avg \<le> limit_val params" if "\<not> ?z"
    using a(2) that z n1(1) power_mono_iff [of avg "limit_val params" "nat n"] by auto
  then show "list_all (\<lambda>i. next_target st (pprev b) params i \<noteq> 0) [0..n - 1] \<Longrightarrow> 0 < avg \<and> avg \<le> limit_val params"
    using z by blast
  show "\<exists>w. GetBlockProof st b params = Some (Inr w) \<and> length w = 8 \<and>
    digits_val w = (if ?z then 0 else 2 ^ 256 div (avg + 1) * 2 ^ 7 mod 2 ^ 256)"
  proof (cases ?z)
    case True
    then show ?thesis using a(1) by (simp add: GetBlockProof_def Let_def base_uint_of_u64_val n [symmetric] del: upto.simps)
  next
    case False
    then have a': "length a = 8" "0 < digits_val a" "digits_val a = avg" using a(2) z by auto
    have "digits_val a + 1 < 2 ^ 256" using le [OF False] a'(3) lim by linarith
    from work_of_target_val [OF a'(1,2) this] show ?thesis
      using a(1) False a'(3) by (auto simp: GetBlockProof_def Let_def n [symmetric] simp del: upto.simps)
  qed
qed

end
