(* ===== verification/Block_Tree.thy ===== *)
theory Block_Tree
  imports Chain_Props
begin

text \<open>
  The invariant of the block tree under \<open>AddToBlockIndex\<close>, and the properties of the chain
  operations that rest on it.
\<close>

unbundle bit_operations_syntax

subsection \<open>Invariant\<close>

definition wf_tree :: "block_tree \<Rightarrow> bool" where
  "wf_tree bt \<longleftrightarrow> wf_store (bt_store bt) \<and> time_max_ok (bt_store bt) \<and>
     list_all (\<lambda>b. length (nChainWork b) = 8) (bt_store bt) \<and>
     (\<forall>h p. mapBlockIndex bt h = Some p \<longrightarrow>
        p < length (bt_store bt) \<and> phashBlock (bt_store bt ! p) = Some h) \<and>
     valid_ptr (bt_store bt) (pindexBestHeader bt)"

lemma wf_treeD:
  assumes "wf_tree bt"
  shows "wf_store (bt_store bt)" and "time_max_ok (bt_store bt)"
    and "list_all (\<lambda>b. length (nChainWork b) = 8) (bt_store bt)"
    and "mapBlockIndex bt h = Some p \<Longrightarrow> p < length (bt_store bt) \<and> phashBlock (bt_store bt ! p) = Some h"
    and "valid_ptr (bt_store bt) (pindexBestHeader bt)"
  using assms by (simp_all add: wf_tree_def)

text \<open>What linking a new entry does: one entry is appended, with correct links.\<close>

lemma link_entry_ok:
  assumes wf: "wf_tree bt" and ne: "hash \<noteq> hdr_hashPrevBlock block"
  obtains b where "link_entry bt hash block =
      Some (bt\<lparr>bt_store := bt_store bt @ [b], mapBlockIndex := (mapBlockIndex bt)(hash \<mapsto> length (bt_store bt))\<rparr>,
        length (bt_store bt))"
    and "wf_store (bt_store bt @ [b])" and "pprev b = mapBlockIndex bt (hdr_hashPrevBlock block)"
    and "phashBlock b = Some hash" and "nTime b = hdr_nTime block" and "nStatus b = 0"
    and "nBits b = hdr_nBits block" and "nVersion b = hdr_nVersion block"
    and "hashMerkleRoot b = hdr_hashMerkleRoot block" and "nNonce b = hdr_nNonce block"
proof -
  let ?st = "bt_store bt" and ?p = "length (bt_store bt)"
  define b0 where "b0 = (CBlockIndex_of_header block)\<lparr>nSequenceId := 0, phashBlock := Some hash\<rparr>"
  have b0: "pprev b0 = None" "pskip b0 = None" "nHeight b0 = 0" "phashBlock b0 = Some hash"
    "nTime b0 = hdr_nTime block" "nStatus b0 = 0" "nBits b0 = hdr_nBits block" "nVersion b0 = hdr_nVersion block"
    "hashMerkleRoot b0 = hdr_hashMerkleRoot block" "nNonce b0 = hdr_nNonce block"
    by (simp_all add: b0_def CBlockIndex_of_header_def CBlockIndex_SetNull_def)
  note st = wf_treeD(1) [OF wf]
  show ?thesis
  proof (cases "mapBlockIndex bt (hdr_hashPrevBlock block)")
    case None
    have "wf_store (?st @ [b0])" using st b0 by (intro wf_store_append) (simp_all add: wf_link_def)
    with None ne b0 show ?thesis
      by (intro that [of b0]) (simp_all add: link_entry_def Let_def b0_def [symmetric])
  next
    case (Some q)
    then have q: "q < length ?st" using wf_treeD(4) [OF wf] by blast
    define b1 where "b1 = b0\<lparr>pprev := Some q, nHeight := nHeight (?st ! q) + 1\<rparr>"
    have "0 \<le> nHeight (?st ! q)" using wf_store_links [OF st] q by (rule wf_linkD)
    then have "wf_link ?st b1" using q by (simp add: wf_link_def b1_def)
    then have w1: "wf_store (?st @ [b1])" using st b0 by (intro wf_store_append) (simp_all add: b1_def)
    have p: "?p < length (?st @ [b1])" by simp
    obtain s where s: "BuildSkip (?st @ [b1]) ?p = Some (?st @ [b1\<lparr>pskip := s\<rparr>])"
      "wf_store (?st @ [b1\<lparr>pskip := s\<rparr>])"
      using BuildSkip_correct [OF w1 p] by (metis list_update_length nth_append_length)
    have "link_entry bt hash block = Some (bt\<lparr>bt_store := ?st @ [b1\<lparr>pskip := s\<rparr>],
        mapBlockIndex := (mapBlockIndex bt)(hash \<mapsto> ?p)\<rparr>, ?p)"
      using Some ne q s(1) by (simp add: link_entry_def Let_def b0_def [symmetric] b1_def nth_append)
    with s(2) Some b0 show ?thesis
      by (intro that [of "b1\<lparr>pskip := s\<rparr>"]) (simp_all add: b1_def)
  qed
qed

lemma RaiseValidity_TREE:
  "nStatus b = 0 \<Longrightarrow> RaiseValidity b BLOCK_VALID_TREE = Some (b\<lparr>nStatus := BLOCK_VALID_TREE\<rparr>, True)"
  by (simp add: RaiseValidity_def BLOCK_VALID_TREE_def BLOCK_VALID_MASK_def BLOCK_FAILED_MASK_def
      BLOCK_FAILED_VALID_def BLOCK_FAILED_CHILD_def)

lemma same_links_append:
  "pprev b = pprev b' \<Longrightarrow> pskip b = pskip b' \<Longrightarrow> nHeight b = nHeight b' \<Longrightarrow>
   same_links (st @ [b]) (st @ [b'])"
  by (simp add: same_links_def)

lemma time_max_append:
  assumes "wf_links st" and "time_max_ok st" and "nTime b \<le> nTimeMax b"
    and "\<And>q. pprev b = Some q \<Longrightarrow> q < length st \<and> nTimeMax (st ! q) \<le> nTimeMax b"
  shows "time_max_ok (st @ [b])"
proof -
  have "case pprev c of None \<Rightarrow> True | Some q \<Rightarrow> nTimeMax ((st @ [b]) ! q) \<le> nTimeMax c"
    if "c \<in> set st" for c
  proof -
    have "valid_ptr st (pprev c)" using assms(1) that by (auto simp: in_set_conv_nth)
    then show ?thesis
      using assms(2) that by (cases "pprev c") (auto simp: time_max_ok_def list_all_iff nth_append)
  qed
  moreover have "nTime c \<le> nTimeMax c" if "c \<in> set st" for c
    using assms(2) that by (simp add: time_max_ok_def list_all_iff)
  moreover have "case pprev b of None \<Rightarrow> True | Some q \<Rightarrow> nTimeMax ((st @ [b]) ! q) \<le> nTimeMax b"
    using assms(4) by (cases "pprev b") (simp_all add: nth_append)
  ultimately show ?thesis using assms(3) by (simp add: time_max_ok_def list_all_iff)
qed

text \<open>The entry that \<open>AddToBlockIndex\<close> finally stores for a status flag it is called with.\<close>

lemma AddToBlockIndex_new:
  assumes wf: "wf_tree bt" and ne: "CBlockHeader_GetHash H block \<noteq> hdr_hashPrevBlock block"
    and new: "mapBlockIndex bt (CBlockHeader_GetHash H block) = None"
    and params: "wf_pow_params params" "limit_val params + 1 < 2 ^ 256"
    and status: "status = BLOCK_VALID_TREE \<or> status = BLOCK_CONFLICT_CHAINLOCK"
  obtains bt' b where "AddToBlockIndex H params bt block status = Some (Inr (bt', length (bt_store bt)))"
    and "bt_store bt' = bt_store bt @ [b]" and "wf_store (bt_store bt @ [b])"
    and "mapBlockIndex bt' = (mapBlockIndex bt)(CBlockHeader_GetHash H block \<mapsto> length (bt_store bt))"
    and "phashBlock b = Some (CBlockHeader_GetHash H block)"
    and "pprev b = mapBlockIndex bt (hdr_hashPrevBlock block)"
    and "nTimeMax b = (case pprev b of None \<Rightarrow> nTime b | Some q \<Rightarrow> max (nTimeMax (bt_store bt ! q)) (nTime b))"
    and "length (nChainWork b) = 8" and "valid_ptr (bt_store bt') (pindexBestHeader bt')"
    and "nTime b = hdr_nTime block" and "nBits b = hdr_nBits block" and "nVersion b = hdr_nVersion block"
    and "hashMerkleRoot b = hdr_hashMerkleRoot block" and "nNonce b = hdr_nNonce block"
    and "nStatus b = (if status = BLOCK_CONFLICT_CHAINLOCK then BLOCK_VALID_TREE OR BLOCK_CONFLICT_CHAINLOCK else BLOCK_VALID_TREE)"
proof -
  let ?hash = "CBlockHeader_GetHash H block" and ?st = "bt_store bt" and ?p = "length (bt_store bt)"
  obtain b where le: "link_entry bt ?hash block =
      Some (bt\<lparr>bt_store := ?st @ [b], mapBlockIndex := (mapBlockIndex bt)(?hash \<mapsto> ?p)\<rparr>, ?p)"
    and b: "wf_store (?st @ [b])" "pprev b = mapBlockIndex bt (hdr_hashPrevBlock block)"
      "phashBlock b = Some ?hash" "nStatus b = 0"
      "nTime b = hdr_nTime block" "nBits b = hdr_nBits block" "nVersion b = hdr_nVersion block"
      "hashMerkleRoot b = hdr_hashMerkleRoot block" "nNonce b = hdr_nNonce block"
    using wf ne by (rule link_entry_ok)
  have prev: "q < length ?st" if "pprev b = Some q" for q
    using wf_treeD(4) [OF wf, of "hdr_hashPrevBlock block" q] that b(2) by simp
  define prv where "prv = (case pprev b of None \<Rightarrow> None | Some q \<Rightarrow> Some (?st ! q))"
  have prv: "(case pprev b of None \<Rightarrow> Some None | Some q \<Rightarrow> map_option Some (deref (?st @ [b]) q)) = Some prv"
    using prev by (cases "pprev b") (simp_all add: prv_def nth_append)
  define tmax where "tmax = (case prv of None \<Rightarrow> nTime b | Some bq \<Rightarrow> max (nTimeMax bq) (nTime b))"
  define base where "base = (case prv of None \<Rightarrow> base_uint_of_u64 8 0 | Some bq \<Rightarrow> nChainWork bq)"
  have "valid_ptr (?st @ [b]) (pprev b)" using prev by (cases "pprev b") fastforce+
  then obtain w where w: "GetBlockProof (?st @ [b]) (b\<lparr>nTimeMax := tmax\<rparr>) params = Some (Inr w)" "length w = 8"
    using GetBlockProof_val(1) [OF wf_store_links [OF b(1)] _ params refl refl, of "b\<lparr>nTimeMax := tmax\<rparr>"] by auto
  have base: "length base = 8"
    using wf_treeD(3) [OF wf] prev by (cases "pprev b") (auto simp: base_def prv_def list_all_length)
  define b3 where "b3 = b\<lparr>nTimeMax := tmax, nChainWork := base_uint_add base w\<rparr>"
  define best where "best = (case pindexBestHeader bt of None \<Rightarrow> Some ?p
    | Some o1 \<Rightarrow> if CompareTo (nChainWork (?st ! o1)) (nChainWork b3) < 0 then Some ?p else Some o1)"
  define conf where "conf = (status = BLOCK_CONFLICT_CHAINLOCK)"
  define b4 where "b4 = b3\<lparr>nStatus := (if conf then BLOCK_VALID_TREE OR BLOCK_CONFLICT_CHAINLOCK else BLOCK_VALID_TREE)\<rparr>"
  define bt' where "bt' = bt\<lparr>bt_store := ?st @ [b4], mapBlockIndex := (mapBlockIndex bt)(?hash \<mapsto> ?p),
    pindexBestHeader := (if conf then pindexBestHeader bt else best),
    setDirtyBlockIndex := insert ?p (setDirtyBlockIndex bt),
    mapPrevBlockIndex := (case prv of None \<Rightarrow> mapPrevBlockIndex bt
      | Some bq \<Rightarrow> mapPrevBlockIndex bt @ [(GetBlockHash bq, ?p)])\<rparr>"
  note old = wf_treeD(5) [OF wf]
  have mask: "BLOCK_VALID_TREE AND BLOCK_VALID_MASK \<noteq> 0" "BLOCK_CONFLICT_CHAINLOCK AND BLOCK_VALID_MASK = 0"
    by (simp_all add: BLOCK_VALID_TREE_def BLOCK_VALID_MASK_def BLOCK_CONFLICT_CHAINLOCK_def)
  have rv: "RaiseValidity b3 BLOCK_VALID_TREE = Some (b3\<lparr>nStatus := BLOCK_VALID_TREE\<rparr>, True)"
    using b(4) by (intro RaiseValidity_TREE) (simp add: b3_def)
  have "AddToBlockIndex H params bt block status = Some (Inr (bt', ?p))"
  proof (cases conf)
    case True
    then show ?thesis
      unfolding AddToBlockIndex_def Let_def
      using mask status new le prev w(1) rv
      by (cases "pprev b") (simp_all add: conf_def prv_def tmax_def base_def b3_def bt'_def b4_def nth_append)
  next
    case False
    then have "status = BLOCK_VALID_TREE" using status by (simp add: conf_def)
    then show ?thesis
      unfolding AddToBlockIndex_def Let_def
      using False mask new le prev w(1) rv old
      by (cases "pprev b"; cases "pindexBestHeader bt")
         (simp_all add: prv_def tmax_def base_def b3_def bt'_def b4_def best_def nth_append)
  qed
  moreover have "wf_store (?st @ [b4])"
    using wf_store_same_links [OF same_links_append b(1)] by (simp add: b4_def b3_def)
  moreover have "nTimeMax b4 = (case pprev b4 of None \<Rightarrow> nTime b4 | Some q \<Rightarrow> max (nTimeMax (?st ! q)) (nTime b4))"
    by (cases "pprev b") (simp_all add: b4_def b3_def tmax_def prv_def)
  moreover have "valid_ptr (?st @ [b4]) (if conf then pindexBestHeader bt else best)"
    using old by (cases "pindexBestHeader bt") (auto simp: best_def)
  ultimately show ?thesis
    using b base w(2) by (intro that [of bt' b4]) (simp_all add: bt'_def b4_def b3_def conf_def)
qed

lemma AddToBlockIndex_wf:
  assumes wf: "wf_tree bt" and ne: "CBlockHeader_GetHash H block \<noteq> hdr_hashPrevBlock block"
    and params: "wf_pow_params params" "limit_val params + 1 < 2 ^ 256"
    and status: "status = BLOCK_VALID_TREE \<or> status = BLOCK_CONFLICT_CHAINLOCK"
  shows "\<exists>bt' p. AddToBlockIndex H params bt block status = Some (Inr (bt', p)) \<and> wf_tree bt' \<and>
    mapBlockIndex bt' (CBlockHeader_GetHash H block) = Some p"
proof (cases "mapBlockIndex bt (CBlockHeader_GetHash H block)")
  case (Some p)
  with wf show ?thesis by (simp add: AddToBlockIndex_def)
next
  case None
  let ?st = "bt_store bt" and ?hash = "CBlockHeader_GetHash H block"
  obtain bt' b where A: "AddToBlockIndex H params bt block status = Some (Inr (bt', length ?st))"
    "bt_store bt' = ?st @ [b]" "wf_store (?st @ [b])"
    "mapBlockIndex bt' = (mapBlockIndex bt)(?hash \<mapsto> length ?st)" "phashBlock b = Some ?hash"
    "pprev b = mapBlockIndex bt (hdr_hashPrevBlock block)"
    and tm: "nTimeMax b = (case pprev b of None \<Rightarrow> nTime b | Some q \<Rightarrow> max (nTimeMax (?st ! q)) (nTime b))"
    and B: "length (nChainWork b) = 8" "valid_ptr (bt_store bt') (pindexBestHeader bt')"
    using wf ne None params status by (rule AddToBlockIndex_new)
  have prev: "q < length ?st" if "pprev b = Some q" for q
    using wf_treeD(4) [OF wf, of "hdr_hashPrevBlock block" q] that A(6) by simp
  have "time_max_ok (?st @ [b])"
    using wf_store_links [OF wf_treeD(1) [OF wf]] wf_treeD(2) [OF wf]
    by (rule time_max_append) (use tm prev in \<open>cases "pprev b"; simp\<close>)+
  moreover have "p < length (?st @ [b]) \<and> phashBlock ((?st @ [b]) ! p) = Some h"
    if "mapBlockIndex bt' h = Some p" for h p
    using that A(4,5) wf_treeD(4) [OF wf, of h p] by (auto simp: nth_append split: if_splits)
  ultimately have "wf_tree bt'"
    using A B wf_treeD(3) [OF wf] by (simp add: wf_tree_def)
  then show ?thesis using A(1,4) by simp
qed

subsection \<open>Properties\<close>

text \<open>A store of two blocks, used to instantiate the properties.\<close>

definition child_entry :: CBlockIndex where
  "child_entry = genesis_entry\<lparr>pprev := Some 0, pskip := Some 0, nHeight := 1,
     nTime := 1618800900, nTimeMax := 1618800900\<rparr>"

definition two_blocks :: block_store where
  "two_blocks = [genesis_entry\<lparr>nTimeMax := nTime genesis_entry\<rparr>, child_entry]"

lemma two_blocks_simps:
  "length two_blocks = 2" "nHeight (two_blocks ! 0) = 0" "nHeight (two_blocks ! Suc 0) = 1"
  "pprev (two_blocks ! 0) = None" "pprev (two_blocks ! Suc 0) = Some 0"
  "pskip (two_blocks ! 0) = None" "pskip (two_blocks ! Suc 0) = Some 0"
  by (simp_all add: two_blocks_def child_entry_def genesis_entry_def CBlockIndex_SetNull_def)

lemma two_blocks_wf: "wf_store two_blocks"
proof -
  have "wf_link two_blocks (two_blocks ! i)" if "i < 2" for i
    using that by (cases i) (auto simp: wf_link_def two_blocks_simps less_Suc_eq)
  moreover have "wf_skip two_blocks i" if "i < 2" for i
    using that by (cases i) (auto simp: wf_skip_def two_blocks_simps less_Suc_eq ancestor_at_def
        deref_def GetSkipHeight_def)
  ultimately show ?thesis
    by (simp add: wf_store_def wf_links_def list_all_length list_all_iff two_blocks_simps)
qed

lemma two_blocks_time: "time_max_ok two_blocks"
  by (simp add: time_max_ok_def two_blocks_def child_entry_def genesis_entry_def CBlockIndex_SetNull_def)

lemma two_blocks_chain: "on_chain two_blocks [Some 0, Some 1] 1"
  by (simp add: on_chain_def two_blocks_simps ancestor_at_def deref_def nth_Cons')

text \<open>
  (C15) Following skip pointers gives the same entry as following \<open>pprev\<close> one step at a
  time: on a well-formed tree \<open>GetAncestor\<close> returns for every entry and every height, with
  the ancestor at that height, or with a null pointer when the height is out of range.
\<close>

theorem GetAncestor_is_ancestor:
  assumes "wf_store st" and "p < length st"
  shows "GetAncestor st p h =
    Some (if 0 \<le> h \<and> h \<le> nHeight (st ! p) then pprev_n st (nat (nHeight (st ! p) - h)) p else None)"
  using GetAncestor_correct [OF assms, of h] assms(2) by (simp add: ancestor_at_def)

theorem GetAncestor_is_ancestor_witness:
  "GetAncestor two_blocks 1 0 =
     Some (if 0 \<le> (0 :: int) \<and> 0 \<le> nHeight (two_blocks ! 1)
           then pprev_n two_blocks (nat (nHeight (two_blocks ! 1) - 0)) 1 else None)"
  by (rule GetAncestor_is_ancestor [OF two_blocks_wf]) (simp add: two_blocks_simps)


definition const_hashes :: pow_hashes where
  "const_hashes = \<lparr>SerializeHash = (\<lambda>bs. replicate 32 (of_nat (length bs))), HashGR = (\<lambda>_ h. h),
     yespower_hash = (\<lambda>_. blob_null 32), LYRA2 = (\<lambda>_ _ _ _ _. blob_null 32),
     scrypt_1024_1_1_256 = (\<lambda>_. blob_null 32)\<rparr>"

definition null_header :: CBlockHeader where
  "null_header = \<lparr>hdr_nVersion = 4, hdr_hashPrevBlock = blob_null 32, hdr_hashMerkleRoot = blob_null 32,
     hdr_nTime = 1, hdr_nBits = 0x20001fff, hdr_nNonce = 0, hdr_hash = blob_null 32\<rparr>"

definition empty_tree :: block_tree where
  "empty_tree = \<lparr>bt_store = [], mapBlockIndex = Map.empty, mapPrevBlockIndex = [],
     pindexBestHeader = None, setDirtyBlockIndex = {}\<rparr>"

lemma mainnet_limit: "limit_val mainnet + 1 < 2 ^ 256"
  by (simp add: mainnet_limit_val)


text \<open>
  Moving the tip of a chain, which stops at the first entry the vector already
  holds, always yields the full path from the root to the new tip.
\<close>

theorem SetTip_path:
  assumes "wf_links st" and "chain_ok st vc" and "p < length st"
  shows "\<exists>vc'. SetTip st vc (Some p) = Some vc' \<and> int (length vc') = nHeight (st ! p) + 1 \<and>
    (\<forall>i < length vc'. vc' ! i = ancestor_at st p (int i)) \<and> chain_ok st vc'"
proof -
  obtain vc' where vc': "SetTip st vc (Some p) = Some vc'" "on_chain st vc' p"
    using SetTip_on_chain [OF assms] by blast
  have "chain_ok st vc'"
    using on_chain_Tip [OF assms(1,3) vc'(2)] vc'(2) assms(3) by (simp add: chain_ok_def)
  then show ?thesis using vc' on_chainD [OF vc'(2)] by blast
qed

theorem SetTip_path_witness:
  "\<exists>vc'. SetTip two_blocks [Some 0] (Some 1) = Some vc' \<and> int (length vc') = nHeight (two_blocks ! 1) + 1 \<and>
    (\<forall>i < length vc'. vc' ! i = ancestor_at two_blocks 1 (int i)) \<and> chain_ok two_blocks vc'"
proof (rule SetTip_path [OF wf_store_links [OF two_blocks_wf]])
  show "chain_ok two_blocks [Some 0]"
    by (simp add: chain_ok_def Tip_def on_chain_def two_blocks_simps ancestor_at_def)
qed (simp add: two_blocks_simps)

text \<open>
  (C24) The last common ancestor of two entries is found without failing its assertion;
  it is an ancestor of both, and above it the two branches have no entry in common.
\<close>

theorem LastCommonAncestor_correct:
  assumes "wf_store st" and "a < length st" and "b < length st"
  shows "\<exists>r. LastCommonAncestor st a b = Some r \<and> highest_common st a b r"
  using assms by (rule LastCommonAncestor_highest)

theorem LastCommonAncestor_correct_witness:
  "\<exists>r. LastCommonAncestor two_blocks 1 0 = Some r \<and> highest_common two_blocks 1 0 r"
  by (rule LastCommonAncestor_correct [OF two_blocks_wf]) (simp_all add: two_blocks_simps)

text \<open>
  The fork of an entry with the active chain is the highest entry they share.
\<close>

theorem FindFork_correct:
  assumes "wf_store st" and "p < length st" and "t < length st" and "on_chain st vc t"
  shows "\<exists>r. FindFork st vc (Some p) = Some r \<and> highest_common st p t r"
  using assms by (rule FindFork_highest)

theorem FindFork_correct_witness:
  "\<exists>r. FindFork two_blocks [Some 0, Some 1] (Some 0) = Some r \<and> highest_common two_blocks 0 1 r"
  by (rule FindFork_correct [OF two_blocks_wf _ _ two_blocks_chain]) (simp_all add: two_blocks_simps)

text \<open>
  The earliest block at or after a time, found by binary search over the active
  chain, is the first whose running maximal time reaches it.
\<close>

theorem FindEarliestAtLeast_correct:
  assumes "wf_links st" and "time_max_ok st" and "t < length st" and "on_chain st vc t"
  shows "case FindEarliestAtLeast st vc tm of
      None \<Rightarrow> \<forall>i < length vc. \<forall>p. vc ! i = Some p \<longrightarrow> GetBlockTimeMax (st ! p) < tm
    | Some q \<Rightarrow> GetBlockTimeMax (st ! q) \<ge> tm \<and> chain_at vc (nHeight (st ! q)) = Some q \<and>
        (\<forall>i p. int i < nHeight (st ! q) \<longrightarrow> vc ! i = Some p \<longrightarrow> GetBlockTimeMax (st ! p) < tm)"
  using assms by (rule FindEarliestAtLeast_first)

theorem FindEarliestAtLeast_correct_witness:
  "case FindEarliestAtLeast two_blocks [Some 0, Some 1] 1618800800 of
      None \<Rightarrow> \<forall>i < length [Some 0, Some (1 :: nat)]. \<forall>p. [Some 0, Some 1] ! i = Some p \<longrightarrow>
        GetBlockTimeMax (two_blocks ! p) < 1618800800
    | Some q \<Rightarrow> GetBlockTimeMax (two_blocks ! q) \<ge> 1618800800 \<and>
        chain_at [Some 0, Some 1] (nHeight (two_blocks ! q)) = Some q \<and>
        (\<forall>i p. int i < nHeight (two_blocks ! q) \<longrightarrow> [Some 0, Some 1] ! i = Some p \<longrightarrow>
          GetBlockTimeMax (two_blocks ! p) < 1618800800)"
  by (rule FindEarliestAtLeast_correct [OF wf_store_links [OF two_blocks_wf] two_blocks_time _ two_blocks_chain])
     (simp add: two_blocks_simps)

text \<open>
  (C25) The work of a block is computed without exception on a well-formed tree, and it is the
  work of the mean target of the algorithms in use at its height.  It is zero if one of them
  has target zero.  Otherwise it is 128 times two to the 256 over one more than the product of the
  roots of all the targets, modulo two to the 256; that product is positive, its power is at
  most the product of the targets, so that it never exceeds the geometric mean, and it does
  not exceed the limit.
\<close>

theorem GetBlockProof_work:
  assumes "wf_links st" and "valid_ptr st (pprev b)" and "wf_pow_params params" and "limit_val params + 1 < 2 ^ 256"
    and "n = CURRENT_ALGOS params (nHeight b)" and "avg = (\<Prod>i\<leftarrow>[0..n - 1]. next_root st (pprev b) params n i)"
  shows "(\<exists>w. GetBlockProof st b params = Some (Inr w) \<and> length w = 8 \<and>
      digits_val w = (if list_ex (\<lambda>i. next_target st (pprev b) params i = 0) [0..n - 1] then 0
        else 2 ^ 256 div (avg + 1) * 2 ^ 7 mod 2 ^ 256)) \<and>
    (list_all (\<lambda>i. next_target st (pprev b) params i \<noteq> 0) [0..n - 1] \<longrightarrow>
      0 < avg \<and> avg \<le> limit_val params \<and> avg ^ nat n \<le> (\<Prod>i\<leftarrow>[0..n - 1]. next_target st (pprev b) params i))"
  using GetBlockProof_val [OF assms] next_root_product [OF assms(1-3), of n "[0..n - 1]"]
    CURRENT_ALGOS_range [of params "nHeight b"] assms(5,6) by (simp del: upto.simps)

theorem GetBlockProof_work_witness:
  "\<exists>w. GetBlockProof two_blocks child_entry mainnet = Some (Inr w) \<and> length w = 8 \<and>
    digits_val w = (if list_ex (\<lambda>i. next_target two_blocks (pprev child_entry) mainnet i = 0) [0..3 - 1] then 0
      else 2 ^ 256 div ((\<Prod>i\<leftarrow>[0..3 - 1]. next_root two_blocks (pprev child_entry) mainnet 3 i) + 1) * 2 ^ 7 mod 2 ^ 256)"
proof -
  have "valid_ptr two_blocks (pprev child_entry)" by (simp add: child_entry_def two_blocks_simps)
  moreover have "wf_pow_params mainnet" by (simp add: wf_pow_params_def mainnet_timespans)
  moreover have "3 = CURRENT_ALGOS mainnet (nHeight child_entry)"
    by (simp add: CURRENT_ALGOS_def child_entry_def two_blocks_simps mainnet_heights NUM_ALGOS_def)
  ultimately show ?thesis
    by (intro GetBlockProof_work [THEN conjunct1, OF wf_store_links [OF two_blocks_wf] _ _ mainnet_limit _ refl])
qed

end
