(* ===== verification/Serialize.thy ===== *)
theory Serialize
  imports Bytes
begin

text \<open>
  Wire formats (\<open>serialize.h\<close>): fixed-width integers, compact sizes, variable-length
  integers, byte strings and vectors.  Writing is a function to bytes, reading a
  parser that returns a value and the rest of the stream or the exception that the source
  throws.  The contract of a format is a locale: what is written reads back, and in the
  canonical formats nothing else does.
\<close>

unbundle bit_operations_syntax

subsection \<open>Parsers\<close>

datatype ser_error = End_of_data | Non_canonical | Size_too_large | Out_of_range_bits
  | Index_out_of_bounds | Offset_overflow | Invalid_flag | Bad_format

type_synonym 'a parser = "bytes \<Rightarrow> ser_error + 'a \<times> bytes"

definition preturn :: "'a \<Rightarrow> 'a parser" where
  "preturn x s = Inr (x, s)"

definition pfail :: "ser_error \<Rightarrow> 'a parser" where
  "pfail e s = Inl e"

definition pbind :: "'a parser \<Rightarrow> ('a \<Rightarrow> 'b parser) \<Rightarrow> 'b parser" where
  "pbind p f s = (case p s of Inl e \<Rightarrow> Inl e | Inr (x, s') \<Rightarrow> f x s')"

lemma pbind_Inr [simp]: "p s = Inr (x, s') \<Longrightarrow> pbind p f s = f x s'"
  by (simp add: pbind_def)

lemma pbind_InrE:
  assumes "pbind p f s = Inr (y, t)"
  obtains x s' where "p s = Inr (x, s')" and "f x s' = Inr (y, t)"
  using assms by (auto simp: pbind_def split: sum.splits prod.splits)

definition read_data :: "nat \<Rightarrow> bytes parser" where
  "read_data n s = (if n \<le> length s then Inr (take n s, drop n s) else Inl End_of_data)"

definition ser_readdata8 :: "u8 parser" where
  "ser_readdata8 s = (case s of [] \<Rightarrow> Inl End_of_data | c # s' \<Rightarrow> Inr (c, s'))"

definition ser_readdata16 :: "u16 parser" where
  "ser_readdata16 = pbind (read_data 2) (\<lambda>b. preturn (ReadLE16 b))"

definition ser_readdata32 :: "u32 parser" where
  "ser_readdata32 = pbind (read_data 4) (\<lambda>b. preturn (ReadLE32 b))"

definition ser_readdata64 :: "u64 parser" where
  "ser_readdata64 = pbind (read_data 8) (\<lambda>b. preturn (ReadLE64 b))"

definition ser_writedata8 :: "u8 \<Rightarrow> bytes" where
  "ser_writedata8 x = [x]"

subsection \<open>Compact sizes\<close>

definition MAX_SIZE :: u64 where "MAX_SIZE = 0x02000000"

definition GetSizeOfCompactSize :: "u64 \<Rightarrow> nat" where
  "GetSizeOfCompactSize nSize =
     (if nSize < 253 then 1 else if nSize \<le> 0xffff then 1 + 2
      else if nSize \<le> 0xffffffff then 1 + 4 else 1 + 8)"

definition WriteCompactSize :: "u64 \<Rightarrow> bytes" where
  "WriteCompactSize nSize =
     (if nSize < 253 then ser_writedata8 (ucast nSize)
      else if nSize \<le> 0xffff then ser_writedata8 253 @ WriteLE16 (ucast nSize)
      else if nSize \<le> 0xffffffff then ser_writedata8 254 @ WriteLE32 (ucast nSize)
      else ser_writedata8 255 @ WriteLE64 nSize)"

definition ReadCompactSize :: "u64 parser" where
  "ReadCompactSize =
     pbind ser_readdata8 (\<lambda>chSize.
     pbind (if chSize < 253 then preturn (ucast chSize)
            else if chSize = 253 then
              pbind ser_readdata16 (\<lambda>v. if (ucast v :: u64) < 253 then pfail Non_canonical else preturn (ucast v))
            else if chSize = 254 then
              pbind ser_readdata32 (\<lambda>v. if (ucast v :: u64) < 0x10000 then pfail Non_canonical else preturn (ucast v))
            else
              pbind ser_readdata64 (\<lambda>v. if v < 0x100000000 then pfail Non_canonical else preturn v))
       (\<lambda>nSizeRet. if nSizeRet > MAX_SIZE then pfail Size_too_large else preturn nSizeRet))"

subsection \<open>Variable-length integers\<close>

text \<open>The digits in the order in which the loop fills \<open>tmp\<close>; \<open>more\<close> is \<open>len != 0\<close>.\<close>

definition varint_digit :: "bool \<Rightarrow> 'a::len word \<Rightarrow> u8" where
  "varint_digit more n = ucast (n AND 0x7F) OR (if more then 0x80 else 0x00)"

lemma take_bit_127: "take_bit n (127 :: nat) = mask (min n 7)"
proof -
  have "(127 :: nat) = mask 7" by (simp add: mask_eq_exp_minus_1)
  then show ?thesis by (simp only: take_bit_of_mask)
qed

lemma above_mask7:
  assumes "\<not> n \<le> (0x7F :: 'a::len word)"
  shows "127 < unat n" and "8 \<le> LENGTH('a)"
proof -
  have lt: "mask (min LENGTH('a) 7) < unat n" using assms by (simp add: word_le_nat_alt take_bit_127)
  show len: "8 \<le> LENGTH('a)"
  proof (rule ccontr)
    assume "\<not> 8 \<le> LENGTH('a)"
    then have "min LENGTH('a) 7 = LENGTH('a)" by simp
    with lt have "2 ^ LENGTH('a) \<le> unat n" by (simp add: mask_eq_exp_minus_1)
    moreover have "unat n < 2 ^ LENGTH('a)" by (rule unsigned_less)
    ultimately show False by simp
  qed
  then have "min LENGTH('a) 7 = 7" by simp
  with lt show "127 < unat n" by (simp add: mask_eq_exp_minus_1)
qed

lemma unat_drop7_pred:
  assumes "\<not> n \<le> (0x7F :: 'a::len word)"
  shows "unat (drop_bit 7 n - 1) = unat n div 128 - 1" and "1 \<le> unat n div 128"
proof -
  have "127 < unat n" using assms by (rule above_mask7)
  then show ge: "1 \<le> unat n div 128" by (simp add: Suc_le_eq div_greater_zero_iff)
  then have "drop_bit 7 n \<noteq> 0" by (auto simp: unat_eq_zero [symmetric] unat_drop_bit_div)
  then show "unat (drop_bit 7 n - 1) = unat n div 128 - 1"
    by (simp add: unat_minus_one unat_drop_bit_div)
qed

function varint_digits :: "bool \<Rightarrow> 'a::len word \<Rightarrow> bytes" where
  "varint_digits more n =
     (if n \<le> 0x7F then [varint_digit more n]
      else varint_digit more n # varint_digits True (drop_bit 7 n - 1))"
  by pat_completeness auto
termination
proof (relation "measure (\<lambda>(_, n). unat n)")
  fix more :: bool and n :: "'a word"
  assume "\<not> n \<le> 0x7F"
  from unat_drop7_pred [OF this] above_mask7(1) [OF this]
  show "((True, drop_bit 7 n - 1), more, n) \<in> measure (\<lambda>(_, n). unat n)" by simp
qed simp

declare varint_digits.simps [simp del]

definition WriteVarInt :: "'a::len word \<Rightarrow> bytes" where
  "WriteVarInt n = rev (varint_digits False n)"

fun varint_read :: "'a::len word \<Rightarrow> 'a word parser" where
  "varint_read n [] = Inl End_of_data"
| "varint_read n (chData # s) =
     (if n > drop_bit 7 (- 1) then Inl Size_too_large
      else let n' = push_bit 7 n OR ucast (chData AND 0x7F)
           in if chData AND 0x80 \<noteq> 0
              then if n' = - 1 then Inl Size_too_large else varint_read (n' + 1) s
              else Inr (n', s))"

definition ReadVarInt :: "'a::len word parser" where
  "ReadVarInt = varint_read 0"

function GetSizeOfVarInt :: "'a::len word \<Rightarrow> nat" where
  "GetSizeOfVarInt n = (if n \<le> 0x7F then 1 else Suc (GetSizeOfVarInt (drop_bit 7 n - 1)))"
  by pat_completeness auto
termination
proof (relation "measure unat")
  fix n :: "'a word"
  assume "\<not> n \<le> 0x7F"
  from unat_drop7_pred [OF this] above_mask7(1) [OF this]
  show "(drop_bit 7 n - 1, n) \<in> measure unat" by simp
qed simp

declare GetSizeOfVarInt.simps [simp del]

subsection \<open>Byte strings and vectors\<close>

definition ser_bytes :: "bytes \<Rightarrow> bytes" where
  "ser_bytes v = WriteCompactSize (word_of_nat (length v)) @ v"

text \<open>Bytes are read in blocks of at most five million, so that a bogus size fails early.\<close>

function read_blocks :: "nat \<Rightarrow> nat \<Rightarrow> bytes parser" where
  "read_blocks nSize i =
     (if i < nSize
      then let blk = min (nSize - i) (1 + 4999999)
           in pbind (read_data blk) (\<lambda>b. pbind (read_blocks nSize (i + blk)) (\<lambda>r. preturn (b @ r)))
      else preturn [])"
  by pat_completeness auto
termination by (relation "measure (\<lambda>(nSize, i). nSize - i)") auto

declare read_blocks.simps [simp del]

definition unser_bytes :: "bytes parser" where
  "unser_bytes = pbind ReadCompactSize (\<lambda>n. read_blocks (unat n) 0)"

definition ser_vector :: "('a \<Rightarrow> bytes) \<Rightarrow> 'a list \<Rightarrow> bytes" where
  "ser_vector f v = WriteCompactSize (word_of_nat (length v)) @ concat (map f v)"

text \<open>Growing the vector in steps of \<open>5000000 / sizeof(T)\<close> does not change what is read.\<close>

fun unser_n :: "'a parser \<Rightarrow> nat \<Rightarrow> 'a list parser" where
  "unser_n f 0 = preturn []"
| "unser_n f (Suc n) = pbind f (\<lambda>x. pbind (unser_n f n) (\<lambda>xs. preturn (x # xs)))"

definition unser_vector :: "'a parser \<Rightarrow> 'a list parser" where
  "unser_vector f = pbind ReadCompactSize (\<lambda>n. unser_n f (unat n))"

subsection \<open>Contracts\<close>

locale codec =
  fixes enc :: "'a \<Rightarrow> bytes" and dec :: "'a parser" and ok :: "'a \<Rightarrow> bool"
  assumes dec_enc: "ok x \<Longrightarrow> dec (enc x @ rest) = Inr (x, rest)"
begin

lemma enc_inject:
  assumes "ok x" and "ok y" and "enc x @ r = enc y @ r'"
  shows "x = y" and "r = r'"
proof -
  have "Inr (x, r) = dec (enc y @ r')" using dec_enc [OF assms(1), of r] unfolding assms(3) by (rule sym)
  then have "Inr (x, r) = (Inr (y, r') :: ser_error + _)" unfolding dec_enc [OF assms(2)] .
  then show "x = y" "r = r'" by simp_all
qed

lemma unser_n_roundtrip:
  "list_all ok xs \<Longrightarrow> unser_n dec (length xs) (concat (map enc xs) @ rest) = Inr (xs, rest)"
proof (induction xs)
  case (Cons x xs)
  then show ?case using dec_enc [of x] by (simp add: preturn_def)
qed (simp add: preturn_def)

end

locale canonical_codec = codec +
  assumes enc_dec: "dec s = Inr (x, rest) \<Longrightarrow> ok x \<and> s = enc x @ rest"
begin

lemma dec_iff: "dec s = Inr (x, rest) \<longleftrightarrow> ok x \<and> s = enc x @ rest"
  using dec_enc enc_dec by blast

lemma unser_n_canonical:
  "unser_n dec n s = Inr (xs, rest) \<Longrightarrow> length xs = n \<and> list_all ok xs \<and> s = concat (map enc xs) @ rest"
proof (induction n arbitrary: s xs)
  case (Suc n)
  then obtain x s' ys where "dec s = Inr (x, s')" "unser_n dec n s' = Inr (ys, rest)" "xs = x # ys"
    by (auto simp: preturn_def elim!: pbind_InrE)
  with Suc.IH enc_dec show ?case by auto
qed (simp add: preturn_def)

end

subsection \<open>Fixed widths\<close>

lemma read_data_append [simp]: "length b = n \<Longrightarrow> read_data n (b @ rest) = Inr (b, rest)"
  by (simp add: read_data_def)

lemma read_data_InrD: "read_data n s = Inr (b, rest) \<Longrightarrow> length b = n \<and> s = b @ rest"
  by (auto simp: read_data_def split: if_splits)

interpretation byte8: canonical_codec ser_writedata8 ser_readdata8 "\<lambda>_. True"
  by unfold_locales (auto simp: ser_writedata8_def ser_readdata8_def split: list.splits)

interpretation le16: canonical_codec WriteLE16 ser_readdata16 "\<lambda>_. True"
proof
  show "ser_readdata16 (WriteLE16 x @ rest) = Inr (x, rest)" for x rest
    using Read_Write_LE(1) [of x "[]"] by (simp add: ser_readdata16_def preturn_def)
  show "True \<and> s = WriteLE16 x @ rest" if "ser_readdata16 s = Inr (x, rest)" for s x rest
    using that by (auto simp: ser_readdata16_def preturn_def ReadLE16_def WriteLE16_def le_bytes_le_word
        dest!: read_data_InrD elim!: pbind_InrE)
qed

interpretation le32: canonical_codec WriteLE32 ser_readdata32 "\<lambda>_. True"
proof
  show "ser_readdata32 (WriteLE32 x @ rest) = Inr (x, rest)" for x rest
    using Read_Write_LE(2) [of x "[]"] by (simp add: ser_readdata32_def preturn_def)
  show "True \<and> s = WriteLE32 x @ rest" if "ser_readdata32 s = Inr (x, rest)" for s x rest
    using that by (auto simp: ser_readdata32_def preturn_def ReadLE32_def WriteLE32_def le_bytes_le_word
        dest!: read_data_InrD elim!: pbind_InrE)
qed

interpretation le64: canonical_codec WriteLE64 ser_readdata64 "\<lambda>_. True"
proof
  show "ser_readdata64 (WriteLE64 x @ rest) = Inr (x, rest)" for x rest
    using Read_Write_LE(3) [of x "[]"] by (simp add: ser_readdata64_def preturn_def)
  show "True \<and> s = WriteLE64 x @ rest" if "ser_readdata64 s = Inr (x, rest)" for s x rest
    using that by (auto simp: ser_readdata64_def preturn_def ReadLE64_def WriteLE64_def le_bytes_le_word
        dest!: read_data_InrD elim!: pbind_InrE)
qed

subsection \<open>Compact sizes\<close>

lemma ucast_back:
  fixes x :: u64
  shows "x \<le> 0xff \<Longrightarrow> ucast (ucast x :: u8) = x" "x \<le> 0xffff \<Longrightarrow> ucast (ucast x :: u16) = x"
    "x \<le> 0xffffffff \<Longrightarrow> ucast (ucast x :: u32) = x"
  by (simp_all add: word_unat_eq_iff word_le_nat_alt unsigned_ucast_eq unsigned_take_bit_eq take_bit_nat_eq_self)

lemma ucast_up:
  "(ucast (ucast (a :: u8) :: u64) :: u8) = a" "(ucast (ucast (b :: u16) :: u64) :: u16) = b"
  "(ucast (ucast (c :: u32) :: u64) :: u32) = c"
  "(ucast a :: u64) \<le> 0xff" "(ucast b :: u64) \<le> 0xffff" "(ucast c :: u64) \<le> 0xffffffff"
  using unsigned_less [of a, where ?'a = nat] unsigned_less [of b, where ?'a = nat] unsigned_less [of c, where ?'a = nat]
  by (simp_all add: word_unat_eq_iff word_le_nat_alt unsigned_ucast_eq unsigned_take_bit_eq take_bit_nat_eq_self)

lemma ReadCompactSize_Write:
  assumes "n \<le> MAX_SIZE"
  shows "ReadCompactSize (WriteCompactSize n @ rest) = Inr (n, rest)"
proof -
  have big: "\<not> n > MAX_SIZE" using assms by simp
  consider (a) "n < 253" | (b) "\<not> n < 253" "n \<le> 0xffff" | (c) "\<not> n \<le> 0xffff" "n \<le> 0xffffffff"
    | (d) "\<not> n \<le> 0xffffffff" by blast
  then show ?thesis
  proof cases
    case a
    then have "n \<le> 0xff" by (simp add: word_le_nat_alt word_less_nat_alt)
    then have u: "ucast (ucast n :: u8) = n" by (rule ucast_back)
    have "(ucast n :: u8) < 253"
      using a by (simp add: word_less_nat_alt unsigned_ucast_eq unsigned_take_bit_eq take_bit_nat_eq_self)
    then show ?thesis
      using a big by (simp add: ReadCompactSize_def WriteCompactSize_def byte8.dec_enc preturn_def u)
  next
    case b
    have u: "ucast (ucast n :: u16) = n" using b(2) by (rule ucast_back)
    show ?thesis
      using b big by (simp add: ReadCompactSize_def WriteCompactSize_def byte8.dec_enc le16.dec_enc preturn_def u)
  next
    case c
    have u: "ucast (ucast n :: u32) = n" using c(2) by (rule ucast_back)
    have "\<not> n < 253" "\<not> n < 0x10000" using c(1) by (simp_all add: word_le_nat_alt word_less_nat_alt)
    then show ?thesis
      using c big by (simp add: ReadCompactSize_def WriteCompactSize_def byte8.dec_enc le32.dec_enc preturn_def u)
  next
    case d
    have "\<not> n < 253" "\<not> n \<le> 0xffff" "\<not> n < 0x100000000" using d by (simp_all add: word_le_nat_alt word_less_nat_alt)
    then show ?thesis
      using d big by (simp add: ReadCompactSize_def WriteCompactSize_def byte8.dec_enc le64.dec_enc preturn_def)
  qed
qed

lemma u8_top: "ch < 253 \<or> ch = 253 \<or> ch = 254 \<or> ch = (255 :: u8)"
  using unsigned_less [of ch, where ?'a = nat]
  by (simp add: word_less_nat_alt word_unat_eq_iff) linarith

lemma ReadCompactSize_canonical:
  assumes "ReadCompactSize s = Inr (n, rest)"
  shows "n \<le> MAX_SIZE" and "s = WriteCompactSize n @ rest"
proof -
  obtain ch s1 where ch: "ser_readdata8 s = Inr (ch, s1)"
    and rd: "(if ch < 253 then preturn (ucast ch)
            else if ch = 253 then
              pbind ser_readdata16 (\<lambda>v. if (ucast v :: u64) < 253 then pfail Non_canonical else preturn (ucast v))
            else if ch = 254 then
              pbind ser_readdata32 (\<lambda>v. if (ucast v :: u64) < 0x10000 then pfail Non_canonical else preturn (ucast v))
            else
              pbind ser_readdata64 (\<lambda>v. if v < 0x100000000 then pfail Non_canonical else preturn v)) s1 = Inr (n, rest)"
    and max: "\<not> n > MAX_SIZE"
    using assms unfolding ReadCompactSize_def
    by (auto elim!: pbind_InrE simp: preturn_def pfail_def split: if_splits)
  show "n \<le> MAX_SIZE" using max by simp
  have s: "s = [ch] @ s1" using byte8.enc_dec [OF ch] by (simp add: ser_writedata8_def)
  consider (a) "ch < 253" | (b) "ch = 253" | (c) "ch = 254" | (d) "ch = 255"
    using u8_top by blast
  then show "s = WriteCompactSize n @ rest"
  proof cases
    case a
    then have n: "n = ucast ch" "s1 = rest" using rd by (simp_all add: preturn_def)
    have "n < 253" using a n(1) by (simp add: word_less_nat_alt unsigned_ucast_eq unsigned_take_bit_eq take_bit_nat_eq_self)
    then show ?thesis using n s by (simp add: WriteCompactSize_def ser_writedata8_def ucast_up)
  next
    case b
    then obtain v where v: "ser_readdata16 s1 = Inr (v, rest)" "n = ucast v" "\<not> (ucast v :: u64) < 253"
      using rd by (auto elim!: pbind_InrE simp: preturn_def pfail_def split: if_splits)
    from le16.enc_dec [OF v(1)] show ?thesis
      using v(2,3) s b by (simp add: WriteCompactSize_def ser_writedata8_def ucast_up)
  next
    case c
    then obtain v where v: "ser_readdata32 s1 = Inr (v, rest)" "n = ucast v" "\<not> (ucast v :: u64) < 0x10000"
      using rd by (auto elim!: pbind_InrE simp: preturn_def pfail_def split: if_splits)
    have "\<not> n < 253" "\<not> n \<le> 0xffff" using v(2,3) by (simp_all add: word_le_nat_alt word_less_nat_alt)
    with le32.enc_dec [OF v(1)] show ?thesis
      using v(2) s c by (simp add: WriteCompactSize_def ser_writedata8_def ucast_up)
  next
    case d
    then have "pbind ser_readdata64 (\<lambda>v. if v < 0x100000000 then pfail Non_canonical else preturn v) s1 = Inr (n, rest)"
      using rd by simp
    then have v: "ser_readdata64 s1 = Inr (n, rest)" "\<not> n < 0x100000000"
      by (auto elim!: pbind_InrE simp: preturn_def pfail_def split: if_splits)
    have "\<not> n < 253" "\<not> n \<le> 0xffff" "\<not> n \<le> 0xffffffff" using v(2) by (simp_all add: word_le_nat_alt word_less_nat_alt)
    with le64.enc_dec [OF v(1)] show ?thesis
      using s d by (simp add: WriteCompactSize_def ser_writedata8_def)
  qed
qed

interpretation compact: canonical_codec WriteCompactSize ReadCompactSize "\<lambda>n. n \<le> MAX_SIZE"
  by unfold_locales (simp_all add: ReadCompactSize_Write ReadCompactSize_canonical)

subsection \<open>Variable-length integers read back\<close>

lemma bit_mask7: "bit (0x7F :: 'a::len word) p \<longleftrightarrow> p < 7 \<and> p < LENGTH('a)"
proof -
  have m: "(0x7F :: 'a word) = mask 7" by (simp add: mask_eq_exp_minus_1)
  show ?thesis unfolding m bit_mask_iff by auto
qed

lemma bit_0x80: "bit (0x80 :: u8) p \<longleftrightarrow> p = 7"
proof -
  have m: "(0x80 :: u8) = push_bit 7 1" by simp
  show ?thesis unfolding m bit_push_bit_iff bit_1_iff by auto
qed

lemmas bit_simps_small = bit_and_iff bit_or_iff bit_push_bit_iff bit_drop_bit_eq bit_ucast_iff

lemma le_mask7_iff:
  assumes "8 \<le> LENGTH('a)"
  shows "n \<le> (0x7F :: 'a::len word) \<longleftrightarrow> drop_bit 7 n = 0"
proof -
  have "min LENGTH('a) 7 = 7" using assms by simp
  then have "n \<le> (0x7F :: 'a word) \<longleftrightarrow> unat n \<le> 127"
    by (simp add: word_le_nat_alt take_bit_127 mask_eq_exp_minus_1)
  also have "\<dots> \<longleftrightarrow> unat n div 2 ^ 7 = 0" by (simp add: div_eq_0_iff) linarith
  also have "\<dots> \<longleftrightarrow> drop_bit 7 n = 0" by (simp only: unat_drop_bit_div [symmetric] unat_eq_zero)
  finally show ?thesis .
qed

lemma not_above_top7:
  fixes acc :: "'a::len word"
  assumes "8 \<le> LENGTH('a)" and "\<not> acc > drop_bit 7 (- 1)" and "bit acc p"
  shows "p + 7 < LENGTH('a)"
proof -
  define k where "k = LENGTH('a) - 7"
  have k: "LENGTH('a) = k + 7" using assms(1) by (simp add: k_def)
  have "unat acc \<le> unat (- 1 :: 'a word) div 2 ^ 7"
    using assms(2) by (simp only: not_less word_le_nat_alt unat_drop_bit_div)
  also have "\<dots> < 2 ^ k"
  proof (rule less_mult_imp_div_less)
    have "unat (- 1 :: 'a word) < 2 ^ LENGTH('a)" by (rule unsigned_less)
    then show "unat (- 1 :: 'a word) < 2 ^ k * 2 ^ 7" unfolding k power_add .
  qed
  finally have "take_bit k (unat acc) = unat acc" by (simp add: take_bit_nat_eq_self)
  moreover have "bit (unat acc) p" using assms(3) by (simp add: bit_unat_word)
  ultimately have "p < k" by (metis bit_take_bit_iff)
  then show ?thesis by (simp add: k)
qed

text \<open>One step of the reader: shift the digit in, and what it makes of a written digit.\<close>

lemma varint_step:
  fixes acc :: "'a::len word" and ch :: u8
  assumes len: "8 \<le> LENGTH('a)" and top: "\<not> acc > drop_bit 7 (- 1)"
  defines "n \<equiv> push_bit 7 acc OR ucast (ch AND 0x7F :: u8)"
  shows "drop_bit 7 n = acc" and "varint_digit (ch AND 0x80 \<noteq> 0) n = ch"
proof -
  show "drop_bit 7 n = acc"
    by (rule bit_word_eqI)
       (use not_above_top7 [OF len top] in \<open>force simp: n_def bit_simps_small bit_mask7\<close>)
  have ch: "ch AND 0x80 \<noteq> 0 \<longleftrightarrow> bit ch 7"
  proof -
    have "ch AND 0x80 = (if bit ch 7 then 0x80 else 0)"
      by (rule bit_word_eqI) (auto simp del: bit_numeral_word_iff simp: bit_simps_small bit_0x80)
    then show ?thesis by simp
  qed
  show "varint_digit (ch AND 0x80 \<noteq> 0) n = ch"
    unfolding varint_digit_def ch
  proof (rule bit_word_eqI)
    fix p assume "p < LENGTH(8)"
    then show "bit (ucast (n AND 0x7F) OR (if bit ch 7 then 0x80 else 0x00 :: u8)) p = bit ch p"
      using len by (cases "p = 7")
        (auto simp del: bit_numeral_word_iff simp: n_def bit_simps_small bit_mask7 bit_0x80)
  qed
qed

lemma varint_join:
  fixes n :: "'a::len word" and more :: bool
  assumes "8 \<le> LENGTH('a)"
  shows "push_bit 7 (drop_bit 7 n) OR ucast (varint_digit more n AND 0x7F) = n"
    and "varint_digit more n AND 0x80 \<noteq> 0 \<longleftrightarrow> more" and "\<not> drop_bit 7 n > drop_bit 7 (- 1)"
proof -
  show "push_bit 7 (drop_bit 7 n) OR ucast (varint_digit more n AND 0x7F) = n"
  proof (rule bit_word_eqI)
    fix p assume "p < LENGTH('a)"
    then show "bit (push_bit 7 (drop_bit 7 n) OR ucast (varint_digit more n AND 0x7F)) p = bit n p"
      using assms by (cases "p < 7")
        (auto simp del: bit_numeral_word_iff simp: varint_digit_def bit_simps_small bit_mask7 bit_0x80)
  qed
  have "varint_digit more n AND 0x80 = (if more then 0x80 else 0)"
    by (rule bit_word_eqI) (auto simp del: bit_numeral_word_iff simp: varint_digit_def bit_simps_small bit_0x80 bit_mask7)
  then show "varint_digit more n AND 0x80 \<noteq> 0 \<longleftrightarrow> more" by simp
  have "unat n \<le> unat (- 1 :: 'a word)" by (simp add: word_le_nat_alt [symmetric])
  then show "\<not> drop_bit 7 n > drop_bit 7 (- 1)"
    by (simp only: not_less word_le_nat_alt unat_drop_bit_div div_le_mono)
qed

lemma varint_read_True:
  fixes m :: "'a::len word"
  assumes len: "8 \<le> LENGTH('a)"
  shows "m \<noteq> - 1 \<Longrightarrow> varint_read 0 (rev (varint_digits True m) @ s) = varint_read (m + 1) s"
proof (induction "True" m arbitrary: s rule: varint_digits.induct)
  case (1 m)
  note j = varint_join(1,2) [OF len, where n = m and more = True] varint_join(3) [OF len, where n = m]
  show ?case
  proof (cases "m \<le> 0x7F")
    case True
    then have "drop_bit 7 m = 0" by (simp add: le_mask7_iff [OF len])
    then show ?thesis using j True "1.prems" by (simp add: varint_digits.simps [of True m] Let_def)
  next
    case False
    then have nz: "drop_bit 7 m \<noteq> 0" by (simp add: le_mask7_iff [OF len])
    have "drop_bit 7 m - 1 \<noteq> - 1" using nz by simp
    from "1.hyps" [OF False this] show ?thesis
      using j False "1.prems" by (simp add: varint_digits.simps [of True m] Let_def)
  qed
qed

lemma ReadVarInt_Write:
  fixes n :: "'a::len word"
  assumes len: "8 \<le> LENGTH('a)"
  shows "ReadVarInt (WriteVarInt n @ s) = Inr (n, s)"
proof -
  note j = varint_join(1,2) [OF len, where n = n and more = False] varint_join(3) [OF len, where n = n]
  show ?thesis
  proof (cases "n \<le> 0x7F")
    case True
    then have "drop_bit 7 n = 0" by (simp add: le_mask7_iff [OF len])
    then show ?thesis using j True
      by (simp add: ReadVarInt_def WriteVarInt_def varint_digits.simps [of False n] Let_def)
  next
    case False
    then have "drop_bit 7 n - 1 \<noteq> - 1" by (simp add: le_mask7_iff [OF len])
    from varint_read_True [OF len this] show ?thesis
      using j False by (simp add: ReadVarInt_def WriteVarInt_def varint_digits.simps [of False n] Let_def)
  qed
qed

text \<open>What the reader has consumed when its accumulator is \<open>acc\<close>.\<close>

definition varint_consumed :: "'a::len word \<Rightarrow> bytes" where
  "varint_consumed acc = (if acc = 0 then [] else rev (varint_digits True (acc - 1)))"

lemma varint_consumed_digits:
  fixes acc :: "'a::len word"
  assumes len: "8 \<le> LENGTH('a)" and top: "\<not> acc > drop_bit 7 (- 1)"
  shows "rev (varint_digits (ch AND 0x80 \<noteq> 0) (push_bit 7 acc OR ucast (ch AND 0x7F :: u8))) =
    varint_consumed acc @ [ch]"
proof -
  define n where "n = push_bit 7 acc OR ucast (ch AND 0x7F :: u8)"
  note st = varint_step [OF assms, of ch, folded n_def]
  show ?thesis unfolding n_def [symmetric]
    using st le_mask7_iff [OF len, of n]
    by (simp add: varint_consumed_def varint_digits.simps [of _ n])
qed

lemma varint_read_canonical:
  fixes acc :: "'a::len word"
  assumes len: "8 \<le> LENGTH('a)"
  shows "varint_read acc s = Inr (n, rest) \<Longrightarrow> varint_consumed acc @ s = WriteVarInt n @ rest"
proof (induction acc s rule: varint_read.induct)
  case (2 acc ch s)
  define n' where "n' = push_bit 7 acc OR (ucast (ch AND 0x7F) :: 'a word)"
  have top: "\<not> acc > drop_bit 7 (- 1)" using "2.prems" by (auto split: if_splits)
  have dig: "rev (varint_digits (ch AND 0x80 \<noteq> 0) n') = varint_consumed acc @ [ch]"
    unfolding n'_def by (rule varint_consumed_digits [OF len top])
  show ?case
  proof (cases "ch AND 0x80 = 0")
    case True
    with "2.prems" top have "n = n'" "rest = s" by (simp_all add: Let_def n'_def)
    with dig True show ?thesis by (simp add: WriteVarInt_def)
  next
    case False
    with "2.prems" top have nz: "n' \<noteq> - 1" and rd: "varint_read (n' + 1) s = Inr (n, rest)"
      by (auto simp: Let_def n'_def split: if_splits)
    have "varint_consumed (n' + 1) @ s = WriteVarInt n @ rest"
      using "2.IH" [OF top n'_def] False nz rd by blast
    moreover have "varint_consumed (n' + 1) = varint_consumed acc @ [ch]"
      using dig False nz by (simp add: varint_consumed_def eq_neg_iff_add_eq_0)
    ultimately show ?thesis by simp
  qed
qed simp

lemma ReadVarInt_canonical:
  "8 \<le> LENGTH('a) \<Longrightarrow> ReadVarInt s = Inr (n :: 'a::len word, rest) \<Longrightarrow> s = WriteVarInt n @ rest"
  using varint_read_canonical [of 0 s n rest] by (simp add: ReadVarInt_def varint_consumed_def)

interpretation varint32: canonical_codec "WriteVarInt :: u32 \<Rightarrow> _" ReadVarInt "\<lambda>_. True"
  by unfold_locales (auto intro: ReadVarInt_Write ReadVarInt_canonical)

interpretation varint64: canonical_codec "WriteVarInt :: u64 \<Rightarrow> _" ReadVarInt "\<lambda>_. True"
  by unfold_locales (auto intro: ReadVarInt_Write ReadVarInt_canonical)

lemma GetSizeOfVarInt_length: "length (WriteVarInt n) = GetSizeOfVarInt n"
proof -
  have "length (varint_digits more n) = GetSizeOfVarInt n" for more
  proof (induction more n rule: varint_digits.induct)
    case (1 more n)
    then show ?case by (simp add: varint_digits.simps [of more n] GetSizeOfVarInt.simps [of n])
  qed
  then show ?thesis by (simp add: WriteVarInt_def)
qed

lemma GetSizeOfCompactSize_length: "length (WriteCompactSize n) = GetSizeOfCompactSize n"
  by (simp add: WriteCompactSize_def GetSizeOfCompactSize_def ser_writedata8_def)

subsection \<open>Byte strings and vectors\<close>

lemma read_blocks_append:
  "i \<le> n \<Longrightarrow> length b = n - i \<Longrightarrow> read_blocks n i (b @ rest) = Inr (b, rest)"
proof (induction n i arbitrary: b rule: read_blocks.induct)
  case (1 n i)
  show ?case
  proof (cases "i < n")
    case True
    define blk where "blk = min (n - i) 5000000"
    have blk_alt: "blk = min (n - i) (1 + 4999999)" by (simp add: blk_def)
    have le: "blk \<le> n - i" by (simp add: blk_def)
    have b: "b = take blk b @ drop blk b" by simp
    have "read_data blk (b @ rest) = Inr (take blk b, drop blk b @ rest)"
      using le "1.prems" by (simp add: read_data_def)
    moreover have "read_blocks n (i + blk) (drop blk b @ rest) = Inr (drop blk b, rest)"
      using True le "1.prems" by (intro "1.IH" [OF True blk_alt]) auto
    ultimately show ?thesis
      using True by (subst read_blocks.simps) (simp add: Let_def blk_def [symmetric] preturn_def)
  next
    case False
    with "1.prems" show ?thesis by (subst read_blocks.simps) (simp add: preturn_def)
  qed
qed

lemma read_blocks_InrD:
  "i \<le> n \<Longrightarrow> read_blocks n i s = Inr (b, rest) \<Longrightarrow> length b = n - i \<and> s = b @ rest"
proof (induction n i arbitrary: b s rule: read_blocks.induct)
  case (1 n i)
  show ?case
  proof (cases "i < n")
    case True
    define blk where "blk = min (n - i) 5000000"
    have blk_alt: "blk = min (n - i) (1 + 4999999)" by (simp add: blk_def)
    have le: "i + blk \<le> n" using True by (simp add: blk_def)
    obtain c s' d where c: "read_data blk s = Inr (c, s')" and d: "read_blocks n (i + blk) s' = Inr (d, rest)"
      and b: "b = c @ d"
      using "1.prems" True
      by (subst (asm) (2) read_blocks.simps) (auto simp: Let_def blk_def [symmetric] preturn_def elim!: pbind_InrE)
    from read_data_InrD [OF c] "1.IH" [OF True blk_alt le d] b le show ?thesis by auto
  next
    case False
    with "1.prems" show ?thesis by (subst (asm) read_blocks.simps) (simp add: preturn_def)
  qed
qed

text \<open>Lengths that a size field can announce.\<close>

definition size_ok :: "'a list \<Rightarrow> bool" where
  "size_ok v \<longleftrightarrow> length v \<le> unat MAX_SIZE"

lemma size_ok_word:
  assumes "size_ok v"
  shows "word_of_nat (length v) \<le> MAX_SIZE" and "unat (word_of_nat (length v) :: u64) = length v"
proof -
  have "length v < 2 ^ 64" using assms by (simp add: size_ok_def MAX_SIZE_def)
  then show u: "unat (word_of_nat (length v) :: u64) = length v" by (simp add: unat_of_nat take_bit_nat_eq_self)
  show "word_of_nat (length v) \<le> MAX_SIZE" using assms by (simp add: word_le_nat_alt u size_ok_def)
qed

lemma size_okI:
  assumes "n \<le> MAX_SIZE" and "length v = unat n"
  shows "size_ok v" and "word_of_nat (length v) = n"
  using assms by (simp_all add: size_ok_def word_le_nat_alt)

interpretation byte_vector: canonical_codec ser_bytes unser_bytes size_ok
proof
  show "unser_bytes (ser_bytes v @ rest) = Inr (v, rest)" if "size_ok v" for v rest
    using compact.dec_enc [OF size_ok_word(1) [OF that]] size_ok_word(2) [OF that]
    by (simp add: unser_bytes_def ser_bytes_def read_blocks_append)
  show "size_ok v \<and> s = ser_bytes v @ rest" if r: "unser_bytes s = Inr (v, rest)" for s v rest
  proof -
    obtain n s' where n: "ReadCompactSize s = Inr (n, s')" and v: "read_blocks (unat n) 0 s' = Inr (v, rest)"
      using r unfolding unser_bytes_def by (rule pbind_InrE)
    from compact.enc_dec [OF n] read_blocks_InrD [OF _ v] show ?thesis
      using size_okI [of n v] by (simp add: ser_bytes_def)
  qed
qed

context codec
begin

lemma vector_codec: "codec (ser_vector enc) (unser_vector dec) (\<lambda>v. size_ok v \<and> list_all ok v)"
proof
  show "unser_vector dec (ser_vector enc v @ rest) = Inr (v, rest)" if "size_ok v \<and> list_all ok v" for v rest
    using compact.dec_enc [OF size_ok_word(1), of v] size_ok_word(2) [of v] conjunct1 [OF that] conjunct2 [OF that]
    by (simp add: unser_vector_def ser_vector_def unser_n_roundtrip)
qed

end

context canonical_codec
begin

lemma vector_canonical_codec:
  "canonical_codec (ser_vector enc) (unser_vector dec) (\<lambda>v. size_ok v \<and> list_all ok v)"
proof (intro canonical_codec.intro vector_codec canonical_codec_axioms.intro)
  fix s v rest
  assume "unser_vector dec s = Inr (v, rest)"
  then obtain n s' where n: "ReadCompactSize s = Inr (n, s')" and v: "unser_n dec (unat n) s' = Inr (v, rest)"
    unfolding unser_vector_def by (rule pbind_InrE)
  from compact.enc_dec [OF n] unser_n_canonical [OF v]
  show "(size_ok v \<and> list_all ok v) \<and> s = ser_vector enc v @ rest"
    using size_okI [of n v] by (simp add: ser_vector_def)
qed

end

end
