(* ===== verification/Bit_Sets.thy ===== *)
theory Bit_Sets
  imports Serialize
begin

text \<open>
  The three encodings of a bit vector in \<open>serialize.h\<close>: packed bytes
  (\<open>CFixedBitSet\<close>), gaps between the set bits as variable-length integers
  (\<open>CFixedVarIntsBitSet\<close>), and the one of the two that is shorter (\<open>CAutoBitSet\<close>).
\<close>

unbundle bit_operations_syntax

subsection \<open>Definitions\<close>

text \<open>Byte \<open>k\<close> of \<open>vBytes\<close> after the loop over the first \<open>ms\<close> bits.\<close>

definition bitset_byte :: "bool list \<Rightarrow> nat \<Rightarrow> nat \<Rightarrow> u8" where
  "bitset_byte vec ms k =
     fold (\<lambda>p b. if p div 8 = k then b OR push_bit (p mod 8) (of_bool (vec ! p)) else b) [0..<ms] 0"

definition CFixedBitSet_Serialize :: "bool list \<Rightarrow> nat \<Rightarrow> bytes" where
  "CFixedBitSet_Serialize vec nbits = map (bitset_byte vec (min nbits (length vec))) [0..<(nbits + 7) div 8]"

definition CFixedBitSet_Unserialize :: "nat \<Rightarrow> bool list parser" where
  "CFixedBitSet_Unserialize nbits =
     pbind (read_data ((nbits + 7) div 8)) (\<lambda>vBytes.
       let vec = map (\<lambda>p. vBytes ! (p div 8) AND push_bit (p mod 8) 1 \<noteq> 0) [0..<nbits]
       in if length vBytes * 8 \<noteq> nbits then
            let rem = length vBytes * 8 - nbits; m = NOT (drop_bit rem 0xff)
            in if vBytes ! (length vBytes - 1) AND m \<noteq> 0 then pfail Out_of_range_bits else preturn vec
          else preturn vec)"

definition CDynamicBitSet_Serialize :: "bool list \<Rightarrow> bytes" where
  "CDynamicBitSet_Serialize vec =
     WriteCompactSize (word_of_nat (length vec)) @ CFixedBitSet_Serialize vec (length vec)"

definition CDynamicBitSet_Unserialize :: "bool list parser" where
  "CDynamicBitSet_Unserialize = pbind ReadCompactSize (\<lambda>n. CFixedBitSet_Unserialize (unat n))"

text \<open>The writing loop from index \<open>i\<close> on, \<open>vec\<close> what is left of the vector.\<close>

fun varints_from :: "int \<Rightarrow> int \<Rightarrow> bool list \<Rightarrow> bytes" where
  "varints_from prev i [] = []"
| "varints_from prev i (b # vec) =
     (if b then WriteVarInt (word_of_int (i - prev) :: u32) @ varints_from i (i + 1) vec
      else varints_from prev (i + 1) vec)"

definition CFixedVarIntsBitSet_Serialize :: "bool list \<Rightarrow> bytes" where
  "CFixedVarIntsBitSet_Serialize vec = varints_from (- 1) 0 vec @ WriteVarInt (0 :: u32)"

lemma ReadVarInt_consumes: "ReadVarInt s = Inr (n :: u32, rest) \<Longrightarrow> length rest < length s"
  using varint32.enc_dec [of s n rest] varint_digits.simps [of False n]
  by (auto simp: WriteVarInt_def split: if_splits)

text \<open>
  The reading loop.  \<open>idx\<close> is the \<open>int32_t\<close> that \<open>last + offset\<close>, an unsigned sum,
  is stored in; compared with a \<open>size_t\<close> a negative one counts as too large.
\<close>

function varints_loop :: "nat \<Rightarrow> bool list \<Rightarrow> int \<Rightarrow> bool list parser" where
  "varints_loop nbits vec prev s =
     (case ReadVarInt s of
        Inl e \<Rightarrow> Inl e
      | Inr (offset :: u32, s') \<Rightarrow>
          if offset = 0 then Inr (vec, s')
          else let idx = sint (word_of_int prev + offset)
               in if idx < 0 \<or> int nbits \<le> idx then Inl Index_out_of_bounds
                  else if prev \<noteq> - 1 \<and> idx \<le> prev then Inl Offset_overflow
                  else varints_loop nbits (vec[nat idx := True]) idx s')"
  by pat_completeness auto
termination
  by (relation "measure (\<lambda>(_, _, _, s). length s)") (auto dest: ReadVarInt_consumes)

declare varints_loop.simps [simp del]

definition CFixedVarIntsBitSet_Unserialize :: "nat \<Rightarrow> bool list parser" where
  "CFixedVarIntsBitSet_Unserialize nbits = varints_loop nbits (replicate nbits False) (- 1)"

definition CAutoBitSet_Serialize :: "bool list \<Rightarrow> nat \<Rightarrow> bytes" where
  "CAutoBitSet_Serialize vec nbits =
     (let size1 = length (CFixedBitSet_Serialize vec nbits);
          size2 = length (CFixedVarIntsBitSet_Serialize vec)
      in if size1 < size2 then ser_writedata8 0 @ CFixedBitSet_Serialize vec (length vec)
         else ser_writedata8 1 @ CFixedVarIntsBitSet_Serialize vec)"

definition CAutoBitSet_Unserialize :: "nat \<Rightarrow> bool list parser" where
  "CAutoBitSet_Unserialize nbits =
     pbind ser_readdata8 (\<lambda>isVarInts.
       if isVarInts \<noteq> 0 \<and> isVarInts \<noteq> 1 then pfail Invalid_flag
       else if isVarInts = 0 then CFixedBitSet_Unserialize nbits
       else CFixedVarIntsBitSet_Unserialize nbits)"

subsection \<open>Packed bits\<close>

lemma bit_bitset_byte:
  "bit (bitset_byte vec ms k) q \<longleftrightarrow> q < 8 \<and> 8 * k + q < ms \<and> vec ! (8 * k + q)"
proof (induction ms)
  case (Suc ms)
  have "ms div 8 = k \<and> ms mod 8 = q \<longleftrightarrow> q < 8 \<and> ms = 8 * k + q" by auto
  moreover have "bitset_byte vec (Suc ms) k =
      (if ms div 8 = k then bitset_byte vec ms k OR push_bit (ms mod 8) (of_bool (vec ! ms)) else bitset_byte vec ms k)"
    by (simp add: bitset_byte_def)
  ultimately show ?case using Suc
    by (auto simp: bit_or_iff bit_push_bit_iff less_Suc_eq bit_1_iff)
qed (simp add: bitset_byte_def)

lemma and_bit_nonzero: "q < LENGTH('a) \<Longrightarrow> (b :: 'a::len word) AND push_bit q 1 \<noteq> 0 \<longleftrightarrow> bit b q"
  by (simp add: bit_iff_and_push_bit_not_eq_0)

lemma fixed_bits:
  assumes "length vec = nbits"
  shows "map (\<lambda>p. CFixedBitSet_Serialize vec nbits ! (p div 8) AND push_bit (p mod 8) 1 \<noteq> 0) [0..<nbits] = vec"
proof (rule nth_equalityI)
  show "length (map (\<lambda>p. CFixedBitSet_Serialize vec nbits ! (p div 8) AND push_bit (p mod 8) 1 \<noteq> 0) [0..<nbits]) = length vec"
    using assms by simp
  fix p
  assume "p < length (map (\<lambda>p. CFixedBitSet_Serialize vec nbits ! (p div 8) AND push_bit (p mod 8) 1 \<noteq> 0) [0..<nbits])"
  then have p: "p < nbits" by simp
  then have "p div 8 < (nbits + 7) div 8" by linarith
  with p assms show "map (\<lambda>p. CFixedBitSet_Serialize vec nbits ! (p div 8) AND push_bit (p mod 8) 1 \<noteq> 0) [0..<nbits] ! p = vec ! p"
    by (simp add: and_bit_nonzero CFixedBitSet_Serialize_def bit_bitset_byte del: push_bit_of_1)
qed

lemma fixed_spare_bits:
  assumes "length vec = nbits" and "(nbits + 7) div 8 * 8 \<noteq> nbits"
  shows "CFixedBitSet_Serialize vec nbits ! ((nbits + 7) div 8 - 1)
     AND NOT (drop_bit ((nbits + 7) div 8 * 8 - nbits) 0xff) = 0"
proof (rule bit_word_eqI)
  fix q assume "q < LENGTH(8)"
  then have q: "q < 8" by simp
  define k where "k = (nbits + 7) div 8 - 1"
  have pos: "0 < (nbits + 7) div 8" using assms(2) by (cases "nbits = 0") (simp_all add: div_greater_zero_iff)
  then have k: "(nbits + 7) div 8 * 8 = 8 * k + 8" "k < (nbits + 7) div 8" by (simp_all add: k_def)
  have ff: "0xff = (mask 8 :: u8)" by (simp add: mask_eq_exp_minus_1)
  have m: "bit (NOT (drop_bit r (0xff :: u8))) q \<longleftrightarrow> \<not> r + q < 8" for r
    unfolding ff bit_not_iff bit_drop_bit_eq bit_mask_iff using q by auto
  show "bit (CFixedBitSet_Serialize vec nbits ! ((nbits + 7) div 8 - 1)
     AND NOT (drop_bit ((nbits + 7) div 8 * 8 - nbits) 0xff)) q = bit (0 :: u8) q"
    unfolding k_def [symmetric]
    using k assms by (simp add: bit_and_iff m CFixedBitSet_Serialize_def bit_bitset_byte) linarith
qed

lemma length_CFixedBitSet_Serialize [simp]: "length (CFixedBitSet_Serialize vec n) = (n + 7) div 8"
  by (simp add: CFixedBitSet_Serialize_def)

lemma CFixedBitSet_roundtrip:
  assumes "length vec = nbits"
  shows "CFixedBitSet_Unserialize nbits (CFixedBitSet_Serialize vec nbits @ rest) = Inr (vec, rest)"
  using fixed_bits [OF assms] fixed_spare_bits [OF assms]
  by (simp add: CFixedBitSet_Unserialize_def Let_def preturn_def del: push_bit_of_1)

interpretation fixed_bits: codec "\<lambda>vec. CFixedBitSet_Serialize vec (length vec)"
    "CFixedBitSet_Unserialize n" "\<lambda>vec. length vec = n" for n
  by unfold_locales (simp add: CFixedBitSet_roundtrip)

interpretation dynamic_bits: codec CDynamicBitSet_Serialize CDynamicBitSet_Unserialize size_ok
proof
  show "CDynamicBitSet_Unserialize (CDynamicBitSet_Serialize vec @ rest) = Inr (vec, rest)"
    if "size_ok vec" for vec rest
    using compact.dec_enc [OF size_ok_word(1) [OF that]] size_ok_word(2) [OF that]
    by (simp add: CDynamicBitSet_Unserialize_def CDynamicBitSet_Serialize_def CFixedBitSet_roundtrip)
qed

subsection \<open>Gaps\<close>

lemma sint_small: "0 \<le> i \<Longrightarrow> i < 2 ^ 31 \<Longrightarrow> sint (word_of_int i :: u32) = i"
  by (simp add: sint_sbintrunc' signed_take_bit_int_eq_self)

lemma varints_loop_from:
  assumes "length vec = n" and "n < 2 ^ 31"
  shows "i \<le> n \<Longrightarrow> - 1 \<le> prev \<Longrightarrow> prev < int i \<Longrightarrow>
    varints_loop n (take i vec @ replicate (n - i) False) prev
      (varints_from prev (int i) (drop i vec) @ WriteVarInt (0 :: u32) @ rest) = Inr (vec, rest)"
proof (induction "n - i" arbitrary: i prev)
  case 0
  then have "i = n" by simp
  with assms varint32.dec_enc [of 0 rest] show ?case by (subst varints_loop.simps) simp
next
  case (Suc k)
  then have i: "i < n" and k: "k = n - Suc i" by auto
  have dr: "drop i vec = vec ! i # drop (Suc i) vec" using i assms(1) by (simp add: Cons_nth_drop_Suc)
  have rep: "replicate (n - i) False = False # replicate (n - Suc i) False"
    using i by (metis Suc_diff_Suc replicate_Suc)
  have tk: "take (Suc i) vec = take i vec @ [vec ! i]" using i assms(1) by (simp add: take_Suc_conv_app_nth)
  have len: "length (take i vec) = i" using i assms(1) by simp
  show ?case
  proof (cases "vec ! i")
    case False
    have "varints_loop n (take (Suc i) vec @ replicate (n - Suc i) False) prev
      (varints_from prev (int (Suc i)) (drop (Suc i) vec) @ WriteVarInt (0 :: u32) @ rest) = Inr (vec, rest)"
      using Suc.hyps(1) [OF k] i Suc.prems by simp
    then show ?thesis using False by (simp add: dr rep tk add.commute)
  next
    case True
    define off :: u32 where "off = word_of_int (int i - prev)"
    have sum: "word_of_int prev + off = word_of_int (int i)" by (simp add: off_def)
    have off: "off \<noteq> 0"
    proof
      assume "off = 0"
      then have "word_of_int (int i) = (word_of_int prev :: u32)" using sum by simp
      then have "sint (word_of_int (int i) :: u32) = sint (word_of_int prev :: u32)" by simp
      moreover have "sint (word_of_int prev :: u32) = prev"
        using Suc.prems i assms(2) by (simp add: sint_sbintrunc' signed_take_bit_int_eq_self)
      ultimately show False using sint_small [of "int i"] Suc.prems i assms(2) by simp
    qed
    have idx: "sint (word_of_int prev + off) = int i" unfolding sum by (rule sint_small) (use i assms(2) in simp_all)
    have upd: "(take i vec @ replicate (n - i) False)[i := True] = take (Suc i) vec @ replicate (n - Suc i) False"
      using True len by (simp add: rep tk list_update_append)
    have "varints_loop n (take (Suc i) vec @ replicate (n - Suc i) False) (int i)
      (varints_from (int i) (int (Suc i)) (drop (Suc i) vec) @ WriteVarInt (0 :: u32) @ rest) = Inr (vec, rest)"
      using Suc.hyps(1) [OF k] i by simp
    moreover have "ReadVarInt (varints_from prev (int i) (drop i vec) @ WriteVarInt (0 :: u32) @ rest) =
      Inr (off, varints_from (int i) (int (Suc i)) (drop (Suc i) vec) @ WriteVarInt (0 :: u32) @ rest)"
      unfolding dr using True by (simp del: of_int_diff add: varint32.dec_enc off_def add.commute)
    ultimately show ?thesis using off i Suc.prems(3) idx upd
      by (subst varints_loop.simps) (simp add: Let_def)
  qed
qed

lemma CFixedVarIntsBitSet_roundtrip:
  assumes "length vec = n" and "n < 2 ^ 31"
  shows "CFixedVarIntsBitSet_Unserialize n (CFixedVarIntsBitSet_Serialize vec @ rest) = Inr (vec, rest)"
  using varints_loop_from [OF assms, of 0 "- 1" rest]
  by (simp add: CFixedVarIntsBitSet_Unserialize_def CFixedVarIntsBitSet_Serialize_def)

interpretation varint_bits: codec CFixedVarIntsBitSet_Serialize "CFixedVarIntsBitSet_Unserialize n"
    "\<lambda>vec. length vec = n \<and> n < 2 ^ 31" for n
  by unfold_locales (simp add: CFixedVarIntsBitSet_roundtrip)

text \<open>
  (C32) A bit vector of fewer than 2^31 bits written by \<open>CAutoBitSet\<close> is read back exactly,
  whichever of the two encodings the writer chose, and the choice never costs more than the
  packed encoding and its flag byte.
\<close>

theorem CAutoBitSet_roundtrip:
  assumes "length vec < 2 ^ 31"
  shows "CAutoBitSet_Unserialize (length vec) (CAutoBitSet_Serialize vec (length vec) @ rest) = Inr (vec, rest) \<and>
    length (CAutoBitSet_Serialize vec (length vec)) \<le> 1 + (length vec + 7) div 8"
  using assms fixed_bits.dec_enc [of vec "length vec"] varint_bits.dec_enc [of vec "length vec"]
  by (simp add: CAutoBitSet_Unserialize_def CAutoBitSet_Serialize_def Let_def byte8.dec_enc)
     (simp add: ser_writedata8_def)

theorem CAutoBitSet_roundtrip_witness:
  "CAutoBitSet_Unserialize (length [True, False, True]) (CAutoBitSet_Serialize [True, False, True] (length [True, False, True]) @ [7]) =
     Inr ([True, False, True], [7])"
  using CAutoBitSet_roundtrip [of "[True, False, True]" "[7]"] by simp

end
