(* ===== verification/Script.thy ===== *)
theory Script
  imports Bytes
begin

text \<open>
  Scripts (\<open>script/script.h\<close>, \<open>script/script.cpp\<close>): the opcodes, the numbers of the
  script language (\<open>CScriptNum\<close>), the instruction reader \<open>GetOp2\<close> and what is
  computed from a script without running it: pattern tests, signature-operation counts,
  deletion of a pattern, push-only scripts.  A script is its byte string and an iterator a
  position in it.
\<close>

unbundle bit_operations_syntax

subsection \<open>Limits and opcodes\<close>

definition MAX_SCRIPT_ELEMENT_SIZE :: nat where "MAX_SCRIPT_ELEMENT_SIZE = 520"
definition MAX_OPS_PER_SCRIPT :: int where "MAX_OPS_PER_SCRIPT = 201"
definition MAX_PUBKEYS_PER_MULTISIG :: int where "MAX_PUBKEYS_PER_MULTISIG = 20"
definition MAX_SCRIPT_SIZE :: nat where "MAX_SCRIPT_SIZE = 10000"
definition MAX_STACK_SIZE :: nat where "MAX_STACK_SIZE = 1000"
definition LOCKTIME_THRESHOLD :: u32 where "LOCKTIME_THRESHOLD = 500000000"

text \<open>
  The enumeration has a value for every byte: bytes below \<open>OP_PUSHDATA1\<close> push that many
  bytes, bytes without a name are invalid instructions.
\<close>

type_synonym opcodetype = u8
type_synonym CScript = bytes

abbreviation (input) OP_0 :: opcodetype where "OP_0 \<equiv> 0x00"
abbreviation (input) OP_FALSE :: opcodetype where "OP_FALSE \<equiv> OP_0"
abbreviation (input) OP_PUSHDATA1 :: opcodetype where "OP_PUSHDATA1 \<equiv> 0x4c"
abbreviation (input) OP_PUSHDATA2 :: opcodetype where "OP_PUSHDATA2 \<equiv> 0x4d"
abbreviation (input) OP_PUSHDATA4 :: opcodetype where "OP_PUSHDATA4 \<equiv> 0x4e"
abbreviation (input) OP_1NEGATE :: opcodetype where "OP_1NEGATE \<equiv> 0x4f"
abbreviation (input) OP_RESERVED :: opcodetype where "OP_RESERVED \<equiv> 0x50"
abbreviation (input) OP_1 :: opcodetype where "OP_1 \<equiv> 0x51"
abbreviation (input) OP_TRUE :: opcodetype where "OP_TRUE \<equiv> OP_1"
abbreviation (input) OP_2 :: opcodetype where "OP_2 \<equiv> 0x52"
abbreviation (input) OP_3 :: opcodetype where "OP_3 \<equiv> 0x53"
abbreviation (input) OP_4 :: opcodetype where "OP_4 \<equiv> 0x54"
abbreviation (input) OP_5 :: opcodetype where "OP_5 \<equiv> 0x55"
abbreviation (input) OP_6 :: opcodetype where "OP_6 \<equiv> 0x56"
abbreviation (input) OP_7 :: opcodetype where "OP_7 \<equiv> 0x57"
abbreviation (input) OP_8 :: opcodetype where "OP_8 \<equiv> 0x58"
abbreviation (input) OP_9 :: opcodetype where "OP_9 \<equiv> 0x59"
abbreviation (input) OP_10 :: opcodetype where "OP_10 \<equiv> 0x5a"
abbreviation (input) OP_11 :: opcodetype where "OP_11 \<equiv> 0x5b"
abbreviation (input) OP_12 :: opcodetype where "OP_12 \<equiv> 0x5c"
abbreviation (input) OP_13 :: opcodetype where "OP_13 \<equiv> 0x5d"
abbreviation (input) OP_14 :: opcodetype where "OP_14 \<equiv> 0x5e"
abbreviation (input) OP_15 :: opcodetype where "OP_15 \<equiv> 0x5f"
abbreviation (input) OP_16 :: opcodetype where "OP_16 \<equiv> 0x60"
abbreviation (input) OP_NOP :: opcodetype where "OP_NOP \<equiv> 0x61"
abbreviation (input) OP_VER :: opcodetype where "OP_VER \<equiv> 0x62"
abbreviation (input) OP_IF :: opcodetype where "OP_IF \<equiv> 0x63"
abbreviation (input) OP_NOTIF :: opcodetype where "OP_NOTIF \<equiv> 0x64"
abbreviation (input) OP_VERIF :: opcodetype where "OP_VERIF \<equiv> 0x65"
abbreviation (input) OP_VERNOTIF :: opcodetype where "OP_VERNOTIF \<equiv> 0x66"
abbreviation (input) OP_ELSE :: opcodetype where "OP_ELSE \<equiv> 0x67"
abbreviation (input) OP_ENDIF :: opcodetype where "OP_ENDIF \<equiv> 0x68"
abbreviation (input) OP_VERIFY :: opcodetype where "OP_VERIFY \<equiv> 0x69"
abbreviation (input) OP_RETURN :: opcodetype where "OP_RETURN \<equiv> 0x6a"
abbreviation (input) OP_TOALTSTACK :: opcodetype where "OP_TOALTSTACK \<equiv> 0x6b"
abbreviation (input) OP_FROMALTSTACK :: opcodetype where "OP_FROMALTSTACK \<equiv> 0x6c"
abbreviation (input) OP_2DROP :: opcodetype where "OP_2DROP \<equiv> 0x6d"
abbreviation (input) OP_2DUP :: opcodetype where "OP_2DUP \<equiv> 0x6e"
abbreviation (input) OP_3DUP :: opcodetype where "OP_3DUP \<equiv> 0x6f"
abbreviation (input) OP_2OVER :: opcodetype where "OP_2OVER \<equiv> 0x70"
abbreviation (input) OP_2ROT :: opcodetype where "OP_2ROT \<equiv> 0x71"
abbreviation (input) OP_2SWAP :: opcodetype where "OP_2SWAP \<equiv> 0x72"
abbreviation (input) OP_IFDUP :: opcodetype where "OP_IFDUP \<equiv> 0x73"
abbreviation (input) OP_DEPTH :: opcodetype where "OP_DEPTH \<equiv> 0x74"
abbreviation (input) OP_DROP :: opcodetype where "OP_DROP \<equiv> 0x75"
abbreviation (input) OP_DUP :: opcodetype where "OP_DUP \<equiv> 0x76"
abbreviation (input) OP_NIP :: opcodetype where "OP_NIP \<equiv> 0x77"
abbreviation (input) OP_OVER :: opcodetype where "OP_OVER \<equiv> 0x78"
abbreviation (input) OP_PICK :: opcodetype where "OP_PICK \<equiv> 0x79"
abbreviation (input) OP_ROLL :: opcodetype where "OP_ROLL \<equiv> 0x7a"
abbreviation (input) OP_ROT :: opcodetype where "OP_ROT \<equiv> 0x7b"
abbreviation (input) OP_SWAP :: opcodetype where "OP_SWAP \<equiv> 0x7c"
abbreviation (input) OP_TUCK :: opcodetype where "OP_TUCK \<equiv> 0x7d"
abbreviation (input) OP_CAT :: opcodetype where "OP_CAT \<equiv> 0x7e"
abbreviation (input) OP_SUBSTR :: opcodetype where "OP_SUBSTR \<equiv> 0x7f"
abbreviation (input) OP_LEFT :: opcodetype where "OP_LEFT \<equiv> 0x80"
abbreviation (input) OP_RIGHT :: opcodetype where "OP_RIGHT \<equiv> 0x81"
abbreviation (input) OP_SIZE :: opcodetype where "OP_SIZE \<equiv> 0x82"
abbreviation (input) OP_INVERT :: opcodetype where "OP_INVERT \<equiv> 0x83"
abbreviation (input) OP_AND :: opcodetype where "OP_AND \<equiv> 0x84"
abbreviation (input) OP_OR :: opcodetype where "OP_OR \<equiv> 0x85"
abbreviation (input) OP_XOR :: opcodetype where "OP_XOR \<equiv> 0x86"
abbreviation (input) OP_EQUAL :: opcodetype where "OP_EQUAL \<equiv> 0x87"
abbreviation (input) OP_EQUALVERIFY :: opcodetype where "OP_EQUALVERIFY \<equiv> 0x88"
abbreviation (input) OP_RESERVED1 :: opcodetype where "OP_RESERVED1 \<equiv> 0x89"
abbreviation (input) OP_RESERVED2 :: opcodetype where "OP_RESERVED2 \<equiv> 0x8a"
abbreviation (input) OP_1ADD :: opcodetype where "OP_1ADD \<equiv> 0x8b"
abbreviation (input) OP_1SUB :: opcodetype where "OP_1SUB \<equiv> 0x8c"
abbreviation (input) OP_2MUL :: opcodetype where "OP_2MUL \<equiv> 0x8d"
abbreviation (input) OP_2DIV :: opcodetype where "OP_2DIV \<equiv> 0x8e"
abbreviation (input) OP_NEGATE :: opcodetype where "OP_NEGATE \<equiv> 0x8f"
abbreviation (input) OP_ABS :: opcodetype where "OP_ABS \<equiv> 0x90"
abbreviation (input) OP_NOT :: opcodetype where "OP_NOT \<equiv> 0x91"
abbreviation (input) OP_0NOTEQUAL :: opcodetype where "OP_0NOTEQUAL \<equiv> 0x92"
abbreviation (input) OP_ADD :: opcodetype where "OP_ADD \<equiv> 0x93"
abbreviation (input) OP_SUB :: opcodetype where "OP_SUB \<equiv> 0x94"
abbreviation (input) OP_MUL :: opcodetype where "OP_MUL \<equiv> 0x95"
abbreviation (input) OP_DIV :: opcodetype where "OP_DIV \<equiv> 0x96"
abbreviation (input) OP_MOD :: opcodetype where "OP_MOD \<equiv> 0x97"
abbreviation (input) OP_LSHIFT :: opcodetype where "OP_LSHIFT \<equiv> 0x98"
abbreviation (input) OP_RSHIFT :: opcodetype where "OP_RSHIFT \<equiv> 0x99"
abbreviation (input) OP_BOOLAND :: opcodetype where "OP_BOOLAND \<equiv> 0x9a"
abbreviation (input) OP_BOOLOR :: opcodetype where "OP_BOOLOR \<equiv> 0x9b"
abbreviation (input) OP_NUMEQUAL :: opcodetype where "OP_NUMEQUAL \<equiv> 0x9c"
abbreviation (input) OP_NUMEQUALVERIFY :: opcodetype where "OP_NUMEQUALVERIFY \<equiv> 0x9d"
abbreviation (input) OP_NUMNOTEQUAL :: opcodetype where "OP_NUMNOTEQUAL \<equiv> 0x9e"
abbreviation (input) OP_LESSTHAN :: opcodetype where "OP_LESSTHAN \<equiv> 0x9f"
abbreviation (input) OP_GREATERTHAN :: opcodetype where "OP_GREATERTHAN \<equiv> 0xa0"
abbreviation (input) OP_LESSTHANOREQUAL :: opcodetype where "OP_LESSTHANOREQUAL \<equiv> 0xa1"
abbreviation (input) OP_GREATERTHANOREQUAL :: opcodetype where "OP_GREATERTHANOREQUAL \<equiv> 0xa2"
abbreviation (input) OP_MIN :: opcodetype where "OP_MIN \<equiv> 0xa3"
abbreviation (input) OP_MAX :: opcodetype where "OP_MAX \<equiv> 0xa4"
abbreviation (input) OP_WITHIN :: opcodetype where "OP_WITHIN \<equiv> 0xa5"
abbreviation (input) OP_RIPEMD160 :: opcodetype where "OP_RIPEMD160 \<equiv> 0xa6"
abbreviation (input) OP_SHA1 :: opcodetype where "OP_SHA1 \<equiv> 0xa7"
abbreviation (input) OP_SHA256 :: opcodetype where "OP_SHA256 \<equiv> 0xa8"
abbreviation (input) OP_HASH160 :: opcodetype where "OP_HASH160 \<equiv> 0xa9"
abbreviation (input) OP_HASH256 :: opcodetype where "OP_HASH256 \<equiv> 0xaa"
abbreviation (input) OP_CODESEPARATOR :: opcodetype where "OP_CODESEPARATOR \<equiv> 0xab"
abbreviation (input) OP_CHECKSIG :: opcodetype where "OP_CHECKSIG \<equiv> 0xac"
abbreviation (input) OP_CHECKSIGVERIFY :: opcodetype where "OP_CHECKSIGVERIFY \<equiv> 0xad"
abbreviation (input) OP_CHECKMULTISIG :: opcodetype where "OP_CHECKMULTISIG \<equiv> 0xae"
abbreviation (input) OP_CHECKMULTISIGVERIFY :: opcodetype where "OP_CHECKMULTISIGVERIFY \<equiv> 0xaf"
abbreviation (input) OP_NOP1 :: opcodetype where "OP_NOP1 \<equiv> 0xb0"
abbreviation (input) OP_CHECKLOCKTIMEVERIFY :: opcodetype where "OP_CHECKLOCKTIMEVERIFY \<equiv> 0xb1"
abbreviation (input) OP_NOP2 :: opcodetype where "OP_NOP2 \<equiv> OP_CHECKLOCKTIMEVERIFY"
abbreviation (input) OP_CHECKSEQUENCEVERIFY :: opcodetype where "OP_CHECKSEQUENCEVERIFY \<equiv> 0xb2"
abbreviation (input) OP_NOP3 :: opcodetype where "OP_NOP3 \<equiv> OP_CHECKSEQUENCEVERIFY"
abbreviation (input) OP_NOP4 :: opcodetype where "OP_NOP4 \<equiv> 0xb3"
abbreviation (input) OP_NOP5 :: opcodetype where "OP_NOP5 \<equiv> 0xb4"
abbreviation (input) OP_NOP6 :: opcodetype where "OP_NOP6 \<equiv> 0xb5"
abbreviation (input) OP_NOP7 :: opcodetype where "OP_NOP7 \<equiv> 0xb6"
abbreviation (input) OP_NOP8 :: opcodetype where "OP_NOP8 \<equiv> 0xb7"
abbreviation (input) OP_NOP9 :: opcodetype where "OP_NOP9 \<equiv> 0xb8"
abbreviation (input) OP_NOP10 :: opcodetype where "OP_NOP10 \<equiv> 0xb9"
abbreviation (input) OP_SMALLINTEGER :: opcodetype where "OP_SMALLINTEGER \<equiv> 0xfa"
abbreviation (input) OP_PUBKEYS :: opcodetype where "OP_PUBKEYS \<equiv> 0xfb"
abbreviation (input) OP_PUBKEYHASH :: opcodetype where "OP_PUBKEYHASH \<equiv> 0xfd"
abbreviation (input) OP_PUBKEY :: opcodetype where "OP_PUBKEY \<equiv> 0xfe"
abbreviation (input) OP_INVALIDOPCODE :: opcodetype where "OP_INVALIDOPCODE \<equiv> 0xff"

definition op_names :: "(opcodetype \<times> string) list" where
  "op_names =
  [(OP_0, ''0''), (OP_PUSHDATA1, ''OP_PUSHDATA1''), (OP_PUSHDATA2, ''OP_PUSHDATA2''),
   (OP_PUSHDATA4, ''OP_PUSHDATA4''), (OP_1NEGATE, ''-1''), (OP_RESERVED, ''OP_RESERVED''),
   (OP_1, ''1''), (OP_2, ''2''), (OP_3, ''3''),
   (OP_4, ''4''), (OP_5, ''5''), (OP_6, ''6''),
   (OP_7, ''7''), (OP_8, ''8''), (OP_9, ''9''),
   (OP_10, ''10''), (OP_11, ''11''), (OP_12, ''12''),
   (OP_13, ''13''), (OP_14, ''14''), (OP_15, ''15''),
   (OP_16, ''16''), (OP_NOP, ''OP_NOP''), (OP_VER, ''OP_VER''),
   (OP_IF, ''OP_IF''), (OP_NOTIF, ''OP_NOTIF''), (OP_VERIF, ''OP_VERIF''),
   (OP_VERNOTIF, ''OP_VERNOTIF''), (OP_ELSE, ''OP_ELSE''), (OP_ENDIF, ''OP_ENDIF''),
   (OP_VERIFY, ''OP_VERIFY''), (OP_RETURN, ''OP_RETURN''), (OP_TOALTSTACK, ''OP_TOALTSTACK''),
   (OP_FROMALTSTACK, ''OP_FROMALTSTACK''), (OP_2DROP, ''OP_2DROP''), (OP_2DUP, ''OP_2DUP''),
   (OP_3DUP, ''OP_3DUP''), (OP_2OVER, ''OP_2OVER''), (OP_2ROT, ''OP_2ROT''),
   (OP_2SWAP, ''OP_2SWAP''), (OP_IFDUP, ''OP_IFDUP''), (OP_DEPTH, ''OP_DEPTH''),
   (OP_DROP, ''OP_DROP''), (OP_DUP, ''OP_DUP''), (OP_NIP, ''OP_NIP''),
   (OP_OVER, ''OP_OVER''), (OP_PICK, ''OP_PICK''), (OP_ROLL, ''OP_ROLL''),
   (OP_ROT, ''OP_ROT''), (OP_SWAP, ''OP_SWAP''), (OP_TUCK, ''OP_TUCK''),
   (OP_CAT, ''OP_CAT''), (OP_SUBSTR, ''OP_SUBSTR''), (OP_LEFT, ''OP_LEFT''),
   (OP_RIGHT, ''OP_RIGHT''), (OP_SIZE, ''OP_SIZE''), (OP_INVERT, ''OP_INVERT''),
   (OP_AND, ''OP_AND''), (OP_OR, ''OP_OR''), (OP_XOR, ''OP_XOR''),
   (OP_EQUAL, ''OP_EQUAL''), (OP_EQUALVERIFY, ''OP_EQUALVERIFY''), (OP_RESERVED1, ''OP_RESERVED1''),
   (OP_RESERVED2, ''OP_RESERVED2''), (OP_1ADD, ''OP_1ADD''), (OP_1SUB, ''OP_1SUB''),
   (OP_2MUL, ''OP_2MUL''), (OP_2DIV, ''OP_2DIV''), (OP_NEGATE, ''OP_NEGATE''),
   (OP_ABS, ''OP_ABS''), (OP_NOT, ''OP_NOT''), (OP_0NOTEQUAL, ''OP_0NOTEQUAL''),
   (OP_ADD, ''OP_ADD''), (OP_SUB, ''OP_SUB''), (OP_MUL, ''OP_MUL''),
   (OP_DIV, ''OP_DIV''), (OP_MOD, ''OP_MOD''), (OP_LSHIFT, ''OP_LSHIFT''),
   (OP_RSHIFT, ''OP_RSHIFT''), (OP_BOOLAND, ''OP_BOOLAND''), (OP_BOOLOR, ''OP_BOOLOR''),
   (OP_NUMEQUAL, ''OP_NUMEQUAL''), (OP_NUMEQUALVERIFY, ''OP_NUMEQUALVERIFY''), (OP_NUMNOTEQUAL, ''OP_NUMNOTEQUAL''),
   (OP_LESSTHAN, ''OP_LESSTHAN''), (OP_GREATERTHAN, ''OP_GREATERTHAN''), (OP_LESSTHANOREQUAL, ''OP_LESSTHANOREQUAL''),
   (OP_GREATERTHANOREQUAL, ''OP_GREATERTHANOREQUAL''), (OP_MIN, ''OP_MIN''), (OP_MAX, ''OP_MAX''),
   (OP_WITHIN, ''OP_WITHIN''), (OP_RIPEMD160, ''OP_RIPEMD160''), (OP_SHA1, ''OP_SHA1''),
   (OP_SHA256, ''OP_SHA256''), (OP_HASH160, ''OP_HASH160''), (OP_HASH256, ''OP_HASH256''),
   (OP_CODESEPARATOR, ''OP_CODESEPARATOR''), (OP_CHECKSIG, ''OP_CHECKSIG''), (OP_CHECKSIGVERIFY, ''OP_CHECKSIGVERIFY''),
   (OP_CHECKMULTISIG, ''OP_CHECKMULTISIG''), (OP_CHECKMULTISIGVERIFY, ''OP_CHECKMULTISIGVERIFY''), (OP_NOP1, ''OP_NOP1''),
   (OP_CHECKLOCKTIMEVERIFY, ''OP_CHECKLOCKTIMEVERIFY''), (OP_CHECKSEQUENCEVERIFY, ''OP_CHECKSEQUENCEVERIFY''), (OP_NOP4, ''OP_NOP4''),
   (OP_NOP5, ''OP_NOP5''), (OP_NOP6, ''OP_NOP6''), (OP_NOP7, ''OP_NOP7''),
   (OP_NOP8, ''OP_NOP8''), (OP_NOP9, ''OP_NOP9''), (OP_NOP10, ''OP_NOP10''),
   (OP_INVALIDOPCODE, ''OP_INVALIDOPCODE'')]"

definition GetOpName :: "opcodetype \<Rightarrow> string" where
  "GetOpName opcode = (case map_of op_names opcode of Some s \<Rightarrow> s | None \<Rightarrow> ''OP_UNKNOWN'')"

subsection \<open>Script numbers\<close>

datatype scriptnum_error = Script_number_overflow | Non_minimally_encoded

text \<open>
  \<open>m_value\<close> is an \<open>int64_t\<close>.  The interpreter reads at most five bytes, where the
  shifts of \<open>set_vch\<close> stay in range; \<open>set_vch_bound\<close> below gives the range.
\<close>

definition set_vch :: "bytes \<Rightarrow> int" where
  "set_vch vch =
     (if vch = [] then 0
      else let result = fold (\<lambda>i r. r OR push_bit (8 * i) (uint (vch ! i))) [0..<length vch] 0
           in if List.last vch AND 0x80 \<noteq> 0
              then - (result AND NOT (push_bit (8 * (length vch - 1)) 0x80))
              else result)"

definition CScriptNum :: "bytes \<Rightarrow> bool \<Rightarrow> nat \<Rightarrow> scriptnum_error + int" where
  "CScriptNum vch fRequireMinimal nMaxNumSize =
     (if length vch > nMaxNumSize then Inl Script_number_overflow
      else if fRequireMinimal \<and> length vch > 0 \<and> List.last vch AND 0x7f = 0 \<and>
              (length vch \<le> 1 \<or> vch ! (length vch - 2) AND 0x80 = 0)
      then Inl Non_minimally_encoded
      else Inr (set_vch vch))"

definition nDefaultMaxNumSize :: nat where "nDefaultMaxNumSize = 4"

definition getint :: "int \<Rightarrow> int" where
  "getint m_value =
     (if m_value > INT_MAX then INT_MAX else if m_value < - INT_MAX - 1 then - INT_MAX - 1 else m_value)"

function abs_bytes :: "u64 \<Rightarrow> bytes" where
  "abs_bytes absvalue =
     (if absvalue \<noteq> 0 then ucast (absvalue AND 0xff) # abs_bytes (drop_bit 8 absvalue) else [])"
  by pat_completeness auto
termination
proof (relation "measure unat")
  fix x :: u64
  assume "x \<noteq> 0"
  then have "unat x > 0" by (simp add: unat_gt_0)
  then show "(drop_bit 8 x, x) \<in> measure unat" by (simp add: unat_drop_bit_div)
qed simp

declare abs_bytes.simps [simp del]

definition scriptnum_serialize :: "int \<Rightarrow> bytes" where
  "scriptnum_serialize value =
     (if value = 0 then []
      else let neg = value < 0;
               result = abs_bytes (word_of_int (if neg then - value else value))
           in if List.last result AND 0x80 \<noteq> 0 then result @ [if neg then 0x80 else 0]
              else if neg then butlast result @ [List.last result OR 0x80]
              else result)"

subsection \<open>Building scripts\<close>

text \<open>\<open>operator<<\<close> on an opcode, a byte vector and a number.\<close>

definition push_opcode :: "CScript \<Rightarrow> opcodetype \<Rightarrow> CScript" where
  "push_opcode script opcode = script @ [opcode]"

definition push_data :: "CScript \<Rightarrow> bytes \<Rightarrow> CScript" where
  "push_data script b =
     script @
     (if length b < unat OP_PUSHDATA1 then [word_of_nat (length b)]
      else if length b \<le> 0xff then [OP_PUSHDATA1, word_of_nat (length b)]
      else if length b \<le> 0xffff then OP_PUSHDATA2 # WriteLE16 (word_of_nat (length b))
      else OP_PUSHDATA4 # WriteLE32 (word_of_nat (length b)))
     @ b"

definition push_int64 :: "CScript \<Rightarrow> int \<Rightarrow> CScript" where
  "push_int64 script n =
     (if n = - 1 \<or> 1 \<le> n \<and> n \<le> 16 then script @ [word_of_int (n + (uint OP_1 - 1))]
      else if n = 0 then script @ [OP_0]
      else push_data script (scriptnum_serialize n))"

subsection \<open>Reading instructions\<close>

text \<open>
  \<open>GetOp2\<close> returns whether it succeeded, the iterator after the call, the opcode and the
  pushed bytes.  A failed call leaves the iterator behind the bytes it has looked at.
\<close>

definition GetOp2 :: "CScript \<Rightarrow> nat \<Rightarrow> bool \<times> nat \<times> opcodetype \<times> bytes" where
  "GetOp2 script pc =
     (if pc \<ge> length script then (False, pc, OP_INVALIDOPCODE, [])
      else let opcode = script ! pc; pc = pc + 1; left = length script - pc
      in if opcode \<le> OP_PUSHDATA4 then
           case (if opcode < OP_PUSHDATA1 then Some (unat opcode, pc)
                 else if opcode = OP_PUSHDATA1 then
                   (if left < 1 then None else Some (unat (script ! pc), pc + 1))
                 else if opcode = OP_PUSHDATA2 then
                   (if left < 2 then None else Some (unat (ReadLE16 (drop pc script)), pc + 2))
                 else (if left < 4 then None else Some (unat (ReadLE32 (drop pc script)), pc + 4)))
           of None \<Rightarrow> (False, pc, OP_INVALIDOPCODE, [])
            | Some (nSize, pc) \<Rightarrow>
                if length script - pc < nSize then (False, pc, OP_INVALIDOPCODE, [])
                else (True, pc + nSize, opcode, take nSize (drop pc script))
         else (True, pc, opcode, []))"

definition DecodeOP_N :: "opcodetype \<Rightarrow> int" where
  "DecodeOP_N opcode = (if opcode = OP_0 then 0 else uint opcode - (uint OP_1 - 1))"

lemma GetOp2_advances: "GetOp2 script pc = (True, pc', opcode, data) \<Longrightarrow> pc < pc' \<and> pc' \<le> length script"
  by (auto simp: GetOp2_def Let_def split: if_splits)

lemma GetOp2_end: "GetOp2 script pc = (True, pc', opcode, data) \<Longrightarrow> pc < length script"
  by (auto simp: GetOp2_def split: if_splits)

subsection \<open>Walks over the instructions\<close>

text \<open>\<open>FindAndDelete\<close>: skip every copy of \<open>b\<close> that starts at an instruction boundary.\<close>

function skip_matches :: "CScript \<Rightarrow> bytes \<Rightarrow> nat \<Rightarrow> nat \<Rightarrow> nat \<times> nat" where
  "skip_matches script b pc nFound =
     (if b \<noteq> [] \<and> length b \<le> length script - pc \<and> take (length b) (drop pc script) = b
      then skip_matches script b (pc + length b) (nFound + 1)
      else (pc, nFound))"
  by pat_completeness auto
termination
proof (relation "measure (\<lambda>(script, _, pc, _). length script - pc)")
  fix script b :: bytes and pc nFound :: nat
  assume a: "b \<noteq> [] \<and> length b \<le> length script - pc \<and> take (length b) (drop pc script) = b"
  then have "0 < length b" and "length b \<le> length script - pc" by auto
  then show "((script, b, pc + length b, nFound + 1), script, b, pc, nFound) \<in>
      measure (\<lambda>(script, _, pc, _). length script - pc)"
    unfolding in_measure split_conv by linarith
qed simp

declare skip_matches.simps [simp del]

lemma skip_matches_ge: "(pc', n') = skip_matches script b pc n \<Longrightarrow> pc \<le> pc'"
proof (induction script b pc n rule: skip_matches.induct)
  case (1 script b pc n)
  then show ?case by (subst (asm) (2) skip_matches.simps) (auto split: if_splits)
qed

text \<open>The \<open>do\<close> loop: \<open>pc2\<close> is where the last match ended, \<open>pc\<close> the next instruction.\<close>

function find_delete_loop :: "CScript \<Rightarrow> bytes \<Rightarrow> nat \<Rightarrow> nat \<Rightarrow> bytes \<Rightarrow> nat \<Rightarrow> nat \<times> bytes \<times> nat" where
  "find_delete_loop script b pc2 pc result nFound =
     (let result = result @ drop pc2 (take pc script);
          (pc, nFound) = skip_matches script b pc nFound;
          (ok, pc', _, _) = GetOp2 script pc
      in if ok then find_delete_loop script b pc pc' result nFound
         else (nFound, result, pc))"
  by pat_completeness auto
termination
  by (relation "measure (\<lambda>(script, _, _, pc, _, _). length script - pc)")
     (auto dest!: GetOp2_advances [OF sym] skip_matches_ge)

declare find_delete_loop.simps [simp del]

definition FindAndDelete :: "CScript \<Rightarrow> CScript \<Rightarrow> nat \<times> CScript" where
  "FindAndDelete script b =
     (if b = [] then (0, script)
      else let (nFound, result, pc2) = find_delete_loop script b 0 0 [] 0
           in if nFound > 0 then (nFound, result @ drop pc2 script) else (nFound, script))"

text \<open>The opcodes of the instructions from \<open>pc\<close> on, up to the end or the first bad one.\<close>

function ops_from :: "CScript \<Rightarrow> nat \<Rightarrow> (opcodetype \<times> bytes) list \<times> bool" where
  "ops_from script pc =
     (if pc < length script then
        let (ok, pc', opcode, data) = GetOp2 script pc
        in if ok then let (ops, good) = ops_from script pc' in ((opcode, data) # ops, good)
           else ([], False)
      else ([], True))"
  by pat_completeness auto
termination
  by (relation "measure (\<lambda>(script, pc). length script - pc)") (auto dest!: GetOp2_advances [OF sym])

declare ops_from.simps [simp del]

definition Find :: "CScript \<Rightarrow> opcodetype \<Rightarrow> nat" where
  "Find script op = length (filter (\<lambda>(opcode, _). opcode = op) (fst (ops_from script 0)))"

fun sigops :: "bool \<Rightarrow> opcodetype \<Rightarrow> (opcodetype \<times> bytes) list \<Rightarrow> int" where
  "sigops fAccurate lastOpcode [] = 0"
| "sigops fAccurate lastOpcode ((opcode, _) # ops) =
     (if opcode = OP_CHECKSIG \<or> opcode = OP_CHECKSIGVERIFY then 1
      else if opcode = OP_CHECKMULTISIG \<or> opcode = OP_CHECKMULTISIGVERIFY then
        (if fAccurate \<and> lastOpcode \<ge> OP_1 \<and> lastOpcode \<le> OP_16 then DecodeOP_N lastOpcode
         else MAX_PUBKEYS_PER_MULTISIG)
      else 0) + sigops fAccurate opcode ops"

definition GetSigOpCount :: "CScript \<Rightarrow> bool \<Rightarrow> int" where
  "GetSigOpCount script fAccurate = sigops fAccurate OP_INVALIDOPCODE (fst (ops_from script 0))"

definition IsPayToPublicKeyHash :: "CScript \<Rightarrow> bool" where
  "IsPayToPublicKeyHash s \<longleftrightarrow>
     length s = 25 \<and> s ! 0 = OP_DUP \<and> s ! 1 = OP_HASH160 \<and> s ! 2 = 0x14 \<and>
     s ! 23 = OP_EQUALVERIFY \<and> s ! 24 = OP_CHECKSIG"

definition IsPayToScriptHash :: "CScript \<Rightarrow> bool" where
  "IsPayToScriptHash s \<longleftrightarrow>
     length s = 23 \<and> s ! 0 = OP_HASH160 \<and> s ! 1 = 0x14 \<and> s ! 22 = OP_EQUAL"

text \<open>
  The count for a pay-to-script-hash output: of the script that \<open>scriptSig\<close> pushes last,
  provided that it only pushes.
\<close>

definition GetSigOpCount_P2SH :: "CScript \<Rightarrow> CScript \<Rightarrow> int" where
  "GetSigOpCount_P2SH script scriptSig =
     (if \<not> IsPayToScriptHash script then GetSigOpCount script True
      else let (ops, good) = ops_from scriptSig 0
           in if \<not> good \<or> list_ex (\<lambda>(opcode, _). opcode > OP_16) ops then 0
              else GetSigOpCount (if ops = [] then [] else snd (List.last ops)) True)"

definition IsPushOnly_from :: "CScript \<Rightarrow> nat \<Rightarrow> bool" where
  "IsPushOnly_from script pc =
     (let (ops, good) = ops_from script pc
      in good \<and> \<not> list_ex (\<lambda>(opcode, _). opcode > OP_16) ops)"

definition IsPushOnly :: "CScript \<Rightarrow> bool" where
  "IsPushOnly script = IsPushOnly_from script 0"

definition IsUnspendable :: "CScript \<Rightarrow> bool" where
  "IsUnspendable script \<longleftrightarrow>
     length script > 0 \<and> script ! 0 = OP_RETURN \<or> length script > MAX_SCRIPT_SIZE"

end
