(* ===== verification/Script_Props.thy ===== *)
theory Script_Props
  imports Script
begin

text \<open>
  Facts about scripts that need no execution: script numbers read back and are canonical,
  pushes read back, deletion of a pattern, signature-operation counts.
\<close>

unbundle bit_operations_syntax

subsection \<open>Script numbers\<close>

lemma bit_0x80_u8: "bit (0x80 :: u8) p \<longleftrightarrow> p = 7"
proof -
  have m: "(0x80 :: u8) = push_bit 7 1" by simp
  show ?thesis unfolding m bit_push_bit_iff bit_1_iff by auto
qed

lemma bit_0x7f_u8: "bit (0x7f :: u8) p \<longleftrightarrow> p < 7"
proof -
  have m: "(0x7f :: u8) = mask 7" by (simp add: mask_eq_exp_minus_1)
  show ?thesis unfolding m bit_mask_iff by auto
qed

lemma and_0x80: "b AND 0x80 \<noteq> (0 :: u8) \<longleftrightarrow> bit b 7"
proof -
  have "b AND 0x80 = (if bit b 7 then 0x80 else 0)"
    by (rule bit_word_eqI) (auto simp del: bit_numeral_word_iff simp: bit_and_iff bit_0x80_u8)
  then show ?thesis by simp
qed

lemma and_0x7f_id: "\<not> bit (b :: u8) 7 \<Longrightarrow> b AND 0x7f = b"
proof (rule bit_word_eqI)
  fix p assume "\<not> bit b 7" "p < LENGTH(8)"
  then show "bit (b AND 0x7f) p = bit b p"
    by (cases "p = 7") (auto simp del: bit_numeral_word_iff simp: bit_and_iff bit_0x7f_u8)
qed

lemma or_0x80_back: "(b AND 0x7f) OR (if bit b 7 then 0x80 else 0) = (b :: u8)"
proof (rule bit_word_eqI)
  fix p assume "p < LENGTH(8)"
  then show "bit ((b AND 0x7f) OR (if bit b 7 then 0x80 else 0)) p = bit b p"
    by (cases "p = 7") (auto simp del: bit_numeral_word_iff simp: bit_and_iff bit_or_iff bit_0x7f_u8 bit_0x80_u8)
qed

lemma or_push_digit:
  assumes "a < 2 ^ k"
  shows "int a OR push_bit k (uint (w :: 'a::len word)) = int (a + 2 ^ k * unat w)"
proof (rule bit_eqI)
  fix p
  have "\<not> bit a p" if "k \<le> p"
    using assms that by (metis bit_take_bit_iff not_less take_bit_nat_eq_self)
  then show "bit (int a OR push_bit k (uint w)) p = bit (int (a + 2 ^ k * unat w)) p"
    by (auto simp del: of_nat_add of_nat_mult of_nat_power simp: bit_or_iff bit_push_bit_iff bit_of_nat_iff
        bit_digit_split [OF assms] bit_uint_iff bit_unat_word dest: bit_imp_le_length)
qed

lemma set_vch_fold:
  fixes vch :: bytes
  shows "n \<le> length vch \<Longrightarrow>
   fold (\<lambda>i r. r OR push_bit (8 * i) (uint (vch ! i))) [0..<n] 0 = int (digits_val (take n vch))"
proof (induction n)
  case (Suc n)
  have "digits_val (take n vch) < 2 ^ (8 * n)" using digits_val_less [of "take n vch"] Suc.prems by simp
  from or_push_digit [OF this, of "vch ! n"] Suc show ?case
    by (simp add: take_Suc_conv_app_nth digits_val_append)
qed simp

lemma set_vch_snoc:
  "set_vch (lo @ [hi]) = (if bit hi 7 then - 1 else 1) * int (digits_val (lo @ [hi AND 0x7f]))"
proof -
  have res: "fold (\<lambda>i r. r OR push_bit (8 * i) (uint ((lo @ [hi]) ! i))) [0..<length (lo @ [hi])] 0 =
      int (digits_val (lo @ [hi]))"
    using set_vch_fold [of "length (lo @ [hi])" "lo @ [hi]"] by simp
  have msk: "int (digits_val (lo @ [hi])) AND NOT (push_bit (8 * length lo) 0x80) =
      int (digits_val (lo @ [hi AND 0x7f]))"
  proof (rule bit_eqI)
    fix p
    have m: "(0x80 :: int) = push_bit 7 1" by simp
    have b: "bit (push_bit (8 * length lo) (0x80 :: int)) p \<longleftrightarrow> p = 8 * length lo + 7"
      unfolding m push_bit_push_bit bit_push_bit_iff bit_1_iff by auto
    have eq: "p = 8 * length lo + 7 \<longleftrightarrow> p div 8 = length lo \<and> p mod 8 = 7" by presburger
    have lt: "p mod 8 < 8" by simp
    then have "p mod 8 < 7 \<longleftrightarrow> p mod 8 \<noteq> 7" by linarith
    moreover have "p div 8 < length lo \<or> p div 8 = length lo \<or> p div 8 > length lo" by linarith
    ultimately show "bit (int (digits_val (lo @ [hi])) AND NOT (push_bit (8 * length lo) 0x80)) p =
        bit (int (digits_val (lo @ [hi AND 0x7f]))) p"
      unfolding bit_and_iff bit_not_iff b eq bit_of_nat_iff bit_digits_val
      by (elim disjE) (simp_all del: bit_numeral_word_iff add: nth_append bit_and_iff bit_0x7f_u8)
  qed
  have "bit hi 7 \<or> hi AND 0x7f = hi" using and_0x7f_id by blast
  with msk res show ?thesis by (cases "bit hi 7") (simp_all add: set_vch_def Let_def and_0x80)
qed

lemma digits_val_abs_bytes: "digits_val (abs_bytes a) = unat a"
proof (induction a rule: abs_bytes.induct)
  case (1 a)
  have "unat (ucast (a AND 0xff) :: u8) = unat a mod 256"
  proof -
    have "a AND 0xff = take_bit 8 a" by (simp add: take_bit_eq_mask mask_eq_exp_minus_1)
    then have "unat (a AND 0xff) = unat a mod 256" by (simp only: unsigned_take_bit_eq) (simp add: take_bit_eq_mod)
    then show ?thesis by (simp add: unsigned_ucast_eq unsigned_take_bit_eq take_bit_eq_mod)
  qed
  then show ?case using 1 by (subst abs_bytes.simps) (simp add: unat_drop_bit_div)
qed

lemma abs_bytes_last: "a \<noteq> 0 \<Longrightarrow> abs_bytes a \<noteq> [] \<and> List.last (abs_bytes a) \<noteq> 0"
proof (induction a rule: abs_bytes.induct)
  case (1 a)
  show ?case
  proof (cases "drop_bit 8 a = 0")
    case True
    then have "abs_bytes a = [ucast (a AND 0xff)]" using "1.prems"
      by (subst abs_bytes.simps, subst abs_bytes.simps) simp
    with digits_val_abs_bytes [of a] "1.prems" show ?thesis by (auto simp: unat_eq_zero)
  next
    case False
    with "1.IH" "1.prems" show ?thesis by (subst (1 2) abs_bytes.simps) simp
  qed
qed

lemma digits_val_last_ge:
  assumes "xs \<noteq> []" and "List.last xs \<noteq> (0 :: u8)"
  shows "2 ^ (8 * (length xs - 1)) \<le> digits_val xs"
proof -
  obtain ys y where xs: "xs = ys @ [y]" using assms(1) by (cases xs rule: rev_cases) auto
  then have "1 \<le> unat y" using assms(2) by (simp add: Suc_le_eq unat_gt_0)
  then have "2 ^ (8 * length ys) * 1 \<le> 2 ^ (8 * length ys) * unat y" by (rule mult_le_mono2)
  then have "2 ^ (8 * length ys) \<le> digits_val ys + 2 ^ (8 * length ys) * unat y" by linarith
  then show ?thesis by (simp add: xs digits_val_append)
qed

text \<open>A string without leading zero digits is determined by its value.\<close>

lemma digits_val_unique:
  fixes xs ys :: bytes
  assumes "xs \<noteq> []" "List.last xs \<noteq> 0" "ys \<noteq> []" "List.last ys \<noteq> 0" "digits_val xs = digits_val ys"
  shows "xs = ys"
proof -
  have le: "length a \<le> length b" if "a \<noteq> []" "List.last a \<noteq> 0" "digits_val a = digits_val b" for a b :: bytes
  proof (rule ccontr)
    assume "\<not> length a \<le> length b"
    then have "(2::nat) ^ (8 * length b) \<le> 2 ^ (8 * (length a - 1))" by (intro power_increasing) auto
    also have "\<dots> \<le> digits_val b" using digits_val_last_ge [OF that(1,2)] that(3) by simp
    also have "\<dots> < 2 ^ (8 * length b)" using digits_val_less [of b] by simp
    finally show False by simp
  qed
  have "length xs = length ys" by (rule antisym) (use le assms in \<open>metis+\<close>)
  then show ?thesis using assms(5) by (rule digits_val_inject)
qed

lemma abs_bytes_unique:
  assumes "xs \<noteq> []" and "List.last xs \<noteq> 0" and "digits_val xs < 2 ^ 64"
  shows "abs_bytes (word_of_nat (digits_val xs)) = xs"
proof -
  define a :: u64 where "a = word_of_nat (digits_val xs)"
  have u: "unat a = digits_val xs" using assms(3) by (simp add: a_def unat_of_nat take_bit_nat_eq_self)
  have "0 < digits_val xs" using digits_val_last_ge [OF assms(1,2)] by (meson less_le_trans zero_less_numeral zero_less_power)
  then have "a \<noteq> 0" using u by auto
  with abs_bytes_last [of a] digits_val_abs_bytes [of a] u assms
  show ?thesis unfolding a_def [symmetric] by (intro digits_val_unique) auto
qed

text \<open>The bytes of a nonzero magnitude.\<close>

lemma magnitude_bytes:
  assumes "v \<noteq> 0" and "\<bar>v\<bar> < 2 ^ 64"
  obtains lo hi where "abs_bytes (word_of_int \<bar>v\<bar>) = lo @ [hi]" and "hi \<noteq> 0"
    and "int (digits_val (lo @ [hi])) = \<bar>v\<bar>"
proof -
  define a :: u64 where "a = word_of_int \<bar>v\<bar>"
  have "uint a = \<bar>v\<bar>" using assms(2) by (simp add: a_def uint_word_of_int_eq take_bit_int_eq_self)
  then have u: "int (unat a) = \<bar>v\<bar>" by simp
  then have "a \<noteq> 0" using assms(1) by auto
  from abs_bytes_last [OF this] obtain lo hi where "abs_bytes a = lo @ [hi]" "hi \<noteq> 0"
    by (metis append_butlast_last_id)
  moreover from this have "int (digits_val (lo @ [hi])) = \<bar>v\<bar>" using u digits_val_abs_bytes [of a] by simp
  ultimately show thesis using that unfolding a_def by blast
qed

lemma digits_val_snoc_0 [simp]: "digits_val (xs @ [0]) = digits_val xs"
  by (simp add: digits_val_append)

lemma sign_byte: "bit (0x80 :: u8) 7" "(0x80 :: u8) AND 0x7f = 0" "\<not> bit (0 :: u8) 7"
  by (simp_all add: bit_0x80_u8 del: bit_numeral_word_iff)

lemma or_sign: "\<not> bit hi 7 \<Longrightarrow> (hi OR 0x80) AND 0x7f = (hi :: u8)" "bit (hi OR 0x80 :: u8) 7"
proof -
  show "bit (hi OR 0x80) 7" by (simp add: bit_or_iff bit_0x80_u8 del: bit_numeral_word_iff)
  show "(hi OR 0x80) AND 0x7f = hi" if "\<not> bit hi 7"
  proof (rule bit_word_eqI)
    fix p assume "p < LENGTH(8)"
    with that show "bit ((hi OR 0x80) AND 0x7f) p = bit hi p"
      by (cases "p = 7") (auto simp del: bit_numeral_word_iff simp: bit_and_iff bit_or_iff bit_0x7f_u8 bit_0x80_u8)
  qed
qed

lemma scriptnum_serialize_cases:
  assumes "v \<noteq> 0" and "abs_bytes (word_of_int \<bar>v\<bar>) = lo @ [hi]"
  shows "scriptnum_serialize v =
    (if bit hi 7 then lo @ [hi, if v < 0 then 0x80 else 0] else if v < 0 then lo @ [hi OR 0x80] else lo @ [hi])"
  using assms by (cases "v < 0") (simp_all add: scriptnum_serialize_def Let_def and_0x80)

lemma set_vch_serialize:
  assumes "\<bar>v\<bar> < 2 ^ 63"
  shows "set_vch (scriptnum_serialize v) = v"
proof (cases "v = 0")
  case True
  then show ?thesis by (simp add: scriptnum_serialize_def set_vch_def)
next
  case False
  with assms obtain lo hi where ab: "abs_bytes (word_of_int \<bar>v\<bar>) = lo @ [hi]"
    and val: "int (digits_val (lo @ [hi])) = \<bar>v\<bar>" by (auto elim: magnitude_bytes)
  note ser = scriptnum_serialize_cases [OF False ab]
  show ?thesis
  proof (cases "bit hi 7")
    case True
    then have "scriptnum_serialize v = (lo @ [hi]) @ [if v < 0 then 0x80 else 0]" using ser by simp
    moreover have "int (digits_val ((lo @ [hi]) @ [0])) = \<bar>v\<bar>" using val by (simp only: digits_val_snoc_0)
    ultimately show ?thesis by (simp only: set_vch_snoc) (auto simp: sign_byte simp del: append_assoc bit_numeral_word_iff)
  next
    case hi: False
    then show ?thesis using val ser by (auto simp: set_vch_snoc or_sign and_0x7f_id)
  qed
qed

lemma set_vch_bound:
  assumes "vch \<noteq> []"
  shows "\<bar>set_vch vch\<bar> < 2 ^ (8 * length vch - 1)"
proof -
  obtain lo hi where v: "vch = lo @ [hi]" using assms by (cases vch rule: rev_cases) auto
  have "unat (hi AND 0x7f) \<le> 127"
  proof -
    have "hi AND 0x7f = take_bit 7 hi" by (simp add: take_bit_eq_mask mask_eq_exp_minus_1)
    then have "unat (hi AND 0x7f) < 2 ^ 7" by (simp only: unsigned_take_bit_eq take_bit_nat_less_exp)
    then show ?thesis by simp
  qed
  then have "2 ^ (8 * length lo) * unat (hi AND 0x7f) \<le> 2 ^ (8 * length lo) * 127" by (rule mult_le_mono2)
  moreover have "digits_val lo < 2 ^ (8 * length lo)" using digits_val_less [of lo] by simp
  ultimately have "digits_val lo + 2 ^ (8 * length lo) * unat (hi AND 0x7f) < 2 ^ (8 * length lo) * 128"
    by linarith
  then have "digits_val (lo @ [hi AND 0x7f]) < 2 ^ (8 * length lo) * 128"
    by (simp add: digits_val_append)
  also have "\<dots> = 2 ^ (8 * length vch - 1)" by (simp add: v power_add)
  finally have "int (digits_val (lo @ [hi AND 0x7f])) < 2 ^ (8 * length vch - 1)"
    by (metis of_nat_less_iff of_nat_numeral of_nat_power)
  then show ?thesis by (simp add: v set_vch_snoc)
qed

lemma CScriptNum_bound:
  assumes "CScriptNum vch m n = Inr v"
  shows "\<bar>v\<bar> < 2 ^ (8 * n - 1)"
proof (cases "vch = []")
  case True
  then show ?thesis using assms by (simp add: CScriptNum_def set_vch_def split: if_splits)
next
  case False
  from assms have l: "length vch \<le> n" and v: "v = set_vch vch" by (auto simp: CScriptNum_def split: if_splits)
  have "(2 :: int) ^ (8 * length vch - 1) \<le> 2 ^ (8 * n - 1)" using l by (intro power_increasing) auto
  with set_vch_bound [OF False] show ?thesis unfolding v by (rule less_le_trans)
qed

lemma scriptnum_serialize_unique:
  assumes "xs = lo @ [hi]" and "hi \<noteq> 0" and "length xs \<le> 8"
    and "\<bar>v\<bar> = int (digits_val xs)"
  shows "scriptnum_serialize v =
    (if bit hi 7 then lo @ [hi, if v < 0 then 0x80 else 0] else if v < 0 then lo @ [hi OR 0x80] else lo @ [hi])"
proof -
  have "digits_val xs < 2 ^ (8 * length xs)" using digits_val_less [of xs] by simp
  also have "\<dots> \<le> (2 :: nat) ^ 64" using assms(3) by (intro power_increasing) auto
  finally have "abs_bytes (word_of_nat (digits_val xs)) = xs"
    using assms(1,2) by (intro abs_bytes_unique) auto
  then have "abs_bytes (word_of_int \<bar>v\<bar>) = lo @ [hi]" using assms(1,4) by simp
  moreover have "v \<noteq> 0" using digits_val_last_ge [of xs] assms(1,2,4) by (auto simp: not_le)
  ultimately show ?thesis by (intro scriptnum_serialize_cases)
qed

lemma CScriptNum_canonical:
  assumes "CScriptNum vch True n = Inr v" and "n \<le> 8"
  shows "scriptnum_serialize v = vch"
proof (cases vch rule: rev_cases)
  case Nil
  then show ?thesis using assms by (simp add: CScriptNum_def set_vch_def scriptnum_serialize_def split: if_splits)
next
  case (snoc lo hi)
  have v: "v = set_vch (lo @ [hi])" and len: "length lo < 8"
    and min: "hi AND 0x7f \<noteq> 0 \<or> lo \<noteq> [] \<and> bit (List.last lo) 7"
    using assms snoc by (auto simp: CScriptNum_def nth_append last_conv_nth and_0x80 split: if_splits)
  have abs: "\<bar>v\<bar> = int (digits_val (lo @ [hi AND 0x7f]))" by (simp add: v set_vch_snoc)
  show ?thesis
  proof (cases "hi AND 0x7f = 0")
    case False
    have b: "\<not> bit (hi AND 0x7f) 7" by (simp add: bit_and_iff bit_0x7f_u8 del: bit_numeral_word_iff)
    have "0 < digits_val (lo @ [hi AND 0x7f])"
      using digits_val_last_ge [of "lo @ [hi AND 0x7f]"] False by (auto simp: not_le intro: Nat.gr0I)
    then have "v < 0 \<longleftrightarrow> bit hi 7" by (simp add: v set_vch_snoc)
    with scriptnum_serialize_unique [OF refl False _ abs] b len or_0x80_back [of hi] and_0x7f_id [of hi] snoc
    show ?thesis by auto
  next
    case True
    with min have lo: "lo \<noteq> []" "bit (List.last lo) 7" by auto
    then have nz: "List.last lo \<noteq> 0" by auto
    have abs': "\<bar>v\<bar> = int (digits_val lo)" using abs True by simp
    have "0 < digits_val lo" using digits_val_last_ge [OF lo(1) nz] by (auto simp: not_le intro: Nat.gr0I)
    then have neg: "v < 0 \<longleftrightarrow> bit hi 7" using True by (simp add: v set_vch_snoc)
    have hi: "hi = (if bit hi 7 then 0x80 else 0)" using or_0x80_back [of hi] True by simp
    have "scriptnum_serialize v = butlast lo @ [List.last lo, if v < 0 then 0x80 else 0]"
      using scriptnum_serialize_unique [of lo "butlast lo" "List.last lo" v] lo nz len abs' by simp
    also have "\<dots> = (butlast lo @ [List.last lo]) @ [hi]" using hi neg by simp
    finally show ?thesis unfolding snoc append_butlast_last_id [OF lo(1)] .
  qed
qed

text \<open>
  (C29) Script numbers.  Every value of magnitude below 2^63 is read back from its encoding;
  with the minimal-encoding rule, a byte string of at most eight bytes that is accepted is the
  encoding of its value, so that a number has exactly one accepted representation; and an
  operand of at most \<open>n\<close> bytes is below 2^(8n-1) in magnitude.
\<close>

theorem CScriptNum_roundtrip:
  assumes "n \<le> 8"
  shows "(\<bar>v\<bar> < 2 ^ 63 \<longrightarrow> set_vch (scriptnum_serialize v) = v) \<and>
    (CScriptNum vch True n = Inr w \<longrightarrow> scriptnum_serialize w = vch) \<and>
    (CScriptNum vch fRequireMinimal n = Inr w \<longrightarrow> \<bar>w\<bar> < 2 ^ (8 * n - 1))"
  using set_vch_serialize [of v] CScriptNum_canonical [OF _ assms] CScriptNum_bound by blast

theorem CScriptNum_roundtrip_witness:
  "set_vch (scriptnum_serialize (- 255)) = - 255 \<and> CScriptNum [0xff, 0x80] True 4 = Inr (- 255) \<and>
    scriptnum_serialize (- 255) = [0xff, 0x80] \<and> \<bar>- 255\<bar> < (2 ^ 31 :: int)"
proof -
  have "CScriptNum [0xff, 0x80] True 4 = Inr (- 255)" by code_simp
  moreover have "(4 :: nat) \<le> 8" "\<bar>- 255\<bar> < (2 ^ 63 :: int)" by simp_all
  ultimately show ?thesis using CScriptNum_roundtrip [of 4 "- 255" "[0xff, 0x80]" "- 255" True] by auto
qed

subsection \<open>Pushes\<close>

definition push_opcode_of :: "bytes \<Rightarrow> opcodetype" where
  "push_opcode_of b =
     (if length b < 76 then word_of_nat (length b) else if length b \<le> 0xff then OP_PUSHDATA1
      else if length b \<le> 0xffff then OP_PUSHDATA2 else OP_PUSHDATA4)"

lemma GetOp2_at:
  "GetOp2 (s @ t) (length s) =
     (case GetOp2 t 0 of (ok, pc, opcode, data) \<Rightarrow> (ok, length s + pc, opcode, data))"
  by (simp add: GetOp2_def Let_def nth_append eval_nat_numeral)

lemma unat_word_of_nat_small:
  "n < 256 \<Longrightarrow> unat (word_of_nat n :: u8) = n" "n < 65536 \<Longrightarrow> unat (word_of_nat n :: u16) = n"
  "n < 2 ^ 32 \<Longrightarrow> unat (word_of_nat n :: u32) = n"
  by (simp_all add: unat_of_nat take_bit_nat_eq_self)

lemma GetOp2_push_0:
  assumes "length b < 2 ^ 32"
  shows "GetOp2 (push_data [] b @ rest) 0 = (True, length (push_data [] b), push_opcode_of b, b)"
proof -
  consider "length b < 76" | "76 \<le> length b" "length b \<le> 0xff" | "0xff < length b" "length b \<le> 0xffff"
    | "0xffff < length b" by linarith
  then show ?thesis
  proof cases
    case 1
    then have "(word_of_nat (length b) :: u8) < 76"
      by (simp add: word_less_nat_alt unat_word_of_nat_small)
    moreover from this have "(word_of_nat (length b) :: u8) \<le> 78" by (simp add: word_less_nat_alt word_le_nat_alt)
    ultimately show ?thesis using 1
      by (simp add: GetOp2_def push_data_def push_opcode_of_def Let_def unat_word_of_nat_small)
  next
    case 2
    then show ?thesis by (simp add: GetOp2_def push_data_def push_opcode_of_def Let_def unat_word_of_nat_small)
  next
    case 3
    then show ?thesis
      by (simp add: GetOp2_def push_data_def push_opcode_of_def Let_def unat_word_of_nat_small bytes_rw)
  next
    case 4
    then show ?thesis using assms
      by (simp add: GetOp2_def push_data_def push_opcode_of_def Let_def unat_word_of_nat_small bytes_rw)
  qed
qed

lemma push_data_append: "push_data s b = s @ push_data [] b"
  by (simp add: push_data_def)

lemma GetOp2_push_data:
  assumes "length b < 2 ^ 32"
  shows "GetOp2 (push_data s b @ rest) (length s) = (True, length (push_data s b), push_opcode_of b, b)"
  using GetOp2_at [of s "push_data [] b @ rest"] GetOp2_push_0 [OF assms, of rest]
  by (simp add: push_data_append [of s b])

subsection \<open>Deletion\<close>

text \<open>The specification: \<open>r\<close> is \<open>s\<close> without \<open>n\<close> disjoint copies of \<open>b\<close>.\<close>

inductive deletes :: "bytes \<Rightarrow> nat \<Rightarrow> bytes \<Rightarrow> bytes \<Rightarrow> bool" where
  del_nil: "deletes b 0 [] []"
| del_keep: "deletes b n s r \<Longrightarrow> deletes b n (x # s) (x # r)"
| del_copy: "deletes b n s r \<Longrightarrow> deletes b (Suc n) (b @ s) r"

lemma deletes_refl: "deletes b 0 s s"
  by (induction s) (auto intro: deletes.intros)

lemma deletes_length: "deletes b n s r \<Longrightarrow> length s = length r + n * length b"
  by (induction rule: deletes.induct) auto

lemma deletes_append: "deletes b n s r \<Longrightarrow> deletes b m t u \<Longrightarrow> deletes b (n + m) (s @ t) (r @ u)"
  by (induction rule: deletes.induct) (auto intro: deletes.intros)

lemma deletes_copies: "deletes b n (concat (replicate n b)) []"
  by (induction n) (auto intro: deletes.intros)

lemma skip_matches_spec:
  "pc \<le> length script \<Longrightarrow> skip_matches script b pc n = (pc', n') \<Longrightarrow>
   \<exists>k. n' = n + k \<and> pc \<le> pc' \<and> pc' \<le> length script \<and> drop pc (take pc' script) = concat (replicate k b)"
proof (induction script b pc n rule: skip_matches.induct)
  case (1 script b pc n)
  show ?case
  proof (cases "b \<noteq> [] \<and> length b \<le> length script - pc \<and> take (length b) (drop pc script) = b")
    case True
    then have "skip_matches script b (pc + length b) (n + 1) = (pc', n')"
      using "1.prems"(2) by (subst (asm) skip_matches.simps) simp
    moreover have "length b \<le> length script - pc" using True by simp
    then have "pc + length b \<le> length script" using "1.prems"(1) by linarith
    ultimately obtain k where k: "n' = n + 1 + k" "pc + length b \<le> pc'" "pc' \<le> length script"
        "drop (pc + length b) (take pc' script) = concat (replicate k b)"
      using "1.IH" [OF True] by blast
    have "drop pc (take pc' script) = take (length b) (drop pc (take pc' script)) @ drop (length b) (drop pc (take pc' script))"
      by (rule append_take_drop_id [symmetric])
    also have "take (length b) (drop pc (take pc' script)) = b"
      using True k(2) by (simp add: take_drop min_def)
    also have "drop (length b) (drop pc (take pc' script)) = concat (replicate k b)"
      using k(4) by (simp add: add.commute)
    finally have "drop pc (take pc' script) = concat (replicate (Suc k) b)" by simp
    with k show ?thesis by (intro exI [of _ "Suc k"]) simp
  next
    case False
    then show ?thesis using "1.prems" by (subst (asm) skip_matches.simps) (auto intro!: exI [of _ 0])
  qed
qed

lemma take_split: "i \<le> j \<Longrightarrow> take j xs = take i xs @ drop i (take j xs)"
  by (metis append_take_drop_id min.absorb1 take_take)

lemma find_delete_loop_spec:
  "pc2 \<le> pc \<Longrightarrow> pc \<le> length script \<Longrightarrow> deletes b n (take pc2 script) res \<Longrightarrow>
   find_delete_loop script b pc2 pc res n = (n', res', p') \<Longrightarrow>
   p' \<le> length script \<and> deletes b n' (take p' script) res'"
proof (induction script b pc2 pc res n rule: find_delete_loop.induct)
  case (1 script b pc2 pc res n)
  obtain pc1 n1 where sk: "skip_matches script b pc n = (pc1, n1)" by (cases "skip_matches script b pc n") auto
  obtain ok q opc d where g: "GetOp2 script pc1 = (ok, q, opc, d)" by (cases "GetOp2 script pc1") auto
  obtain k where k: "n1 = n + k" "pc \<le> pc1" "pc1 \<le> length script"
      "drop pc (take pc1 script) = concat (replicate k b)"
    using skip_matches_spec [OF "1.prems"(2) sk] by blast
  define res1 where "res1 = res @ drop pc2 (take pc script)"
  have "deletes b (n + 0) (take pc2 script @ drop pc2 (take pc script)) res1"
    unfolding res1_def by (rule deletes_append [OF "1.prems"(3) deletes_refl])
  then have "deletes b n (take pc script) res1" using take_split [OF "1.prems"(1)] by (metis add_0_right)
  then have "deletes b (n + k) (take pc script @ concat (replicate k b)) (res1 @ [])"
    by (rule deletes_append [OF _ deletes_copies])
  then have d1: "deletes b n1 (take pc1 script) res1" using take_split [OF k(2)] k(1,4) by (metis append_Nil2)
  have step: "find_delete_loop script b pc2 pc res n =
      (if ok then find_delete_loop script b pc1 q res1 n1 else (n1, res1, pc1))"
    by (subst find_delete_loop.simps) (simp add: sk g res1_def Let_def)
  show ?case
  proof (cases ok)
    case True
    with GetOp2_advances g have "pc1 \<le> q" "q \<le> length script" by (metis less_imp_le)+
    then show ?thesis
      using "1.IH" [OF res1_def sk [symmetric] _ g [symmetric]] True d1 "1.prems"(4) step by auto
  next
    case False
    then show ?thesis using step "1.prems"(4) d1 k(3) by simp
  qed
qed

lemma FindAndDelete_deletes:
  assumes "FindAndDelete script b = (n, r)"
  shows "deletes b n script r"
proof (cases "b = []")
  case True
  then show ?thesis using assms by (simp add: FindAndDelete_def deletes_refl)
next
  case False
  obtain n' res p where l: "find_delete_loop script b 0 0 [] 0 = (n', res, p)"
    by (cases "find_delete_loop script b 0 0 [] 0") auto
  have sp: "p \<le> length script" "deletes b n' (take p script) res"
    using find_delete_loop_spec [OF _ _ _ l] del_nil [of b] by auto
  have "deletes b (n' + 0) (take p script @ drop p script) (res @ drop p script)"
    by (rule deletes_append [OF sp(2) deletes_refl])
  then show ?thesis using assms False l by (auto simp: FindAndDelete_def deletes_refl split: if_splits)
qed

subsection \<open>Signature operations\<close>

lemma sigops_nonneg_le:
  "0 \<le> sigops True lastOpcode ops \<and> sigops True lastOpcode ops \<le> sigops False lastOpcode ops"
proof (induction ops arbitrary: lastOpcode)
  case (Cons a ops)
  obtain op d where a: "a = (op, d)" by (cases a) auto
  have "0 \<le> DecodeOP_N lastOpcode \<and> DecodeOP_N lastOpcode \<le> MAX_PUBKEYS_PER_MULTISIG"
    if "OP_1 \<le> lastOpcode" "lastOpcode \<le> OP_16"
  proof -
    have "81 \<le> uint lastOpcode" "uint lastOpcode \<le> 96" using that by (simp_all add: word_le_def)
    then show ?thesis by (simp add: DecodeOP_N_def MAX_PUBKEYS_PER_MULTISIG_def)
  qed
  then show ?case using Cons.IH [of op] by (auto simp: a MAX_PUBKEYS_PER_MULTISIG_def)
qed simp

lemma GetSigOpCount_accurate_le:
  "0 \<le> GetSigOpCount script True \<and> GetSigOpCount script True \<le> GetSigOpCount script False"
  unfolding GetSigOpCount_def by (rule sigops_nonneg_le)

end
