(* ===== verification/Hash_Stream.thy ===== *)
theory Hash_Stream
  imports Bytes
begin

text \<open>
  The streaming part that the hash classes \<open>CSHA256\<close>, \<open>CSHA1\<close>, \<open>CRIPEMD160\<close> and
  \<open>CSHA512\<close> have in common: \<open>Write\<close> collects input in a block buffer and hands every
  full block to the compression function.  The contract: the state after any sequence of
  writes is that of compressing the concatenated input block by block, what is left over is
  in the buffer, and padding completes the last block.
\<close>

subsection \<open>Definitions\<close>

record 's hasher =
  hs_s :: 's
  hs_buf :: bytes
  hs_bytes :: u64

definition memcpy :: "bytes \<Rightarrow> nat \<Rightarrow> bytes \<Rightarrow> bytes" where
  "memcpy buf off data = take off buf @ data @ drop (off + length data) buf"

text \<open>Compress the full blocks of the input; what is left is shorter than a block.\<close>

function md_chunks :: "nat \<Rightarrow> ('s \<Rightarrow> bytes \<Rightarrow> 's) \<Rightarrow> 's \<Rightarrow> bytes \<Rightarrow> 's \<times> bytes" where
  "md_chunks B tr s data =
     (if 0 < B \<and> B \<le> length data then md_chunks B tr (tr s (take B data)) (drop B data) else (s, data))"
  by pat_completeness auto
termination by (relation "measure (\<lambda>(_, _, _, data). length data)") auto

declare md_chunks.simps [simp del]

text \<open>The second half of \<open>Write\<close>: the full blocks of the input, and its rest into the buffer.\<close>

definition md_tail :: "nat \<Rightarrow> ('s \<Rightarrow> bytes \<Rightarrow> 's) \<Rightarrow> 's hasher \<Rightarrow> nat \<Rightarrow> bytes \<Rightarrow> 's hasher" where
  "md_tail B tr h bufsize data =
     (let (s, rest) = md_chunks B tr (hs_s h) data;
          h = h\<lparr>hs_s := s, hs_bytes := hs_bytes h + word_of_nat (length data - length rest)\<rparr>
      in if rest \<noteq> []
         then h\<lparr>hs_buf := memcpy (hs_buf h) bufsize rest, hs_bytes := hs_bytes h + word_of_nat (length rest)\<rparr>
         else h)"

definition md_Write :: "nat \<Rightarrow> ('s \<Rightarrow> bytes \<Rightarrow> 's) \<Rightarrow> 's hasher \<Rightarrow> bytes \<Rightarrow> 's hasher" where
  "md_Write B tr h data =
     (let bufsize = unat (hs_bytes h) mod B
      in if bufsize \<noteq> 0 \<and> bufsize + length data \<ge> B then
           let buf = memcpy (hs_buf h) bufsize (take (B - bufsize) data)
           in md_tail B tr (h\<lparr>hs_buf := buf, hs_bytes := hs_bytes h + word_of_nat (B - bufsize), hs_s := tr (hs_s h) buf\<rparr>)
                0 (drop (B - bufsize) data)
         else md_tail B tr h bufsize data)"

text \<open>
  \<open>Finalize\<close> up to the output: a bit, zeros and the length field \<open>sizedesc\<close> of \<open>d\<close>
  bytes; \<open>m\<close> is the constant that makes the padded length a multiple of the block.
\<close>

definition md_pad :: "nat \<Rightarrow> bytes" where
  "md_pad n = take n (0x80 # replicate n 0)"

definition md_Finish :: "nat \<Rightarrow> ('s \<Rightarrow> bytes \<Rightarrow> 's) \<Rightarrow> nat \<Rightarrow> (u64 \<Rightarrow> bytes) \<Rightarrow> 's hasher \<Rightarrow> 's hasher" where
  "md_Finish B tr m sizedesc h =
     md_Write B tr
       (md_Write B tr h (md_pad (1 + (m - unat (hs_bytes h) mod B) mod B)))
       (sizedesc (push_bit 3 (hs_bytes h)))"

subsection \<open>Blocks\<close>

lemma md_chunks_short: "length data < B \<Longrightarrow> md_chunks B tr s data = (s, data)"
  by (subst md_chunks.simps) simp

lemma md_chunks_block:
  "length blk = B \<Longrightarrow> 0 < B \<Longrightarrow> md_chunks B tr s (blk @ data) = md_chunks B tr (tr s blk) data"
  by (subst md_chunks.simps) simp

lemma md_chunks_append:
  "0 < B \<Longrightarrow> md_chunks B tr s (a @ b) = (let (s', r) = md_chunks B tr s a in md_chunks B tr s' (r @ b))"
proof (induction B tr s a rule: md_chunks.induct)
  case (1 B tr s a)
  show ?case
  proof (cases "B \<le> length a")
    case True
    then have "md_chunks B tr s (a @ b) = md_chunks B tr (tr s (take B a)) (drop B a @ b)"
      using "1.prems" by (subst md_chunks.simps) simp
    moreover have "md_chunks B tr s a = md_chunks B tr (tr s (take B a)) (drop B a)"
      using True 1 by (subst md_chunks.simps) simp
    ultimately show ?thesis using 1 True by simp
  next
    case False
    then show ?thesis by (simp add: md_chunks_short)
  qed
qed

lemma md_chunks_rest:
  assumes "0 < B" and "md_chunks B tr s data = (s', r)"
  shows "length r < B" and "length r \<le> length data" and "length r mod B = length data mod B"
proof -
  have "length r < B \<and> length r \<le> length data \<and> length r mod B = length data mod B"
    using assms
  proof (induction B tr s data rule: md_chunks.induct)
    case (1 B tr s data)
    show ?case
    proof (cases "B \<le> length data")
      case True
      then have "md_chunks B tr (tr s (take B data)) (drop B data) = (s', r)"
        using "1.prems" by (subst (asm) md_chunks.simps) simp
      with "1.IH" "1.prems"(1) True show ?thesis by (auto simp: le_mod_geq)
    next
      case False
      then show ?thesis using "1.prems" by (simp add: md_chunks_short)
    qed
  qed
  then show "length r < B" "length r \<le> length data" "length r mod B = length data mod B" by simp_all
qed

subsection \<open>The contract of a stream\<close>

text \<open>The bytes that wait in the buffer.\<close>

definition md_pending :: "nat \<Rightarrow> 's hasher \<Rightarrow> bytes" where
  "md_pending B h = take (unat (hs_bytes h) mod B) (hs_buf h)"

text \<open>What a hasher stands for: state, waiting bytes and byte count.\<close>

definition md_abs :: "nat \<Rightarrow> 's hasher \<Rightarrow> 's \<times> bytes \<times> u64" where
  "md_abs B h = (hs_s h, md_pending B h, hs_bytes h)"

text \<open>
  The padded message: \<open>sz\<close> is the length field, \<open>m\<close> the constant of \<open>Finalize\<close>; the
  blocks come out even.
\<close>

definition md_padded :: "nat \<Rightarrow> nat \<Rightarrow> (u64 \<Rightarrow> bytes) \<Rightarrow> bytes \<Rightarrow> bytes" where
  "md_padded B m sz msg = msg @ md_pad (1 + (m - length msg mod B) mod B) @ sz (push_bit 3 (word_of_nat (length msg)))"

locale block_size =
  fixes B :: nat
  assumes pos: "0 < B" and dvd: "B dvd 2 ^ 64"
begin

lemma unat_add_mod: "unat (x + word_of_nat n :: u64) mod B = (unat x + n) mod B"
proof -
  have "unat (x + word_of_nat n :: u64) = (unat x + n) mod 2 ^ 64"
    by (simp add: unat_word_ariths unat_of_nat take_bit_eq_mod mod_add_right_eq)
  then show ?thesis using dvd by (simp add: mod_mod_cancel)
qed

lemma length_memcpy: "length buf = B \<Longrightarrow> off + length data \<le> B \<Longrightarrow> length (memcpy buf off data) = B"
  by (simp add: memcpy_def)

lemma take_memcpy: "length buf = B \<Longrightarrow> off + length data \<le> B \<Longrightarrow>
    take (off + length data) (memcpy buf off data) = take off buf @ data"
  by (simp add: memcpy_def)

lemma md_tail:
  assumes "md_chunks B tr (hs_s h) data = (s', r)"
  shows "hs_s (md_tail B tr h b data) = s'"
    and "hs_bytes (md_tail B tr h b data) = hs_bytes h + word_of_nat (length data)"
    and "hs_buf (md_tail B tr h b data) = (if r = [] then hs_buf h else memcpy (hs_buf h) b r)"
proof -
  have "of_nat (length data - length r) + of_nat (length r) = (of_nat (length data) :: u64)"
    unfolding of_nat_add [symmetric] using md_chunks_rest(2) [OF pos assms] by simp
  then show "hs_bytes (md_tail B tr h b data) = hs_bytes h + word_of_nat (length data)"
    using assms by (cases "r = []") (simp_all add: md_tail_def Let_def add.assoc)
  show "hs_s (md_tail B tr h b data) = s'"
    "hs_buf (md_tail B tr h b data) = (if r = [] then hs_buf h else memcpy (hs_buf h) b r)"
    using assms by (simp_all add: md_tail_def Let_def)
qed

text \<open>\<open>Write\<close> refines the concatenation of its input to what was waiting.\<close>

lemma md_Write_abs:
  assumes "length (hs_buf h) = B" and "md_chunks B tr (hs_s h) (md_pending B h @ data) = (s', r)"
  shows "md_abs B (md_Write B tr h data) = (s', r, hs_bytes h + word_of_nat (length data))"
    and "length (hs_buf (md_Write B tr h data)) = B"
proof -
  define k where "k = unat (hs_bytes h) mod B"
  have k: "k < B" using pos by (simp add: k_def)
  have pend: "md_pending B h = take k (hs_buf h)" by (simp add: md_pending_def k_def)
  have lp: "length (take k (hs_buf h)) = k" using k assms(1) by simp
  have r: "length r < B" "length r mod B = (k + length data) mod B"
    using md_chunks_rest [OF pos assms(2)] lp by (simp_all add: pend)
  have bytes_mod: "unat (hs_bytes h + word_of_nat (length data)) mod B = length r"
    unfolding unat_add_mod using r by (simp add: k_def mod_add_left_eq)
  have "hs_s (md_Write B tr h data) = s' \<and> hs_bytes (md_Write B tr h data) = hs_bytes h + word_of_nat (length data)
      \<and> length (hs_buf (md_Write B tr h data)) = B \<and> take (length r) (hs_buf (md_Write B tr h data)) = r"
  proof (cases "k \<noteq> 0 \<and> k + length data \<ge> B")
    case True
    define buf where "buf = memcpy (hs_buf h) k (take (B - k) data)"
    have ld: "length (take (B - k) data) = B - k" using True by (auto simp: min_def)
    have buf: "buf = take k (hs_buf h) @ take (B - k) data" "length buf = B"
      using k assms(1) ld by (simp_all add: buf_def memcpy_def)
    define h' where "h' = h\<lparr>hs_buf := buf, hs_bytes := hs_bytes h + word_of_nat (B - k), hs_s := tr (hs_s h) buf\<rparr>"
    have "md_chunks B tr (hs_s h') (drop (B - k) data) = (s', r)"
      using md_chunks_block [OF buf(2) pos, of tr "hs_s h" "drop (B - k) data"] assms(2)
      by (simp add: buf(1) pend h'_def)
    note tl = md_tail [OF this, of 0]
    have w: "md_Write B tr h data = md_tail B tr h' 0 (drop (B - k) data)"
      using True by (simp add: md_Write_def Let_def k_def [symmetric] buf_def [symmetric] h'_def)
    have "of_nat (B - k) + of_nat (length (drop (B - k) data)) = (of_nat (length data) :: u64)"
      unfolding of_nat_add [symmetric] using True k by (intro arg_cong [where f = of_nat]) auto
    then show ?thesis unfolding w using tl r(1) buf(2) by (simp add: h'_def memcpy_def add.assoc)
  next
    case False
    then have w: "md_Write B tr h data = md_tail B tr h k data"
      by (auto simp: md_Write_def Let_def k_def [symmetric])
    show ?thesis
    proof (cases "k = 0")
      case True
      then have "md_chunks B tr (hs_s h) data = (s', r)" using assms(2) by (simp add: pend)
      note tl = md_tail [OF this, of k]
      show ?thesis unfolding w using tl True r(1) assms(1) by (simp add: memcpy_def)
    next
      case nz: False
      with False have lt: "k + length data < B" by auto
      have "md_chunks B tr (hs_s h) (take k (hs_buf h) @ data) = (hs_s h, take k (hs_buf h) @ data)"
        using lp lt by (intro md_chunks_short) simp
      then have sr: "s' = hs_s h" "r = take k (hs_buf h) @ data" using assms(2) by (simp_all add: pend)
      have "md_chunks B tr (hs_s h) data = (hs_s h, data)" using lt by (intro md_chunks_short) simp
      note tl = md_tail [OF this, of k]
      show ?thesis unfolding w using tl sr lt assms(1) lp by (simp add: memcpy_def)
    qed
  qed
  with bytes_mod show "md_abs B (md_Write B tr h data) = (s', r, hs_bytes h + word_of_nat (length data))"
    "length (hs_buf (md_Write B tr h data)) = B" by (simp_all add: md_abs_def md_pending_def)
qed

text \<open>Two hashers that stand for the same thing stay so, and writing in pieces is writing at once.\<close>

lemma md_Write_cong:
  assumes "length (hs_buf h) = B" "length (hs_buf g) = B" and "md_abs B h = md_abs B g"
  shows "md_abs B (md_Write B tr h data) = md_abs B (md_Write B tr g data)"
proof -
  obtain s' r where "md_chunks B tr (hs_s h) (md_pending B h @ data) = (s', r)" by fastforce
  with md_Write_abs(1) [OF assms(1) this] md_Write_abs(1) [OF assms(2), of tr data s' r] assms(3)
  show ?thesis by (simp add: md_abs_def)
qed

lemma md_Write_append:
  assumes "length (hs_buf h) = B"
  shows "md_abs B (md_Write B tr (md_Write B tr h a) b) = md_abs B (md_Write B tr h (a @ b))"
proof -
  obtain s1 r1 where 1: "md_chunks B tr (hs_s h) (md_pending B h @ a) = (s1, r1)" by fastforce
  obtain s2 r2 where 2: "md_chunks B tr s1 (r1 @ b) = (s2, r2)" by fastforce
  note w1 = md_Write_abs [OF assms 1]
  have "md_chunks B tr (hs_s h) (md_pending B h @ a @ b) = (s2, r2)"
    using md_chunks_append [OF pos, of tr "hs_s h" "md_pending B h @ a" b] 1 2 by simp
  note w = md_Write_abs(1) [OF assms this]
  have "md_chunks B tr (hs_s (md_Write B tr h a)) (md_pending B (md_Write B tr h a) @ b) = (s2, r2)"
    using w1(1) 2 by (simp add: md_abs_def)
  note w2 = md_Write_abs(1) [OF w1(2) this]
  show ?thesis using w w1(1) w2 by (simp add: md_abs_def add.assoc)
qed

lemma md_Finish_cong:
  assumes "length (hs_buf h) = B" "length (hs_buf g) = B" and "md_abs B h = md_abs B g"
  shows "hs_s (md_Finish B tr m d h) = hs_s (md_Finish B tr m d g)"
proof -
  define p where "p = md_pad (1 + (m - unat (hs_bytes h) mod B) mod B)"
  have buf: "length (hs_buf (md_Write B tr x p)) = B" if "length (hs_buf x) = B" for x :: "'a hasher"
    using md_Write_abs(2) [OF that] by (metis surj_pair)
  have "md_abs B (md_Write B tr (md_Write B tr h p) (d (push_bit 3 (hs_bytes h)))) =
      md_abs B (md_Write B tr (md_Write B tr g p) (d (push_bit 3 (hs_bytes h))))"
    by (intro md_Write_cong buf assms)
  moreover have "hs_bytes g = hs_bytes h" using assms(3) by (simp add: md_abs_def)
  ultimately show ?thesis by (simp add: md_Finish_def p_def md_abs_def)
qed

text \<open>Any number of writes.\<close>

lemma md_Write_buf: "length (hs_buf h) = B \<Longrightarrow> length (hs_buf (md_Write B tr h data)) = B"
  using md_Write_abs(2) by (metis surj_pair)

lemma fold_Write_buf: "length (hs_buf h) = B \<Longrightarrow> length (hs_buf (fold (\<lambda>d h. md_Write B tr h d) ds h)) = B"
  by (induction ds arbitrary: h) (simp_all add: md_Write_buf)

lemma fold_Write_abs:
  "length (hs_buf h) = B \<Longrightarrow> ds \<noteq> [] \<Longrightarrow>
   md_abs B (fold (\<lambda>d h. md_Write B tr h d) ds h) = md_abs B (md_Write B tr h (concat ds))"
proof (induction ds arbitrary: h)
  case (Cons d ds)
  show ?case
  proof (cases "ds = []")
    case False
    with Cons have "md_abs B (fold (\<lambda>d h. md_Write B tr h d) (d # ds) h) =
        md_abs B (md_Write B tr (md_Write B tr h d) (concat ds))" by (simp add: md_Write_buf)
    also have "\<dots> = md_abs B (md_Write B tr h (concat (d # ds)))"
      using md_Write_append [OF Cons.prems(1), of tr d "concat ds"] by simp
    finally show ?thesis .
  qed simp
qed simp

lemma Finish_fold:
  assumes "length (hs_buf h) = B"
  shows "hs_s (md_Finish B tr m d (fold (\<lambda>d h. md_Write B tr h d) ds h)) =
    hs_s (md_Finish B tr m d (md_Write B tr h (concat ds)))"
proof (cases "ds = []")
  case True
  have "md_chunks B tr (hs_s h) (md_pending B h @ []) = (hs_s h, md_pending B h)"
    using pos assms by (simp add: md_chunks_short md_pending_def)
  from md_Write_abs(1) [OF assms this] have "md_abs B (md_Write B tr h []) = md_abs B h"
    by (simp add: md_abs_def)
  then show ?thesis using True assms by (simp add: md_Finish_cong [OF assms md_Write_buf [OF assms]])
next
  case False
  show ?thesis by (intro md_Finish_cong fold_Write_buf fold_Write_abs md_Write_buf assms False)
qed

lemma length_md_padded:
  assumes "\<And>n. length (sz n) = d" and "m + 1 + d = 2 * B" and "d < B"
  shows "B dvd length (md_padded B m sz msg)"
proof -
  define x where "x = length msg mod B"
  have x: "x < B" "length msg = B * (length msg div B) + x" using pos by (simp_all add: x_def)
  have "x + (1 + (m - x) mod B) + d = B \<or> x + (1 + (m - x) mod B) + d = 2 * B"
  proof (cases "m - x < B")
    case True
    then show ?thesis using assms x(1) by auto
  next
    case False
    then have "(m - x) mod B = m - x - B"
      using assms x(1) by (simp add: le_mod_geq)
    then show ?thesis using assms False by auto
  qed
  then have "B dvd x + (1 + (m - x) mod B) + d" by auto
  moreover have "length (md_padded B m sz msg) = B * (length msg div B) + (x + (1 + (m - x) mod B) + d)"
    using x(2) assms(1) by (simp add: md_padded_def md_pad_def x_def)
  ultimately show ?thesis by (simp only: dvd_add dvd_triv_left)
qed

lemma Finish_spec:
  assumes h: "length (hs_buf h) = B" "hs_bytes h = 0" and "\<And>n. length (sz n) = d" "m + 1 + d = 2 * B" "d < B"
  shows "md_chunks B tr (hs_s h) (md_padded B m sz msg) = (hs_s (md_Finish B tr m sz (md_Write B tr h msg)), [])"
proof -
  define g where "g = md_Write B tr h msg"
  define pd where "pd = md_pad (1 + (m - unat (hs_bytes g) mod B) mod B)"
  define szb where "szb = sz (push_bit 3 (hs_bytes g))"
  have pend: "md_pending B h = []" using h by (simp add: md_pending_def)
  obtain s' r where c: "md_chunks B tr (hs_s h) (md_pending B h @ msg) = (s', r)" by fastforce
  note g = md_Write_abs [OF h(1) c, folded g_def]
  have bytes: "hs_bytes g = word_of_nat (length msg)" using g(1) h(2) by (simp add: md_abs_def)
  have "unat (hs_bytes g) mod B = length msg mod B" unfolding bytes using unat_add_mod [of 0 "length msg"] by simp
  then have pad: "md_padded B m sz msg = msg @ pd @ szb" by (simp add: md_padded_def pd_def szb_def bytes)
  obtain s2 r2 where c2: "md_chunks B tr (hs_s h) (msg @ pd @ szb) = (s2, r2)" by fastforce
  have "length r2 < B" "length r2 mod B = length (md_padded B m sz msg) mod B"
    using md_chunks_rest [OF pos c2] by (simp_all add: pad)
  moreover have "length (md_padded B m sz msg) mod B = 0"
    using length_md_padded [of sz d m msg] assms(3-5) by (simp add: dvd_imp_mod_0)
  ultimately have r2: "r2 = []" by simp
  have "md_abs B (md_Write B tr (md_Write B tr g pd) szb) = md_abs B (md_Write B tr h (msg @ pd @ szb))"
    unfolding g_def using md_Write_append [OF h(1), of tr msg "pd @ szb"]
      md_Write_append [OF md_Write_buf [OF h(1), of tr msg], of tr pd szb] by simp
  moreover have "hs_s (md_Write B tr h (msg @ pd @ szb)) = s2"
    using md_Write_abs(1) [OF h(1), of tr "msg @ pd @ szb" s2 r2] c2 pend by (simp add: md_abs_def)
  ultimately have "hs_s (md_Finish B tr m sz g) = s2" by (simp add: md_Finish_def pd_def szb_def md_abs_def)
  then show ?thesis using c2 r2 by (simp add: pad g_def)
qed

end

end
