(* ===== verification/Hash_Functions.thy ===== *)
theory Hash_Functions
  imports Hash_Stream
begin

text \<open>
  The hash functions of \<open>src/crypto\<close> that scripts and transactions use, and SHA-512:
  \<open>CSHA256\<close>, \<open>CSHA512\<close>, \<open>CSHA1\<close>, \<open>CRIPEMD160\<close>, and \<open>CHash256\<close>
  and \<open>CHash160\<close> of \<open>hash.h\<close>.  The source unrolls the rounds and renames the registers
  from call to call; here a round returns the registers in the order of the next call and
  the rounds are a fold over the table of constants.
\<close>

unbundle bit_operations_syntax

subsection \<open>SHA-256\<close>

type_synonym 'w regs8 = "'w \<times> 'w \<times> 'w \<times> 'w \<times> 'w \<times> 'w \<times> 'w \<times> 'w"
type_synonym 'w regs5 = "'w \<times> 'w \<times> 'w \<times> 'w \<times> 'w"

definition Ch :: "'a::len word \<Rightarrow> 'a word \<Rightarrow> 'a word \<Rightarrow> 'a word" where
  "Ch x y z = z XOR (x AND (y XOR z))"

definition Maj :: "'a::len word \<Rightarrow> 'a word \<Rightarrow> 'a word \<Rightarrow> 'a word" where
  "Maj x y z = (x AND y) OR (z AND (x OR y))"

definition Sigma0 :: "u32 \<Rightarrow> u32" where
  "Sigma0 x = (drop_bit 2 x OR push_bit 30 x) XOR (drop_bit 13 x OR push_bit 19 x) XOR (drop_bit 22 x OR push_bit 10 x)"

definition Sigma1 :: "u32 \<Rightarrow> u32" where
  "Sigma1 x = (drop_bit 6 x OR push_bit 26 x) XOR (drop_bit 11 x OR push_bit 21 x) XOR (drop_bit 25 x OR push_bit 7 x)"

definition sigma0 :: "u32 \<Rightarrow> u32" where
  "sigma0 x = (drop_bit 7 x OR push_bit 25 x) XOR (drop_bit 18 x OR push_bit 14 x) XOR drop_bit 3 x"

definition sigma1 :: "u32 \<Rightarrow> u32" where
  "sigma1 x = (drop_bit 17 x OR push_bit 15 x) XOR (drop_bit 19 x OR push_bit 13 x) XOR drop_bit 10 x"

fun sha256_Round :: "u32 regs8 \<Rightarrow> u32 \<Rightarrow> u32 regs8" where
  "sha256_Round (a, b, c, d, e, f, g, h) k =
     (let t1 = h + Sigma1 e + Ch e f g + k; t2 = Sigma0 a + Maj a b c
      in (t1 + t2, a, b, c, d + t1, e, f, g))"

definition sha256_Initialize :: "u32 list" where
  "sha256_Initialize =
     [0x6a09e667, 0xbb67ae85, 0x3c6ef372, 0xa54ff53a] @
    [0x510e527f, 0x9b05688c, 0x1f83d9ab, 0x5be0cd19]"

definition sha256_K :: "u32 list" where
  "sha256_K =
  concat
    [[0x428a2f98, 0x71374491, 0xb5c0fbcf, 0xe9b5dba5], [0x3956c25b, 0x59f111f1, 0x923f82a4, 0xab1c5ed5],
     [0xd807aa98, 0x12835b01, 0x243185be, 0x550c7dc3], [0x72be5d74, 0x80deb1fe, 0x9bdc06a7, 0xc19bf174],
     [0xe49b69c1, 0xefbe4786, 0x0fc19dc6, 0x240ca1cc], [0x2de92c6f, 0x4a7484aa, 0x5cb0a9dc, 0x76f988da],
     [0x983e5152, 0xa831c66d, 0xb00327c8, 0xbf597fc7], [0xc6e00bf3, 0xd5a79147, 0x06ca6351, 0x14292967],
     [0x27b70a85, 0x2e1b2138, 0x4d2c6dfc, 0x53380d13], [0x650a7354, 0x766a0abb, 0x81c2c92e, 0x92722c85],
     [0xa2bfe8a1, 0xa81a664b, 0xc24b8b70, 0xc76c51a3], [0xd192e819, 0xd6990624, 0xf40e3585, 0x106aa070],
     [0x19a4c116, 0x1e376c08, 0x2748774c, 0x34b0bcb5], [0x391c0cb3, 0x4ed8aa4a, 0x5b9cca4f, 0x682e6ff3],
     [0x748f82ee, 0x78a5636f, 0x84c87814, 0x8cc70208], [0x90befffa, 0xa4506ceb, 0xbef9a3f7, 0xc67178f2]]"

text \<open>Word \<open>t mod 16\<close> of the schedule in round \<open>t\<close>: read from the chunk, then updated in place.\<close>

definition sha2_schedule ::
  "('a::len word \<Rightarrow> 'a word) \<Rightarrow> ('a word \<Rightarrow> 'a word) \<Rightarrow> 'a word list \<Rightarrow> nat \<Rightarrow> 'a word list" where
  "sha2_schedule s0 s1 w t =
     (let i = t mod 16 in
      if t < 16 then w
      else w[i := w ! i + s1 (w ! ((i + 14) mod 16)) + w ! ((i + 9) mod 16) + s0 (w ! ((i + 1) mod 16))])"

definition regs8_of :: "'w list \<Rightarrow> 'w regs8" where
  "regs8_of s = (s ! 0, s ! 1, s ! 2, s ! 3, s ! 4, s ! 5, s ! 6, s ! 7)"

fun list_of_regs8 :: "'w regs8 \<Rightarrow> 'w list" where
  "list_of_regs8 (a, b, c, d, e, f, g, h) = [a, b, c, d, e, f, g, h]"

definition sha256_Transform :: "u32 list \<Rightarrow> bytes \<Rightarrow> u32 list" where
  "sha256_Transform s chunk =
     (let (r, _) = fold (\<lambda>t (r, w).
            let w = sha2_schedule sigma0 sigma1 w t
            in (sha256_Round r (sha256_K ! t + w ! (t mod 16)), w))
          [0..<64] (regs8_of s, map (\<lambda>i. ReadBE32 (drop (4 * i) chunk)) [0..<16])
      in map2 (+) s (list_of_regs8 r))"

definition CSHA256 :: "u32 list hasher" where
  "CSHA256 = \<lparr>hs_s = sha256_Initialize, hs_buf = replicate 64 0, hs_bytes = 0\<rparr>"

definition CSHA256_Write :: "u32 list hasher \<Rightarrow> bytes \<Rightarrow> u32 list hasher" where
  "CSHA256_Write = md_Write 64 sha256_Transform"

definition CSHA256_Finalize :: "u32 list hasher \<Rightarrow> bytes" where
  "CSHA256_Finalize h = concat (map (\<lambda>i. WriteBE32 (hs_s (md_Finish 64 sha256_Transform 119 WriteBE64 h) ! i)) [0..<8])"

definition CSHA256_Reset :: "u32 list hasher \<Rightarrow> u32 list hasher" where
  "CSHA256_Reset h = h\<lparr>hs_bytes := 0, hs_s := sha256_Initialize\<rparr>"

subsection \<open>SHA-512\<close>

definition Sigma0_512 :: "u64 \<Rightarrow> u64" where
  "Sigma0_512 x = (drop_bit 28 x OR push_bit 36 x) XOR (drop_bit 34 x OR push_bit 30 x) XOR (drop_bit 39 x OR push_bit 25 x)"

definition Sigma1_512 :: "u64 \<Rightarrow> u64" where
  "Sigma1_512 x = (drop_bit 14 x OR push_bit 50 x) XOR (drop_bit 18 x OR push_bit 46 x) XOR (drop_bit 41 x OR push_bit 23 x)"

definition sigma0_512 :: "u64 \<Rightarrow> u64" where
  "sigma0_512 x = (drop_bit 1 x OR push_bit 63 x) XOR (drop_bit 8 x OR push_bit 56 x) XOR drop_bit 7 x"

definition sigma1_512 :: "u64 \<Rightarrow> u64" where
  "sigma1_512 x = (drop_bit 19 x OR push_bit 45 x) XOR (drop_bit 61 x OR push_bit 3 x) XOR drop_bit 6 x"

fun sha512_Round :: "u64 regs8 \<Rightarrow> u64 \<Rightarrow> u64 \<Rightarrow> u64 regs8" where
  "sha512_Round (a, b, c, d, e, f, g, h) k w =
     (let t1 = h + Sigma1_512 e + Ch e f g + k + w; t2 = Sigma0_512 a + Maj a b c
      in (t1 + t2, a, b, c, d + t1, e, f, g))"

definition sha512_Initialize :: "u64 list" where
  "sha512_Initialize =
     [0x6a09e667f3bcc908, 0xbb67ae8584caa73b, 0x3c6ef372fe94f82b, 0xa54ff53a5f1d36f1] @
    [0x510e527fade682d1, 0x9b05688c2b3e6c1f, 0x1f83d9abfb41bd6b, 0x5be0cd19137e2179]"

definition sha512_K :: "u64 list" where
  "sha512_K =
  concat
    [[0x428a2f98d728ae22, 0x7137449123ef65cd, 0xb5c0fbcfec4d3b2f, 0xe9b5dba58189dbbc],
     [0x3956c25bf348b538, 0x59f111f1b605d019, 0x923f82a4af194f9b, 0xab1c5ed5da6d8118],
     [0xd807aa98a3030242, 0x12835b0145706fbe, 0x243185be4ee4b28c, 0x550c7dc3d5ffb4e2],
     [0x72be5d74f27b896f, 0x80deb1fe3b1696b1, 0x9bdc06a725c71235, 0xc19bf174cf692694],
     [0xe49b69c19ef14ad2, 0xefbe4786384f25e3, 0x0fc19dc68b8cd5b5, 0x240ca1cc77ac9c65],
     [0x2de92c6f592b0275, 0x4a7484aa6ea6e483, 0x5cb0a9dcbd41fbd4, 0x76f988da831153b5],
     [0x983e5152ee66dfab, 0xa831c66d2db43210, 0xb00327c898fb213f, 0xbf597fc7beef0ee4],
     [0xc6e00bf33da88fc2, 0xd5a79147930aa725, 0x06ca6351e003826f, 0x142929670a0e6e70],
     [0x27b70a8546d22ffc, 0x2e1b21385c26c926, 0x4d2c6dfc5ac42aed, 0x53380d139d95b3df],
     [0x650a73548baf63de, 0x766a0abb3c77b2a8, 0x81c2c92e47edaee6, 0x92722c851482353b],
     [0xa2bfe8a14cf10364, 0xa81a664bbc423001, 0xc24b8b70d0f89791, 0xc76c51a30654be30],
     [0xd192e819d6ef5218, 0xd69906245565a910, 0xf40e35855771202a, 0x106aa07032bbd1b8],
     [0x19a4c116b8d2d0c8, 0x1e376c085141ab53, 0x2748774cdf8eeb99, 0x34b0bcb5e19b48a8],
     [0x391c0cb3c5c95a63, 0x4ed8aa4ae3418acb, 0x5b9cca4f7763e373, 0x682e6ff3d6b2b8a3],
     [0x748f82ee5defb2fc, 0x78a5636f43172f60, 0x84c87814a1f0ab72, 0x8cc702081a6439ec],
     [0x90befffa23631e28, 0xa4506cebde82bde9, 0xbef9a3f7b2c67915, 0xc67178f2e372532b],
     [0xca273eceea26619c, 0xd186b8c721c0c207, 0xeada7dd6cde0eb1e, 0xf57d4f7fee6ed178],
     [0x06f067aa72176fba, 0x0a637dc5a2c898a6, 0x113f9804bef90dae, 0x1b710b35131c471b],
     [0x28db77f523047d84, 0x32caab7b40c72493, 0x3c9ebe0a15c9bebc, 0x431d67c49c100d4c],
     [0x4cc5d4becb3e42b6, 0x597f299cfc657e2a, 0x5fcb6fab3ad6faec, 0x6c44198c4a475817]]"

definition sha512_Transform :: "u64 list \<Rightarrow> bytes \<Rightarrow> u64 list" where
  "sha512_Transform s chunk =
     (let (r, _) = fold (\<lambda>t (r, w).
            let w = sha2_schedule sigma0_512 sigma1_512 w t
            in (sha512_Round r (sha512_K ! t) (w ! (t mod 16)), w))
          [0..<80] (regs8_of s, map (\<lambda>i. ReadBE64 (drop (8 * i) chunk)) [0..<16])
      in map2 (+) s (list_of_regs8 r))"

definition CSHA512 :: "u64 list hasher" where
  "CSHA512 = \<lparr>hs_s = sha512_Initialize, hs_buf = replicate 128 0, hs_bytes = 0\<rparr>"

definition CSHA512_Write :: "u64 list hasher \<Rightarrow> bytes \<Rightarrow> u64 list hasher" where
  "CSHA512_Write = md_Write 128 sha512_Transform"

definition CSHA512_Finalize :: "u64 list hasher \<Rightarrow> bytes" where
  "CSHA512_Finalize h =
     concat (map (\<lambda>i. WriteBE64 (hs_s (md_Finish 128 sha512_Transform 239 (\<lambda>n. replicate 8 0 @ WriteBE64 n) h) ! i)) [0..<8])"

subsection \<open>SHA-1\<close>

fun sha1_Round :: "u32 regs5 \<Rightarrow> (u32 \<Rightarrow> u32 \<Rightarrow> u32 \<Rightarrow> u32) \<Rightarrow> u32 \<Rightarrow> u32 \<Rightarrow> u32 regs5" where
  "sha1_Round (a, b, c, d, e) f k w =
     (e + ((push_bit 5 a OR drop_bit 27 a) + f b c d + k + w), a, push_bit 30 b OR drop_bit 2 b, c, d)"

definition sha1_f1 :: "u32 \<Rightarrow> u32 \<Rightarrow> u32 \<Rightarrow> u32" where "sha1_f1 b c d = d XOR (b AND (c XOR d))"
definition sha1_f2 :: "u32 \<Rightarrow> u32 \<Rightarrow> u32 \<Rightarrow> u32" where "sha1_f2 b c d = b XOR c XOR d"
definition sha1_f3 :: "u32 \<Rightarrow> u32 \<Rightarrow> u32 \<Rightarrow> u32" where "sha1_f3 b c d = (b AND c) OR (d AND (b OR c))"

definition sha1_left :: "u32 \<Rightarrow> u32" where
  "sha1_left x = push_bit 1 x OR drop_bit 31 x"

definition sha1_Initialize :: "u32 list" where
  "sha1_Initialize = [0x67452301, 0xEFCDAB89, 0x98BADCFE, 0x10325476, 0xC3D2E1F0]"

text \<open>The function and constant of each group of twenty rounds.\<close>

definition sha1_fk :: "nat \<Rightarrow> (u32 \<Rightarrow> u32 \<Rightarrow> u32 \<Rightarrow> u32) \<times> u32" where
  "sha1_fk t =
     (if t < 20 then (sha1_f1, 0x5A827999) else if t < 40 then (sha1_f2, 0x6ED9EBA1)
      else if t < 60 then (sha1_f3, 0x8F1BBCDC) else (sha1_f2, 0xCA62C1D6))"

definition sha1_schedule :: "u32 list \<Rightarrow> nat \<Rightarrow> u32 list" where
  "sha1_schedule w t =
     (let i = t mod 16 in
      if t < 16 then w
      else w[i := sha1_left (w ! i XOR w ! ((i + 13) mod 16) XOR w ! ((i + 8) mod 16) XOR w ! ((i + 2) mod 16))])"

definition regs5_of :: "'w list \<Rightarrow> 'w regs5" where
  "regs5_of s = (s ! 0, s ! 1, s ! 2, s ! 3, s ! 4)"

fun list_of_regs5 :: "'w regs5 \<Rightarrow> 'w list" where
  "list_of_regs5 (a, b, c, d, e) = [a, b, c, d, e]"

definition sha1_Transform :: "u32 list \<Rightarrow> bytes \<Rightarrow> u32 list" where
  "sha1_Transform s chunk =
     (let (r, _) = fold (\<lambda>t (r, w).
            let w = sha1_schedule w t; (f, k) = sha1_fk t
            in (sha1_Round r f k (w ! (t mod 16)), w))
          [0..<80] (regs5_of s, map (\<lambda>i. ReadBE32 (drop (4 * i) chunk)) [0..<16])
      in map2 (+) s (list_of_regs5 r))"

definition CSHA1 :: "u32 list hasher" where
  "CSHA1 = \<lparr>hs_s = sha1_Initialize, hs_buf = replicate 64 0, hs_bytes = 0\<rparr>"

definition CSHA1_Write :: "u32 list hasher \<Rightarrow> bytes \<Rightarrow> u32 list hasher" where
  "CSHA1_Write = md_Write 64 sha1_Transform"

definition CSHA1_Finalize :: "u32 list hasher \<Rightarrow> bytes" where
  "CSHA1_Finalize h = concat (map (\<lambda>i. WriteBE32 (hs_s (md_Finish 64 sha1_Transform 119 WriteBE64 h) ! i)) [0..<5])"

subsection \<open>RIPEMD-160\<close>

definition rmd_f1 :: "u32 \<Rightarrow> u32 \<Rightarrow> u32 \<Rightarrow> u32" where "rmd_f1 x y z = x XOR y XOR z"
definition rmd_f2 :: "u32 \<Rightarrow> u32 \<Rightarrow> u32 \<Rightarrow> u32" where "rmd_f2 x y z = (x AND y) OR (NOT x AND z)"
definition rmd_f3 :: "u32 \<Rightarrow> u32 \<Rightarrow> u32 \<Rightarrow> u32" where "rmd_f3 x y z = (x OR NOT y) XOR z"
definition rmd_f4 :: "u32 \<Rightarrow> u32 \<Rightarrow> u32 \<Rightarrow> u32" where "rmd_f4 x y z = (x AND z) OR (y AND NOT z)"
definition rmd_f5 :: "u32 \<Rightarrow> u32 \<Rightarrow> u32 \<Rightarrow> u32" where "rmd_f5 x y z = x XOR (y OR NOT z)"

definition rmd_Initialize :: "u32 list" where
  "rmd_Initialize = [0x67452301, 0xEFCDAB89, 0x98BADCFE, 0x10325476, 0xC3D2E1F0]"

definition rmd_rol :: "u32 \<Rightarrow> nat \<Rightarrow> u32" where
  "rmd_rol x i = push_bit i x OR drop_bit (32 - i) x"

fun rmd_Round :: "u32 regs5 \<Rightarrow> (u32 \<Rightarrow> u32 \<Rightarrow> u32 \<Rightarrow> u32) \<Rightarrow> u32 \<Rightarrow> u32 \<Rightarrow> nat \<Rightarrow> u32 regs5" where
  "rmd_Round (a, b, c, d, e) f x k r = (e, rmd_rol (a + f b c d + x + k) r + e, b, rmd_rol c 10, d)"

text \<open>Function and constant of round \<open>t\<close> in the two lines (\<open>R11 .. R51\<close>, \<open>R12 .. R52\<close>).\<close>

definition rmd_fk1 :: "nat \<Rightarrow> (u32 \<Rightarrow> u32 \<Rightarrow> u32 \<Rightarrow> u32) \<times> u32" where
  "rmd_fk1 t = [(rmd_f1, 0), (rmd_f2, 0x5A827999), (rmd_f3, 0x6ED9EBA1), (rmd_f4, 0x8F1BBCDC), (rmd_f5, 0xA953FD4E)] ! (t div 16)"

definition rmd_fk2 :: "nat \<Rightarrow> (u32 \<Rightarrow> u32 \<Rightarrow> u32 \<Rightarrow> u32) \<times> u32" where
  "rmd_fk2 t = [(rmd_f5, 0x50A28BE6), (rmd_f4, 0x5C4DD124), (rmd_f3, 0x6D703EF3), (rmd_f2, 0x7A6D76E9), (rmd_f1, 0)] ! (t div 16)"

text \<open>Message word and rotation of each round.\<close>

definition rmd_wr1 :: "(nat \<times> nat) list" where
  "rmd_wr1 =
  [(0, 11), (1, 14), (2, 15), (3, 12), (4, 5), (5, 8), (6, 7), (7, 9), (8, 11), (9, 13), (10, 14), (11, 15), (12, 6), (13, 7), (14, 9), (15, 8),
   (7, 7), (4, 6), (13, 8), (1, 13), (10, 11), (6, 9), (15, 7), (3, 15), (12, 7), (0, 12), (9, 15), (5, 9), (2, 11), (14, 7), (11, 13), (8, 12),
   (3, 11), (10, 13), (14, 6), (4, 7), (9, 14), (15, 9), (8, 13), (1, 15), (2, 14), (7, 8), (0, 13), (6, 6), (13, 5), (11, 12), (5, 7), (12, 5),
   (1, 11), (9, 12), (11, 14), (10, 15), (0, 14), (8, 15), (12, 9), (4, 8), (13, 9), (3, 14), (7, 5), (15, 6), (14, 8), (5, 6), (6, 5), (2, 12),
   (4, 9), (0, 15), (5, 5), (9, 11), (7, 6), (12, 8), (2, 13), (10, 12), (14, 5), (1, 12), (3, 13), (8, 14), (11, 11), (6, 8), (15, 5), (13, 6)]"

definition rmd_wr2 :: "(nat \<times> nat) list" where
  "rmd_wr2 =
  [(5, 8), (14, 9), (7, 9), (0, 11), (9, 13), (2, 15), (11, 15), (4, 5), (13, 7), (6, 7), (15, 8), (8, 11), (1, 14), (10, 14), (3, 12), (12, 6),
   (6, 9), (11, 13), (3, 15), (7, 7), (0, 12), (13, 8), (5, 9), (10, 11), (14, 7), (15, 7), (8, 12), (12, 7), (4, 6), (9, 15), (1, 13), (2, 11),
   (15, 9), (5, 7), (1, 15), (3, 11), (7, 8), (14, 6), (6, 6), (9, 14), (11, 12), (8, 13), (12, 5), (2, 14), (10, 13), (0, 13), (4, 7), (13, 5),
   (8, 15), (6, 5), (4, 8), (1, 11), (3, 14), (11, 14), (15, 6), (0, 14), (5, 6), (12, 9), (2, 12), (13, 9), (9, 12), (7, 5), (10, 15), (14, 8),
   (12, 8), (15, 5), (10, 12), (4, 9), (1, 12), (5, 5), (8, 14), (7, 6), (6, 8), (2, 13), (13, 6), (14, 5), (0, 15), (3, 13), (9, 11), (11, 11)]"

definition rmd_line ::
  "(nat \<Rightarrow> (u32 \<Rightarrow> u32 \<Rightarrow> u32 \<Rightarrow> u32) \<times> u32) \<Rightarrow> (nat \<times> nat) list \<Rightarrow> u32 list \<Rightarrow> u32 regs5 \<Rightarrow> u32 regs5" where
  "rmd_line fk wr w = fold (\<lambda>t r. let (f, k) = fk t; (i, n) = wr ! t in rmd_Round r f (w ! i) k n) [0..<80]"

definition rmd_Transform :: "u32 list \<Rightarrow> bytes \<Rightarrow> u32 list" where
  "rmd_Transform s chunk =
     (let w = map (\<lambda>i. ReadLE32 (drop (4 * i) chunk)) [0..<16];
          (a1, b1, c1, d1, e1) = rmd_line rmd_fk1 rmd_wr1 w (regs5_of s);
          (a2, b2, c2, d2, e2) = rmd_line rmd_fk2 rmd_wr2 w (regs5_of s)
      in [s ! 1 + c1 + d2, s ! 2 + d1 + e2, s ! 3 + e1 + a2, s ! 4 + a1 + b2, s ! 0 + b1 + c2])"

definition CRIPEMD160 :: "u32 list hasher" where
  "CRIPEMD160 = \<lparr>hs_s = rmd_Initialize, hs_buf = replicate 64 0, hs_bytes = 0\<rparr>"

definition CRIPEMD160_Write :: "u32 list hasher \<Rightarrow> bytes \<Rightarrow> u32 list hasher" where
  "CRIPEMD160_Write = md_Write 64 rmd_Transform"

definition CRIPEMD160_Finalize :: "u32 list hasher \<Rightarrow> bytes" where
  "CRIPEMD160_Finalize h = concat (map (\<lambda>i. WriteLE32 (hs_s (md_Finish 64 rmd_Transform 119 WriteLE64 h) ! i)) [0..<5])"

subsection \<open>Composed hashes\<close>

text \<open>\<open>CHash256\<close> and \<open>CHash160\<close> hold a \<open>CSHA256\<close>; only \<open>Finalize\<close> is their own.\<close>

definition CHash256_Finalize :: "u32 list hasher \<Rightarrow> bytes" where
  "CHash256_Finalize sha = CSHA256_Finalize (CSHA256_Write (CSHA256_Reset sha) (CSHA256_Finalize sha))"

definition CHash160_Finalize :: "u32 list hasher \<Rightarrow> bytes" where
  "CHash160_Finalize sha = CRIPEMD160_Finalize (CRIPEMD160_Write CRIPEMD160 (CSHA256_Finalize sha))"

definition Hash :: "bytes \<Rightarrow> uint256" where
  "Hash data = CHash256_Finalize (CSHA256_Write CSHA256 data)"

definition Hash_2 :: "bytes \<Rightarrow> bytes \<Rightarrow> uint256" where
  "Hash_2 p1 p2 = CHash256_Finalize (CSHA256_Write (CSHA256_Write CSHA256 p1) p2)"

definition Hash160 :: "bytes \<Rightarrow> bytes" where
  "Hash160 vch = CHash160_Finalize (CSHA256_Write CSHA256 vch)"

text \<open>\<open>CHashWriter\<close>: every piece of a serialization is written to the hash as it comes.\<close>

definition HashWriter_GetHash :: "bytes list \<Rightarrow> uint256" where
  "HashWriter_GetHash pieces = CHash256_Finalize (fold (\<lambda>d h. CSHA256_Write h d) pieces CSHA256)"

subsection \<open>Streams\<close>

interpretation b64: block_size 64
  by unfold_locales (simp_all add: dvd_def)

interpretation b128: block_size 128
  by unfold_locales (simp_all add: dvd_def)

lemma hashers_buf [simp]:
  "length (hs_buf CSHA256) = 64" "length (hs_buf CSHA1) = 64" "length (hs_buf CRIPEMD160) = 64"
  "length (hs_buf CSHA512) = 128"
  by (simp_all add: CSHA256_def CSHA1_def CRIPEMD160_def CSHA512_def)

lemma hashers_bytes [simp]: "hs_bytes CSHA256 = 0" "hs_s CSHA256 = sha256_Initialize"
  by (simp_all add: CSHA256_def)

lemma length_concat_const: "(\<And>x. x \<in> set xs \<Longrightarrow> length (f x) = k) \<Longrightarrow> length (concat (map f xs)) = k * length xs"
  by (induction xs) simp_all

lemma length_digests [simp]:
  "length (CSHA256_Finalize h) = 32" "length (CSHA1_Finalize h) = 20" "length (CRIPEMD160_Finalize h) = 20"
  "length (CSHA512_Finalize g) = 64" "length (CHash256_Finalize h) = 32" "length (CHash160_Finalize h) = 20"
  "length (Hash d) = 32" "length (Hash160 d) = 20" "length (Hash_2 d e) = 32"
  by (simp_all add: CSHA256_Finalize_def CSHA1_Finalize_def CRIPEMD160_Finalize_def CSHA512_Finalize_def
      CHash256_Finalize_def CHash160_Finalize_def Hash_def Hash160_def Hash_2_def length_concat_const [where k = 4]
      length_concat_const [where k = 8])

text \<open>What \<open>CHash256\<close> needs of \<open>Reset\<close>: the stale bytes of the buffer do not matter.\<close>

lemma CSHA256_Reset_fresh:
  assumes "length (hs_buf h) = 64"
  shows "CSHA256_Finalize (CSHA256_Write (CSHA256_Reset h) data) = CSHA256_Finalize (CSHA256_Write CSHA256 data)"
proof -
  have r: "length (hs_buf (CSHA256_Reset h)) = 64" using assms by (simp add: CSHA256_Reset_def)
  have a: "md_abs 64 (CSHA256_Reset h) = md_abs 64 CSHA256"
    by (simp add: md_abs_def md_pending_def CSHA256_Reset_def)
  have "hs_s (md_Finish 64 sha256_Transform 119 WriteBE64 (CSHA256_Write (CSHA256_Reset h) data)) =
      hs_s (md_Finish 64 sha256_Transform 119 WriteBE64 (CSHA256_Write CSHA256 data))"
    unfolding CSHA256_Write_def
    by (intro b64.md_Finish_cong b64.md_Write_cong b64.md_Write_buf hashers_buf r a)
  then show ?thesis by (simp add: CSHA256_Finalize_def)
qed

lemma CSHA256_fold:
  "CSHA256_Finalize (fold (\<lambda>d h. CSHA256_Write h d) ds CSHA256) = CSHA256_Finalize (CSHA256_Write CSHA256 (concat ds))"
  using b64.Finish_fold [of CSHA256 sha256_Transform 119 WriteBE64 ds]
  by (simp add: CSHA256_Finalize_def CSHA256_Write_def)

lemma CSHA256_fold_buf: "length (hs_buf (fold (\<lambda>d h. CSHA256_Write h d) ds CSHA256)) = 64"
  unfolding CSHA256_Write_def by (rule b64.fold_Write_buf) simp

lemma CHash256_fold: "HashWriter_GetHash ds = Hash (concat ds)"
  using CSHA256_Reset_fresh [OF CSHA256_fold_buf] CSHA256_Reset_fresh [of "CSHA256_Write CSHA256 (concat ds)"]
    CSHA256_fold_buf [of "[concat ds]"]
  by (simp add: HashWriter_GetHash_def Hash_def CHash256_Finalize_def CSHA256_fold)

lemma Hash_2_append: "Hash_2 a b = Hash (a @ b)"
  using CHash256_fold [of "[a, b]"] by (simp add: HashWriter_GetHash_def Hash_2_def)

text \<open>
  (C30) The stream interface of SHA-256.  Writing a message in any number of pieces and
  finalizing gives the digest of compressing the padded message block by block: the padded
  message is a whole number of blocks and the digest is the state after the last one.  The
  double hash of \<open>CHashWriter\<close> depends only on the concatenation of what was written to it.
\<close>

theorem CSHA256_stream:
  "(case md_chunks 64 sha256_Transform sha256_Initialize (md_padded 64 119 WriteBE64 (concat ds)) of (s, rest) \<Rightarrow>
      rest = [] \<and>
      CSHA256_Finalize (fold (\<lambda>d h. CSHA256_Write h d) ds CSHA256) = concat (map (\<lambda>i. WriteBE32 (s ! i)) [0..<8])) \<and>
    HashWriter_GetHash ds = Hash (concat ds)"
proof -
  have "md_chunks 64 sha256_Transform (hs_s CSHA256) (md_padded 64 119 WriteBE64 (concat ds)) =
      (hs_s (md_Finish 64 sha256_Transform 119 WriteBE64 (md_Write 64 sha256_Transform CSHA256 (concat ds))), [])"
    by (rule b64.Finish_spec [where d = 8]) simp_all
  then show ?thesis unfolding CSHA256_fold by (simp add: CHash256_fold CSHA256_Finalize_def CSHA256_Write_def)
qed

end
