(* ===== verification/Transaction.thy ===== *)
theory Transaction
  imports Serialize Script
begin

text \<open>
  Transactions (\<open>primitives/transaction.h\<close>, \<open>primitives/transaction.cpp\<close>) and amounts
  (\<open>amount.h\<close>): the data, the wire format and its round trip, and the checked sum of the
  outputs.  The 16-bit fields \<open>nVersion\<close> and \<open>nType\<close>
  are kept as bit patterns; \<open>SerializeHash\<close> is an argument of the functions that hash.
\<close>

unbundle bit_operations_syntax

subsection \<open>Amounts\<close>

definition COIN :: CAmount where "COIN = 100000000"
definition MAX_MONEY :: CAmount where "MAX_MONEY = 21000000000 * COIN"
definition OLD_MAX_MONEY :: CAmount where "OLD_MAX_MONEY = 21000000 * COIN"

definition MoneyRange :: "CAmount \<Rightarrow> bool \<Rightarrow> bool" where
  "MoneyRange nValue nMaxcash \<longleftrightarrow>
     (if nMaxcash then nValue \<ge> 0 \<and> nValue \<le> MAX_MONEY else nValue \<ge> 0 \<and> nValue \<le> OLD_MAX_MONEY)"

lemmas money_defs = COIN_def MAX_MONEY_def OLD_MAX_MONEY_def MoneyRange_def

subsection \<open>Data\<close>

definition TRANSACTION_NORMAL :: u16 where "TRANSACTION_NORMAL = 0"
definition TRANSACTION_PROVIDER_REGISTER :: u16 where "TRANSACTION_PROVIDER_REGISTER = 1"
definition TRANSACTION_PROVIDER_UPDATE_SERVICE :: u16 where "TRANSACTION_PROVIDER_UPDATE_SERVICE = 2"
definition TRANSACTION_PROVIDER_UPDATE_REGISTRAR :: u16 where "TRANSACTION_PROVIDER_UPDATE_REGISTRAR = 3"
definition TRANSACTION_PROVIDER_UPDATE_REVOKE :: u16 where "TRANSACTION_PROVIDER_UPDATE_REVOKE = 4"
definition TRANSACTION_COINBASE :: u16 where "TRANSACTION_COINBASE = 5"
definition TRANSACTION_QUORUM_COMMITMENT :: u16 where "TRANSACTION_QUORUM_COMMITMENT = 6"

lemmas TRANSACTION_defs = TRANSACTION_NORMAL_def TRANSACTION_PROVIDER_REGISTER_def
  TRANSACTION_PROVIDER_UPDATE_SERVICE_def TRANSACTION_PROVIDER_UPDATE_REGISTRAR_def
  TRANSACTION_PROVIDER_UPDATE_REVOKE_def TRANSACTION_COINBASE_def
  TRANSACTION_QUORUM_COMMITMENT_def

record COutPoint =
  op_hash :: uint256
  op_n :: u32

definition COutPoint_null :: COutPoint where
  "COutPoint_null = \<lparr>op_hash = blob_null 32, op_n = - 1\<rparr>"

definition COutPoint_IsNull :: "COutPoint \<Rightarrow> bool" where
  "COutPoint_IsNull p \<longleftrightarrow> blob_IsNull (op_hash p) \<and> op_n p = - 1"

definition SEQUENCE_FINAL :: u32 where "SEQUENCE_FINAL = 0xffffffff"
definition SEQUENCE_LOCKTIME_DISABLE_FLAG :: u32 where "SEQUENCE_LOCKTIME_DISABLE_FLAG = push_bit 31 1"
definition SEQUENCE_LOCKTIME_TYPE_FLAG :: u32 where "SEQUENCE_LOCKTIME_TYPE_FLAG = push_bit 22 1"
definition SEQUENCE_LOCKTIME_MASK :: u32 where "SEQUENCE_LOCKTIME_MASK = 0x0000ffff"
definition SEQUENCE_LOCKTIME_GRANULARITY :: nat where "SEQUENCE_LOCKTIME_GRANULARITY = 9"

record CTxIn =
  prevout :: COutPoint
  scriptSig :: CScript
  nSequence :: u32

record CTxOut =
  nValue :: CAmount
  scriptPubKey :: CScript
  nRounds :: int

definition CTxOut_null :: CTxOut where
  "CTxOut_null = \<lparr>nValue = - 1, scriptPubKey = [], nRounds = - 10\<rparr>"

definition CTxOut_IsNull :: "CTxOut \<Rightarrow> bool" where
  "CTxOut_IsNull o1 \<longleftrightarrow> nValue o1 = - 1"

record CTransaction =
  tx_nVersion :: u16
  tx_nType :: u16
  vin :: "CTxIn list"
  vout :: "CTxOut list"
  nLockTime :: u32
  vExtraPayload :: bytes

definition IsCoinBase :: "CTransaction \<Rightarrow> bool" where
  "IsCoinBase tx \<longleftrightarrow> length (vin tx) = 1 \<and> COutPoint_IsNull (prevout (vin tx ! 0))"

text \<open>The checked sum: \<open>None\<close> when it throws \<open>value out of range\<close>.\<close>

fun value_out_from :: "CAmount \<Rightarrow> CTxOut list \<Rightarrow> CAmount option" where
  "value_out_from nValueOut [] = Some nValueOut"
| "value_out_from nValueOut (tx_out # outs) =
     (let nValueOut = nValueOut + nValue tx_out
      in if \<not> MoneyRange (nValue tx_out) True \<or> \<not> MoneyRange nValueOut True then None
         else value_out_from nValueOut outs)"

definition GetValueOut :: "CTransaction \<Rightarrow> CAmount option" where
  "GetValueOut tx = value_out_from 0 (vout tx)"

subsection \<open>Wire format\<close>

definition ser_COutPoint :: "COutPoint \<Rightarrow> bytes" where
  "ser_COutPoint p = op_hash p @ WriteLE32 (op_n p)"

definition unser_COutPoint :: "COutPoint parser" where
  "unser_COutPoint = pbind (read_data 32) (\<lambda>h. pbind ser_readdata32 (\<lambda>n.
     preturn \<lparr>op_hash = h, op_n = n\<rparr>))"

definition ser_CTxIn :: "CTxIn \<Rightarrow> bytes" where
  "ser_CTxIn i = ser_COutPoint (prevout i) @ ser_bytes (scriptSig i) @ WriteLE32 (nSequence i)"

definition unser_CTxIn :: "CTxIn parser" where
  "unser_CTxIn = pbind unser_COutPoint (\<lambda>p. pbind unser_bytes (\<lambda>s. pbind ser_readdata32 (\<lambda>q.
     preturn \<lparr>prevout = p, scriptSig = s, nSequence = q\<rparr>)))"

definition ser_int64 :: "int \<Rightarrow> bytes" where
  "ser_int64 v = WriteLE64 (word_of_int v)"

definition unser_int64 :: "int parser" where
  "unser_int64 = pbind ser_readdata64 (\<lambda>w. preturn (sint w))"

definition ser_CTxOut :: "CTxOut \<Rightarrow> bytes" where
  "ser_CTxOut t = ser_int64 (nValue t) @ ser_bytes (scriptPubKey t)"

text \<open>\<open>nRounds\<close> is not on the wire and keeps the value of \<open>SetNull\<close>.\<close>

definition unser_CTxOut :: "CTxOut parser" where
  "unser_CTxOut = pbind unser_int64 (\<lambda>v. pbind unser_bytes (\<lambda>s.
     preturn \<lparr>nValue = v, scriptPubKey = s, nRounds = - 10\<rparr>))"

text \<open>\<open>nVersion | (nType << 16)\<close>: both operands are promoted from \<open>int16_t\<close> with their sign.\<close>

definition n32bitVersion :: "u16 \<Rightarrow> u16 \<Rightarrow> u32" where
  "n32bitVersion version type = scast version OR push_bit 16 (scast type)"

definition has_payload :: "u16 \<Rightarrow> u16 \<Rightarrow> bool" where
  "has_payload version type \<longleftrightarrow> version = 3 \<and> type \<noteq> TRANSACTION_NORMAL"

definition ser_CTransaction :: "CTransaction \<Rightarrow> bytes" where
  "ser_CTransaction tx =
     WriteLE32 (n32bitVersion (tx_nVersion tx) (tx_nType tx)) @
     ser_vector ser_CTxIn (vin tx) @ ser_vector ser_CTxOut (vout tx) @ WriteLE32 (nLockTime tx) @
     (if has_payload (tx_nVersion tx) (tx_nType tx) then ser_bytes (vExtraPayload tx) else [])"

definition unser_CTransaction :: "CTransaction parser" where
  "unser_CTransaction =
     pbind ser_readdata32 (\<lambda>v.
     let version = ucast (v AND 0xffff); type = ucast (drop_bit 16 v AND 0xffff) in
     pbind (unser_vector unser_CTxIn) (\<lambda>ins.
     pbind (unser_vector unser_CTxOut) (\<lambda>outs.
     pbind ser_readdata32 (\<lambda>lock.
     pbind (if has_payload version type then unser_bytes else preturn []) (\<lambda>payload.
     preturn \<lparr>tx_nVersion = version, tx_nType = type, vin = ins, vout = outs, nLockTime = lock,
       vExtraPayload = payload\<rparr>)))))"

definition tx_GetHash :: "(bytes \<Rightarrow> uint256) \<Rightarrow> CTransaction \<Rightarrow> uint256" where
  "tx_GetHash SerializeHash tx = SerializeHash (ser_CTransaction tx)"

definition GetTotalSize :: "CTransaction \<Rightarrow> nat" where
  "GetTotalSize tx = length (ser_CTransaction tx)"

subsection \<open>Well-formed data\<close>

definition wf_COutPoint :: "COutPoint \<Rightarrow> bool" where
  "wf_COutPoint p \<longleftrightarrow> length (op_hash p) = 32"

definition wf_CTxIn :: "CTxIn \<Rightarrow> bool" where
  "wf_CTxIn i \<longleftrightarrow> wf_COutPoint (prevout i) \<and> size_ok (scriptSig i)"

definition wf_CTxOut :: "CTxOut \<Rightarrow> bool" where
  "wf_CTxOut t \<longleftrightarrow> in_s64 (nValue t) \<and> size_ok (scriptPubKey t) \<and> nRounds t = - 10"

definition wf_CTransaction :: "CTransaction \<Rightarrow> bool" where
  "wf_CTransaction tx \<longleftrightarrow>
     size_ok (vin tx) \<and> list_all wf_CTxIn (vin tx) \<and> size_ok (vout tx) \<and> list_all wf_CTxOut (vout tx) \<and>
     (if has_payload (tx_nVersion tx) (tx_nType tx) then size_ok (vExtraPayload tx) else vExtraPayload tx = [])"

subsection \<open>Codecs\<close>

interpretation blob256: canonical_codec "\<lambda>h. h" "read_data 32" "\<lambda>h. length h = 32"
  by unfold_locales (auto dest: read_data_InrD)

lemma sint_word_of_int_s64: "in_s64 v \<Longrightarrow> sint (word_of_int v :: u64) = v"
  by (simp add: sint_sbintrunc' in_s64_def signed_take_bit_int_eq_self)

lemma in_s64_sint: "in_s64 (sint (w :: u64))"
  using sint_ge [of w] sint_lt [of w] by (simp add: in_s64_def)

interpretation int64: canonical_codec ser_int64 unser_int64 in_s64
  by unfold_locales
    (auto simp: ser_int64_def unser_int64_def preturn_def le64.dec_enc sint_word_of_int_s64 in_s64_sint
      elim!: pbind_InrE dest!: le64.enc_dec)

interpretation outpoint: canonical_codec ser_COutPoint unser_COutPoint wf_COutPoint
  by unfold_locales
    (auto simp: ser_COutPoint_def unser_COutPoint_def wf_COutPoint_def preturn_def blob256.dec_enc le32.dec_enc
      elim!: pbind_InrE dest!: blob256.enc_dec le32.enc_dec)

interpretation txin: canonical_codec ser_CTxIn unser_CTxIn wf_CTxIn
  by unfold_locales
    (auto simp: ser_CTxIn_def unser_CTxIn_def wf_CTxIn_def preturn_def outpoint.dec_enc byte_vector.dec_enc
      le32.dec_enc elim!: pbind_InrE dest!: outpoint.enc_dec byte_vector.enc_dec le32.enc_dec)

interpretation txout: canonical_codec ser_CTxOut unser_CTxOut wf_CTxOut
  by unfold_locales
    (auto simp: ser_CTxOut_def unser_CTxOut_def wf_CTxOut_def preturn_def int64.dec_enc byte_vector.dec_enc
      elim!: pbind_InrE dest!: int64.enc_dec byte_vector.enc_dec)

interpretation txins: canonical_codec "ser_vector ser_CTxIn" "unser_vector unser_CTxIn"
    "\<lambda>v. size_ok v \<and> list_all wf_CTxIn v"
  by (rule txin.vector_canonical_codec)

interpretation txouts: canonical_codec "ser_vector ser_CTxOut" "unser_vector unser_CTxOut"
    "\<lambda>v. size_ok v \<and> list_all wf_CTxOut v"
  by (rule txout.vector_canonical_codec)

subsection \<open>The version word\<close>

lemma bit_n32bitVersion:
  "bit (n32bitVersion a b) p \<longleftrightarrow> (if p < 16 then bit a p else p < 32 \<and> (bit a 15 \<or> bit b (p - 16)))"
proof (cases "p < 16")
  case True
  then have "min 15 p = p" by simp
  with True show ?thesis by (simp add: n32bitVersion_def bit_or_iff bit_push_bit_iff bit_signed_iff)
next
  case False
  then have "min 15 p = 15" "p < 32 \<Longrightarrow> min 15 (p - 16) = p - 16" "p < 32 \<Longrightarrow> p - 16 < 32" by auto
  with False show ?thesis by (auto simp: n32bitVersion_def bit_or_iff bit_push_bit_iff bit_signed_iff)
qed

lemma bit_0xffff: "bit (0xffff :: u32) p \<longleftrightarrow> p < 16"
proof -
  have m: "(0xffff :: u32) = mask 16" by (simp add: mask_eq_exp_minus_1)
  show ?thesis unfolding m bit_mask_iff by auto
qed

lemma bit_version_fields:
  fixes v :: u32
  shows "bit (ucast (v AND 0xffff) :: u16) p \<longleftrightarrow> p < 16 \<and> bit v p"
    and "bit (ucast (drop_bit 16 v AND 0xffff) :: u16) p \<longleftrightarrow> p < 16 \<and> bit v (16 + p)"
  by (auto simp del: bit_numeral_word_iff simp: bit_ucast_iff bit_and_iff bit_drop_bit_eq bit_0xffff)

lemma version_fields_of_n32:
  assumes "\<not> bit a 15"
  shows "ucast (n32bitVersion a b AND 0xffff) = a" and "ucast (drop_bit 16 (n32bitVersion a b) AND 0xffff) = b"
proof -
  show "ucast (n32bitVersion a b AND 0xffff) = a"
    by (rule bit_word_eqI) (simp add: bit_version_fields bit_n32bitVersion)
  show "ucast (drop_bit 16 (n32bitVersion a b) AND 0xffff) = b"
    by (rule bit_word_eqI) (simp add: bit_version_fields bit_n32bitVersion bit_drop_bit_eq assms)
qed

lemma n32_of_version_fields:
  "n32bitVersion (ucast (v AND 0xffff)) (ucast (drop_bit 16 v AND 0xffff)) = v \<longleftrightarrow>
     \<not> bit v 15 \<or> ucast (drop_bit 16 v AND 0xffff) = (- 1 :: u16)" (is "?n = v \<longleftrightarrow> ?ok")
proof
  assume ok: ?ok
  show "?n = v"
  proof (rule bit_word_eqI)
    fix p assume p: "p < LENGTH(32)"
    show "bit ?n p = bit v p"
    proof (cases "p < 16")
      case True
      then show ?thesis by (simp add: bit_n32bitVersion bit_version_fields)
    next
      case False
      then have q: "p - 16 < 16" "16 + (p - 16) = p" using p by auto
      have "bit v 15 \<Longrightarrow> bit v p"
        using ok q bit_version_fields(2) [of v "p - 16"] by auto
      then show ?thesis using False p q by (auto simp: bit_n32bitVersion bit_version_fields bit_drop_bit_eq)
    qed
  qed
next
  assume eq: "?n = v"
  show ?ok
  proof (rule disjCI)
    assume ne: "ucast (drop_bit 16 v AND 0xffff) \<noteq> (- 1 :: u16)"
    show "\<not> bit v 15"
    proof
      assume b: "bit v 15"
      have "ucast (drop_bit 16 v AND 0xffff) = (- 1 :: u16)"
      proof (rule bit_word_eqI)
        fix p assume "p < LENGTH(16)"
        then have p: "p < 16" by simp
        then have "bit ?n (16 + p)" using b by (simp add: bit_n32bitVersion bit_version_fields)
        then show "bit (ucast (drop_bit 16 v AND 0xffff) :: u16) p = bit (- 1 :: u16) p"
          using eq p by (simp add: bit_version_fields bit_drop_bit_eq)
      qed
      with ne show False ..
    qed
  qed
qed

subsection \<open>Transactions on the wire\<close>

lemma unser_ser_CTransaction:
  assumes "wf_CTransaction tx" and "\<not> bit (tx_nVersion tx) 15"
  shows "unser_CTransaction (ser_CTransaction tx @ rest) = Inr (tx, rest)"
  using assms txins.dec_enc [of "vin tx"] txouts.dec_enc [of "vout tx"] byte_vector.dec_enc [of "vExtraPayload tx"]
  by (simp add: unser_CTransaction_def ser_CTransaction_def wf_CTransaction_def le32.dec_enc preturn_def
      version_fields_of_n32 Let_def split: if_splits)

lemma unser_CTransaction_InrD:
  assumes "unser_CTransaction s = Inr (tx, rest)"
  obtains v s' where "s = WriteLE32 v @ s'" and "tx_nVersion tx = ucast (v AND 0xffff)"
    and "tx_nType tx = ucast (drop_bit 16 v AND 0xffff)" and "wf_CTransaction tx"
    and "ser_CTransaction tx @ rest = WriteLE32 (n32bitVersion (tx_nVersion tx) (tx_nType tx)) @ s'"
proof -
  obtain v s1 ins s2 outs s3 lock s4 pay s5 where
    v: "ser_readdata32 s = Inr (v, s1)" and ins: "unser_vector unser_CTxIn s1 = Inr (ins, s2)"
    and outs: "unser_vector unser_CTxOut s2 = Inr (outs, s3)" and lock: "ser_readdata32 s3 = Inr (lock, s4)"
    and pay: "(if has_payload (ucast (v AND 0xffff)) (ucast (drop_bit 16 v AND 0xffff)) then unser_bytes else preturn []) s4
       = Inr (pay, s5)"
    and tx: "tx = \<lparr>tx_nVersion = ucast (v AND 0xffff), tx_nType = ucast (drop_bit 16 v AND 0xffff), vin = ins,
       vout = outs, nLockTime = lock, vExtraPayload = pay\<rparr>" and rest: "s5 = rest"
    using assms unfolding unser_CTransaction_def Let_def by (elim pbind_InrE) (auto simp: preturn_def)
  have p: "if has_payload (tx_nVersion tx) (tx_nType tx) then size_ok pay \<and> s4 = ser_bytes pay @ rest
      else pay = [] \<and> s4 = rest"
    using pay rest tx by (auto simp: preturn_def dest: byte_vector.enc_dec split: if_splits)
  show thesis
  proof (rule that)
    show "s = WriteLE32 v @ s1" using le32.enc_dec [OF v] by simp
    show "wf_CTransaction tx"
      using txins.enc_dec [OF ins] txouts.enc_dec [OF outs] p by (auto simp: wf_CTransaction_def tx)
    show "ser_CTransaction tx @ rest = WriteLE32 (n32bitVersion (tx_nVersion tx) (tx_nType tx)) @ s1"
      unfolding conjunct2 [OF txins.enc_dec [OF ins]] conjunct2 [OF txouts.enc_dec [OF outs]]
        conjunct2 [OF le32.enc_dec [OF lock]] ser_CTransaction_def
      using p by (cases "has_payload (tx_nVersion tx) (tx_nType tx)") (simp_all add: tx)
  qed (simp_all add: tx)
qed

lemma WriteLE32_inject: "WriteLE32 a @ r = WriteLE32 b @ r' \<longleftrightarrow> a = b \<and> r = r'"
  using le32.enc_inject [OF TrueI TrueI, of a r b r'] by auto

text \<open>
  (C28) The wire format of transactions.  A well-formed transaction whose version is not
  negative is read back exactly from its serialization.  Conversely a byte string that is
  read as a transaction is its serialization, except that of a negative version: then
  writing the transaction again gives the bytes that were read only if the type is -1.
\<close>

theorem CTransaction_wire:
  "(wf_CTransaction tx \<and> \<not> bit (tx_nVersion tx) 15 \<longrightarrow>
      unser_CTransaction (ser_CTransaction tx @ rest) = Inr (tx, rest)) \<and>
    (unser_CTransaction s = Inr (tx, rest) \<longrightarrow>
      wf_CTransaction tx \<and>
      (s = ser_CTransaction tx @ rest \<longleftrightarrow> \<not> bit (tx_nVersion tx) 15 \<or> tx_nType tx = - 1))"
proof (intro conjI impI)
  show "unser_CTransaction (ser_CTransaction tx @ rest) = Inr (tx, rest)"
    if "wf_CTransaction tx \<and> \<not> bit (tx_nVersion tx) 15" using that unser_ser_CTransaction by blast
  assume "unser_CTransaction s = Inr (tx, rest)"
  then obtain v s' where s: "s = WriteLE32 v @ s'" and ver: "tx_nVersion tx = ucast (v AND 0xffff)"
    and ty: "tx_nType tx = ucast (drop_bit 16 v AND 0xffff)" and wf: "wf_CTransaction tx"
    and ser: "ser_CTransaction tx @ rest = WriteLE32 (n32bitVersion (tx_nVersion tx) (tx_nType tx)) @ s'"
    by (rule unser_CTransaction_InrD)
  show "wf_CTransaction tx" by (rule wf)
  have b: "bit (tx_nVersion tx) 15 \<longleftrightarrow> bit v 15" by (simp add: ver bit_version_fields)
  have "s = ser_CTransaction tx @ rest \<longleftrightarrow> v = n32bitVersion (tx_nVersion tx) (tx_nType tx)"
    unfolding s ser WriteLE32_inject by simp
  also have "\<dots> \<longleftrightarrow> \<not> bit (tx_nVersion tx) 15 \<or> tx_nType tx = - 1"
    unfolding b unfolding ver ty using n32_of_version_fields [of v] by metis
  finally show "s = ser_CTransaction tx @ rest \<longleftrightarrow> \<not> bit (tx_nVersion tx) 15 \<or> tx_nType tx = - 1" .
qed

definition empty_tx :: CTransaction where
  "empty_tx = \<lparr>tx_nVersion = 2, tx_nType = 0, vin = [], vout = [], nLockTime = 7, vExtraPayload = []\<rparr>"

theorem CTransaction_wire_witness:
  "unser_CTransaction (ser_CTransaction empty_tx @ [1, 2]) = Inr (empty_tx, [1, 2])"
proof -
  have "wf_CTransaction empty_tx \<and> \<not> bit (tx_nVersion empty_tx) 15"
    by (simp add: wf_CTransaction_def empty_tx_def has_payload_def size_ok_def)
  with CTransaction_wire [of empty_tx "[1, 2]" "[]"] show ?thesis by blast
qed

end
