(* ===== verification/Interpreter.thy ===== *)
theory Interpreter
  imports Script Hash_Functions Transaction
begin

text \<open>
  The script interpreter (\<open>script/interpreter.cpp\<close>): encodings of keys and signatures,
  \<open>EvalScript\<close> and \<open>VerifyScript\<close>.  The signature checker is a record of the three virtual
  functions of \<open>BaseSignatureChecker\<close>, and \<open>CheckLowS\<close>, which asks the elliptic-curve
  library, is an argument.  Stacks are lists with the top first, so \<open>stacktop(-i)\<close> is
  element \<open>i - 1\<close>; \<open>vfExec\<close> is a list with its back first.  A failing operation returns
  the value that \<open>serror\<close> is set to; exceptions are caught as \<open>SCRIPT_ERR_UNKNOWN_ERROR\<close>.
\<close>

unbundle bit_operations_syntax

subsection \<open>Errors, flags and checkers\<close>

datatype ScriptError =
    SCRIPT_ERR_OK | SCRIPT_ERR_UNKNOWN_ERROR | SCRIPT_ERR_EVAL_FALSE | SCRIPT_ERR_OP_RETURN
  | SCRIPT_ERR_SCRIPT_SIZE | SCRIPT_ERR_PUSH_SIZE | SCRIPT_ERR_OP_COUNT | SCRIPT_ERR_STACK_SIZE
  | SCRIPT_ERR_SIG_COUNT | SCRIPT_ERR_PUBKEY_COUNT
  | SCRIPT_ERR_VERIFY | SCRIPT_ERR_EQUALVERIFY | SCRIPT_ERR_CHECKMULTISIGVERIFY
  | SCRIPT_ERR_CHECKSIGVERIFY | SCRIPT_ERR_NUMEQUALVERIFY
  | SCRIPT_ERR_BAD_OPCODE | SCRIPT_ERR_DISABLED_OPCODE | SCRIPT_ERR_INVALID_STACK_OPERATION
  | SCRIPT_ERR_INVALID_ALTSTACK_OPERATION | SCRIPT_ERR_UNBALANCED_CONDITIONAL
  | SCRIPT_ERR_NEGATIVE_LOCKTIME | SCRIPT_ERR_UNSATISFIED_LOCKTIME
  | SCRIPT_ERR_SIG_HASHTYPE | SCRIPT_ERR_SIG_DER | SCRIPT_ERR_MINIMALDATA | SCRIPT_ERR_SIG_PUSHONLY
  | SCRIPT_ERR_SIG_HIGH_S | SCRIPT_ERR_SIG_NULLDUMMY | SCRIPT_ERR_PUBKEYTYPE | SCRIPT_ERR_CLEANSTACK
  | SCRIPT_ERR_SIG_NULLFAIL | SCRIPT_ERR_DISCOURAGE_UPGRADABLE_NOPS | SCRIPT_ERR_ERROR_COUNT

definition SIGHASH_ALL :: u8 where "SIGHASH_ALL = 1"
definition SIGHASH_NONE :: u8 where "SIGHASH_NONE = 2"
definition SIGHASH_SINGLE :: u8 where "SIGHASH_SINGLE = 3"
definition SIGHASH_ANYONECANPAY :: u8 where "SIGHASH_ANYONECANPAY = 0x80"

definition SCRIPT_VERIFY_NONE :: u32 where "SCRIPT_VERIFY_NONE = 0"
definition SCRIPT_VERIFY_P2SH :: u32 where "SCRIPT_VERIFY_P2SH = push_bit 0 1"
definition SCRIPT_VERIFY_STRICTENC :: u32 where "SCRIPT_VERIFY_STRICTENC = push_bit 1 1"
definition SCRIPT_VERIFY_DERSIG :: u32 where "SCRIPT_VERIFY_DERSIG = push_bit 2 1"
definition SCRIPT_VERIFY_LOW_S :: u32 where "SCRIPT_VERIFY_LOW_S = push_bit 3 1"
definition SCRIPT_VERIFY_NULLDUMMY :: u32 where "SCRIPT_VERIFY_NULLDUMMY = push_bit 4 1"
definition SCRIPT_VERIFY_SIGPUSHONLY :: u32 where "SCRIPT_VERIFY_SIGPUSHONLY = push_bit 5 1"
definition SCRIPT_VERIFY_MINIMALDATA :: u32 where "SCRIPT_VERIFY_MINIMALDATA = push_bit 6 1"
definition SCRIPT_VERIFY_DISCOURAGE_UPGRADABLE_NOPS :: u32 where
  "SCRIPT_VERIFY_DISCOURAGE_UPGRADABLE_NOPS = push_bit 7 1"
definition SCRIPT_VERIFY_CLEANSTACK :: u32 where "SCRIPT_VERIFY_CLEANSTACK = push_bit 8 1"
definition SCRIPT_VERIFY_CHECKLOCKTIMEVERIFY :: u32 where "SCRIPT_VERIFY_CHECKLOCKTIMEVERIFY = push_bit 9 1"
definition SCRIPT_VERIFY_CHECKSEQUENCEVERIFY :: u32 where "SCRIPT_VERIFY_CHECKSEQUENCEVERIFY = push_bit 10 1"
definition SCRIPT_VERIFY_NULLFAIL :: u32 where "SCRIPT_VERIFY_NULLFAIL = push_bit 14 1"

definition flag :: "u32 \<Rightarrow> u32 \<Rightarrow> bool" where
  "flag flags f \<longleftrightarrow> flags AND f \<noteq> 0"

datatype SigVersion = SIGVERSION_BASE

type_synonym valtype = bytes

record BaseSignatureChecker =
  CheckSig :: "valtype \<Rightarrow> valtype \<Rightarrow> CScript \<Rightarrow> SigVersion \<Rightarrow> bool"
  CheckLockTime :: "int \<Rightarrow> bool"
  CheckSequence :: "int \<Rightarrow> bool"

text \<open>The functions of the base class itself.\<close>

definition base_checker :: BaseSignatureChecker where
  "base_checker = \<lparr>CheckSig = (\<lambda>_ _ _ _. False), CheckLockTime = (\<lambda>_. False), CheckSequence = (\<lambda>_. False)\<rparr>"

text \<open>What \<open>EvalScript\<close> is called with, apart from the stack.\<close>

record eval_env =
  ev_script :: CScript
  ev_flags :: u32
  ev_checker :: BaseSignatureChecker
  ev_sigversion :: SigVersion
  ev_CheckLowS :: "bytes \<Rightarrow> bool"

record eval_state =
  st_pc :: nat
  st_stack :: "valtype list"
  st_altstack :: "valtype list"
  st_vfExec :: "bool list"
  st_nOpCount :: int
  st_pbegincodehash :: nat

definition fRequireMinimal :: "eval_env \<Rightarrow> bool" where
  "fRequireMinimal env = flag (ev_flags env) SCRIPT_VERIFY_MINIMALDATA"

subsection \<open>Values and encodings\<close>

fun CastToBool :: "valtype \<Rightarrow> bool" where
  "CastToBool [] = False"
| "CastToBool (b # vch) = (if b \<noteq> 0 then \<not> (vch = [] \<and> b = 0x80) else CastToBool vch)"

definition vchFalse :: valtype where "vchFalse = []"
definition vchTrue :: valtype where "vchTrue = [1]"

definition bool_val :: "bool \<Rightarrow> valtype" where
  "bool_val b = (if b then vchTrue else vchFalse)"

definition IsCompressedOrUncompressedPubKey :: "valtype \<Rightarrow> bool" where
  "IsCompressedOrUncompressedPubKey k =
     (if length k < 33 then False
      else if k ! 0 = 0x04 then length k = 65
      else if k ! 0 = 0x02 \<or> k ! 0 = 0x03 then length k = 33
      else False)"

definition IsValidSignatureEncoding :: "bytes \<Rightarrow> bool" where
  "IsValidSignatureEncoding sig =
     (if length sig < 9 then False
      else if length sig > 73 then False
      else if sig ! 0 \<noteq> 0x30 then False
      else if unat (sig ! 1) \<noteq> length sig - 3 then False
      else let lenR = unat (sig ! 3)
      in if 5 + lenR \<ge> length sig then False
      else let lenS = unat (sig ! (5 + lenR))
      in if lenR + lenS + 7 \<noteq> length sig then False
      else if sig ! 2 \<noteq> 0x02 then False
      else if lenR = 0 then False
      else if sig ! 4 AND 0x80 \<noteq> 0 then False
      else if lenR > 1 \<and> sig ! 4 = 0x00 \<and> sig ! 5 AND 0x80 = 0 then False
      else if sig ! (lenR + 4) \<noteq> 0x02 then False
      else if lenS = 0 then False
      else if sig ! (lenR + 6) AND 0x80 \<noteq> 0 then False
      else if lenS > 1 \<and> sig ! (lenR + 6) = 0x00 \<and> sig ! (lenR + 7) AND 0x80 = 0 then False
      else True)"

definition IsLowDERSignature :: "(bytes \<Rightarrow> bool) \<Rightarrow> valtype \<Rightarrow> ScriptError option" where
  "IsLowDERSignature CheckLowS vchSig =
     (if \<not> IsValidSignatureEncoding vchSig then Some SCRIPT_ERR_SIG_DER
      else if \<not> CheckLowS (butlast vchSig) then Some SCRIPT_ERR_SIG_HIGH_S
      else None)"

definition IsDefinedHashtypeSignature :: "valtype \<Rightarrow> bool" where
  "IsDefinedHashtypeSignature vchSig =
     (if vchSig = [] then False
      else let nHashType = List.last vchSig AND NOT SIGHASH_ANYONECANPAY
           in \<not> (nHashType < SIGHASH_ALL \<or> nHashType > SIGHASH_SINGLE))"

text \<open>\<open>None\<close> is success, \<open>Some\<close> the error that is set.\<close>

definition CheckSignatureEncoding :: "(bytes \<Rightarrow> bool) \<Rightarrow> valtype \<Rightarrow> u32 \<Rightarrow> ScriptError option" where
  "CheckSignatureEncoding CheckLowS vchSig flags =
     (if vchSig = [] then None
      else if flag flags (SCRIPT_VERIFY_DERSIG OR SCRIPT_VERIFY_LOW_S OR SCRIPT_VERIFY_STRICTENC) \<and>
              \<not> IsValidSignatureEncoding vchSig then Some SCRIPT_ERR_SIG_DER
      else if flag flags SCRIPT_VERIFY_LOW_S \<and> IsLowDERSignature CheckLowS vchSig \<noteq> None
           then IsLowDERSignature CheckLowS vchSig
      else if flag flags SCRIPT_VERIFY_STRICTENC \<and> \<not> IsDefinedHashtypeSignature vchSig then Some SCRIPT_ERR_SIG_HASHTYPE
      else None)"

definition CheckPubKeyEncoding :: "valtype \<Rightarrow> u32 \<Rightarrow> ScriptError option" where
  "CheckPubKeyEncoding vchPubKey flags =
     (if flag flags SCRIPT_VERIFY_STRICTENC \<and> \<not> IsCompressedOrUncompressedPubKey vchPubKey
      then Some SCRIPT_ERR_PUBKEYTYPE else None)"

definition CheckMinimalPush :: "valtype \<Rightarrow> opcodetype \<Rightarrow> bool" where
  "CheckMinimalPush data opcode =
     (if length data = 0 then opcode = OP_0
      else if length data = 1 \<and> data ! 0 \<ge> 1 \<and> data ! 0 \<le> 16 then opcode = OP_1 + (data ! 0 - 1)
      else if length data = 1 \<and> data ! 0 = 0x81 then opcode = OP_1NEGATE
      else if length data \<le> 75 then unat opcode = length data
      else if length data \<le> 255 then opcode = OP_PUSHDATA1
      else if length data \<le> 65535 then opcode = OP_PUSHDATA2
      else True)"

text \<open>A number operand; both exceptions of the constructor end in the handler of \<open>EvalScript\<close>.\<close>

definition scriptnum :: "eval_env \<Rightarrow> valtype \<Rightarrow> nat \<Rightarrow> ScriptError + int" where
  "scriptnum env vch n =
     (case CScriptNum vch (fRequireMinimal env) n of
        Inl _ \<Rightarrow> Inl SCRIPT_ERR_UNKNOWN_ERROR | Inr v \<Rightarrow> Inr v)"

type_synonym 'a evaluation = "ScriptError + 'a"

definition ebind :: "'a evaluation \<Rightarrow> ('a \<Rightarrow> 'b evaluation) \<Rightarrow> 'b evaluation" where
  "ebind m f = case_sum Inl f m"

lemma ebind_simps [simp]: "ebind (Inl e) f = Inl e" "ebind (Inr x) f = f x"
  by (simp_all add: ebind_def)

lemma ebind_InrE:
  assumes "ebind m f = Inr y"
  obtains x where "m = Inr x" and "f x = Inr y"
  using assms by (cases m) auto

abbreviation (input) bad_stack :: "ScriptError + 'a" where
  "bad_stack \<equiv> Inl SCRIPT_ERR_INVALID_STACK_OPERATION"

subsection \<open>Operations on the stack\<close>

text \<open>The cases of the switch that only touch the main stack; \<open>x1\<close> is the deepest operand.\<close>

definition op_2drop :: "valtype list \<Rightarrow> ScriptError + valtype list" where
  "op_2drop st = (case st of x2 # x1 # st \<Rightarrow> Inr st | _ \<Rightarrow> bad_stack)"

definition op_2dup :: "valtype list \<Rightarrow> ScriptError + valtype list" where
  "op_2dup st = (case st of x2 # x1 # st \<Rightarrow> Inr (x2 # x1 # x2 # x1 # st) | _ \<Rightarrow> bad_stack)"

definition op_3dup :: "valtype list \<Rightarrow> ScriptError + valtype list" where
  "op_3dup st = (case st of x3 # x2 # x1 # st \<Rightarrow> Inr (x3 # x2 # x1 # x3 # x2 # x1 # st) | _ \<Rightarrow> bad_stack)"

definition op_2over :: "valtype list \<Rightarrow> ScriptError + valtype list" where
  "op_2over st = (case st of x4 # x3 # x2 # x1 # st \<Rightarrow> Inr (x2 # x1 # x4 # x3 # x2 # x1 # st) | _ \<Rightarrow> bad_stack)"

definition op_2rot :: "valtype list \<Rightarrow> ScriptError + valtype list" where
  "op_2rot st = (case st of x6 # x5 # x4 # x3 # x2 # x1 # st \<Rightarrow> Inr (x2 # x1 # x6 # x5 # x4 # x3 # st) | _ \<Rightarrow> bad_stack)"

definition op_2swap :: "valtype list \<Rightarrow> ScriptError + valtype list" where
  "op_2swap st = (case st of x4 # x3 # x2 # x1 # st \<Rightarrow> Inr (x2 # x1 # x4 # x3 # st) | _ \<Rightarrow> bad_stack)"

definition op_ifdup :: "valtype list \<Rightarrow> ScriptError + valtype list" where
  "op_ifdup st = (case st of x # st \<Rightarrow> Inr (if CastToBool x then x # x # st else x # st) | _ \<Rightarrow> bad_stack)"

definition op_depth :: "valtype list \<Rightarrow> ScriptError + valtype list" where
  "op_depth st = Inr (scriptnum_serialize (int (length st)) # st)"

definition op_drop :: "valtype list \<Rightarrow> ScriptError + valtype list" where
  "op_drop st = (case st of x # st \<Rightarrow> Inr st | _ \<Rightarrow> bad_stack)"

definition op_dup :: "valtype list \<Rightarrow> ScriptError + valtype list" where
  "op_dup st = (case st of x # st \<Rightarrow> Inr (x # x # st) | _ \<Rightarrow> bad_stack)"

definition op_nip :: "valtype list \<Rightarrow> ScriptError + valtype list" where
  "op_nip st = (case st of x2 # x1 # st \<Rightarrow> Inr (x2 # st) | _ \<Rightarrow> bad_stack)"

definition op_over :: "valtype list \<Rightarrow> ScriptError + valtype list" where
  "op_over st = (case st of x2 # x1 # st \<Rightarrow> Inr (x1 # x2 # x1 # st) | _ \<Rightarrow> bad_stack)"

definition op_pick_roll :: "eval_env \<Rightarrow> opcodetype \<Rightarrow> valtype list \<Rightarrow> ScriptError + valtype list" where
  "op_pick_roll env opcode st =
     (case st of
        vn # x # st' \<Rightarrow>
          ebind (scriptnum env vn nDefaultMaxNumSize) (\<lambda>bn.
            let n = getint bn; st = x # st'
            in if n < 0 \<or> n \<ge> int (length st) then bad_stack
               else let vch = st ! nat n
                    in Inr (vch # (if opcode = OP_ROLL then take (nat n) st @ drop (Suc (nat n)) st else st)))
      | _ \<Rightarrow> bad_stack)"

definition op_rot :: "valtype list \<Rightarrow> ScriptError + valtype list" where
  "op_rot st = (case st of x3 # x2 # x1 # st \<Rightarrow> Inr (x1 # x3 # x2 # st) | _ \<Rightarrow> bad_stack)"

definition op_swap :: "valtype list \<Rightarrow> ScriptError + valtype list" where
  "op_swap st = (case st of x2 # x1 # st \<Rightarrow> Inr (x1 # x2 # st) | _ \<Rightarrow> bad_stack)"

definition op_tuck :: "valtype list \<Rightarrow> ScriptError + valtype list" where
  "op_tuck st = (case st of x2 # x1 # st \<Rightarrow> Inr (x2 # x1 # x2 # st) | _ \<Rightarrow> bad_stack)"

definition op_size :: "valtype list \<Rightarrow> ScriptError + valtype list" where
  "op_size st = (case st of x # st \<Rightarrow> Inr (scriptnum_serialize (int (length x)) # x # st) | _ \<Rightarrow> bad_stack)"

definition op_equal :: "opcodetype \<Rightarrow> valtype list \<Rightarrow> ScriptError + valtype list" where
  "op_equal opcode st =
     (case st of
        x2 # x1 # st \<Rightarrow>
          let fEqual = (x1 = x2)
          in if opcode = OP_EQUALVERIFY then (if fEqual then Inr st else Inl SCRIPT_ERR_EQUALVERIFY)
             else Inr (bool_val fEqual # st)
      | _ \<Rightarrow> bad_stack)"

definition op_verify :: "valtype list \<Rightarrow> ScriptError + valtype list" where
  "op_verify st = (case st of x # st \<Rightarrow> if CastToBool x then Inr st else Inl SCRIPT_ERR_VERIFY | _ \<Rightarrow> bad_stack)"

subsection \<open>Numeric operations\<close>

definition num_of_bool :: "bool \<Rightarrow> int" where
  "num_of_bool b = (if b then 1 else 0)"

definition unary_num :: "opcodetype \<Rightarrow> int \<Rightarrow> int" where
  "unary_num opcode bn =
     (if opcode = OP_1ADD then bn + 1
      else if opcode = OP_1SUB then bn - 1
      else if opcode = OP_NEGATE then - bn
      else if opcode = OP_ABS then (if bn < 0 then - bn else bn)
      else if opcode = OP_NOT then num_of_bool (bn = 0)
      else num_of_bool (bn \<noteq> 0))"

definition op_unary :: "eval_env \<Rightarrow> opcodetype \<Rightarrow> valtype list \<Rightarrow> ScriptError + valtype list" where
  "op_unary env opcode st =
     (case st of
        x # st \<Rightarrow>
          ebind (scriptnum env x nDefaultMaxNumSize) (\<lambda>bn. Inr (scriptnum_serialize (unary_num opcode bn) # st))
      | _ \<Rightarrow> bad_stack)"

definition binary_num :: "opcodetype \<Rightarrow> int \<Rightarrow> int \<Rightarrow> int" where
  "binary_num opcode bn1 bn2 =
     (if opcode = OP_ADD then bn1 + bn2
      else if opcode = OP_SUB then bn1 - bn2
      else if opcode = OP_BOOLAND then num_of_bool (bn1 \<noteq> 0 \<and> bn2 \<noteq> 0)
      else if opcode = OP_BOOLOR then num_of_bool (bn1 \<noteq> 0 \<or> bn2 \<noteq> 0)
      else if opcode = OP_NUMEQUAL then num_of_bool (bn1 = bn2)
      else if opcode = OP_NUMEQUALVERIFY then num_of_bool (bn1 = bn2)
      else if opcode = OP_NUMNOTEQUAL then num_of_bool (bn1 \<noteq> bn2)
      else if opcode = OP_LESSTHAN then num_of_bool (bn1 < bn2)
      else if opcode = OP_GREATERTHAN then num_of_bool (bn1 > bn2)
      else if opcode = OP_LESSTHANOREQUAL then num_of_bool (bn1 \<le> bn2)
      else if opcode = OP_GREATERTHANOREQUAL then num_of_bool (bn1 \<ge> bn2)
      else if opcode = OP_MIN then (if bn1 < bn2 then bn1 else bn2)
      else (if bn1 > bn2 then bn1 else bn2))"

definition op_binary :: "eval_env \<Rightarrow> opcodetype \<Rightarrow> valtype list \<Rightarrow> ScriptError + valtype list" where
  "op_binary env opcode st =
     (case st of
        x2 # x1 # st \<Rightarrow>
          ebind (scriptnum env x1 nDefaultMaxNumSize) (\<lambda>bn1.
          ebind (scriptnum env x2 nDefaultMaxNumSize) (\<lambda>bn2.
            let vch = scriptnum_serialize (binary_num opcode bn1 bn2)
            in if opcode = OP_NUMEQUALVERIFY
               then (if CastToBool vch then Inr st else Inl SCRIPT_ERR_NUMEQUALVERIFY)
               else Inr (vch # st)))
      | _ \<Rightarrow> bad_stack)"

definition op_within :: "eval_env \<Rightarrow> valtype list \<Rightarrow> ScriptError + valtype list" where
  "op_within env st =
     (case st of
        x3 # x2 # x1 # st \<Rightarrow>
          ebind (scriptnum env x1 nDefaultMaxNumSize) (\<lambda>bn1.
          ebind (scriptnum env x2 nDefaultMaxNumSize) (\<lambda>bn2.
          ebind (scriptnum env x3 nDefaultMaxNumSize) (\<lambda>bn3.
            Inr (bool_val (bn2 \<le> bn1 \<and> bn1 < bn3) # st))))
      | _ \<Rightarrow> bad_stack)"

subsection \<open>Hashes and signatures\<close>

definition op_hashes :: "opcodetype \<Rightarrow> valtype list \<Rightarrow> ScriptError + valtype list" where
  "op_hashes opcode st =
     (case st of
        vch # st \<Rightarrow>
          let vchHash = (if opcode = OP_RIPEMD160 then CRIPEMD160_Finalize (CRIPEMD160_Write CRIPEMD160 vch)
                         else if opcode = OP_SHA1 then CSHA1_Finalize (CSHA1_Write CSHA1 vch)
                         else if opcode = OP_SHA256 then CSHA256_Finalize (CSHA256_Write CSHA256 vch)
                         else if opcode = OP_HASH160 then CHash160_Finalize (CSHA256_Write CSHA256 vch)
                         else CHash256_Finalize (CSHA256_Write CSHA256 vch))
          in Inr (vchHash # st)
      | _ \<Rightarrow> bad_stack)"

definition check_encodings :: "eval_env \<Rightarrow> valtype \<Rightarrow> valtype \<Rightarrow> ScriptError option" where
  "check_encodings env vchSig vchPubKey =
     (case CheckSignatureEncoding (ev_CheckLowS env) vchSig (ev_flags env) of
        Some e \<Rightarrow> Some e | None \<Rightarrow> CheckPubKeyEncoding vchPubKey (ev_flags env))"

text \<open>The script from the last code separator on, and the deletion of a signature from it.\<close>

definition script_code :: "eval_env \<Rightarrow> nat \<Rightarrow> CScript" where
  "script_code env pbegincodehash = drop pbegincodehash (ev_script env)"

definition delete_sig :: "eval_env \<Rightarrow> valtype \<Rightarrow> CScript \<Rightarrow> CScript" where
  "delete_sig env vchSig scriptCode =
     (if ev_sigversion env = SIGVERSION_BASE then snd (FindAndDelete scriptCode (push_data [] vchSig)) else scriptCode)"

definition op_checksig :: "eval_env \<Rightarrow> opcodetype \<Rightarrow> nat \<Rightarrow> valtype list \<Rightarrow> ScriptError + valtype list" where
  "op_checksig env opcode pbegincodehash st =
     (case st of
        vchPubKey # vchSig # st \<Rightarrow>
          let scriptCode = delete_sig env vchSig (script_code env pbegincodehash)
          in (case check_encodings env vchSig vchPubKey of
                Some e \<Rightarrow> Inl e
              | None \<Rightarrow>
                  let fSuccess = CheckSig (ev_checker env) vchSig vchPubKey scriptCode (ev_sigversion env)
                  in if \<not> fSuccess \<and> flag (ev_flags env) SCRIPT_VERIFY_NULLFAIL \<and> vchSig \<noteq> []
                     then Inl SCRIPT_ERR_SIG_NULLFAIL
                     else if opcode = OP_CHECKSIGVERIFY
                     then (if fSuccess then Inr st else Inl SCRIPT_ERR_CHECKSIGVERIFY)
                     else Inr (bool_val fSuccess # st))
      | _ \<Rightarrow> bad_stack)"

text \<open>
  The matching loop of \<open>OP_CHECKMULTISIG\<close> on the signatures and keys that are left, top
  first.  It runs only while there are no more signatures than keys.
\<close>

fun multisig_loop :: "eval_env \<Rightarrow> CScript \<Rightarrow> valtype list \<Rightarrow> valtype list \<Rightarrow> ScriptError + bool" where
  "multisig_loop env scriptCode [] keys = Inr True"
| "multisig_loop env scriptCode (vchSig # sigs) [] = Inr False"
| "multisig_loop env scriptCode (vchSig # sigs) (vchPubKey # keys) =
     (case check_encodings env vchSig vchPubKey of
        Some e \<Rightarrow> Inl e
      | None \<Rightarrow>
          let fOk = CheckSig (ev_checker env) vchSig vchPubKey scriptCode (ev_sigversion env);
              left = (if fOk then sigs else vchSig # sigs)
          in if length left > length keys then Inr False else multisig_loop env scriptCode left keys)"

text \<open>The cleanup loop: \<open>c\<close> pops are left, \<open>fail\<close> is \<open>!fSuccess && (flags & NULLFAIL)\<close>.\<close>

fun multisig_clean :: "bool \<Rightarrow> nat \<Rightarrow> nat \<Rightarrow> valtype list \<Rightarrow> ScriptError + valtype list" where
  "multisig_clean fail 0 ikey2 st = Inr st"
| "multisig_clean fail (Suc c) ikey2 [] = Inl SCRIPT_ERR_UNKNOWN_ERROR"
| "multisig_clean fail (Suc c) ikey2 (x # st) =
     (if fail \<and> ikey2 = 0 \<and> x \<noteq> [] then Inl SCRIPT_ERR_SIG_NULLFAIL
      else multisig_clean fail c (if ikey2 > 0 then ikey2 - 1 else ikey2) st)"

text \<open>The part after the counts have been read: \<open>k\<close> keys and \<open>m\<close> signatures.\<close>

definition multisig_check :: "eval_env \<Rightarrow> opcodetype \<Rightarrow> nat \<Rightarrow> nat \<Rightarrow> nat \<Rightarrow> valtype list \<Rightarrow> ScriptError + valtype list" where
  "multisig_check env opcode pbegincodehash k m st =
     (let ikey = 2; isig = k + 3; i = k + 3 + m;
          keys = take k (drop (ikey - 1) st); sigs = take m (drop (isig - 1) st);
          scriptCode = fold (delete_sig env) sigs (script_code env pbegincodehash)
      in ebind (multisig_loop env scriptCode sigs keys) (\<lambda>fSuccess.
         ebind (multisig_clean (\<not> fSuccess \<and> flag (ev_flags env) SCRIPT_VERIFY_NULLFAIL) (i - 1) (k + 2) st) (\<lambda>st.
           case st of
             [] \<Rightarrow> bad_stack
           | dummy # st \<Rightarrow>
               if flag (ev_flags env) SCRIPT_VERIFY_NULLDUMMY \<and> dummy \<noteq> [] then Inl SCRIPT_ERR_SIG_NULLDUMMY
               else if opcode = OP_CHECKMULTISIGVERIFY
               then (if fSuccess then Inr st else Inl SCRIPT_ERR_CHECKMULTISIGVERIFY)
               else Inr (bool_val fSuccess # st))))"

definition op_checkmultisig :: "eval_env \<Rightarrow> opcodetype \<Rightarrow> eval_state \<Rightarrow> ScriptError + eval_state" where
  "op_checkmultisig env opcode s =
     (let st = st_stack s in
      if int (length st) < 1 then bad_stack
      else ebind (scriptnum env (st ! 0) nDefaultMaxNumSize) (\<lambda>bn.
        let nKeysCount = getint bn in
        if nKeysCount < 0 \<or> nKeysCount > MAX_PUBKEYS_PER_MULTISIG then Inl SCRIPT_ERR_PUBKEY_COUNT
        else let nOpCount = st_nOpCount s + nKeysCount in
        if nOpCount > MAX_OPS_PER_SCRIPT then Inl SCRIPT_ERR_OP_COUNT
        else let i = 2 + nKeysCount in
        if int (length st) < i then bad_stack
        else ebind (scriptnum env (st ! nat (i - 1)) nDefaultMaxNumSize) (\<lambda>bn.
          let nSigsCount = getint bn in
          if nSigsCount < 0 \<or> nSigsCount > nKeysCount then Inl SCRIPT_ERR_SIG_COUNT
          else if int (length st) < i + 1 + nSigsCount then bad_stack
          else ebind (multisig_check env opcode (st_pbegincodehash s) (nat nKeysCount) (nat nSigsCount) st)
                 (\<lambda>st. Inr (s\<lparr>st_stack := st, st_nOpCount := nOpCount\<rparr>)))))"

subsection \<open>Control\<close>

definition op_checklocktimeverify :: "eval_env \<Rightarrow> valtype list \<Rightarrow> ScriptError + valtype list" where
  "op_checklocktimeverify env st =
     (if \<not> flag (ev_flags env) SCRIPT_VERIFY_CHECKLOCKTIMEVERIFY then
        (if flag (ev_flags env) SCRIPT_VERIFY_DISCOURAGE_UPGRADABLE_NOPS
         then Inl SCRIPT_ERR_DISCOURAGE_UPGRADABLE_NOPS else Inr st)
      else case st of
        [] \<Rightarrow> bad_stack
      | x # _ \<Rightarrow>
          ebind (scriptnum env x 5) (\<lambda>nLockTime.
            if nLockTime < 0 then Inl SCRIPT_ERR_NEGATIVE_LOCKTIME
            else if \<not> CheckLockTime (ev_checker env) nLockTime then Inl SCRIPT_ERR_UNSATISFIED_LOCKTIME
            else Inr st))"

definition op_checksequenceverify :: "eval_env \<Rightarrow> valtype list \<Rightarrow> ScriptError + valtype list" where
  "op_checksequenceverify env st =
     (if \<not> flag (ev_flags env) SCRIPT_VERIFY_CHECKSEQUENCEVERIFY then
        (if flag (ev_flags env) SCRIPT_VERIFY_DISCOURAGE_UPGRADABLE_NOPS
         then Inl SCRIPT_ERR_DISCOURAGE_UPGRADABLE_NOPS else Inr st)
      else case st of
        [] \<Rightarrow> bad_stack
      | x # _ \<Rightarrow>
          ebind (scriptnum env x 5) (\<lambda>nSequence.
            if nSequence < 0 then Inl SCRIPT_ERR_NEGATIVE_LOCKTIME
            else if nSequence AND uint SEQUENCE_LOCKTIME_DISABLE_FLAG \<noteq> 0 then Inr st
            else if \<not> CheckSequence (ev_checker env) nSequence then Inl SCRIPT_ERR_UNSATISFIED_LOCKTIME
            else Inr st))"

definition op_nops :: "eval_env \<Rightarrow> valtype list \<Rightarrow> ScriptError + valtype list" where
  "op_nops env st =
     (if flag (ev_flags env) SCRIPT_VERIFY_DISCOURAGE_UPGRADABLE_NOPS
      then Inl SCRIPT_ERR_DISCOURAGE_UPGRADABLE_NOPS else Inr st)"

definition op_if :: "opcodetype \<Rightarrow> bool \<Rightarrow> eval_state \<Rightarrow> ScriptError + eval_state" where
  "op_if opcode fExec s =
     (if fExec then
        (case st_stack s of
           [] \<Rightarrow> Inl SCRIPT_ERR_UNBALANCED_CONDITIONAL
         | vch # st \<Rightarrow>
             let fValue = (if opcode = OP_NOTIF then \<not> CastToBool vch else CastToBool vch)
             in Inr (s\<lparr>st_stack := st, st_vfExec := fValue # st_vfExec s\<rparr>))
      else Inr (s\<lparr>st_vfExec := False # st_vfExec s\<rparr>))"

definition op_else :: "eval_state \<Rightarrow> ScriptError + eval_state" where
  "op_else s =
     (case st_vfExec s of [] \<Rightarrow> Inl SCRIPT_ERR_UNBALANCED_CONDITIONAL
      | b # bs \<Rightarrow> Inr (s\<lparr>st_vfExec := (\<not> b) # bs\<rparr>))"

definition op_endif :: "eval_state \<Rightarrow> ScriptError + eval_state" where
  "op_endif s =
     (case st_vfExec s of [] \<Rightarrow> Inl SCRIPT_ERR_UNBALANCED_CONDITIONAL
      | b # bs \<Rightarrow> Inr (s\<lparr>st_vfExec := bs\<rparr>))"

definition op_toaltstack :: "eval_state \<Rightarrow> ScriptError + eval_state" where
  "op_toaltstack s =
     (case st_stack s of [] \<Rightarrow> bad_stack
      | x # st \<Rightarrow> Inr (s\<lparr>st_altstack := x # st_altstack s, st_stack := st\<rparr>))"

definition op_fromaltstack :: "eval_state \<Rightarrow> ScriptError + eval_state" where
  "op_fromaltstack s =
     (case st_altstack s of [] \<Rightarrow> Inl SCRIPT_ERR_INVALID_ALTSTACK_OPERATION
      | x # st \<Rightarrow> Inr (s\<lparr>st_stack := x # st_stack s, st_altstack := st\<rparr>))"

subsection \<open>The switch\<close>

definition on_stack :: "(valtype list \<Rightarrow> ScriptError + valtype list) \<Rightarrow> eval_state \<Rightarrow> ScriptError + eval_state" where
  "on_stack f s = ebind (f (st_stack s)) (\<lambda>st. Inr (s\<lparr>st_stack := st\<rparr>))"

definition op_small_int :: "opcodetype \<Rightarrow> valtype list \<Rightarrow> ScriptError + valtype list" where
  "op_small_int opcode st = Inr (scriptnum_serialize (uint opcode - (uint OP_1 - 1)) # st)"

text \<open>The cases that only use the main stack, \<open>None\<close> for every other opcode.\<close>

definition stack_op :: "eval_env \<Rightarrow> opcodetype \<Rightarrow> nat \<Rightarrow> (valtype list \<Rightarrow> ScriptError + valtype list) option" where
  "stack_op env opcode pbegincodehash =
     (if opcode = OP_1NEGATE \<or> OP_1 \<le> opcode \<and> opcode \<le> OP_16 then Some (op_small_int opcode)
      else if opcode = OP_NOP then Some Inr
      else if opcode = OP_CHECKLOCKTIMEVERIFY then Some (op_checklocktimeverify env)
      else if opcode = OP_CHECKSEQUENCEVERIFY then Some (op_checksequenceverify env)
      else if opcode = OP_NOP1 \<or> OP_NOP4 \<le> opcode \<and> opcode \<le> OP_NOP10 then Some (op_nops env)
      else if opcode = OP_VERIFY then Some op_verify
      else if opcode = OP_RETURN then Some (\<lambda>_. Inl SCRIPT_ERR_OP_RETURN)
      else if opcode = OP_2DROP then Some op_2drop
      else if opcode = OP_2DUP then Some op_2dup
      else if opcode = OP_3DUP then Some op_3dup
      else if opcode = OP_2OVER then Some op_2over
      else if opcode = OP_2ROT then Some op_2rot
      else if opcode = OP_2SWAP then Some op_2swap
      else if opcode = OP_IFDUP then Some op_ifdup
      else if opcode = OP_DEPTH then Some op_depth
      else if opcode = OP_DROP then Some op_drop
      else if opcode = OP_DUP then Some op_dup
      else if opcode = OP_NIP then Some op_nip
      else if opcode = OP_OVER then Some op_over
      else if opcode = OP_PICK \<or> opcode = OP_ROLL then Some (op_pick_roll env opcode)
      else if opcode = OP_ROT then Some op_rot
      else if opcode = OP_SWAP then Some op_swap
      else if opcode = OP_TUCK then Some op_tuck
      else if opcode = OP_SIZE then Some op_size
      else if opcode = OP_EQUAL \<or> opcode = OP_EQUALVERIFY then Some (op_equal opcode)
      else if opcode = OP_1ADD \<or> opcode = OP_1SUB \<or> OP_NEGATE \<le> opcode \<and> opcode \<le> OP_0NOTEQUAL
        then Some (op_unary env opcode)
      else if opcode = OP_ADD \<or> opcode = OP_SUB \<or> OP_BOOLAND \<le> opcode \<and> opcode \<le> OP_MAX
        then Some (op_binary env opcode)
      else if opcode = OP_WITHIN then Some (op_within env)
      else if OP_RIPEMD160 \<le> opcode \<and> opcode \<le> OP_HASH256 then Some (op_hashes opcode)
      else if opcode = OP_CHECKSIG \<or> opcode = OP_CHECKSIGVERIFY then Some (op_checksig env opcode pbegincodehash)
      else None)"

definition exec_switch :: "eval_env \<Rightarrow> opcodetype \<Rightarrow> nat \<Rightarrow> bool \<Rightarrow> eval_state \<Rightarrow> ScriptError + eval_state" where
  "exec_switch env opcode pc fExec s =
     (case stack_op env opcode (st_pbegincodehash s) of
        Some f \<Rightarrow> on_stack f s
      | None \<Rightarrow>
          if opcode = OP_IF \<or> opcode = OP_NOTIF then op_if opcode fExec s
          else if opcode = OP_ELSE then op_else s
          else if opcode = OP_ENDIF then op_endif s
          else if opcode = OP_TOALTSTACK then op_toaltstack s
          else if opcode = OP_FROMALTSTACK then op_fromaltstack s
          else if opcode = OP_CODESEPARATOR then Inr (s\<lparr>st_pbegincodehash := pc\<rparr>)
          else if opcode = OP_CHECKMULTISIG \<or> opcode = OP_CHECKMULTISIGVERIFY then op_checkmultisig env opcode s
          else Inl SCRIPT_ERR_BAD_OPCODE)"

definition disabled_opcode :: "opcodetype \<Rightarrow> bool" where
  "disabled_opcode opcode \<longleftrightarrow>
     opcode = OP_CAT \<or> opcode = OP_SUBSTR \<or> opcode = OP_LEFT \<or> opcode = OP_RIGHT \<or> opcode = OP_INVERT \<or>
     opcode = OP_AND \<or> opcode = OP_OR \<or> opcode = OP_XOR \<or> opcode = OP_2MUL \<or> opcode = OP_2DIV \<or>
     opcode = OP_MUL \<or> opcode = OP_DIV \<or> opcode = OP_MOD \<or> opcode = OP_LSHIFT \<or> opcode = OP_RSHIFT"

definition exec_body :: "eval_env \<Rightarrow> opcodetype \<Rightarrow> valtype \<Rightarrow> nat \<Rightarrow> bool \<Rightarrow> eval_state \<Rightarrow> ScriptError + eval_state" where
  "exec_body env opcode vchPushValue pc fExec s =
     (if fExec \<and> opcode \<le> OP_PUSHDATA4 then
        (if fRequireMinimal env \<and> \<not> CheckMinimalPush vchPushValue opcode then Inl SCRIPT_ERR_MINIMALDATA
         else Inr (s\<lparr>st_stack := vchPushValue # st_stack s\<rparr>))
      else if fExec \<or> OP_IF \<le> opcode \<and> opcode \<le> OP_ENDIF then exec_switch env opcode pc fExec s
      else Inr s)"

definition count_op :: "opcodetype \<Rightarrow> eval_state \<Rightarrow> eval_state" where
  "count_op opcode s = (if opcode > OP_16 then s\<lparr>st_nOpCount := st_nOpCount s + 1\<rparr> else s)"

text \<open>One turn of the loop, \<open>pc\<close> the position after the instruction.\<close>

definition exec_op :: "eval_env \<Rightarrow> opcodetype \<Rightarrow> valtype \<Rightarrow> nat \<Rightarrow> eval_state \<Rightarrow> ScriptError + eval_state" where
  "exec_op env opcode vchPushValue pc s =
     (if length vchPushValue > MAX_SCRIPT_ELEMENT_SIZE then Inl SCRIPT_ERR_PUSH_SIZE
      else if opcode > OP_16 \<and> st_nOpCount (count_op opcode s) > MAX_OPS_PER_SCRIPT then Inl SCRIPT_ERR_OP_COUNT
      else if disabled_opcode opcode then Inl SCRIPT_ERR_DISABLED_OPCODE
      else ebind (exec_body env opcode vchPushValue pc (False \<notin> set (st_vfExec s)) (count_op opcode s))
        (\<lambda>s. if length (st_stack s) + length (st_altstack s) > MAX_STACK_SIZE then Inl SCRIPT_ERR_STACK_SIZE
             else Inr s))"

function eval_loop :: "eval_env \<Rightarrow> eval_state \<Rightarrow> ScriptError + eval_state" where
  "eval_loop env s =
     (if st_pc s < length (ev_script env) then
        let (ok, pc, opcode, vchPushValue) = GetOp2 (ev_script env) (st_pc s)
        in if \<not> ok then Inl SCRIPT_ERR_BAD_OPCODE
           else case exec_op env opcode vchPushValue pc s of
                  Inl e \<Rightarrow> Inl e
                | Inr s' \<Rightarrow> eval_loop env (s'\<lparr>st_pc := pc\<rparr>)
      else Inr s)"
  by pat_completeness auto
termination
  by (relation "measure (\<lambda>(env, s). length (ev_script env) - st_pc s)")
     (auto dest!: GetOp2_advances [OF sym])

declare eval_loop.simps [simp del]

definition init_state :: "valtype list \<Rightarrow> eval_state" where
  "init_state st = \<lparr>st_pc = 0, st_stack = st, st_altstack = [], st_vfExec = [], st_nOpCount = 0, st_pbegincodehash = 0\<rparr>"

definition EvalScript :: "eval_env \<Rightarrow> valtype list \<Rightarrow> ScriptError + valtype list" where
  "EvalScript env stack =
     (if length (ev_script env) > MAX_SCRIPT_SIZE then Inl SCRIPT_ERR_SCRIPT_SIZE
      else ebind (eval_loop env (init_state stack)) (\<lambda>s.
        if st_vfExec s \<noteq> [] then Inl SCRIPT_ERR_UNBALANCED_CONDITIONAL else Inr (st_stack s)))"

text \<open>
  \<open>VerifyScript\<close>; \<open>Some SCRIPT_ERR_OK\<close> is success, and \<open>None\<close> stands for the abort of
  one of its two assertions: that the stack kept for the redeem script is not empty, and that
  \<open>CLEANSTACK\<close> is only used together with \<open>P2SH\<close>.
\<close>

definition eval_env_of :: "CScript \<Rightarrow> u32 \<Rightarrow> BaseSignatureChecker \<Rightarrow> (bytes \<Rightarrow> bool) \<Rightarrow> eval_env" where
  "eval_env_of script flags checker CheckLowS =
     \<lparr>ev_script = script, ev_flags = flags, ev_checker = checker, ev_sigversion = SIGVERSION_BASE,
      ev_CheckLowS = CheckLowS\<rparr>"

definition verify_p2sh ::
  "CScript \<Rightarrow> u32 \<Rightarrow> BaseSignatureChecker \<Rightarrow> (bytes \<Rightarrow> bool) \<Rightarrow> valtype list \<Rightarrow>
   (ScriptError + valtype list) option" where
  "verify_p2sh sig flags checker CheckLowS stackCopy =
     (if \<not> IsPushOnly sig then Some (Inl SCRIPT_ERR_SIG_PUSHONLY)
      else case stackCopy of
        [] \<Rightarrow> None
      | pubKeySerialized # stack \<Rightarrow>
          Some (ebind (EvalScript (eval_env_of pubKeySerialized flags checker CheckLowS) stack) (\<lambda>stack.
            case stack of
              [] \<Rightarrow> Inl SCRIPT_ERR_EVAL_FALSE
            | x # _ \<Rightarrow> if \<not> CastToBool x then Inl SCRIPT_ERR_EVAL_FALSE else Inr stack)))"

definition verify_clean :: "u32 \<Rightarrow> valtype list \<Rightarrow> ScriptError option" where
  "verify_clean flags stack =
     (if flag flags SCRIPT_VERIFY_CLEANSTACK then
        (if \<not> flag flags SCRIPT_VERIFY_P2SH then None
         else if length stack \<noteq> 1 then Some SCRIPT_ERR_CLEANSTACK else Some SCRIPT_ERR_OK)
      else Some SCRIPT_ERR_OK)"

definition VerifyScript ::
  "CScript \<Rightarrow> CScript \<Rightarrow> u32 \<Rightarrow> BaseSignatureChecker \<Rightarrow> (bytes \<Rightarrow> bool) \<Rightarrow> ScriptError option" where
  "VerifyScript sig pubKey flags checker CheckLowS =
     (if flag flags SCRIPT_VERIFY_SIGPUSHONLY \<and> \<not> IsPushOnly sig then Some SCRIPT_ERR_SIG_PUSHONLY
      else case EvalScript (eval_env_of sig flags checker CheckLowS) [] of
        Inl e \<Rightarrow> Some e
      | Inr stackCopy \<Rightarrow>
          (case EvalScript (eval_env_of pubKey flags checker CheckLowS) stackCopy of
             Inl e \<Rightarrow> Some e
           | Inr [] \<Rightarrow> Some SCRIPT_ERR_EVAL_FALSE
           | Inr (x # stack) \<Rightarrow>
               if CastToBool x = False then Some SCRIPT_ERR_EVAL_FALSE
               else if flag flags SCRIPT_VERIFY_P2SH \<and> IsPayToScriptHash pubKey
               then (case verify_p2sh sig flags checker CheckLowS stackCopy of
                       None \<Rightarrow> None
                     | Some (Inl e) \<Rightarrow> Some e
                     | Some (Inr stack) \<Rightarrow> verify_clean flags stack)
               else verify_clean flags (x # stack)))"

end
