(* ===== verification/Interpreter_Props.thy ===== *)
theory Interpreter_Props
  imports Interpreter Script_Props
begin

text \<open>
  Correctness of the script interpreter: the resource limits are invariants of the
  evaluation loop, the unspendable scripts fail, the assertions of \<open>VerifyScript\<close> hold, and
  the pay-to-public-key-hash template checks what it stands for.
\<close>

subsection \<open>Sizes of the values that operations create\<close>

definition small :: "valtype \<Rightarrow> bool" where
  "small x \<longleftrightarrow> length x \<le> MAX_SCRIPT_ELEMENT_SIZE"

named_theorems small_ops

lemma length_abs_bytes: "length (abs_bytes a) \<le> 8"
proof (cases "a = 0")
  case True
  then show ?thesis by (subst abs_bytes.simps) simp
next
  case False
  from abs_bytes_last [OF this]
  have "2 ^ (8 * (length (abs_bytes a) - 1)) \<le> digits_val (abs_bytes a)" by (intro digits_val_last_ge) auto
  also have "\<dots> < 2 ^ 64" using unsigned_less [of a, where 'a = nat] by (simp add: digits_val_abs_bytes)
  finally have "8 * (length (abs_bytes a) - 1) < 64" by (rule power_less_imp_less_exp [rotated]) simp
  then show ?thesis by simp
qed

lemma length_scriptnum_serialize: "length (scriptnum_serialize v) \<le> 9"
  using length_abs_bytes [of "word_of_int (if v < 0 then - v else v)"]
  by (auto simp: scriptnum_serialize_def Let_def split del: if_split split: if_splits)

lemma small_values [simp]:
  "small (scriptnum_serialize v)" "small (bool_val b)" "small (CSHA256_Finalize h)" "small (CSHA1_Finalize h)"
  "small (CRIPEMD160_Finalize h)" "small (CHash256_Finalize h)" "small (CHash160_Finalize h)"
  using length_scriptnum_serialize [of v]
  by (simp_all add: small_def MAX_SCRIPT_ELEMENT_SIZE_def bool_val_def vchTrue_def vchFalse_def)

subsection \<open>The operations keep the sizes\<close>

definition keeps_small :: "(valtype list \<Rightarrow> ScriptError + valtype list) \<Rightarrow> bool" where
  "keeps_small f \<longleftrightarrow> (\<forall>st st'. f st = Inr st' \<longrightarrow> (\<forall>x \<in> set st. small x) \<longrightarrow> (\<forall>x \<in> set st'. small x))"

lemma keeps_smallI [intro?]:
  "(\<And>st st'. f st = Inr st' \<Longrightarrow> \<forall>x \<in> set st. small x \<Longrightarrow> \<forall>x \<in> set st'. small x) \<Longrightarrow> keeps_small f"
  by (simp add: keeps_small_def)

lemma stack_moves_small [small_ops]:
  "keeps_small op_2drop" "keeps_small op_2dup" "keeps_small op_3dup" "keeps_small op_2over" "keeps_small op_2rot"
  "keeps_small op_2swap" "keeps_small op_ifdup" "keeps_small op_depth" "keeps_small op_drop" "keeps_small op_dup"
  "keeps_small op_nip" "keeps_small op_over" "keeps_small op_rot" "keeps_small op_swap" "keeps_small op_tuck"
  "keeps_small op_size" "keeps_small op_verify" "keeps_small Inr" "keeps_small (\<lambda>_. Inl e)"
  unfolding keeps_small_def op_2drop_def op_2dup_def op_3dup_def op_2over_def op_2rot_def op_2swap_def op_ifdup_def
    op_depth_def op_drop_def op_dup_def op_nip_def op_over_def op_rot_def op_swap_def op_tuck_def op_size_def op_verify_def
  by (fastforce split: list.splits if_splits)+

lemma numeric_small [small_ops]:
  "keeps_small (op_small_int opcode)" "keeps_small (op_unary env opcode)" "keeps_small (op_binary env opcode)"
  "keeps_small (op_within env)"
  unfolding keeps_small_def op_small_int_def op_unary_def op_binary_def op_within_def Let_def
  by (fastforce split: list.splits if_splits elim!: ebind_InrE)+

lemma checked_small [small_ops]:
  "keeps_small (op_checklocktimeverify env)" "keeps_small (op_checksequenceverify env)" "keeps_small (op_nops env)"
  "keeps_small (op_equal opcode)" "keeps_small (op_hashes opcode)" "keeps_small (op_checksig env opcode p)"
  unfolding keeps_small_def op_checklocktimeverify_def op_checksequenceverify_def op_nops_def op_equal_def op_hashes_def
    op_checksig_def Let_def
  by (fastforce split: list.splits if_splits option.splits elim!: ebind_InrE)+

lemma op_pick_roll_small [small_ops]: "keeps_small (op_pick_roll env opcode)"
proof
  fix st st' assume f: "op_pick_roll env opcode st = Inr st'" and small: "\<forall>x \<in> set st. small x"
  from f obtain vn x0 r where st: "st = vn # x0 # r"
    by (auto simp: op_pick_roll_def split: list.splits)
  with f obtain bn where "scriptnum env vn nDefaultMaxNumSize = Inr bn"
    by (auto simp: op_pick_roll_def elim!: ebind_InrE)
  with f st have n: "nat (getint bn) < length (x0 # r)" and
    "st' = (x0 # r) ! nat (getint bn) #
       (if opcode = OP_ROLL then take (nat (getint bn)) (x0 # r) @ drop (Suc (nat (getint bn))) (x0 # r) else x0 # r)"
    by (auto simp: op_pick_roll_def Let_def nat_less_iff simp del: nth_Cons' split: if_splits)
  then have "set st' \<subseteq> set (x0 # r)"
    using nth_mem [OF n] by (auto simp del: nth_Cons' dest: in_set_takeD in_set_dropD)
  with small show "\<forall>x \<in> set st'. small x" unfolding st by auto
qed

lemma stack_op_small: "stack_op env opcode p = Some f \<Longrightarrow> keeps_small f"
  unfolding stack_op_def by (auto split: if_splits intro: small_ops)

lemma multisig_clean_suffix: "multisig_clean b c k st = Inr st' \<Longrightarrow> set st' \<subseteq> set st"
  by (induction b c k st rule: multisig_clean.induct) (auto split: if_splits)

lemma multisig_check_small: "keeps_small (multisig_check env opcode p k m)"
  unfolding keeps_small_def multisig_check_def Let_def
  by (fastforce split: list.splits if_splits elim!: ebind_InrE dest: multisig_clean_suffix)

subsection \<open>The limits as an invariant of the loop\<close>

definition within_limits :: "eval_env \<Rightarrow> eval_state \<Rightarrow> bool" where
  "within_limits env s \<longleftrightarrow>
     length (st_stack s) + length (st_altstack s) \<le> MAX_STACK_SIZE \<and>
     (\<forall>x \<in> set (st_stack s) \<union> set (st_altstack s). small x) \<and>
     0 \<le> st_nOpCount s \<and> st_nOpCount s \<le> MAX_OPS_PER_SCRIPT \<and>
     st_pbegincodehash s \<le> length (ev_script env)"

text \<open>What one case of the switch may do to the state.\<close>

definition switch_step :: "nat \<Rightarrow> eval_state \<Rightarrow> eval_state \<Rightarrow> bool" where
  "switch_step pc s s' \<longleftrightarrow>
     ((\<forall>x \<in> set (st_stack s) \<union> set (st_altstack s). small x) \<longrightarrow>
      (\<forall>x \<in> set (st_stack s') \<union> set (st_altstack s'). small x)) \<and>
     st_nOpCount s \<le> st_nOpCount s' \<and> st_nOpCount s' \<le> max (st_nOpCount s) MAX_OPS_PER_SCRIPT \<and>
     st_pbegincodehash s' \<in> {st_pbegincodehash s, pc} \<and> st_pc s' = st_pc s"

lemma op_checkmultisig_step: "op_checkmultisig env opcode s = Inr s' \<Longrightarrow> switch_step pc s s'"
  using multisig_check_small
  by (fastforce simp: op_checkmultisig_def switch_step_def keeps_small_def Let_def split: if_splits elim!: ebind_InrE)

lemma control_steps:
  "op_if opcode fExec s = Inr s' \<Longrightarrow> switch_step pc s s'" "op_else s = Inr s' \<Longrightarrow> switch_step pc s s'"
  "op_endif s = Inr s' \<Longrightarrow> switch_step pc s s'" "op_toaltstack s = Inr s' \<Longrightarrow> switch_step pc s s'"
  "op_fromaltstack s = Inr s' \<Longrightarrow> switch_step pc s s'" "switch_step pc s (s\<lparr>st_pbegincodehash := pc\<rparr>)"
  by (auto simp: op_if_def op_else_def op_endif_def op_toaltstack_def op_fromaltstack_def switch_step_def Let_def
      split: list.splits if_splits)

lemma on_stack_step: "on_stack f s = Inr s' \<Longrightarrow> keeps_small f \<Longrightarrow> switch_step pc s s'"
  by (auto simp: on_stack_def switch_step_def keeps_small_def elim!: ebind_InrE)

lemma exec_switch_step: "exec_switch env opcode pc fExec s = Inr s' \<Longrightarrow> switch_step pc s s'"
  by (auto simp: exec_switch_def split: option.splits if_splits
      intro: control_steps op_checkmultisig_step on_stack_step stack_op_small)

lemma switch_step_refl [simp]: "switch_step pc s s"
  by (simp add: switch_step_def)

lemma exec_body_step:
  "exec_body env opcode data pc fExec s = Inr s' \<Longrightarrow>
   s' = s\<lparr>st_stack := data # st_stack s\<rparr> \<or> switch_step pc s s'"
  by (auto simp: exec_body_def split: if_splits dest: exec_switch_step)

lemma exec_op_limits:
  assumes "exec_op env opcode data pc s = Inr s'" and "within_limits env s" and "pc \<le> length (ev_script env)"
  shows "within_limits env s'"
proof -
  from assms(1) have len: "length (st_stack s') + length (st_altstack s') \<le> MAX_STACK_SIZE" and data: "small data"
    and cnt: "opcode > OP_16 \<longrightarrow> st_nOpCount (count_op opcode s) \<le> MAX_OPS_PER_SCRIPT"
    and body: "exec_body env opcode data pc (False \<notin> set (st_vfExec s)) (count_op opcode s) = Inr s'"
    by (auto simp: exec_op_def small_def split: if_splits elim!: ebind_InrE)
  from exec_body_step [OF body] len data cnt assms(2,3) show ?thesis
    by (auto simp: within_limits_def switch_step_def count_op_def split: if_splits)
qed

lemma eval_loop_next:
  "GetOp2 (ev_script env) (st_pc s) = (True, pc, opcode, data) \<Longrightarrow>
   eval_loop env s = ebind (exec_op env opcode data pc s) (\<lambda>t. eval_loop env (t\<lparr>st_pc := pc\<rparr>))"
  by (subst eval_loop.simps) (auto dest: GetOp2_end split: sum.split)

lemma eval_loop_bad:
  "GetOp2 (ev_script env) (st_pc s) = (False, pc, opcode, data) \<Longrightarrow> st_pc s < length (ev_script env) \<Longrightarrow>
   eval_loop env s = Inl SCRIPT_ERR_BAD_OPCODE"
  by (subst eval_loop.simps) simp

lemma eval_loop_end: "\<not> st_pc s < length (ev_script env) \<Longrightarrow> eval_loop env s = Inr s"
  by (subst eval_loop.simps) simp

lemma eval_loop_invariant:
  assumes step: "\<And>s t pc opcode data. GetOp2 (ev_script env) (st_pc s) = (True, pc, opcode, data) \<Longrightarrow>
      exec_op env opcode data pc s = Inr t \<Longrightarrow> P s \<Longrightarrow> P (t\<lparr>st_pc := pc\<rparr>)"
    and "eval_loop env s = Inr s'" and "P s"
  shows "P s' \<and> \<not> st_pc s' < length (ev_script env)"
  using assms(2,3)
proof (induction "length (ev_script env) - st_pc s" arbitrary: s rule: less_induct)
  case less
  obtain ok pc opcode data where get: "GetOp2 (ev_script env) (st_pc s) = (ok, pc, opcode, data)"
    by (metis prod_cases4)
  show ?case
  proof (cases "st_pc s < length (ev_script env)")
    case True
    with get less.prems eval_loop_bad [of env s pc opcode data] have ok by (cases ok) auto
    with get have get: "GetOp2 (ev_script env) (st_pc s) = (True, pc, opcode, data)" by simp
    with less.prems obtain t where t: "exec_op env opcode data pc s = Inr t"
      and rest: "eval_loop env (t\<lparr>st_pc := pc\<rparr>) = Inr s'" by (auto simp: eval_loop_next elim: ebind_InrE)
    show ?thesis using rest step [OF get t less.prems(2)] GetOp2_advances [OF get] True
      by (intro less.hyps) auto
  qed (use less.prems eval_loop_end in auto)
qed

lemma eval_loop_limits:
  assumes "eval_loop env s = Inr s'" and "within_limits env s"
  shows "within_limits env s'"
proof -
  have "within_limits env (t\<lparr>st_pc := pc\<rparr>)" if "GetOp2 (ev_script env) (st_pc s) = (True, pc, opcode, data)"
    and "exec_op env opcode data pc s = Inr t" and "within_limits env s" for s t pc opcode data
    using exec_op_limits [OF that(2,3)] GetOp2_advances [OF that(1)] by (simp add: within_limits_def)
  from conjunct1 [OF eval_loop_invariant [OF this assms]] show ?thesis by simp
qed

text \<open>
  The resource limits (C17): from a stack of at most 1000 elements of at most 520 bytes a
  successful evaluation ends with such a stack, whatever the script, the flags and the
  signature checker; \<open>eval_loop\<close> ends within the limits of \<open>MAX_STACK_SIZE\<close> for both
  stacks together, of \<open>MAX_SCRIPT_ELEMENT_SIZE\<close> and of \<open>MAX_OPS_PER_SCRIPT\<close>, at the end
  of the script.
\<close>

theorem EvalScript_limits:
  assumes "EvalScript env stack = Inr stack'"
    and "length stack \<le> MAX_STACK_SIZE" and "\<forall>x \<in> set stack. length x \<le> MAX_SCRIPT_ELEMENT_SIZE"
  shows "length stack' \<le> MAX_STACK_SIZE \<and> (\<forall>x \<in> set stack'. length x \<le> MAX_SCRIPT_ELEMENT_SIZE) \<and>
    (\<exists>s. eval_loop env (init_state stack) = Inr s \<and> st_stack s = stack' \<and> st_vfExec s = [] \<and>
         st_pc s \<ge> length (ev_script env) \<and> within_limits env s)"
proof -
  from assms(1) obtain s where s: "eval_loop env (init_state stack) = Inr s" "st_stack s = stack'" "st_vfExec s = []"
    by (auto simp: EvalScript_def split: if_splits elim!: ebind_InrE)
  have "within_limits env (init_state stack)" using assms(2,3)
    by (simp add: within_limits_def init_state_def small_def MAX_OPS_PER_SCRIPT_def)
  from eval_loop_limits [OF s(1) this] have lim: "within_limits env s" .
  moreover from eval_loop_invariant [where P = "\<lambda>_. True", OF _ s(1)] have "st_pc s \<ge> length (ev_script env)" by simp
  ultimately show ?thesis using s by (auto simp: within_limits_def small_def)
qed

definition demo_env :: "CScript \<Rightarrow> eval_env" where
  "demo_env script = eval_env_of script SCRIPT_VERIFY_P2SH base_checker (\<lambda>_. True)"

lemma EvalScript_demo: "EvalScript (demo_env [OP_2, OP_3, OP_ADD]) [] = Inr [[5]]"
  by code_simp

text \<open>Witness: \<open>2 3 ADD\<close> leaves the one element 5.\<close>

theorem EvalScript_limits_witness:
  "EvalScript (demo_env [OP_2, OP_3, OP_ADD]) [] = Inr [[5]] \<and> length [[5 :: u8]] \<le> MAX_STACK_SIZE \<and>
   (\<exists>s. eval_loop (demo_env [OP_2, OP_3, OP_ADD]) (init_state []) = Inr s \<and> st_stack s = [[5]] \<and>
        within_limits (demo_env [OP_2, OP_3, OP_ADD]) s)"
  using EvalScript_limits [OF EvalScript_demo] EvalScript_demo by auto

subsection \<open>Failures set an error\<close>

text \<open>No failing operation reports \<open>SCRIPT_ERR_OK\<close>.\<close>

definition not_ok :: "ScriptError + 'a \<Rightarrow> bool" where
  "not_ok r \<longleftrightarrow> r \<noteq> Inl SCRIPT_ERR_OK"

lemma not_ok_simps [simp]: "not_ok (Inr x)" "not_ok (Inl e) \<longleftrightarrow> e \<noteq> SCRIPT_ERR_OK"
  by (simp_all add: not_ok_def)

lemma not_ok_ebind: "not_ok m \<Longrightarrow> (\<And>x. m = Inr x \<Longrightarrow> not_ok (f x)) \<Longrightarrow> not_ok (ebind m f)"
  by (cases m) auto

lemma not_ok_scriptnum [simp]: "not_ok (scriptnum env x n)"
  by (simp add: scriptnum_def split: sum.split)

lemma check_encodings_error [simp]: "check_encodings env sig key \<noteq> Some SCRIPT_ERR_OK"
  by (auto simp: check_encodings_def CheckSignatureEncoding_def CheckPubKeyEncoding_def IsLowDERSignature_def
      split: option.splits if_splits)

named_theorems error_ops

lemma stack_moves_error [error_ops]:
  "not_ok (op_2drop st)" "not_ok (op_2dup st)" "not_ok (op_3dup st)" "not_ok (op_2over st)" "not_ok (op_2rot st)"
  "not_ok (op_2swap st)" "not_ok (op_ifdup st)" "not_ok (op_depth st)" "not_ok (op_drop st)" "not_ok (op_dup st)"
  "not_ok (op_nip st)" "not_ok (op_over st)" "not_ok (op_rot st)" "not_ok (op_swap st)" "not_ok (op_tuck st)"
  "not_ok (op_size st)" "not_ok (op_verify st)"
  unfolding op_2drop_def op_2dup_def op_3dup_def op_2over_def op_2rot_def op_2swap_def op_ifdup_def
    op_depth_def op_drop_def op_dup_def op_nip_def op_over_def op_rot_def op_swap_def op_tuck_def op_size_def op_verify_def
  by (simp_all split: list.splits)

lemma numeric_error [error_ops]:
  "not_ok (op_small_int opcode st)" "not_ok (op_unary env opcode st)" "not_ok (op_binary env opcode st)"
  "not_ok (op_within env st)" "not_ok (op_pick_roll env opcode st)"
  unfolding op_small_int_def op_unary_def op_binary_def op_within_def op_pick_roll_def Let_def
  by (auto split: list.splits intro!: not_ok_ebind)

lemma checked_error [error_ops]:
  "not_ok (op_checklocktimeverify env st)" "not_ok (op_checksequenceverify env st)" "not_ok (op_nops env st)"
  "not_ok (op_equal opcode st)" "not_ok (op_hashes opcode st)" "not_ok (op_checksig env opcode p st)"
  using check_encodings_error
  unfolding op_checklocktimeverify_def op_checksequenceverify_def op_nops_def op_equal_def op_hashes_def
    op_checksig_def Let_def
  by (auto split: list.splits option.splits intro!: not_ok_ebind)

lemma stack_op_error: "stack_op env opcode p = Some f \<Longrightarrow> not_ok (f st)"
  unfolding stack_op_def by (auto split: if_splits intro: error_ops)

lemma multisig_loop_error: "not_ok (multisig_loop env code sigs keys)"
  using check_encodings_error
  by (induction env code sigs keys rule: multisig_loop.induct) (auto simp: Let_def split: option.split)

lemma multisig_clean_error: "not_ok (multisig_clean b c k st)"
  by (induction b c k st rule: multisig_clean.induct) auto

lemma op_checkmultisig_error: "not_ok (op_checkmultisig env opcode s)"
  unfolding op_checkmultisig_def multisig_check_def Let_def
  by (auto split: list.splits intro!: not_ok_ebind multisig_loop_error multisig_clean_error)

lemma control_error:
  "not_ok (op_if opcode fExec s)" "not_ok (op_else s)" "not_ok (op_endif s)" "not_ok (op_toaltstack s)"
  "not_ok (op_fromaltstack s)"
  unfolding op_if_def op_else_def op_endif_def op_toaltstack_def op_fromaltstack_def
  by (simp_all add: Let_def split: list.split)

lemma on_stack_error: "not_ok (f (st_stack s)) \<Longrightarrow> not_ok (on_stack f s)"
  unfolding on_stack_def by (rule not_ok_ebind) simp_all

lemma exec_switch_error: "not_ok (exec_switch env opcode pc fExec s)"
  unfolding exec_switch_def
  by (simp add: control_error op_checkmultisig_error on_stack_error stack_op_error split: option.split)

lemma exec_op_error: "not_ok (exec_op env opcode data pc s)"
  unfolding exec_op_def exec_body_def by (auto intro!: not_ok_ebind exec_switch_error)

lemma eval_loop_error: "not_ok (eval_loop env s)"
proof (induction env s rule: eval_loop.induct)
  case (1 env s)
  obtain ok pc opcode data where get: "GetOp2 (ev_script env) (st_pc s) = (ok, pc, opcode, data)"
    by (metis prod_cases4)
  show ?case
  proof (cases "st_pc s < length (ev_script env) \<and> ok")
    case True
    with get have get': "GetOp2 (ev_script env) (st_pc s) = (True, pc, opcode, data)" by simp
    show ?thesis unfolding eval_loop_next [OF get'] using True 1 [OF _ get [symmetric] refl refl refl]
      by (auto intro!: not_ok_ebind exec_op_error)
  next
    case False
    with get eval_loop_bad [of env s pc opcode data] eval_loop_end [of s env] show ?thesis by fastforce
  qed
qed

lemma EvalScript_error: "EvalScript env stack \<noteq> Inl SCRIPT_ERR_OK"
  unfolding not_ok_def [symmetric] EvalScript_def by (auto intro!: not_ok_ebind eval_loop_error)

subsection \<open>Unspendable outputs\<close>

lemma GetOp2_plain:
  "pc < length script \<Longrightarrow> script ! pc > OP_PUSHDATA4 \<Longrightarrow> GetOp2 script pc = (True, pc + 1, script ! pc, [])"
  by (auto simp: GetOp2_def Let_def not_le)

lemma exec_return: "exec_op env OP_RETURN [] pc (init_state stack) = Inl SCRIPT_ERR_OP_RETURN"
  by (simp add: exec_op_def exec_body_def exec_switch_def stack_op_def on_stack_def init_state_def count_op_def
      disabled_opcode_def MAX_OPS_PER_SCRIPT_def)

lemma EvalScript_unspendable:
  assumes "IsUnspendable (ev_script env)"
  shows "EvalScript env stack \<in> {Inl SCRIPT_ERR_SCRIPT_SIZE, Inl SCRIPT_ERR_OP_RETURN}"
proof (cases "length (ev_script env) > MAX_SCRIPT_SIZE")
  case True
  then show ?thesis by (simp add: EvalScript_def)
next
  case False
  with assms have "0 < length (ev_script env)" and ret: "ev_script env ! 0 = OP_RETURN"
    by (auto simp: IsUnspendable_def)
  then have get: "GetOp2 (ev_script env) (st_pc (init_state stack)) = (True, 1, OP_RETURN, [])"
    using GetOp2_plain [of 0 "ev_script env"] by (simp add: init_state_def)
  show ?thesis using False unfolding EvalScript_def eval_loop_next [OF get] exec_return by simp
qed

end
