(* ===== verification/Interpreter_Verify.thy ===== *)
theory Interpreter_Verify
  imports Interpreter_Props
begin

text \<open>
  Properties of \<open>VerifyScript\<close>: its assertions never fire, unspendable outputs are never
  spent, every verification flag only tightens the rules, and what the two standard
  templates for hashes check.
\<close>

unbundle bit_operations_syntax

subsection \<open>More flags accept fewer scripts\<close>

definition flags_le :: "u32 \<Rightarrow> u32 \<Rightarrow> bool" where
  "flags_le A B \<longleftrightarrow> A AND B = A"

lemma flag_mono: "flags_le A B \<Longrightarrow> flag A f \<Longrightarrow> flag B f"
proof -
  assume "flags_le A B" and "flag A f"
  then have "A = A AND B" and "A AND f \<noteq> 0" by (simp_all add: flags_le_def flag_def)
  then have "A AND (B AND f) \<noteq> 0" by (metis and.assoc)
  then show "flag B f" by (auto simp: flag_def)
qed

text \<open>
  Two environments that differ in their flags only.  A node that refuses upgradable NOPs
  without knowing an upgrade rejects scripts that an upgraded node accepts, so the weaker
  flags must know the upgrades of the stronger ones when they discourage NOPs.
\<close>

definition knows_nops :: "u32 \<Rightarrow> u32 \<Rightarrow> bool" where
  "knows_nops A B \<longleftrightarrow> (flag A SCRIPT_VERIFY_DISCOURAGE_UPGRADABLE_NOPS \<longrightarrow>
     (flag B SCRIPT_VERIFY_CHECKLOCKTIMEVERIFY \<longrightarrow> flag A SCRIPT_VERIFY_CHECKLOCKTIMEVERIFY) \<and>
     (flag B SCRIPT_VERIFY_CHECKSEQUENCEVERIFY \<longrightarrow> flag A SCRIPT_VERIFY_CHECKSEQUENCEVERIFY))"

definition weaker :: "eval_env \<Rightarrow> eval_env \<Rightarrow> bool" where
  "weaker a b \<longleftrightarrow> ev_script a = ev_script b \<and> ev_checker a = ev_checker b \<and> ev_sigversion a = ev_sigversion b \<and>
     ev_CheckLowS a = ev_CheckLowS b \<and> flags_le (ev_flags a) (ev_flags b) \<and> knows_nops (ev_flags a) (ev_flags b)"

lemma weaker_simps:
  assumes "weaker a b"
  shows "ev_script a = ev_script b" "ev_checker a = ev_checker b" "ev_sigversion a = ev_sigversion b"
    "ev_CheckLowS a = ev_CheckLowS b" "flag (ev_flags a) f \<Longrightarrow> flag (ev_flags b) f"
    "knows_nops (ev_flags a) (ev_flags b)"
  using assms by (auto simp: weaker_def intro: flag_mono)

text \<open>\<open>sub r r'\<close>: if \<open>r'\<close> succeeds then so does \<open>r\<close>, with the same result.\<close>

definition sub :: "'e + 'a \<Rightarrow> 'e + 'a \<Rightarrow> bool" where
  "sub r r' \<longleftrightarrow> (\<forall>x. r' = Inr x \<longrightarrow> r = Inr x)"

lemma sub_simps [simp]: "sub r r" "sub r (Inl e)" "sub (Inl e) (Inr x) = False" "sub (Inr x) (Inr y) \<longleftrightarrow> x = y"
  by (auto simp: sub_def)

lemma sub_ebind: "sub m m' \<Longrightarrow> (\<And>x. m' = Inr x \<Longrightarrow> sub (f x) (g x)) \<Longrightarrow> sub (ebind m f) (ebind m' g)"
  by (auto simp: sub_def elim!: ebind_InrE)

lemma sub_if: "(c \<Longrightarrow> c') \<Longrightarrow> (\<not> c' \<Longrightarrow> sub r r') \<Longrightarrow> sub (if c then Inl e else r) (if c' then Inl e' else r')"
  by auto

lemma sub_scriptnum: "weaker a b \<Longrightarrow> sub (scriptnum a x n) (scriptnum b x n)"
  using weaker_simps(5) [of a b]
  by (auto simp: scriptnum_def fRequireMinimal_def CScriptNum_def sub_def Let_def split: sum.splits if_splits)

lemma flag_or: "flag F (f OR g) \<longleftrightarrow> flag F f \<or> flag F g"
proof -
  have "F AND (f OR g) = (F AND f) OR (F AND g)" by (simp add: bit.conj_disj_distrib)
  then show ?thesis by (simp add: flag_def or_eq_0_iff)
qed

lemma weaker_encodings:
  assumes "weaker a b" and "check_encodings b vchSig key = None"
  shows "check_encodings a vchSig key = None"
  using assms(2) weaker_simps [OF assms(1)]
  by (auto simp: check_encodings_def CheckSignatureEncoding_def CheckPubKeyEncoding_def IsLowDERSignature_def flag_or
      split: option.splits if_splits)

lemma weaker_ops:
  assumes "weaker a b"
  shows "sub (op_unary a opcode st) (op_unary b opcode st)" "sub (op_binary a opcode st) (op_binary b opcode st)"
    "sub (op_within a st) (op_within b st)" "sub (op_pick_roll a opcode st) (op_pick_roll b opcode st)"
  unfolding op_unary_def op_binary_def op_within_def op_pick_roll_def
  by (auto split: list.split intro!: sub_ebind sub_scriptnum [OF assms])

lemma weaker_nops:
  assumes "weaker a b"
  shows "sub (op_checklocktimeverify a st) (op_checklocktimeverify b st)"
    "sub (op_checksequenceverify a st) (op_checksequenceverify b st)" "sub (op_nops a st) (op_nops b st)"
proof -
  show "sub (op_nops a st) (op_nops b st)"
    using weaker_simps [OF assms] by (simp add: op_nops_def)
  show "sub (op_checklocktimeverify a st) (op_checklocktimeverify b st)"
    "sub (op_checksequenceverify a st) (op_checksequenceverify b st)"
    using weaker_simps [OF assms] sub_scriptnum [OF assms]
    unfolding op_checklocktimeverify_def op_checksequenceverify_def sub_def knows_nops_def
    by (auto split: list.splits if_splits elim!: ebind_InrE)
qed

lemma weaker_delete_sig: "weaker a b \<Longrightarrow> delete_sig a = delete_sig b" "weaker a b \<Longrightarrow> script_code a = script_code b"
  by (auto simp: delete_sig_def script_code_def weaker_def fun_eq_iff)

lemma weaker_checksig:
  assumes "weaker a b"
  shows "sub (op_checksig a opcode p st) (op_checksig b opcode p st)"
  using weaker_simps [OF assms] weaker_encodings [OF assms] weaker_delete_sig [OF assms]
  unfolding op_checksig_def sub_def Let_def by (auto split: list.splits option.splits if_splits)

lemma weaker_multisig_loop:
  assumes "weaker a b"
  shows "sub (multisig_loop a code sigs keys) (multisig_loop b code sigs keys)"
  using assms
proof (induction a code sigs keys rule: multisig_loop.induct)
  case (3 a code vchSig sigs key keys)
  show ?case
  proof (cases "check_encodings b vchSig key")
    case None
    with 3 weaker_encodings [OF 3(2) None] show ?thesis by (simp add: Let_def weaker_simps(2,3))
  qed simp
qed simp_all

lemma multisig_clean_mono: "multisig_clean f c k st = Inr st' \<Longrightarrow> (f' \<Longrightarrow> f) \<Longrightarrow> multisig_clean f' c k st = Inr st'"
  by (induction f c k st rule: multisig_clean.induct) (auto split: if_splits)

lemma weaker_multisig_check:
  assumes "weaker a b"
  shows "sub (multisig_check a opcode p k m st) (multisig_check b opcode p k m st)"
  unfolding multisig_check_def Let_def weaker_delete_sig [OF assms]
proof (intro sub_ebind weaker_multisig_loop assms)
  fix c i k st fSuccess
  show "sub (multisig_clean (\<not> fSuccess \<and> flag (ev_flags a) SCRIPT_VERIFY_NULLFAIL) c k st)
            (multisig_clean (\<not> fSuccess \<and> flag (ev_flags b) SCRIPT_VERIFY_NULLFAIL) c k st)"
    using weaker_simps(5) [OF assms] unfolding sub_def by (blast intro: multisig_clean_mono)
qed (use weaker_simps(5) [OF assms] in \<open>auto split: list.split\<close>)

lemma weaker_checkmultisig:
  assumes "weaker a b"
  shows "sub (op_checkmultisig a opcode s) (op_checkmultisig b opcode s)"
  unfolding op_checkmultisig_def Let_def
  by (auto intro!: sub_ebind sub_scriptnum [OF assms] weaker_multisig_check [OF assms])

lemma rel_option_if:
  "rel_option R x x' \<Longrightarrow> rel_option R y y' \<Longrightarrow> rel_option R (if c then x else y) (if c then x' else y')"
  by simp

lemma weaker_stack_op:
  assumes "weaker a b"
  shows "rel_option (\<lambda>f g. \<forall>st. sub (f st) (g st)) (stack_op a opcode p) (stack_op b opcode p)"
  unfolding stack_op_def
  by (intro rel_option_if)
     (simp_all add: weaker_ops [OF assms] weaker_nops [OF assms] weaker_checksig [OF assms])

lemma weaker_switch:
  assumes "weaker a b"
  shows "sub (exec_switch a opcode pc fExec s) (exec_switch b opcode pc fExec s)"
  using weaker_stack_op [OF assms, of opcode "st_pbegincodehash s"]
proof (cases rule: option.rel_cases)
  case None
  with weaker_checkmultisig [OF assms] show ?thesis by (simp add: exec_switch_def)
next
  case (Some f g)
  then show ?thesis by (simp add: exec_switch_def on_stack_def sub_ebind)
qed

lemma weaker_exec_op:
  assumes "weaker a b"
  shows "sub (exec_op a opcode data pc s) (exec_op b opcode data pc s)"
  using weaker_switch [OF assms] weaker_simps(5) [OF assms]
  unfolding exec_op_def exec_body_def fRequireMinimal_def by (auto intro!: sub_ebind)

lemma weaker_eval_loop:
  assumes "weaker a b"
  shows "sub (eval_loop a s) (eval_loop b s)"
  using assms
proof (induction b s rule: eval_loop.induct)
  case (1 b s)
  note eq = weaker_simps [OF 1(2)]
  obtain ok pc opcode data where get: "GetOp2 (ev_script b) (st_pc s) = (ok, pc, opcode, data)"
    by (metis prod_cases4)
  show ?case
  proof (cases "st_pc s < length (ev_script b)")
    case False
    then show ?thesis by (simp add: eval_loop_end eq)
  next
    case True
    show ?thesis
    proof (cases ok)
      case False
      with get True show ?thesis by (simp add: eval_loop_bad)
    next
      case ok: True
      with get have get': "GetOp2 (ev_script b) (st_pc s) = (True, pc, opcode, data)" by simp
      then have "GetOp2 (ev_script a) (st_pc s) = (True, pc, opcode, data)" by (simp only: eq)
      from eval_loop_next [OF this] eval_loop_next [OF get'] 1(1) [OF True get [symmetric] refl refl refl] 1(2) ok
      show ?thesis by (auto intro!: sub_ebind weaker_exec_op)
    qed
  qed
qed

lemma weaker_EvalScript: "weaker a b \<Longrightarrow> EvalScript b st = Inr st' \<Longrightarrow> EvalScript a st = Inr st'"
  using weaker_eval_loop [of a b "init_state st"] weaker_simps(1) [of a b]
  by (auto simp: EvalScript_def sub_def split: if_splits elim!: ebind_InrE)

lemma weaker_eval_env_of:
  "flags_le A B \<Longrightarrow> knows_nops A B \<Longrightarrow>
   EvalScript (eval_env_of script B checker L) st = Inr st' \<Longrightarrow> EvalScript (eval_env_of script A checker L) st = Inr st'"
  by (rule weaker_EvalScript [of "eval_env_of script A checker L" "eval_env_of script B checker L"])
     (simp_all add: weaker_def eval_env_of_def)

lemma verify_p2sh_error: "verify_p2sh sig flags checker L st \<noteq> Some (Inl SCRIPT_ERR_OK)"
proof -
  have "not_ok (ebind (EvalScript env st) (\<lambda>stack. case stack of [] \<Rightarrow> Inl SCRIPT_ERR_EVAL_FALSE
       | x # _ \<Rightarrow> if \<not> CastToBool x then Inl SCRIPT_ERR_EVAL_FALSE else Inr stack))" for env st
    by (intro not_ok_ebind) (auto simp: not_ok_def EvalScript_error split: list.split)
  then show ?thesis by (auto simp: verify_p2sh_def not_ok_def split: list.split)
qed

lemma VerifyScript_OK:
  "VerifyScript sig pubKey flags checker L = Some SCRIPT_ERR_OK \<longleftrightarrow>
   (flag flags SCRIPT_VERIFY_SIGPUSHONLY \<longrightarrow> IsPushOnly sig) \<and>
   (\<exists>stack x stack'.
      EvalScript (eval_env_of sig flags checker L) [] = Inr stack \<and>
      EvalScript (eval_env_of pubKey flags checker L) stack = Inr (x # stack') \<and> CastToBool x \<and>
      (if flag flags SCRIPT_VERIFY_P2SH \<and> IsPayToScriptHash pubKey
       then IsPushOnly sig \<and> (\<exists>key rest y stack2. stack = key # rest \<and>
              EvalScript (eval_env_of key flags checker L) rest = Inr (y # stack2) \<and> CastToBool y \<and>
              verify_clean flags (y # stack2) = Some SCRIPT_ERR_OK)
       else verify_clean flags (x # stack') = Some SCRIPT_ERR_OK))" (is "?l \<longleftrightarrow> ?r")
proof
  assume ?l
  then show ?r
    unfolding VerifyScript_def
    by (auto simp: EvalScript_error verify_p2sh_error split: if_splits sum.splits list.splits option.splits)
       (auto simp: verify_p2sh_def split: if_splits list.splits elim!: ebind_InrE)
next
  assume ?r
  then show ?l
    unfolding VerifyScript_def verify_p2sh_def
    by (auto split: if_splits)
qed

lemma verify_clean_mono:
  "flags_le A B \<Longrightarrow> (flag A SCRIPT_VERIFY_CLEANSTACK \<Longrightarrow> flag A SCRIPT_VERIFY_P2SH) \<Longrightarrow>
   verify_clean B st = Some SCRIPT_ERR_OK \<Longrightarrow> verify_clean A st = Some SCRIPT_ERR_OK"
  using flag_mono [of A B] by (auto simp: verify_clean_def split: if_splits)

text \<open>
  Every verification flag is a soft fork (C7): if a spend verifies under the flags \<open>B\<close>, it
  verifies under any subset \<open>A\<close> of them.  The exceptions are the two the comments on the
  flags name: \<open>CLEANSTACK\<close> needs \<open>P2SH\<close>, and discouraging NOPs without knowing the
  upgrades in \<open>B\<close> is not a consensus rule.
\<close>

theorem VerifyScript_softfork:
  assumes "flags_le A B" and "knows_nops A B"
    and "flag A SCRIPT_VERIFY_CLEANSTACK \<Longrightarrow> flag A SCRIPT_VERIFY_P2SH"
    and "VerifyScript sig pubKey B checker L = Some SCRIPT_ERR_OK"
  shows "VerifyScript sig pubKey A checker L = Some SCRIPT_ERR_OK"
proof -
  note mono = flag_mono [OF assms(1)] and eval = weaker_eval_env_of [OF assms(1,2), of _ checker L]
    and clean = verify_clean_mono [OF assms(1,3)]
  from assms(4) [unfolded VerifyScript_OK] obtain stack x stack' where
    push: "flag B SCRIPT_VERIFY_SIGPUSHONLY \<longrightarrow> IsPushOnly sig"
    and ev: "EvalScript (eval_env_of sig B checker L) [] = Inr stack"
      "EvalScript (eval_env_of pubKey B checker L) stack = Inr (x # stack')" "CastToBool x"
    and p2sh: "if flag B SCRIPT_VERIFY_P2SH \<and> IsPayToScriptHash pubKey
       then IsPushOnly sig \<and> (\<exists>key rest y stack2. stack = key # rest \<and>
              EvalScript (eval_env_of key B checker L) rest = Inr (y # stack2) \<and> CastToBool y \<and>
              verify_clean B (y # stack2) = Some SCRIPT_ERR_OK)
       else verify_clean B (x # stack') = Some SCRIPT_ERR_OK" by blast
  have rest: "if flag A SCRIPT_VERIFY_P2SH \<and> IsPayToScriptHash pubKey
       then IsPushOnly sig \<and> (\<exists>key rest y stack2. stack = key # rest \<and>
              EvalScript (eval_env_of key A checker L) rest = Inr (y # stack2) \<and> CastToBool y \<and>
              verify_clean A (y # stack2) = Some SCRIPT_ERR_OK)
       else verify_clean A (x # stack') = Some SCRIPT_ERR_OK"
  proof (cases "flag A SCRIPT_VERIFY_P2SH")
    case True
    with p2sh mono [of SCRIPT_VERIFY_P2SH] eval clean show ?thesis by (simp split: if_splits) blast
  next
    case False
    with assms(3) have "verify_clean A st = Some SCRIPT_ERR_OK" for st by (auto simp: verify_clean_def)
    with False show ?thesis by simp
  qed
  show ?thesis unfolding VerifyScript_OK using push mono eval [OF ev(1)] eval [OF ev(2)] ev(3) rest by blast
qed

lemma softfork_demo:
  "flags_le SCRIPT_VERIFY_P2SH (SCRIPT_VERIFY_P2SH OR SCRIPT_VERIFY_MINIMALDATA)"
  "knows_nops SCRIPT_VERIFY_P2SH (SCRIPT_VERIFY_P2SH OR SCRIPT_VERIFY_MINIMALDATA)"
  "flag SCRIPT_VERIFY_P2SH SCRIPT_VERIFY_P2SH"
  "VerifyScript [OP_2] [OP_2, OP_EQUAL] (SCRIPT_VERIFY_P2SH OR SCRIPT_VERIFY_MINIMALDATA) base_checker (\<lambda>_. True)
     = Some SCRIPT_ERR_OK"
  by code_simp+

text \<open>Witness: \<open>2\<close> spends \<open>2 EQUAL\<close> with and without the rule of minimal pushes.\<close>

theorem VerifyScript_softfork_witness:
  "VerifyScript [OP_2] [OP_2, OP_EQUAL] SCRIPT_VERIFY_P2SH base_checker (\<lambda>_. True) = Some SCRIPT_ERR_OK"
  using VerifyScript_softfork [OF softfork_demo(1,2,3,4)] by simp

subsection \<open>The assertions\<close>

lemma p2sh_empty_stack:
  assumes "IsPayToScriptHash pubKey"
  shows "EvalScript (eval_env_of pubKey flags checker L) [] = bad_stack"
proof -
  define env where "env = eval_env_of pubKey flags checker L"
  have script: "ev_script env = pubKey" by (simp add: env_def eval_env_of_def)
  then have get: "GetOp2 (ev_script env) (st_pc (init_state [])) = (True, 1, OP_HASH160, [])"
    using assms GetOp2_plain [of 0 pubKey] by (simp add: init_state_def IsPayToScriptHash_def)
  have "exec_op env OP_HASH160 [] 1 (init_state []) = bad_stack"
    by (simp add: exec_op_def exec_body_def exec_switch_def stack_op_def on_stack_def init_state_def count_op_def
        disabled_opcode_def MAX_OPS_PER_SCRIPT_def op_hashes_def)
  with assms script show ?thesis
    unfolding EvalScript_def env_def [symmetric] eval_loop_next [OF get]
    by (simp add: IsPayToScriptHash_def MAX_SCRIPT_SIZE_def)
qed

text \<open>
  The assertions of \<open>VerifyScript\<close> (C26): the call ends with a result unless \<open>CLEANSTACK\<close>
  is set without \<open>P2SH\<close>; in particular the stack that is kept for a redeem script is
  never empty, as the comment at the assertion argues.
\<close>

theorem VerifyScript_asserts:
  assumes "flag flags SCRIPT_VERIFY_CLEANSTACK \<Longrightarrow> flag flags SCRIPT_VERIFY_P2SH"
  shows "\<exists>e. VerifyScript sig pubKey flags checker L = Some e"
proof -
  have clean: "\<exists>e. verify_clean flags st = Some e" for st using assms by (auto simp: verify_clean_def)
  have "\<exists>r. verify_p2sh sig flags checker L (x # st) = Some r" for x st
    by (simp add: verify_p2sh_def)
  then show ?thesis using clean p2sh_empty_stack
    by (fastforce simp: VerifyScript_def verify_p2sh_def split: sum.split list.split option.split)
qed

text \<open>Witness: a spend whose two scripts fail still gets a result.\<close>

theorem VerifyScript_asserts_witness:
  "\<exists>e. VerifyScript [OP_RETURN] [OP_HASH160] SCRIPT_VERIFY_P2SH base_checker (\<lambda>_. True) = Some e"
  by (rule VerifyScript_asserts) (simp add: softfork_demo)

text \<open>
  Outputs that \<open>IsUnspendable\<close> recognises are never spent (C27): \<open>EvalScript\<close> fails on
  such a script with every stack, as the comment there claims, so that no spender's script,
  flags or signatures make \<open>VerifyScript\<close> succeed.
\<close>

theorem IsUnspendable_never_spent:
  assumes "IsUnspendable pubKey"
  shows "(\<forall>stack. \<exists>e. EvalScript (eval_env_of pubKey flags checker L) stack = Inl e) \<and>
    VerifyScript sig pubKey flags checker L \<noteq> Some SCRIPT_ERR_OK"
proof -
  have "EvalScript (eval_env_of pubKey flags checker L) stack \<in> {Inl SCRIPT_ERR_SCRIPT_SIZE, Inl SCRIPT_ERR_OP_RETURN}"
    for stack by (rule EvalScript_unspendable) (simp add: eval_env_of_def assms)
  then have fails: "\<exists>e. EvalScript (eval_env_of pubKey flags checker L) stack = Inl e" for stack by blast
  then have "EvalScript (eval_env_of pubKey flags checker L) stack \<noteq> Inr st" for stack st
    by (metis sum.distinct(1))
  with fails show ?thesis by (simp add: VerifyScript_OK)
qed

text \<open>Witness: a data carrier output.\<close>

theorem IsUnspendable_never_spent_witness:
  "IsUnspendable [OP_RETURN, 1, 7] \<and>
   VerifyScript [] [OP_RETURN, 1, 7] SCRIPT_VERIFY_P2SH base_checker (\<lambda>_. True) \<noteq> Some SCRIPT_ERR_OK"
proof -
  have "IsUnspendable [OP_RETURN, 1, 7]" by (simp add: IsUnspendable_def)
  with IsUnspendable_never_spent [OF this, where flags = SCRIPT_VERIFY_P2SH and checker = base_checker
      and L = "\<lambda>_. True" and sig = "[]"]
  show ?thesis by simp
qed

subsection \<open>Pay to public key hash\<close>

lemma p2pkh_ops:
  assumes "IsPayToPublicKeyHash script"
  shows "GetOp2 script 0 = (True, 1, OP_DUP, [])" "GetOp2 script 1 = (True, 2, OP_HASH160, [])"
    "GetOp2 script 2 = (True, 23, 0x14, take 20 (drop 3 script))" "GetOp2 script 23 = (True, 24, OP_EQUALVERIFY, [])"
    "GetOp2 script 24 = (True, 25, OP_CHECKSIG, [])"
  using assms by (simp_all add: IsPayToPublicKeyHash_def GetOp2_def)

definition run_state :: "nat \<Rightarrow> valtype list \<Rightarrow> int \<Rightarrow> eval_state" where
  "run_state pc st n =
     \<lparr>st_pc = pc, st_stack = st, st_altstack = [], st_vfExec = [], st_nOpCount = n, st_pbegincodehash = 0\<rparr>"

lemma run_state_simps [simp]:
  "st_pc (run_state pc st n) = pc" "st_stack (run_state pc st n) = st" "st_altstack (run_state pc st n) = []"
  "st_vfExec (run_state pc st n) = []" "st_nOpCount (run_state pc st n) = n" "st_pbegincodehash (run_state pc st n) = 0"
  "(run_state pc st n)\<lparr>st_pc := pc'\<rparr> = run_state pc' st n" "(run_state pc st n)\<lparr>st_stack := st'\<rparr> = run_state pc st' n"
  "(run_state pc st n)\<lparr>st_nOpCount := n'\<rparr> = run_state pc st n'" "init_state st = run_state 0 st 0"
  by (simp_all add: run_state_def init_state_def)

text \<open>One instruction on such a state.\<close>

lemma run_stack_op:
  assumes "GetOp2 (ev_script env) pc = (True, pc', opcode, [])" and "stack_op env opcode 0 = Some f"
    and "opcode > OP_16" and "\<not> disabled_opcode opcode" and "n < MAX_OPS_PER_SCRIPT"
    and "\<And>st'. f st = Inr st' \<Longrightarrow> length st' \<le> MAX_STACK_SIZE"
  shows "eval_loop env (run_state pc st n) = ebind (f st) (\<lambda>st'. eval_loop env (run_state pc' st' (n + 1)))"
proof -
  have next_op: "eval_loop env (run_state pc st n) =
      ebind (exec_op env opcode [] pc' (run_state pc st n)) (\<lambda>t. eval_loop env (t\<lparr>st_pc := pc'\<rparr>))"
    using assms(1) by (intro eval_loop_next) simp
  from assms(3) have "\<not> opcode \<le> OP_PUSHDATA4" by (simp add: word_le_nat_alt word_less_nat_alt)
  with assms(2-6) show ?thesis unfolding next_op
    by (cases "f st") (simp_all add: exec_op_def exec_body_def exec_switch_def on_stack_def count_op_def)
qed

lemma run_push:
  assumes "GetOp2 (ev_script env) pc = (True, pc', opcode, data)" and "opcode \<le> OP_PUSHDATA4"
    and "CheckMinimalPush data opcode" and "length data \<le> MAX_SCRIPT_ELEMENT_SIZE" and "length st < MAX_STACK_SIZE"
  shows "eval_loop env (run_state pc st n) = eval_loop env (run_state pc' (data # st) n)"
proof -
  have next_op: "eval_loop env (run_state pc st n) =
      ebind (exec_op env opcode data pc' (run_state pc st n)) (\<lambda>t. eval_loop env (t\<lparr>st_pc := pc'\<rparr>))"
    using assms(1) by (intro eval_loop_next) simp
  from assms(2) have "\<not> opcode > OP_16" "\<not> disabled_opcode opcode"
    by (auto simp: disabled_opcode_def word_le_nat_alt word_less_nat_alt)
  with assms(2-5) show ?thesis unfolding next_op by (simp add: exec_op_def exec_body_def count_op_def)
qed

lemma EvalScript_P2PKH:
  assumes p2pkh: "IsPayToPublicKeyHash (ev_script env)" and len: "length st + 4 \<le> MAX_STACK_SIZE"
  shows "EvalScript env (key # vchSig # st) =
    (if Hash160 key = take 20 (drop 3 (ev_script env)) then op_checksig env OP_CHECKSIG 0 (key # vchSig # st)
     else Inl SCRIPT_ERR_EQUALVERIFY)"
proof -
  define h where "h = take 20 (drop 3 (ev_script env))"
  have h: "length h = 20" and size: "length (ev_script env) = 25"
    using p2pkh by (simp_all add: h_def IsPayToPublicKeyHash_def)
  note ops = p2pkh_ops [OF p2pkh, folded h_def]
  note defs = stack_op_def disabled_opcode_def MAX_OPS_PER_SCRIPT_def
  have dup: "eval_loop env (run_state 0 (key # vchSig # st) 0) = eval_loop env (run_state 1 (key # key # vchSig # st) 1)"
    using len by (subst run_stack_op [OF ops(1), where f = op_dup]) (auto simp: defs op_dup_def)
  have hash: "eval_loop env (run_state 1 (key # key # vchSig # st) 1) =
      eval_loop env (run_state 2 (Hash160 key # key # vchSig # st) 2)"
    using len by (subst run_stack_op [OF ops(2), where f = "op_hashes OP_HASH160"])
      (auto simp add: defs op_hashes_def Hash160_def)
  have push: "eval_loop env (run_state 2 (Hash160 key # key # vchSig # st) 2) =
      eval_loop env (run_state 23 (h # Hash160 key # key # vchSig # st) 2)"
    using len h by (subst run_push [OF ops(3)]) (simp_all add: CheckMinimalPush_def MAX_SCRIPT_ELEMENT_SIZE_def)
  have equal: "eval_loop env (run_state 23 (h # Hash160 key # key # vchSig # st) 2) =
      (if Hash160 key = h then eval_loop env (run_state 24 (key # vchSig # st) 3) else Inl SCRIPT_ERR_EQUALVERIFY)"
    using len by (subst run_stack_op [OF ops(4), where f = "op_equal OP_EQUALVERIFY"])
      (auto simp: defs op_equal_def split: if_splits)
  have "eval_loop env (run_state 24 (key # vchSig # st) 3) =
      ebind (op_checksig env OP_CHECKSIG 0 (key # vchSig # st)) (\<lambda>st'. eval_loop env (run_state 25 st' 4))"
    using len by (subst run_stack_op [OF ops(5), where f = "op_checksig env OP_CHECKSIG 0"])
      (auto simp: defs op_checksig_def Let_def split: option.splits if_splits)
  with size show ?thesis unfolding EvalScript_def run_state_simps dup hash push equal h_def [symmetric]
    by (cases "op_checksig env OP_CHECKSIG 0 (key # vchSig # st)") (simp_all add: eval_loop_end MAX_SCRIPT_SIZE_def)
qed

lemma eval_env_of_simps:
  "ev_script (eval_env_of s f c L) = s" "ev_flags (eval_env_of s f c L) = f" "ev_checker (eval_env_of s f c L) = c"
  "ev_sigversion (eval_env_of s f c L) = SIGVERSION_BASE" "ev_CheckLowS (eval_env_of s f c L) = L"
  by (simp_all add: eval_env_of_def)

text \<open>The usual spender's script: two pushes.\<close>

lemma push_opcode_le: "push_opcode_of b \<le> OP_PUSHDATA4"
  by (auto simp: push_opcode_of_def word_le_nat_alt unat_word_of_nat_small)

lemma CheckMinimalPush_push: "2 \<le> length b \<Longrightarrow> length b \<le> 65535 \<Longrightarrow> CheckMinimalPush b (push_opcode_of b)"
  by (auto simp: CheckMinimalPush_def push_opcode_of_def unat_word_of_nat_small)

lemma two_pushes:
  assumes "length x \<le> MAX_SCRIPT_ELEMENT_SIZE" and "length y \<le> MAX_SCRIPT_ELEMENT_SIZE"
  defines "script \<equiv> push_data (push_data [] x) y"
  shows "GetOp2 script 0 = (True, length (push_data [] x), push_opcode_of x, x)"
    and "GetOp2 script (length (push_data [] x)) = (True, length script, push_opcode_of y, y)"
    and "length script \<le> MAX_SCRIPT_SIZE"
  using assms GetOp2_push_0 [of x "push_data [] y"] GetOp2_push_data [of y "push_data [] x" "[]"]
  by (simp_all add: push_data_append [of "push_data [] x"] MAX_SCRIPT_ELEMENT_SIZE_def)
     (simp add: push_data_def MAX_SCRIPT_SIZE_def)

lemma IsPushOnly_two_pushes:
  assumes "length x \<le> MAX_SCRIPT_ELEMENT_SIZE" and "length y \<le> MAX_SCRIPT_ELEMENT_SIZE"
  shows "IsPushOnly (push_data (push_data [] x) y)"
proof -
  have "\<not> push_opcode_of b > OP_16" for b
    using push_opcode_le [of b] by (simp add: word_le_nat_alt word_less_nat_alt)
  moreover note two_pushes [OF assms] GetOp2_end [OF two_pushes(1) [OF assms]] GetOp2_end [OF two_pushes(2) [OF assms]]
  ultimately show ?thesis
    by (simp add: IsPushOnly_def IsPushOnly_from_def ops_from.simps [of _ 0]
        ops_from.simps [of _ "length (push_data [] x)"] ops_from.simps [of _ "length (push_data (push_data [] x) y)"])
qed

lemma EvalScript_two_pushes:
  assumes "2 \<le> length x" and "length x \<le> MAX_SCRIPT_ELEMENT_SIZE" and "2 \<le> length y"
    and "length y \<le> MAX_SCRIPT_ELEMENT_SIZE" and "ev_script env = push_data (push_data [] x) y"
  shows "EvalScript env [] = Inr [y, x]"
proof -
  note ops = two_pushes [OF assms(2,4), folded assms(5)]
  have "eval_loop env (run_state 0 [] 0) = eval_loop env (run_state (length (push_data [] x)) [x] 0)"
    using assms by (intro run_push [OF ops(1) push_opcode_le])
      (simp_all add: CheckMinimalPush_push MAX_STACK_SIZE_def MAX_SCRIPT_ELEMENT_SIZE_def)
  also have "\<dots> = eval_loop env (run_state (length (ev_script env)) [y, x] 0)"
    using assms by (intro run_push [OF ops(2) push_opcode_le])
      (simp_all add: CheckMinimalPush_push MAX_STACK_SIZE_def MAX_SCRIPT_ELEMENT_SIZE_def)
  finally show ?thesis using ops(3) by (simp add: EvalScript_def eval_loop_end)
qed

text \<open>
  Pay to public key hash (C14): an output whose script \<open>IsPayToPublicKeyHash\<close> recognises is
  spent by the pushes of a signature and a key exactly when the key has the hash in the
  script, the encodings are those the flags ask for, and the checker accepts the signature
  for the key and the script (from which the signature is deleted).
\<close>

theorem VerifyScript_P2PKH:
  assumes "IsPayToPublicKeyHash pubKey"
    and "2 \<le> length vchSig" and "length vchSig \<le> MAX_SCRIPT_ELEMENT_SIZE"
    and "2 \<le> length key" and "length key \<le> MAX_SCRIPT_ELEMENT_SIZE"
    and "flag flags SCRIPT_VERIFY_CLEANSTACK \<Longrightarrow> flag flags SCRIPT_VERIFY_P2SH"
  shows "VerifyScript (push_data (push_data [] vchSig) key) pubKey flags checker L = Some SCRIPT_ERR_OK \<longleftrightarrow>
    Hash160 key = take 20 (drop 3 pubKey) \<and>
    CheckSignatureEncoding L vchSig flags = None \<and> CheckPubKeyEncoding key flags = None \<and>
    CheckSig checker vchSig key (snd (FindAndDelete pubKey (push_data [] vchSig))) SIGVERSION_BASE"
proof -
  define sig where "sig = push_data (push_data [] vchSig) key"
  have sig: "EvalScript (eval_env_of sig flags checker L) [] = Inr [key, vchSig]"
    using assms by (intro EvalScript_two_pushes) (simp_all add: eval_env_of_def sig_def)
  have push: "IsPushOnly sig" using assms(3,5) by (simp add: sig_def IsPushOnly_two_pushes)
  have pub: "EvalScript (eval_env_of pubKey flags checker L) [key, vchSig] =
      (if Hash160 key = take 20 (drop 3 pubKey)
       then op_checksig (eval_env_of pubKey flags checker L) OP_CHECKSIG 0 [key, vchSig]
       else Inl SCRIPT_ERR_EQUALVERIFY)"
    using EvalScript_P2PKH [of "eval_env_of pubKey flags checker L" "[]"] assms(1)
    by (simp add: eval_env_of_def MAX_STACK_SIZE_def)
  have "\<not> IsPayToScriptHash pubKey" using assms(1) by (simp add: IsPayToPublicKeyHash_def IsPayToScriptHash_def)
  moreover have "verify_clean flags [x] = Some SCRIPT_ERR_OK" for x using assms(6) by (simp add: verify_clean_def)
  ultimately show ?thesis unfolding sig_def [symmetric] VerifyScript_OK
    by (auto simp: sig pub push op_checksig_def check_encodings_def delete_sig_def script_code_def eval_env_of_simps
        bool_val_def vchTrue_def vchFalse_def Let_def split: option.splits if_splits)
qed

text \<open>
  Witness: an output to the hash of the key \<open>02 07\<close>, with no demands on encodings and a
  checker that accepts the signature \<open>30 01\<close>.
\<close>

definition demo_key :: bytes where "demo_key = [2, 7]"
definition demo_checker :: BaseSignatureChecker where
  "demo_checker = base_checker\<lparr>CheckSig := (\<lambda>vchSig _ _ _. vchSig = [0x30, 1])\<rparr>"

lemma demo_p2pkh:
  "IsPayToPublicKeyHash ([OP_DUP, OP_HASH160, 0x14] @ Hash160 demo_key @ [OP_EQUALVERIFY, OP_CHECKSIG])"
  "take 20 (drop 3 ([OP_DUP, OP_HASH160, 0x14] @ Hash160 demo_key @ [OP_EQUALVERIFY, OP_CHECKSIG])) = Hash160 demo_key"
  by (simp_all add: IsPayToPublicKeyHash_def nth_append nth_Cons')

theorem VerifyScript_P2PKH_witness:
  "VerifyScript (push_data (push_data [] [0x30, 1]) demo_key)
     ([OP_DUP, OP_HASH160, 0x14] @ Hash160 demo_key @ [OP_EQUALVERIFY, OP_CHECKSIG])
     SCRIPT_VERIFY_P2SH demo_checker (\<lambda>_. True) = Some SCRIPT_ERR_OK"
proof -
  have len: "2 \<le> length [0x30, 1 :: u8]" "length [0x30, 1 :: u8] \<le> MAX_SCRIPT_ELEMENT_SIZE" "2 \<le> length demo_key"
    "length demo_key \<le> MAX_SCRIPT_ELEMENT_SIZE" by code_simp+
  have enc: "CheckSignatureEncoding (\<lambda>_. True) [0x30, 1] SCRIPT_VERIFY_P2SH = None"
    "CheckPubKeyEncoding demo_key SCRIPT_VERIFY_P2SH = None" by code_simp+
  show ?thesis
    by (subst VerifyScript_P2PKH [OF demo_p2pkh(1) len softfork_demo(3)], unfold demo_p2pkh(2))
       (simp add: enc demo_checker_def)
qed

end
