(* ===== verification/Pub_Key.thy ===== *)
theory Pub_Key
  imports Hash_Functions
begin

text \<open>
  Public keys as bytes (\<open>pubkey.h\<close>): the length given by the header byte and validity of
  the form.  Whether the bytes are a point of the curve is not decided here.
\<close>

text \<open>The bytes of a key; an invalid key is the header byte \<open>0xFF\<close>.\<close>

type_synonym CPubKey = bytes

definition CPubKey_GetLen :: "u8 \<Rightarrow> nat" where
  "CPubKey_GetLen chHeader =
     (if chHeader = 2 \<or> chHeader = 3 then 33 else if chHeader = 4 \<or> chHeader = 6 \<or> chHeader = 7 then 65 else 0)"

definition CPubKey_Invalid :: CPubKey where
  "CPubKey_Invalid = [0xff]"

definition CPubKey_Set :: "bytes \<Rightarrow> CPubKey" where
  "CPubKey_Set vch =
     (let len = (if vch = [] then 0 else CPubKey_GetLen (vch ! 0))
      in if len \<noteq> 0 \<and> len = length vch then take len vch else CPubKey_Invalid)"

definition CPubKey_size :: "CPubKey \<Rightarrow> nat" where
  "CPubKey_size key = CPubKey_GetLen (key ! 0)"

definition CPubKey_IsValid :: "CPubKey \<Rightarrow> bool" where
  "CPubKey_IsValid key \<longleftrightarrow> CPubKey_size key > 0"

lemma CPubKey_Set_IsValid: "CPubKey_IsValid (CPubKey_Set vch) \<longleftrightarrow> vch \<noteq> [] \<and> CPubKey_GetLen (vch ! 0) = length vch"
  by (auto simp: CPubKey_Set_def CPubKey_IsValid_def CPubKey_size_def CPubKey_Invalid_def Let_def CPubKey_GetLen_def
      split: if_splits)

end
