(* ===== verification/Sighash.thy ===== *)
theory Sighash
  imports Interpreter Pub_Key
begin

text \<open>
  Signature hashes and the transaction signature checker (\<open>script/interpreter.cpp\<close>): the
  serializer that blanks parts of the spending transaction in place, \<open>SignatureHash\<close>, and
  the checks of signatures, lock times and sequence numbers.  The hash type is the bit
  pattern of an \<open>int\<close>; verification on the curve is an argument.
\<close>

unbundle bit_operations_syntax

subsection \<open>The serializer\<close>

record CTransactionSignatureSerializer =
  txTo :: CTransaction
  scriptCode :: CScript
  nIn :: nat
  fAnyoneCanPay :: bool
  fHashSingle :: bool
  fHashNone :: bool

definition sig_serializer :: "CTransaction \<Rightarrow> CScript \<Rightarrow> nat \<Rightarrow> u32 \<Rightarrow> CTransactionSignatureSerializer" where
  "sig_serializer tx code n nHashType =
     \<lparr>txTo = tx, scriptCode = code, nIn = n,
      fAnyoneCanPay = (nHashType AND ucast SIGHASH_ANYONECANPAY \<noteq> 0),
      fHashSingle = (nHashType AND 0x1f = ucast SIGHASH_SINGLE),
      fHashNone = (nHashType AND 0x1f = ucast SIGHASH_NONE)\<rparr>"

text \<open>
  The second loop of \<open>SerializeScriptCode\<close>: the bytes written between separators, and the
  positions \<open>it\<close> and \<open>itBegin\<close> after the loop.
\<close>

function separator_loop :: "CScript \<Rightarrow> nat \<Rightarrow> nat \<Rightarrow> bytes \<times> nat \<times> nat" where
  "separator_loop code it itBegin =
     (let (ok, it, opcode, _) = GetOp2 code it
      in if ok then
           (if opcode = OP_CODESEPARATOR then
              let (out, r) = separator_loop code it it in (drop itBegin (take (it - 1) code) @ out, r)
            else separator_loop code it itBegin)
         else ([], it, itBegin))"
  by pat_completeness auto
termination
  by (relation "measure (\<lambda>(code, it, _). length code - it)") (auto dest!: GetOp2_advances [OF sym])

declare separator_loop.simps [simp del]

text \<open>The first loop counts the separators the way \<open>Find\<close> does.\<close>

definition SerializeScriptCode :: "CTransactionSignatureSerializer \<Rightarrow> bytes" where
  "SerializeScriptCode z =
     (let code = scriptCode z;
          nCodeSeparators = Find code OP_CODESEPARATOR;
          (out, it, itBegin) = separator_loop code 0 0
      in WriteCompactSize (word_of_nat (length code - nCodeSeparators)) @ out @
         (if itBegin \<noteq> length code then drop itBegin (take it code) else []))"

definition SerializeInput :: "CTransactionSignatureSerializer \<Rightarrow> nat \<Rightarrow> bytes" where
  "SerializeInput z nInput =
     (let nInput = (if fAnyoneCanPay z then nIn z else nInput)
      in ser_COutPoint (prevout (vin (txTo z) ! nInput)) @
         (if nInput \<noteq> nIn z then ser_bytes [] else SerializeScriptCode z) @
         (if nInput \<noteq> nIn z \<and> (fHashSingle z \<or> fHashNone z) then WriteLE32 0
          else WriteLE32 (nSequence (vin (txTo z) ! nInput))))"

definition SerializeOutput :: "CTransactionSignatureSerializer \<Rightarrow> nat \<Rightarrow> bytes" where
  "SerializeOutput z nOutput =
     (if fHashSingle z \<and> nOutput \<noteq> nIn z then ser_CTxOut CTxOut_null else ser_CTxOut (vout (txTo z) ! nOutput))"

definition sig_Serialize :: "CTransactionSignatureSerializer \<Rightarrow> bytes" where
  "sig_Serialize z =
     (let tx = txTo z;
          nInputs = (if fAnyoneCanPay z then 1 else length (vin tx));
          nOutputs = (if fHashNone z then 0 else if fHashSingle z then nIn z + 1 else length (vout tx))
      in WriteLE32 (n32bitVersion (tx_nVersion tx) (tx_nType tx)) @
         WriteCompactSize (word_of_nat nInputs) @ concat (map (SerializeInput z) [0..<nInputs]) @
         WriteCompactSize (word_of_nat nOutputs) @ concat (map (SerializeOutput z) [0..<nOutputs]) @
         WriteLE32 (nLockTime tx) @
         (if has_payload (tx_nVersion tx) (tx_nType tx) then ser_bytes (vExtraPayload tx) else []))"

definition GetPrevoutHash :: "CTransaction \<Rightarrow> uint256" where
  "GetPrevoutHash tx = HashWriter_GetHash (map (\<lambda>i. ser_COutPoint (prevout i)) (vin tx))"

definition GetSequenceHash :: "CTransaction \<Rightarrow> uint256" where
  "GetSequenceHash tx = HashWriter_GetHash (map (\<lambda>i. WriteLE32 (nSequence i)) (vin tx))"

definition GetOutputsHash :: "CTransaction \<Rightarrow> uint256" where
  "GetOutputsHash tx = HashWriter_GetHash (map ser_CTxOut (vout tx))"

record PrecomputedTransactionData =
  hashPrevouts :: uint256
  hashSequence :: uint256
  hashOutputs :: uint256

definition precompute :: "CTransaction \<Rightarrow> PrecomputedTransactionData" where
  "precompute tx = \<lparr>hashPrevouts = GetPrevoutHash tx, hashSequence = GetSequenceHash tx, hashOutputs = GetOutputsHash tx\<rparr>"

text \<open>The blob of the number one, and the hash; amount, version and cache are not used.\<close>

definition sighash_one :: uint256 where
  "sighash_one = 1 # replicate 31 0"

definition SignatureHash :: "CScript \<Rightarrow> CTransaction \<Rightarrow> nat \<Rightarrow> u32 \<Rightarrow> uint256" where
  "SignatureHash code tx n nHashType =
     (if n \<ge> length (vin tx) then sighash_one
      else if nHashType AND 0x1f = ucast SIGHASH_SINGLE \<and> n \<ge> length (vout tx) then sighash_one
      else HashWriter_GetHash [sig_Serialize (sig_serializer tx code n nHashType), WriteLE32 nHashType])"

subsection \<open>The checker\<close>

definition tx_CheckSig ::
  "(CPubKey \<Rightarrow> uint256 \<Rightarrow> bytes \<Rightarrow> bool) \<Rightarrow> CTransaction \<Rightarrow> nat \<Rightarrow>
   valtype \<Rightarrow> valtype \<Rightarrow> CScript \<Rightarrow> SigVersion \<Rightarrow> bool" where
  "tx_CheckSig Verify tx n vchSigIn vchPubKey code sigversion =
     (let pubkey = CPubKey_Set vchPubKey
      in if \<not> CPubKey_IsValid pubkey then False
         else if vchSigIn = [] then False
         else let nHashType = ucast (List.last vchSigIn); vchSig = butlast vchSigIn;
                  sighash = SignatureHash code tx n nHashType
              in Verify pubkey sighash vchSig)"

definition tx_CheckLockTime :: "CTransaction \<Rightarrow> nat \<Rightarrow> int \<Rightarrow> bool" where
  "tx_CheckLockTime tx n lock =
     (if \<not> (nLockTime tx < LOCKTIME_THRESHOLD \<and> lock < uint LOCKTIME_THRESHOLD \<or>
            nLockTime tx \<ge> LOCKTIME_THRESHOLD \<and> lock \<ge> uint LOCKTIME_THRESHOLD) then False
      else if lock > uint (nLockTime tx) then False
      else if SEQUENCE_FINAL = nSequence (vin tx ! n) then False
      else True)"

definition tx_CheckSequence :: "CTransaction \<Rightarrow> nat \<Rightarrow> int \<Rightarrow> bool" where
  "tx_CheckSequence tx n sequence =
     (let txToSequence = uint (nSequence (vin tx ! n)) in
      if (scast (tx_nVersion tx) :: u32) < 2 then False
      else if txToSequence AND uint SEQUENCE_LOCKTIME_DISABLE_FLAG \<noteq> 0 then False
      else let nLockTimeMask = uint (SEQUENCE_LOCKTIME_TYPE_FLAG OR SEQUENCE_LOCKTIME_MASK);
               txToSequenceMasked = txToSequence AND nLockTimeMask;
               nSequenceMasked = sequence AND nLockTimeMask;
               type_flag = uint SEQUENCE_LOCKTIME_TYPE_FLAG
           in if \<not> (txToSequenceMasked < type_flag \<and> nSequenceMasked < type_flag \<or>
                     txToSequenceMasked \<ge> type_flag \<and> nSequenceMasked \<ge> type_flag) then False
              else if nSequenceMasked > txToSequenceMasked then False
              else True)"

definition TransactionSignatureChecker ::
  "(CPubKey \<Rightarrow> uint256 \<Rightarrow> bytes \<Rightarrow> bool) \<Rightarrow> CTransaction \<Rightarrow> nat \<Rightarrow> BaseSignatureChecker" where
  "TransactionSignatureChecker Verify tx n =
     \<lparr>CheckSig = tx_CheckSig Verify tx n, CheckLockTime = tx_CheckLockTime tx n,
      CheckSequence = tx_CheckSequence tx n\<rparr>"

subsection \<open>The reference\<close>

text \<open>
  The older implementation kept in \<open>test/sighash_tests.cpp\<close>: copy the transaction, blank
  parts of the copy, serialize it.
\<close>

definition blank_sequences :: "nat \<Rightarrow> CTxIn list \<Rightarrow> CTxIn list" where
  "blank_sequences n ins = map (\<lambda>i. if i \<noteq> n then (ins ! i)\<lparr>nSequence := 0\<rparr> else ins ! i) [0..<length ins]"

definition SignatureHashOld :: "CScript \<Rightarrow> CTransaction \<Rightarrow> nat \<Rightarrow> u32 \<Rightarrow> uint256" where
  "SignatureHashOld code tx n nHashType =
     (if n \<ge> length (vin tx) then sighash_one
      else let code = snd (FindAndDelete code (push_opcode [] OP_CODESEPARATOR));
               ins = (map (\<lambda>i. i\<lparr>scriptSig := []\<rparr>) (vin tx))[n := (vin tx ! n)\<lparr>scriptSig := code\<rparr>];
               none = (nHashType AND 0x1f = ucast SIGHASH_NONE);
               single = (nHashType AND 0x1f = ucast SIGHASH_SINGLE)
           in if \<not> none \<and> single \<and> n \<ge> length (vout tx) then sighash_one
              else let outs = (if none then []
                               else if single then replicate n CTxOut_null @ [vout tx ! n] else vout tx);
                       ins = (if none \<or> single then blank_sequences n ins else ins);
                       ins = (if nHashType AND ucast SIGHASH_ANYONECANPAY \<noteq> 0 then [ins ! n] else ins);
                       txTmp = tx\<lparr>vin := ins, vout := outs\<rparr>
                   in HashWriter_GetHash [ser_CTransaction txTmp, WriteLE32 nHashType])"

end
