(* ===== verification/Sighash_Props.thy ===== *)
theory Sighash_Props
  imports Sighash Script_Props
begin

text \<open>
  Signature hashes: the in-place serializer agrees with the older implementation that copies
  the transaction, and what each hash type commits to.
\<close>

unbundle bit_operations_syntax

subsection \<open>Scripts without code separators\<close>

definition well_formed_from :: "CScript \<Rightarrow> nat \<Rightarrow> bool" where
  "well_formed_from code pc \<longleftrightarrow> snd (ops_from code pc)"

lemma well_formed_next:
  assumes "well_formed_from code pc" and "pc < length code"
  obtains pc' opcode data where "GetOp2 code pc = (True, pc', opcode, data)" and "well_formed_from code pc'"
    and "fst (ops_from code pc) = (opcode, data) # fst (ops_from code pc')"
proof -
  obtain ok pc' opcode data where get: "GetOp2 code pc = (ok, pc', opcode, data)" by (metis prod_cases4)
  obtain ops good where o: "ops_from code pc' = (ops, good)" by (cases "ops_from code pc'")
  from assms get o have "ok" "good" "fst (ops_from code pc) = (opcode, data) # ops"
    unfolding well_formed_from_def by (simp_all add: ops_from.simps [of code pc] split: if_splits)
  with get o show thesis by (intro that [of pc' opcode data]) (simp_all add: well_formed_from_def)
qed

lemma GetOp2_past: "\<not> pc < length code \<Longrightarrow> GetOp2 code pc = (False, pc, OP_INVALIDOPCODE, [])"
  by (simp add: GetOp2_def)

lemma well_formed_induct [consumes 2, case_names past instr]:
  assumes "well_formed_from code pc" and "pc \<le> length code"
    and past: "P (length code)"
    and instr: "\<And>pc pc' opcode data. pc < pc' \<Longrightarrow> pc' \<le> length code \<Longrightarrow>
      GetOp2 code pc = (True, pc', opcode, data) \<Longrightarrow> well_formed_from code pc' \<Longrightarrow>
      fst (ops_from code pc) = (opcode, data) # fst (ops_from code pc') \<Longrightarrow> P pc' \<Longrightarrow> P pc"
  shows "P pc"
  using assms(1,2)
proof (induction "length code - pc" arbitrary: pc rule: less_induct)
  case less
  show ?case
  proof (cases "pc < length code")
    case True
    from less.prems(1) True obtain pc' opcode data where n: "GetOp2 code pc = (True, pc', opcode, data)"
      "well_formed_from code pc'" "fst (ops_from code pc) = (opcode, data) # fst (ops_from code pc')"
      by (rule well_formed_next)
    from GetOp2_advances [OF n(1)] True less.hyps n show ?thesis by (intro instr [OF _ _ n]) auto
  next
    case False
    with less.prems past show ?thesis by simp
  qed
qed

text \<open>The bytes of the instructions from \<open>pc\<close> on, apart from the separators.\<close>

function strip :: "CScript \<Rightarrow> nat \<Rightarrow> bytes" where
  "strip code pc =
     (let (ok, pc', opcode, _) = GetOp2 code pc
      in if ok then (if opcode = OP_CODESEPARATOR then [] else drop pc (take pc' code)) @ strip code pc' else [])"
  by pat_completeness auto
termination
  by (relation "measure (\<lambda>(code, pc). length code - pc)") (auto dest!: GetOp2_advances [OF sym])

declare strip.simps [simp del]

lemma strip_next:
  "GetOp2 code pc = (True, pc', opcode, data) \<Longrightarrow>
   strip code pc = (if opcode = OP_CODESEPARATOR then [] else drop pc (take pc' code)) @ strip code pc'"
  by (subst strip.simps) simp

lemma strip_past: "\<not> pc < length code \<Longrightarrow> strip code pc = []"
  by (subst strip.simps) (simp add: GetOp2_past)

lemma GetOp2_high:
  assumes "GetOp2 code pc = (True, pc', opcode, data)" and "opcode > OP_PUSHDATA4"
  shows "pc' = Suc pc \<and> code ! pc = opcode"
  using assms by (auto simp: GetOp2_def Let_def not_le split: if_splits)

lemma length_strip:
  assumes "well_formed_from code pc" and "pc \<le> length code"
  shows "length (strip code pc) + length (filter (\<lambda>(opcode, _). opcode = OP_CODESEPARATOR) (fst (ops_from code pc))) =
    length code - pc"
  using assms
proof (induction rule: well_formed_induct)
  case past
  then show ?case by (simp add: strip_past ops_from.simps)
next
  case (instr pc pc' opcode data)
  then show ?case by (auto simp: strip_next dest: GetOp2_high)
qed

lemma drop_take_split:
  assumes "a \<le> b" and "b \<le> c"
  shows "drop a (take c xs) = drop a (take b xs) @ drop b (take c xs)"
proof -
  have "drop a (take c xs) = drop a (take b xs @ drop b (take c xs))" by (simp only: take_split [OF assms(2), symmetric])
  also have "\<dots> = drop a (take b xs) @ drop (a - min b (length xs)) (drop b (take c xs))" by (simp add: min.commute)
  also have "drop (a - min b (length xs)) (drop b (take c xs)) = drop b (take c xs)"
    using assms(1) by (cases "b \<le> length xs") auto
  finally show ?thesis .
qed

lemma separator_loop_strip:
  assumes "well_formed_from code it" and "it \<le> length code" and "itBegin \<le> it"
  shows "case separator_loop code it itBegin of (out, it', itBegin') \<Rightarrow>
    it' = length code \<and> itBegin' \<le> length code \<and>
    out @ drop itBegin' code = drop itBegin (take it code) @ strip code it"
  using assms
proof (induction arbitrary: itBegin rule: well_formed_induct)
  case past
  then show ?case by (subst separator_loop.simps) (simp add: GetOp2_past strip_past)
next
  case (instr it it' opcode data)
  show ?case
  proof (cases "opcode = OP_CODESEPARATOR")
    case True
    obtain out r b where l: "separator_loop code it' it' = (out, r, b)" by (metis prod_cases3)
    from instr(3) True have "it' = Suc it" by (auto dest: GetOp2_high)
    with l True instr(3) instr(6) [of it'] show ?thesis
      by (subst separator_loop.simps) (simp add: strip_next)
  next
    case False
    have "drop itBegin (take it' code) = drop itBegin (take it code) @ drop it (take it' code)"
      using instr(1,7) by (intro drop_take_split) auto
    then have "drop itBegin (take it' code) @ strip code it' = drop itBegin (take it code) @ strip code it"
      using False by (simp add: strip_next [OF instr(3)])
    moreover have "separator_loop code it itBegin = separator_loop code it' itBegin"
      using False by (subst separator_loop.simps) (simp add: instr(3))
    ultimately show ?thesis using instr(6) [of itBegin] instr(1,7) by simp
  qed
qed

lemma GetOp2_separator:
  "pc < length code \<Longrightarrow> code ! pc = OP_CODESEPARATOR \<Longrightarrow> GetOp2 code pc = (True, Suc pc, OP_CODESEPARATOR, [])"
  by (simp add: GetOp2_def Let_def)

lemma well_formed_step: "well_formed_from code pc \<Longrightarrow> GetOp2 code pc = (True, pc', opcode, data) \<Longrightarrow> well_formed_from code pc'"
  by (erule well_formed_next [OF _ GetOp2_end]) auto

lemma skip_separators:
  "skip_matches code [OP_CODESEPARATOR] pc n = (pc', n') \<Longrightarrow> well_formed_from code pc \<Longrightarrow> pc \<le> length code \<Longrightarrow>
   strip code pc' = strip code pc \<and> well_formed_from code pc' \<and> pc \<le> pc' \<and> pc' \<le> length code \<and>
   (pc' < length code \<longrightarrow> code ! pc' \<noteq> OP_CODESEPARATOR)"
proof (induction code "[OP_CODESEPARATOR]" pc n rule: skip_matches.induct)
  case (1 code pc n)
  have m: "1 \<le> length code - pc \<and> take 1 (drop pc code) = [OP_CODESEPARATOR] \<longleftrightarrow>
      pc < length code \<and> code ! pc = OP_CODESEPARATOR"
    by (auto simp: take_Suc_conv_app_nth)
  show ?case
  proof (cases "pc < length code \<and> code ! pc = OP_CODESEPARATOR")
    case True
    then have get: "GetOp2 code pc = (True, Suc pc, OP_CODESEPARATOR, [])" by (simp add: GetOp2_separator)
    have "skip_matches code [OP_CODESEPARATOR] (Suc pc) (n + 1) = (pc', n')"
      using "1.prems"(1) True m by (subst (asm) skip_matches.simps) simp
    with "1.hyps" True m well_formed_step [OF "1.prems"(2) get] show ?thesis
      by (simp add: strip_next [OF get])
  next
    case False
    with "1.prems" m show ?thesis by (subst (asm) (1) skip_matches.simps) (auto split: if_splits)
  qed
qed

lemma find_delete_strip:
  "find_delete_loop code [OP_CODESEPARATOR] pc2 pc res n = (n', res', p') \<Longrightarrow>
   well_formed_from code pc \<Longrightarrow> pc2 \<le> pc \<Longrightarrow> pc \<le> length code \<Longrightarrow>
   p' = length code \<and> res' = res @ drop pc2 (take pc code) @ strip code pc"
proof (induction code "[OP_CODESEPARATOR]" pc2 pc res n rule: find_delete_loop.induct)
  case (1 code pc2 pc res n)
  obtain pc1 n1 where sk: "skip_matches code [OP_CODESEPARATOR] pc n = (pc1, n1)" by force
  obtain ok q opc d where g: "GetOp2 code pc1 = (ok, q, opc, d)" by (metis prod_cases4)
  note s = skip_separators [OF sk "1.prems"(2,4)]
  define res1 where "res1 = res @ drop pc2 (take pc code)"
  have step: "find_delete_loop code [OP_CODESEPARATOR] pc2 pc res n =
      (if ok then find_delete_loop code [OP_CODESEPARATOR] pc1 q res1 n1 else (n1, res1, pc1))"
    by (subst find_delete_loop.simps) (simp add: sk g res1_def Let_def)
  show ?case
  proof (cases "pc1 < length code")
    case True
    from s True g have ok: ok by (auto elim: well_formed_next)
    with g have get: "GetOp2 code pc1 = (True, q, opc, d)" by simp
    have "opc \<noteq> OP_CODESEPARATOR" using s True get by (auto dest: GetOp2_high)
    then have strip: "strip code pc = drop pc1 (take q code) @ strip code q"
      using s strip_next [OF get] by simp
    have "find_delete_loop code [OP_CODESEPARATOR] pc1 q res1 n1 = (n', res', p')" using step "1.prems"(1) ok by simp
    moreover have "well_formed_from code q" using s get by (blast intro: well_formed_step)
    ultimately have "p' = length code \<and> res' = res1 @ drop pc1 (take q code) @ strip code q"
      using "1.hyps" [OF res1_def sk [symmetric] refl g [symmetric] refl refl] ok GetOp2_advances [OF get] by simp
    then show ?thesis unfolding strip by (simp add: res1_def)
  next
    case False
    with s g have "\<not> ok" "pc1 = length code" by (auto simp: GetOp2_past)
    with step "1.prems"(1) s show ?thesis by (simp add: res1_def strip_past)
  qed
qed

lemma deletes_0: "deletes b n s r \<Longrightarrow> n = 0 \<Longrightarrow> r = s"
  by (induction rule: deletes.induct) auto

lemma FindAndDelete_separators:
  assumes "well_formed_from code 0"
  shows "snd (FindAndDelete code [OP_CODESEPARATOR]) = strip code 0"
proof -
  obtain n res p where l: "find_delete_loop code [OP_CODESEPARATOR] 0 0 [] 0 = (n, res, p)" by (metis prod_cases3)
  from find_delete_strip [OF this assms] have r: "p = length code" "res = strip code 0" by simp_all
  have "deletes [OP_CODESEPARATOR] n (take p code) res"
    using find_delete_loop_spec [OF _ _ _ l] del_nil [of "[OP_CODESEPARATOR]"] by simp
  with r have "n = 0 \<Longrightarrow> strip code 0 = code" by (auto dest: deletes_0)
  with l r show ?thesis by (auto simp: FindAndDelete_def)
qed

lemma SerializeScriptCode_strip:
  assumes "well_formed_from (scriptCode z) 0"
  shows "SerializeScriptCode z = ser_bytes (strip (scriptCode z) 0)"
proof -
  obtain out it b where l: "separator_loop (scriptCode z) 0 0 = (out, it, b)" by (metis prod_cases3)
  have "it = length (scriptCode z)" "b \<le> length (scriptCode z)" "out @ drop b (scriptCode z) = strip (scriptCode z) 0"
    using separator_loop_strip [OF assms, of 0] by (simp_all add: l)
  moreover have "length (scriptCode z) - Find (scriptCode z) OP_CODESEPARATOR = length (strip (scriptCode z) 0)"
    using length_strip [OF assms] by (simp add: Find_def)
  ultimately show ?thesis by (auto simp: SerializeScriptCode_def l ser_bytes_def Let_def)
qed

subsection \<open>Agreement with the reference\<close>

definition is_none :: "u32 \<Rightarrow> bool" where "is_none t \<longleftrightarrow> t AND 0x1f = ucast SIGHASH_NONE"
definition is_single :: "u32 \<Rightarrow> bool" where "is_single t \<longleftrightarrow> t AND 0x1f = ucast SIGHASH_SINGLE"
definition is_anyone :: "u32 \<Rightarrow> bool" where "is_anyone t \<longleftrightarrow> t AND ucast SIGHASH_ANYONECANPAY \<noteq> 0"

lemmas type_folds = is_none_def [symmetric] is_single_def [symmetric] is_anyone_def [symmetric]

lemma none_not_single: "is_none t \<Longrightarrow> \<not> is_single t"
  by (simp add: is_none_def is_single_def SIGHASH_NONE_def SIGHASH_SINGLE_def)

text \<open>The blanked copy: input \<open>i\<close> and the lists of inputs and outputs.\<close>

definition sig_input :: "bytes \<Rightarrow> CTransaction \<Rightarrow> nat \<Rightarrow> u32 \<Rightarrow> nat \<Rightarrow> CTxIn" where
  "sig_input code tx n t i =
     \<lparr>prevout = prevout (vin tx ! i), scriptSig = (if i = n then code else []),
      nSequence = (if i \<noteq> n \<and> (is_none t \<or> is_single t) then 0 else nSequence (vin tx ! i))\<rparr>"

definition sig_inputs :: "bytes \<Rightarrow> CTransaction \<Rightarrow> nat \<Rightarrow> u32 \<Rightarrow> CTxIn list" where
  "sig_inputs code tx n t =
     (if is_anyone t then [sig_input code tx n t n] else map (sig_input code tx n t) [0..<length (vin tx)])"

definition sig_outputs :: "CTransaction \<Rightarrow> nat \<Rightarrow> u32 \<Rightarrow> CTxOut list" where
  "sig_outputs tx n t =
     (if is_none t then [] else if is_single t then replicate n CTxOut_null @ [vout tx ! n] else vout tx)"

definition sig_tx :: "bytes \<Rightarrow> CTransaction \<Rightarrow> nat \<Rightarrow> u32 \<Rightarrow> CTransaction" where
  "sig_tx code tx n t = tx\<lparr>vin := sig_inputs code tx n t, vout := sig_outputs tx n t\<rparr>"

lemma serializer_sel:
  "txTo (sig_serializer tx code n t) = tx" "scriptCode (sig_serializer tx code n t) = code"
  "nIn (sig_serializer tx code n t) = n" "fAnyoneCanPay (sig_serializer tx code n t) = is_anyone t"
  "fHashSingle (sig_serializer tx code n t) = is_single t" "fHashNone (sig_serializer tx code n t) = is_none t"
  by (simp_all add: sig_serializer_def is_none_def is_single_def is_anyone_def)

lemma SerializeInput_ref:
  assumes "well_formed_from code 0"
  shows "SerializeInput (sig_serializer tx code n t) i =
    ser_CTxIn (sig_input (strip code 0) tx n t (if is_anyone t then n else i))"
  using SerializeScriptCode_strip [of "sig_serializer tx code n t"] assms
  by (simp add: SerializeInput_def sig_input_def ser_CTxIn_def serializer_sel Let_def)

lemma SerializeOutput_ref:
  assumes "i < length (sig_outputs tx n t)"
  shows "SerializeOutput (sig_serializer tx code n t) i = ser_CTxOut (sig_outputs tx n t ! i)"
  using assms by (auto simp: SerializeOutput_def sig_outputs_def serializer_sel nth_append none_not_single split: if_splits)

lemma sig_Serialize_ref:
  assumes "well_formed_from code 0"
  shows "sig_Serialize (sig_serializer tx code n t) = ser_CTransaction (sig_tx (strip code 0) tx n t)"
proof -
  let ?z = "sig_serializer tx code n t" and ?c = "strip code 0"
  have ins: "map (SerializeInput ?z) [0..<(if is_anyone t then 1 else length (vin tx))] =
      map ser_CTxIn (sig_inputs ?c tx n t)"
    by (auto simp: sig_inputs_def SerializeInput_ref [OF assms])
  have "map (SerializeOutput ?z) [0..<length (sig_outputs tx n t)] = map ser_CTxOut (sig_outputs tx n t)"
    by (rule nth_equalityI) (simp_all add: SerializeOutput_ref)
  note outs = this
  have no: "(if is_none t then 0 else if is_single t then n + 1 else length (vout tx)) = length (sig_outputs tx n t)"
    by (simp add: sig_outputs_def)
  have ni: "(if is_anyone t then 1 else length (vin tx)) = length (sig_inputs ?c tx n t)"
    by (simp add: sig_inputs_def)
  show ?thesis
    unfolding sig_Serialize_def serializer_sel Let_def no outs ins unfolding ni
    by (simp add: ser_CTransaction_def sig_tx_def ser_vector_def)
qed

lemma reference_inputs:
  fixes code :: bytes and t :: u32
  assumes "n < length (vin tx)"
  defines "ins \<equiv> (map (\<lambda>i. i\<lparr>scriptSig := []\<rparr>) (vin tx))[n := (vin tx ! n)\<lparr>scriptSig := code\<rparr>]"
  defines "ins' \<equiv> (if is_none t \<or> is_single t then blank_sequences n ins else ins)"
  shows "(if is_anyone t then [ins' ! n] else ins') = sig_inputs code tx n t"
proof -
  have "ins' = map (sig_input code tx n t) [0..<length (vin tx)]"
    by (rule nth_equalityI)
       (auto simp: ins'_def ins_def blank_sequences_def sig_input_def nth_list_update)
  with assms(1) show ?thesis by (simp add: sig_inputs_def)
qed

text \<open>
  (C8) The signature hash that serializes the spending transaction in place is the one of
  the older implementation that copies it, deletes the code separators with
  \<open>FindAndDelete\<close> and blanks the copy, for every transaction, input and hash type and every
  script that splits into instructions.
\<close>

theorem SignatureHash_reference:
  assumes "snd (ops_from code 0)"
  shows "SignatureHash code tx n nHashType = SignatureHashOld code tx n nHashType"
proof (cases "n < length (vin tx)")
  case True
  have wf: "well_formed_from code 0" using assms by (simp add: well_formed_from_def)
  note ins = reference_inputs [OF True, of nHashType "strip code 0"]
  have "SignatureHashOld code tx n nHashType =
      (if is_single nHashType \<and> n \<ge> length (vout tx) then sighash_one
       else HashWriter_GetHash [ser_CTransaction (sig_tx (strip code 0) tx n nHashType), WriteLE32 nHashType])"
    using True none_not_single [of nHashType]
    unfolding SignatureHashOld_def Let_def push_opcode_def append_Nil FindAndDelete_separators [OF wf] type_folds ins
    by (simp add: sig_tx_def sig_outputs_def)
  with True show ?thesis by (simp add: SignatureHash_def sig_Serialize_ref [OF wf] type_folds)
next
  case False
  then show ?thesis by (simp add: SignatureHash_def SignatureHashOld_def)
qed

text \<open>Witness: a script with a separator between two instructions.\<close>

definition demo_tx :: CTransaction where
  "demo_tx = \<lparr>tx_nVersion = 2, tx_nType = 0,
     vin = [\<lparr>prevout = COutPoint_null, scriptSig = [], nSequence = 7\<rparr>],
     vout = [\<lparr>nValue = 5, scriptPubKey = [OP_1], nRounds = - 10\<rparr>], nLockTime = 9, vExtraPayload = []\<rparr>"

theorem SignatureHash_reference_witness:
  "SignatureHash [OP_1, OP_CODESEPARATOR, OP_CHECKSIG] demo_tx 0 1 =
   SignatureHashOld [OP_1, OP_CODESEPARATOR, OP_CHECKSIG] demo_tx 0 1"
proof -
  have "snd (ops_from [OP_1, OP_CODESEPARATOR, OP_CHECKSIG] 0)" by code_simp
  then show ?thesis by (rule SignatureHash_reference)
qed

subsection \<open>What a hash type leaves open\<close>

lemma SerializeInput_cong:
  assumes "j = (if is_anyone t then n else i)" and "prevout (vin tx ! j) = prevout (vin tx' ! j)"
    and "nSequence (vin tx ! j) = nSequence (vin tx' ! j) \<or> j \<noteq> n \<and> (is_none t \<or> is_single t)"
  shows "SerializeInput (sig_serializer tx code n t) i = SerializeInput (sig_serializer tx' code n t) i"
proof -
  have "SerializeScriptCode (sig_serializer tx code n t) = SerializeScriptCode (sig_serializer tx' code n t)"
    by (simp add: SerializeScriptCode_def serializer_sel)
  then show ?thesis
    unfolding SerializeInput_def serializer_sel Let_def assms(1) [symmetric] using assms(2,3) by auto
qed

text \<open>
  (C33) What a signature does not commit to.  No signature hash depends on the scripts of the
  inputs; with \<open>SIGHASH_NONE\<close> and \<open>SIGHASH_SINGLE\<close> it does not depend on the sequence numbers
  of the other inputs; with \<open>SIGHASH_NONE\<close> it does not depend on the outputs, with
  \<open>SIGHASH_SINGLE\<close> only on the output at the index of the input, and with
  \<open>SIGHASH_ANYONECANPAY\<close> it does not depend on the other inputs at all.
\<close>

theorem SignatureHash_open:
  assumes "n < length (vin tx)" and "n < length ins"
    and ins: "if is_anyone t then prevout (ins ! n) = prevout (vin tx ! n) \<and> nSequence (ins ! n) = nSequence (vin tx ! n)
      else length ins = length (vin tx) \<and>
        list_all (\<lambda>i. prevout (ins ! i) = prevout (vin tx ! i) \<and>
          (nSequence (ins ! i) = nSequence (vin tx ! i) \<or> i \<noteq> n \<and> (is_none t \<or> is_single t))) [0..<length ins]"
    and outs: "if is_none t then True
      else if is_single t then n < length outs \<and> n < length (vout tx) \<and> outs ! n = vout tx ! n else outs = vout tx"
  shows "SignatureHash code (tx\<lparr>vin := ins, vout := outs\<rparr>) n t = SignatureHash code tx n t"
proof -
  let ?tx' = "tx\<lparr>vin := ins, vout := outs\<rparr>"
  define k where "k = (if is_anyone t then 1 else length (vin tx))"
  have k: "k = (if is_anyone t then 1 else length ins)" using ins by (auto simp: k_def)
  have "SerializeInput (sig_serializer ?tx' code n t) i = SerializeInput (sig_serializer tx code n t) i" if "i < k" for i
  proof (rule SerializeInput_cong [OF refl])
    let ?j = "if is_anyone t then n else i"
    have "prevout (ins ! ?j) = prevout (vin tx ! ?j) \<and>
        (nSequence (ins ! ?j) = nSequence (vin tx ! ?j) \<or> ?j \<noteq> n \<and> (is_none t \<or> is_single t))"
      using ins that by (cases "is_anyone t") (simp_all add: list_all_iff k)
    then show "prevout (vin ?tx' ! ?j) = prevout (vin tx ! ?j)"
      and "nSequence (vin ?tx' ! ?j) = nSequence (vin tx ! ?j) \<or> ?j \<noteq> n \<and> (is_none t \<or> is_single t)" by simp_all
  qed
  then have i: "map (SerializeInput (sig_serializer ?tx' code n t)) [0..<k] = map (SerializeInput (sig_serializer tx code n t)) [0..<k]"
    by simp
  define m where "m = (if is_none t then 0 else if is_single t then n + 1 else length (vout tx))"
  have m: "m = (if is_none t then 0 else if is_single t then n + 1 else length outs)" using outs by (auto simp: m_def)
  have "SerializeOutput (sig_serializer ?tx' code n t) i = SerializeOutput (sig_serializer tx code n t) i" if "i < m" for i
    using outs that by (auto simp: SerializeOutput_def serializer_sel m_def split: if_splits)
  then have o: "map (SerializeOutput (sig_serializer ?tx' code n t)) [0..<m] = map (SerializeOutput (sig_serializer tx code n t)) [0..<m]"
    by simp
  have sel: "vin ?tx' = ins" "vout ?tx' = outs" "nLockTime ?tx' = nLockTime tx" "tx_nVersion ?tx' = tx_nVersion tx"
    "tx_nType ?tx' = tx_nType tx" "vExtraPayload ?tx' = vExtraPayload tx" by simp_all
  have "sig_Serialize (sig_serializer ?tx' code n t) = sig_Serialize (sig_serializer tx code n t)"
    unfolding sig_Serialize_def serializer_sel Let_def sel k [symmetric] k_def [symmetric] m [symmetric] m_def [symmetric] i o ..
  moreover have "is_single t \<Longrightarrow> (n \<ge> length outs) = (n \<ge> length (vout tx))"
    using outs none_not_single [of t] by (auto split: if_splits)
  ultimately show ?thesis using assms(1,2) by (auto simp: SignatureHash_def type_folds)
qed

text \<open>
  Witness: type \<open>NONE | ANYONECANPAY\<close>, where an input is added and the output dropped, and type
  \<open>NONE\<close>, where the sequence number of the other input is changed.
\<close>

theorem SignatureHash_open_witness:
  "SignatureHash [OP_1] (demo_tx\<lparr>vin := vin demo_tx @ vin demo_tx, vout := []\<rparr>) 0 0x82 = SignatureHash [OP_1] demo_tx 0 0x82 \<and>
   SignatureHash [OP_1] (demo_tx\<lparr>vin := vin demo_tx @ [\<lparr>prevout = COutPoint_null, scriptSig = [], nSequence = 3\<rparr>], vout := []\<rparr>) 0 2 =
   SignatureHash [OP_1] (demo_tx\<lparr>vin := vin demo_tx @ vin demo_tx\<rparr>) 0 2"
proof -
  have t: "is_anyone 0x82" "is_none 0x82" "\<not> is_anyone 2" "is_none 2" by code_simp+
  have v: "vin demo_tx = [\<lparr>prevout = COutPoint_null, scriptSig = [], nSequence = 7\<rparr>]" by (simp add: demo_tx_def)
  show ?thesis
    using SignatureHash_open [where n = 0 and tx = demo_tx and ins = "vin demo_tx @ vin demo_tx" and t = "0x82" and outs = "[]" and code = "[OP_1]"]
      SignatureHash_open [where n = 0 and tx = "demo_tx\<lparr>vin := vin demo_tx @ vin demo_tx\<rparr>" and t = "2" and outs = "[]" and code = "[OP_1]"
        and ins = "vin demo_tx @ [\<lparr>prevout = COutPoint_null, scriptSig = [], nSequence = 3\<rparr>]"]
    by (simp add: t v upt_rec numeral_2_eq_2)
qed

subsection \<open>What a full signature fixes\<close>

lemma wf_sig_tx:
  assumes "wf_CTransaction tx" and "size_ok code" and "\<not> is_none t" and "\<not> is_single t" and "\<not> is_anyone t"
  shows "wf_CTransaction (sig_tx code tx n t)"
  using assms
  by (auto simp: wf_CTransaction_def sig_tx_def sig_inputs_def sig_outputs_def sig_input_def list_all_length wf_CTxIn_def
      size_ok_def)

lemma ser_CTransaction_inject:
  assumes "wf_CTransaction a" "\<not> bit (tx_nVersion a) 15" "wf_CTransaction b" "\<not> bit (tx_nVersion b) 15"
    and "ser_CTransaction a = ser_CTransaction b"
  shows "a = b"
  using unser_ser_CTransaction [OF assms(1,2), of "[]"] unser_ser_CTransaction [OF assms(3,4), of "[]"] assms(5) by simp

lemma sig_inputs_fields:
  assumes "map (sig_input c tx n t) [0..<length (vin tx)] = map (sig_input c' tx' n' t) [0..<length (vin tx')]"
    and "\<not> is_none t" and "\<not> is_single t" and "n < length (vin tx)"
  shows "map (\<lambda>i. (prevout i, nSequence i)) (vin tx) = map (\<lambda>i. (prevout i, nSequence i)) (vin tx')"
    and "c \<noteq> [] \<Longrightarrow> n = n' \<and> c = c'"
proof -
  have len: "length (vin tx) = length (vin tx')" using arg_cong [OF assms(1), of length] by simp
  have eq: "sig_input c tx n t i = sig_input c' tx' n' t i" if "i < length (vin tx)" for i
    using that len arg_cong [OF assms(1), of "\<lambda>l. l ! i"] by simp
  show "map (\<lambda>i. (prevout i, nSequence i)) (vin tx) = map (\<lambda>i. (prevout i, nSequence i)) (vin tx')"
    using len eq assms(2,3) by (intro nth_equalityI) (auto simp: sig_input_def)
  show "n = n' \<and> c = c'" if "c \<noteq> []"
    using eq [OF assms(4)] that by (auto simp: sig_input_def split: if_splits)
qed

text \<open>
  (C34) What a signature with \<open>SIGHASH_ALL\<close> commits to.  Two well-formed transactions for
  which the serializer feeds the same bytes to the hash agree in the outpoints and sequence
  numbers of all inputs, in the outputs, lock time, version, type and payload, and the
  signed input and script are the same up to code separators, unless the script is empty.
\<close>

theorem SignatureHash_all_binds:
  assumes "\<not> is_none t" and "\<not> is_single t" and "\<not> is_anyone t"
    and "wf_CTransaction tx" and "\<not> bit (tx_nVersion tx) 15" and "snd (ops_from code 0)" and "size_ok code" and "n < length (vin tx)"
    and "wf_CTransaction tx'" and "\<not> bit (tx_nVersion tx') 15" and "snd (ops_from code' 0)" and "size_ok code'"
    and "sig_Serialize (sig_serializer tx code n t) = sig_Serialize (sig_serializer tx' code' n' t)"
  shows "map (\<lambda>i. (prevout i, nSequence i)) (vin tx) = map (\<lambda>i. (prevout i, nSequence i)) (vin tx') \<and>
    vout tx = vout tx' \<and> nLockTime tx = nLockTime tx' \<and> tx_nVersion tx = tx_nVersion tx' \<and>
    tx_nType tx = tx_nType tx' \<and> vExtraPayload tx = vExtraPayload tx' \<and>
    (strip code 0 \<noteq> [] \<longrightarrow> n = n' \<and> strip code 0 = strip code' 0)"
proof -
  have wf: "well_formed_from code 0" "well_formed_from code' 0" using assms(6,11) by (simp_all add: well_formed_from_def)
  have ok: "size_ok (strip c 0)" if "well_formed_from c 0" "size_ok c" for c
    using length_strip [OF that(1)] that(2) by (simp add: size_ok_def)
  have "sig_tx (strip code 0) tx n t = sig_tx (strip code' 0) tx' n' t"
  proof (rule ser_CTransaction_inject)
    show "wf_CTransaction (sig_tx (strip code 0) tx n t)" "wf_CTransaction (sig_tx (strip code' 0) tx' n' t)"
      using assms wf ok by (auto intro: wf_sig_tx)
    show "ser_CTransaction (sig_tx (strip code 0) tx n t) = ser_CTransaction (sig_tx (strip code' 0) tx' n' t)"
      using assms(13) by (simp add: sig_Serialize_ref wf)
  qed (simp_all add: sig_tx_def assms)
  then have f: "map (sig_input (strip code 0) tx n t) [0..<length (vin tx)] =
      map (sig_input (strip code' 0) tx' n' t) [0..<length (vin tx')]"
    "vout tx = vout tx'" "nLockTime tx = nLockTime tx'" "tx_nVersion tx = tx_nVersion tx'" "tx_nType tx = tx_nType tx'"
    "vExtraPayload tx = vExtraPayload tx'"
    using assms(1-3) by (cases tx; cases tx'; simp add: sig_tx_def sig_inputs_def sig_outputs_def)+
  from sig_inputs_fields [OF f(1) assms(1,2,8)] f show ?thesis by blast
qed

text \<open>Witness: two transactions that differ in the script of the input.\<close>

definition demo_signed :: CTransaction where
  "demo_signed = demo_tx\<lparr>vin := [(vin demo_tx ! 0)\<lparr>scriptSig := [OP_2]\<rparr>]\<rparr>"

theorem SignatureHash_all_binds_witness:
  "sig_Serialize (sig_serializer demo_tx [OP_1] 0 1) = sig_Serialize (sig_serializer demo_signed [OP_1] 0 1) \<and>
   map (\<lambda>i. (prevout i, nSequence i)) (vin demo_tx) = map (\<lambda>i. (prevout i, nSequence i)) (vin demo_signed)"
proof -
  have t: "\<not> is_none 1" "\<not> is_single 1" "\<not> is_anyone 1" by code_simp+
  have tx: "wf_CTransaction demo_tx" "wf_CTransaction demo_signed" "\<not> bit (tx_nVersion demo_tx) 15"
    "\<not> bit (tx_nVersion demo_signed) 15" "0 < length (vin demo_tx)"
    by (simp_all add: demo_tx_def demo_signed_def wf_CTransaction_def wf_CTxIn_def wf_COutPoint_def wf_CTxOut_def
        COutPoint_null_def blob_null_def size_ok_def MAX_SIZE_def has_payload_def in_s64_def)
  have c: "snd (ops_from [OP_1] 0)" by code_simp
  have s: "size_ok [OP_1]" by (simp add: size_ok_def MAX_SIZE_def)
  have eq: "sig_Serialize (sig_serializer demo_tx [OP_1] 0 1) = sig_Serialize (sig_serializer demo_signed [OP_1] 0 1)"
    by (simp add: sig_Serialize_def serializer_sel t SerializeInput_def SerializeOutput_def SerializeScriptCode_def
        demo_tx_def demo_signed_def)
  from SignatureHash_all_binds [OF t tx(1,3) c s tx(5) tx(2,4) c s eq] eq show ?thesis by blast
qed

end
