(* ===== verification/Compressor.thy ===== *)
theory Compressor
  imports Transaction Pub_Key
begin

text \<open>
  The compact forms of outputs in the coin database (\<open>compressor.h\<close>, \<open>compressor.cpp\<close>):
  amounts, scripts and outputs.  The two questions about curve points, whether a key is fully
  valid and what a compressed key decompresses to, are arguments.
\<close>

unbundle bit_operations_syntax

subsection \<open>Amounts\<close>

text \<open>The loop that divides by ten, at most up to exponent nine.\<close>

function compress_loop :: "u64 \<Rightarrow> nat \<Rightarrow> u64 \<times> nat" where
  "compress_loop n e = (if n mod 10 = 0 \<and> e < 9 then compress_loop (n div 10) (e + 1) else (n, e))"
  by pat_completeness auto
termination by (relation "measure (\<lambda>(_, e). 9 - e)") auto

declare compress_loop.simps [simp del]

definition CompressAmount :: "u64 \<Rightarrow> u64" where
  "CompressAmount n =
     (if n = 0 then 0
      else let (n, e) = compress_loop n 0
           in if e < 9 then let d = n mod 10; n = n div 10 in 1 + (n * 9 + d - 1) * 10 + word_of_nat e
              else 1 + (n - 1) * 10 + 9)"

fun times_ten :: "nat \<Rightarrow> u64 \<Rightarrow> u64" where
  "times_ten 0 n = n"
| "times_ten (Suc e) n = times_ten e (n * 10)"

definition DecompressAmount :: "u64 \<Rightarrow> u64" where
  "DecompressAmount x =
     (if x = 0 then 0
      else let x = x - 1; e = unat (x mod 10); x = x div 10;
               n = (if e < 9 then let d = x mod 9 + 1; x = x div 9 in x * 10 + d else x + 1)
           in times_ten e n)"

subsection \<open>Scripts\<close>

definition IsToKeyID :: "CScript \<Rightarrow> bytes option" where
  "IsToKeyID script =
     (if length script = 25 \<and> script ! 0 = OP_DUP \<and> script ! 1 = OP_HASH160 \<and> script ! 2 = 20 \<and>
         script ! 23 = OP_EQUALVERIFY \<and> script ! 24 = OP_CHECKSIG
      then Some (take 20 (drop 3 script)) else None)"

definition IsToScriptID :: "CScript \<Rightarrow> bytes option" where
  "IsToScriptID script =
     (if length script = 23 \<and> script ! 0 = OP_HASH160 \<and> script ! 1 = 20 \<and> script ! 22 = OP_EQUAL
      then Some (take 20 (drop 2 script)) else None)"

definition IsToPubKey :: "(CPubKey \<Rightarrow> bool) \<Rightarrow> CScript \<Rightarrow> CPubKey option" where
  "IsToPubKey IsFullyValid script =
     (if length script = 35 \<and> script ! 0 = 33 \<and> script ! 34 = OP_CHECKSIG \<and> (script ! 1 = 2 \<or> script ! 1 = 3)
      then Some (CPubKey_Set (take 33 (drop 1 script)))
      else if length script = 67 \<and> script ! 0 = 65 \<and> script ! 66 = OP_CHECKSIG \<and> script ! 1 = 4
      then let pubkey = CPubKey_Set (take 65 (drop 1 script)) in if IsFullyValid pubkey then Some pubkey else None
      else None)"

definition Compress :: "(CPubKey \<Rightarrow> bool) \<Rightarrow> CScript \<Rightarrow> bytes option" where
  "Compress IsFullyValid script =
     (case IsToKeyID script of Some keyID \<Rightarrow> Some (0 # keyID) | None \<Rightarrow>
      case IsToScriptID script of Some scriptID \<Rightarrow> Some (1 # scriptID) | None \<Rightarrow>
      case IsToPubKey IsFullyValid script of
        Some pubkey \<Rightarrow>
          if pubkey ! 0 = 2 \<or> pubkey ! 0 = 3 then Some (pubkey ! 0 # take 32 (drop 1 pubkey))
          else if pubkey ! 0 = 4 then Some ((4 OR (pubkey ! 64 AND 1)) # take 32 (drop 1 pubkey))
          else None
      | None \<Rightarrow> None)"

definition GetSpecialSize :: "u32 \<Rightarrow> nat" where
  "GetSpecialSize nSize =
     (if nSize = 0 \<or> nSize = 1 then 20 else if nSize = 2 \<or> nSize = 3 \<or> nSize = 4 \<or> nSize = 5 then 32 else 0)"

text \<open>A failed \<open>Decompress\<close> leaves the script as it was; its callers ignore the result.\<close>

definition Decompress :: "(CPubKey \<Rightarrow> CPubKey option) \<Rightarrow> u32 \<Rightarrow> bytes \<Rightarrow> CScript option" where
  "Decompress DecompressKey nSize dat =
     (if nSize = 0 then Some ([OP_DUP, OP_HASH160, 20] @ take 20 dat @ [OP_EQUALVERIFY, OP_CHECKSIG])
      else if nSize = 1 then Some ([OP_HASH160, 20] @ take 20 dat @ [OP_EQUAL])
      else if nSize = 2 \<or> nSize = 3 then Some ([33, ucast nSize] @ take 32 dat @ [OP_CHECKSIG])
      else if nSize = 4 \<or> nSize = 5 then
        (case DecompressKey (CPubKey_Set (ucast (nSize - 2) # take 32 dat)) of
           None \<Rightarrow> None | Some pubkey \<Rightarrow> Some (65 # take 65 pubkey @ [OP_CHECKSIG]))
      else None)"

definition nSpecialScripts :: u32 where "nSpecialScripts = 6"

definition ser_CScriptCompressor :: "(CPubKey \<Rightarrow> bool) \<Rightarrow> CScript \<Rightarrow> bytes" where
  "ser_CScriptCompressor IsFullyValid script =
     (case Compress IsFullyValid script of
        Some compr \<Rightarrow> compr
      | None \<Rightarrow> WriteVarInt (word_of_nat (length script) + nSpecialScripts) @ script)"

text \<open>\<open>old\<close> is the script that is read into.\<close>

definition unser_CScriptCompressor :: "(CPubKey \<Rightarrow> CPubKey option) \<Rightarrow> CScript \<Rightarrow> CScript parser" where
  "unser_CScriptCompressor DecompressKey old =
     pbind ReadVarInt (\<lambda>nSize :: u32.
       if nSize < nSpecialScripts then
         pbind (read_data (GetSpecialSize nSize)) (\<lambda>vch.
           preturn (case Decompress DecompressKey nSize vch of Some script \<Rightarrow> script | None \<Rightarrow> old))
       else let nSize = nSize - nSpecialScripts
            in if unat nSize > MAX_SCRIPT_SIZE
               then pbind (read_data (unat nSize)) (\<lambda>_. preturn (old @ [OP_RETURN]))
               else read_data (unat nSize))"

subsection \<open>Outputs\<close>

definition ser_CTxOutCompressor :: "(CPubKey \<Rightarrow> bool) \<Rightarrow> CTxOut \<Rightarrow> bytes" where
  "ser_CTxOutCompressor IsFullyValid out =
     WriteVarInt (CompressAmount (word_of_int (nValue out))) @ ser_CScriptCompressor IsFullyValid (scriptPubKey out)"

definition unser_CTxOutCompressor :: "(CPubKey \<Rightarrow> CPubKey option) \<Rightarrow> CTxOut \<Rightarrow> CTxOut parser" where
  "unser_CTxOutCompressor DecompressKey old =
     pbind ReadVarInt (\<lambda>nVal :: u64.
     pbind (unser_CScriptCompressor DecompressKey (scriptPubKey old)) (\<lambda>script.
       preturn (old\<lparr>nValue := sint (DecompressAmount nVal), scriptPubKey := script\<rparr>)))"

end
