(* ===== verification/Compressor_Props.thy ===== *)
theory Compressor_Props
  imports Compressor
begin

text \<open>
  The compact forms are read back: amounts below a bound that lies a little under
  \<open>MAX_MONEY\<close>, and all scripts up to the size limit.
\<close>

unbundle bit_operations_syntax

subsection \<open>Amounts\<close>

lemma compress_loop_spec:
  "compress_loop n e = (m, e') \<Longrightarrow> e \<le> 9 \<Longrightarrow>
   unat n = unat m * 10 ^ (e' - e) \<and> e \<le> e' \<and> e' \<le> 9 \<and> (e' < 9 \<longrightarrow> unat m mod 10 \<noteq> 0)"
proof (induction n e rule: compress_loop.induct)
  case (1 n e)
  have m10: "n mod 10 = 0 \<longleftrightarrow> unat n mod 10 = 0" by (simp flip: unat_eq_zero add: unat_mod)
  show ?case
  proof (cases "n mod 10 = 0 \<and> e < 9")
    case True
    then have "compress_loop (n div 10) (e + 1) = (m, e')" using 1(2) by (subst (asm) compress_loop.simps) simp
    with 1(1) [OF True] True have ih: "unat (n div 10) = unat m * 10 ^ (e' - (e + 1))" "e + 1 \<le> e'" "e' \<le> 9"
      "e' < 9 \<longrightarrow> unat m mod 10 \<noteq> 0" by auto
    have "unat n = 10 * (unat n div 10)" using True m10 by (simp add: mod_0_imp_dvd)
    also have "\<dots> = unat m * 10 ^ Suc (e' - (e + 1))" using ih(1) by (simp add: unat_div)
    also have "Suc (e' - (e + 1)) = e' - e" using ih(2) by simp
    finally show ?thesis using ih by simp
  next
    case False
    then show ?thesis using 1(2,3) m10 by (subst (asm) compress_loop.simps) auto
  qed
qed

lemma times_ten: "times_ten e n = n * 10 ^ e"
  by (induction e arbitrary: n) (simp_all add: mult.assoc)

lemma unat_of_nat64: "a < 2 ^ 64 \<Longrightarrow> unat (word_of_nat a :: u64) = a"
  by (simp add: unat_of_nat take_bit_nat_eq_self)

lemma of_nat_divmod64:
  assumes "a < 2 ^ 64"
  shows "(word_of_nat a :: u64) div 10 = word_of_nat (a div 10)" "(word_of_nat a :: u64) mod 10 = word_of_nat (a mod 10)"
    and "(word_of_nat a :: u64) div 9 = word_of_nat (a div 9)" "(word_of_nat a :: u64) mod 9 = word_of_nat (a mod 9)"
proof -
  have "a div x < 2 ^ 64" "a mod x < 2 ^ 64" for x
    using assms div_le_dividend [of a x] mod_less_eq_dividend [of a x] by (meson le_less_trans)+
  with assms show "(word_of_nat a :: u64) div 10 = word_of_nat (a div 10)" "(word_of_nat a :: u64) mod 10 = word_of_nat (a mod 10)"
    "(word_of_nat a :: u64) div 9 = word_of_nat (a div 9)" "(word_of_nat a :: u64) mod 9 = word_of_nat (a mod 9)"
    by (simp_all add: word_unat_eq_iff unat_div unat_mod unat_of_nat64)
qed

text \<open>Decoding a number \<open>1 + X\<close> that fits.\<close>

lemma DecompressAmount_nat:
  assumes "1 + X < 2 ^ 64"
  shows "DecompressAmount (word_of_nat (1 + X)) =
    (if X mod 10 < 9 then word_of_nat ((X div 10 div 9 * 10 + (X div 10 mod 9 + 1)) * 10 ^ (X mod 10))
     else word_of_nat ((X div 10 + 1) * 10 ^ (X mod 10)))"
proof -
  have "unat (word_of_nat (1 + X) :: u64) = 1 + X" using assms by (rule unat_of_nat64)
  then have nz: "word_of_nat (1 + X) \<noteq> (0 :: u64)" by (metis add_is_0 one_neq_zero unat_0)
  have pred: "word_of_nat (1 + X) - 1 = (word_of_nat X :: u64)" by simp
  have X: "X < 2 ^ 64" using assms by simp
  then have X10: "X div 10 < 2 ^ 64" by simp
  have "unat (word_of_nat (X mod 10) :: u64) = X mod 10" by (rule unat_of_nat64) (simp add: less_trans [of _ 10])
  then show ?thesis
    using nz unfolding DecompressAmount_def Let_def pred of_nat_divmod64 [OF X] of_nat_divmod64 [OF X10] times_ten
    by (simp add: distrib_right)
qed

text \<open>The number that an amount \<open>m * 10 ^ e\<close> is encoded as.\<close>

definition amount_code :: "nat \<Rightarrow> nat \<Rightarrow> nat" where
  "amount_code m e = (if e < 9 then 10 * (9 * (m div 10) + (m mod 10 - 1)) + e else 10 * (m - 1) + 9)"

lemma CompressAmount_nat:
  assumes "n \<noteq> 0"
  obtains m e where "unat n = m * 10 ^ e" and "e \<le> 9" and "e < 9 \<longrightarrow> m mod 10 \<noteq> 0" and "0 < m"
    and "CompressAmount n = word_of_nat (1 + amount_code m e)"
proof -
  obtain w e where l: "compress_loop n 0 = (w, e)" by fastforce
  from compress_loop_spec [OF l] have sp: "unat n = unat w * 10 ^ e" "e \<le> 9" "e < 9 \<longrightarrow> unat w mod 10 \<noteq> 0" by auto
  have pos: "0 < unat w" using sp(1) assms by (metis gr0I mult_0 unat_eq_zero)
  have w: "w = word_of_nat (unat w)" by simp
  have "CompressAmount n = word_of_nat (1 + amount_code (unat w) e)"
  proof (cases "e < 9")
    case True
    define q d where "q = unat w div 10" and "d = unat w mod 10"
    have "w div 10 = word_of_nat q" "w mod 10 = word_of_nat d"
      by (simp_all add: q_def d_def word_unat_eq_iff unat_div unat_mod unat_of_nat64 less_trans [of _ 10]
          le_less_trans [OF div_le_dividend unsigned_less [of w, where 'a = nat, simplified]])
    moreover have "1 \<le> d" using sp(3) True by (simp add: d_def)
    ultimately show ?thesis using True assms
      by (simp add: CompressAmount_def l amount_code_def q_def [symmetric] d_def [symmetric] of_nat_diff algebra_simps)
  next
    case False
    then show ?thesis using assms sp(2) pos
      by (simp add: CompressAmount_def l amount_code_def of_nat_diff Suc_leI algebra_simps)
  qed
  with sp pos that show thesis by blast
qed

lemma amount_code_decode:
  assumes "0 < m" and "e \<le> 9" and "e < 9 \<longrightarrow> m mod 10 \<noteq> 0"
  shows "amount_code m e mod 10 = e"
    and "e < 9 \<Longrightarrow> amount_code m e div 10 div 9 * 10 + (amount_code m e div 10 mod 9 + 1) = m"
    and "e = 9 \<Longrightarrow> amount_code m e div 10 + 1 = m"
    and "1 + amount_code m e \<le> 9 * (m * 10 ^ e)"
proof -
  show "amount_code m e mod 10 = e"
  proof (cases "e < 9")
    case True
    then have "amount_code m e = e + 10 * (9 * (m div 10) + (m mod 10 - 1))" by (simp add: amount_code_def)
    then have "amount_code m e mod 10 = e mod 10" by (simp only: mod_mult_self2)
    with True show ?thesis by simp
  qed (use assms(2) in \<open>simp add: amount_code_def\<close>)
  show "amount_code m e div 10 + 1 = m" if "e = 9" using that assms(1) by (simp add: amount_code_def)
  show "amount_code m e div 10 div 9 * 10 + (amount_code m e div 10 mod 9 + 1) = m" if "e < 9"
  proof -
    have "m mod 10 - 1 < 9" by (simp add: less_imp_diff_less)
    then have "(9 * (m div 10) + (m mod 10 - 1)) div 9 = m div 10" "(9 * (m div 10) + (m mod 10 - 1)) mod 9 = m mod 10 - 1"
      by simp_all
    with that assms(3) show ?thesis by (simp add: amount_code_def)
  qed
  show "1 + amount_code m e \<le> 9 * (m * 10 ^ e)"
  proof (cases "e < 9")
    case True
    have "amount_code m e = 90 * (m div 10) + 10 * (m mod 10 - 1) + e" using True by (simp add: amount_code_def)
    moreover have "m = 10 * (m div 10) + m mod 10" by simp
    moreover have "m mod 10 \<le> 9" by simp
    moreover have "1 \<le> m mod 10" using assms(3) True by simp
    ultimately have "1 + amount_code m e \<le> 9 * m + e" by linarith
    also have "\<dots> \<le> 9 * (m * 10 ^ e)"
    proof (cases e)
      case (Suc k)
      have "e < 10 ^ e" by (rule less_exp [THEN less_le_trans]) (simp add: power_mono)
      then have "e \<le> 10 ^ e - 1" by linarith
      then have "m * e \<le> m * (10 ^ e - 1)" by (rule mult_le_mono2)
      moreover have "e \<le> m * e" using assms(1) by simp
      moreover have "m * (10 ^ e - 1) = m * 10 ^ e - m" by (simp add: right_diff_distrib')
      moreover have "m \<le> m * 10 ^ e" by simp
      ultimately show ?thesis by linarith
    qed simp
    finally show ?thesis .
  next
    case False
    with assms(1,2) show ?thesis by (simp add: amount_code_def)
  qed
qed

lemma amount_roundtrip:
  assumes "9 * unat n < 2 ^ 64"
  shows "DecompressAmount (CompressAmount n) = n"
proof (cases "n = 0")
  case True
  then show ?thesis by (simp add: CompressAmount_def DecompressAmount_def)
next
  case False
  then obtain m e where m: "unat n = m * 10 ^ e" "e \<le> 9" "e < 9 \<longrightarrow> m mod 10 \<noteq> 0" "0 < m"
    and c: "CompressAmount n = word_of_nat (1 + amount_code m e)" by (rule CompressAmount_nat) blast
  note d = amount_code_decode [OF m(4,2,3)]
  have fits: "1 + amount_code m e < 2 ^ 64" using d(4) assms m(1) by linarith
  have "DecompressAmount (CompressAmount n) = word_of_nat (m * 10 ^ e)"
    unfolding c DecompressAmount_nat [OF fits] unfolding d(1)
    using d(2,3) m(2) by (cases "e < 9") (auto simp del: One_nat_def of_nat_add of_nat_mult)
  then show ?thesis unfolding m(1) [symmetric] by simp
qed

text \<open>
  (C36) Amount compression.  Every amount below a ninth of 2^64 is recovered from its
  compact form.  The bound is needed and lies below \<open>MAX_MONEY\<close>: the largest odd amount
  in range is encoded with wrap-around and read back as a different amount.
\<close>

theorem CompressAmount_roundtrip:
  "(9 * unat n < 2 ^ 64 \<longrightarrow> DecompressAmount (CompressAmount n) = n) \<and>
   MoneyRange (MAX_MONEY - 1) True \<and>
   DecompressAmount (CompressAmount (word_of_int (MAX_MONEY - 1))) \<noteq> word_of_int (MAX_MONEY - 1)"
proof (intro conjI impI amount_roundtrip)
  show "MoneyRange (MAX_MONEY - 1) True" by (simp add: money_defs)
  show "DecompressAmount (CompressAmount (word_of_int (MAX_MONEY - 1))) \<noteq> word_of_int (MAX_MONEY - 1)"
    by code_simp
qed

theorem CompressAmount_roundtrip_witness: "DecompressAmount (CompressAmount 5000000000) = 5000000000"
  using CompressAmount_roundtrip [of 5000000000] by simp

subsection \<open>Scripts\<close>

text \<open>
  What the curve library promises: a fully valid uncompressed key is what its compressed form,
  the parity of the ordinate and the abscissa, decompresses to.
\<close>

definition decompresses :: "(CPubKey \<Rightarrow> bool) \<Rightarrow> (CPubKey \<Rightarrow> CPubKey option) \<Rightarrow> bool" where
  "decompresses IsFullyValid DecompressKey \<longleftrightarrow>
     (\<forall>key. length key = 65 \<longrightarrow> key ! 0 = 4 \<longrightarrow> IsFullyValid key \<longrightarrow>
        DecompressKey ((2 + (key ! 64 AND 1)) # take 32 (drop 1 key)) = Some key)"

text \<open>What the round trip of one script needs of that promise.\<close>

definition script_decompresses :: "(CPubKey \<Rightarrow> bool) \<Rightarrow> (CPubKey \<Rightarrow> CPubKey option) \<Rightarrow> CScript \<Rightarrow> bool" where
  "script_decompresses IsFullyValid DecompressKey script =
     (case IsToPubKey IsFullyValid script of
        None \<Rightarrow> True
      | Some key \<Rightarrow> key ! 0 = 4 \<longrightarrow> DecompressKey ((2 + (key ! 64 AND 1)) # take 32 (drop 1 key)) = Some key)"

lemma list_split3:
  assumes "length xs = a + b + c"
  shows "xs = take a xs @ take b (drop a xs) @ drop (a + b) xs"
  using assms by (metis add.commute append_take_drop_id drop_drop)

lemma ReadVarInt_small: "c < 6 \<Longrightarrow> ReadVarInt (c # s) = Inr (ucast c :: u32, s)"
proof -
  assume "c < 6"
  then have "c \<in> {0, 1, 2, 3, 4, 5}" by unat_arith
  then show ?thesis by (auto simp: ReadVarInt_def Let_def)
qed

lemma take_nths:
  "1 \<le> length xs \<Longrightarrow> take 1 xs = [xs ! 0]" "2 \<le> length xs \<Longrightarrow> take 2 xs = [xs ! 0, xs ! 1]"
  "3 \<le> length xs \<Longrightarrow> take 3 xs = [xs ! 0, xs ! 1, xs ! 2]"
  by (auto simp: numeral_eq_Suc Suc_le_length_iff)

lemma drop_nths:
  "length xs = n + 1 \<Longrightarrow> drop n xs = [xs ! n]" "length xs = n + 2 \<Longrightarrow> drop n xs = [xs ! n, xs ! (n + 1)]"
  by (simp_all add: Cons_nth_drop_Suc [symmetric])

text \<open>The shapes that the three recognisers stand for.\<close>

lemma IsToKeyID_form:
  "IsToKeyID script = Some h \<Longrightarrow>
   length h = 20 \<and> script = [OP_DUP, OP_HASH160, 20] @ h @ [OP_EQUALVERIFY, OP_CHECKSIG]"
  using list_split3 [of script 3 20 2] take_nths(3) [of script] drop_nths(2) [of script 23]
  by (auto simp: IsToKeyID_def split: if_splits)

lemma IsToScriptID_form:
  "IsToScriptID script = Some h \<Longrightarrow> length h = 20 \<and> script = [OP_HASH160, 20] @ h @ [OP_EQUAL]"
  using list_split3 [of script 2 20 1] take_nths(2) [of script] drop_nths(1) [of script 22]
  by (auto simp: IsToScriptID_def split: if_splits)

lemma IsToPubKey_form:
  assumes "IsToPubKey IsFullyValid script = Some key"
  shows "length key = 33 \<and> (key ! 0 = 2 \<or> key ! 0 = 3) \<and> script = [33] @ key @ [OP_CHECKSIG] \<or>
    length key = 65 \<and> key ! 0 = 4 \<and> IsFullyValid key \<and> script = [65] @ key @ [OP_CHECKSIG]"
proof (cases "length script = 35")
  case True
  then have "CPubKey_Set (take 33 (drop 1 script)) = take 33 (drop 1 script)" if "script ! 1 = 2 \<or> script ! 1 = 3"
    using that by (auto simp: CPubKey_Set_def CPubKey_GetLen_def)
  with True assms list_split3 [of script 1 33 1] take_nths(1) [of script] drop_nths(1) [of script 34]
  show ?thesis by (auto simp: IsToPubKey_def nth_append split: if_splits)
next
  case False
  then have "CPubKey_Set (take 65 (drop 1 script)) = take 65 (drop 1 script)" if "length script = 67" "script ! 1 = 4"
    using that by (auto simp: CPubKey_Set_def CPubKey_GetLen_def)
  with False assms list_split3 [of script 1 65 1] take_nths(1) [of script] drop_nths(1) [of script 66]
  show ?thesis by (auto simp: IsToPubKey_def Let_def nth_append split: if_splits)
qed

lemma decompresses_script:
  "decompresses IsFullyValid DecompressKey \<Longrightarrow> script_decompresses IsFullyValid DecompressKey script"
  using IsToPubKey_form [of IsFullyValid script]
  by (fastforce simp: decompresses_def script_decompresses_def split: option.splits)

text \<open>Compression followed by what the reader does with the special code.\<close>

lemma Compress_form:
  assumes "script_decompresses IsFullyValid DecompressKey script" and "Compress IsFullyValid script = Some compr"
  shows "\<exists>c h. compr = c # h \<and> c < 6 \<and> length h = GetSpecialSize (ucast c) \<and>
    Decompress DecompressKey (ucast c) h = Some script"
proof -
  consider (key) h where "IsToKeyID script = Some h" "compr = 0 # h"
    | (script) h where "IsToScriptID script = Some h" "compr = 1 # h"
    | (compressed) key where "IsToPubKey IsFullyValid script = Some key" "key ! 0 = 2 \<or> key ! 0 = 3"
        "compr = key ! 0 # take 32 (drop 1 key)"
    | (full) key where "IsToPubKey IsFullyValid script = Some key" "key ! 0 = 4"
        "compr = (4 OR (key ! 64 AND 1)) # take 32 (drop 1 key)"
    using assms(2) by (auto simp: Compress_def split: option.splits if_splits)
  then show ?thesis
  proof cases
    case key
    with IsToKeyID_form [OF key(1)] show ?thesis
      by (auto simp: GetSpecialSize_def Decompress_def)
  next
    case script
    with IsToScriptID_form [OF script(1)] show ?thesis
      by (auto simp: GetSpecialSize_def Decompress_def)
  next
    case compressed
    from IsToPubKey_form [OF compressed(1)] compressed(2)
    have key: "length key = 33" "script = [33] @ key @ [OP_CHECKSIG]" by auto
    then obtain c h where "key = c # h" "length h = 32" by (cases key) auto
    with compressed key show ?thesis by (auto simp: GetSpecialSize_def Decompress_def)
  next
    case full
    from IsToPubKey_form [OF full(1)] full(2)
    have key: "length key = 65" "IsFullyValid key" "script = [65] @ key @ [OP_CHECKSIG]" by auto
    then have d: "DecompressKey ((2 + (key ! 64 AND 1)) # take 32 (drop 1 key)) = Some key"
      using assms(1) full(1,2) by (simp add: script_decompresses_def)
    have "key ! 64 AND 1 = 0 \<or> key ! 64 AND 1 = 1" by (simp add: and_one_eq mod2_eq_if)
    with full key d show ?thesis
      by (auto simp: GetSpecialSize_def Decompress_def CPubKey_Set_def CPubKey_GetLen_def Let_def)
  qed
qed

lemma unser_special:
  assumes "script_decompresses IsFullyValid DecompressKey script" and "Compress IsFullyValid script = Some compr"
  shows "unser_CScriptCompressor DecompressKey old (compr @ rest) = Inr (script, rest)"
proof -
  from Compress_form [OF assms] obtain c h where ch: "compr = c # h" "c < 6"
    "length h = GetSpecialSize (ucast c)" "Decompress DecompressKey (ucast c) h = Some script" by blast
  moreover have "(ucast c :: u32) < nSpecialScripts"
    using ch(2) by (simp add: nSpecialScripts_def word_less_nat_alt unsigned_ucast_eq take_bit_nat_eq_self)
  ultimately show ?thesis
    by (simp add: unser_CScriptCompressor_def ReadVarInt_small pbind_def preturn_def)
qed

lemma unser_plain:
  assumes "length script + 6 < 2 ^ 32"
  shows "unser_CScriptCompressor DecompressKey old
      (WriteVarInt (word_of_nat (length script) + nSpecialScripts) @ script @ rest) =
    Inr (if length script > MAX_SCRIPT_SIZE then old @ [OP_RETURN] else script, rest)"
proof -
  let ?n = "word_of_nat (length script) + nSpecialScripts"
  have n: "unat ?n = length script + 6"
    using assms by (simp add: nSpecialScripts_def unat_word_ariths unat_of_nat)
  then have "\<not> ?n < nSpecialScripts" by (simp add: nSpecialScripts_def word_less_nat_alt)
  moreover have "unat (?n - nSpecialScripts) = length script" using assms by (simp add: unat_of_nat)
  ultimately show ?thesis
    unfolding unser_CScriptCompressor_def pbind_def varint32.dec_enc [OF TrueI] by (simp add: preturn_def Let_def)
qed

lemma CScriptCompressor_roundtrip:
  assumes "script_decompresses IsFullyValid DecompressKey script" and "length script + 6 < 2 ^ 32"
  shows "unser_CScriptCompressor DecompressKey old (ser_CScriptCompressor IsFullyValid script @ rest) =
    Inr (if length script > MAX_SCRIPT_SIZE then old @ [OP_RETURN] else script, rest)"
proof (cases "Compress IsFullyValid script")
  case None
  then show ?thesis using unser_plain [OF assms(2)] by (simp add: ser_CScriptCompressor_def)
next
  case (Some compr)
  then have "length script \<le> MAX_SCRIPT_SIZE"
    by (auto simp: Compress_def IsToKeyID_def IsToScriptID_def IsToPubKey_def MAX_SCRIPT_SIZE_def
        split: option.splits if_splits)
  with unser_special [OF assms(1) Some] show ?thesis by (simp add: ser_CScriptCompressor_def Some)
qed

lemma CTxOutCompressor_read:
  assumes "script_decompresses IsFullyValid DecompressKey (scriptPubKey out)" and "length (scriptPubKey out) + 6 < 2 ^ 32"
    and "0 \<le> nValue out" and "9 * nValue out < 2 ^ 64"
  shows "unser_CTxOutCompressor DecompressKey old (ser_CTxOutCompressor IsFullyValid out @ rest) =
    Inr (old\<lparr>nValue := nValue out, scriptPubKey :=
      (if length (scriptPubKey out) > MAX_SCRIPT_SIZE then scriptPubKey old @ [OP_RETURN] else scriptPubKey out)\<rparr>, rest)"
proof -
  have u: "unat (word_of_int (nValue out) :: u64) = nat (nValue out)"
    using assms(3,4) by (simp add: unat_eq_nat_uint uint_word_of_int)
  have "DecompressAmount (CompressAmount (word_of_int (nValue out))) = word_of_int (nValue out)"
    using assms(3,4) by (intro amount_roundtrip) (simp add: u nat_mult_distrib [symmetric] nat_less_iff)
  moreover have "sint (word_of_int (nValue out) :: u64) = nValue out"
    using assms(3,4) by (simp add: sint_sbintrunc' signed_take_bit_int_eq_self)
  ultimately show ?thesis
    using CScriptCompressor_roundtrip [OF assms(1,2), of "scriptPubKey old" rest]
    by (simp add: unser_CTxOutCompressor_def ser_CTxOutCompressor_def pbind_def preturn_def varint64.dec_enc)
qed

text \<open>
  (C35) Output compression.  An output whose amount is below a ninth of 2^64 is recovered from
  its compact form, whichever special or plain form its script takes, and nothing after it is
  consumed.  A script above the size limit, which no input can spend, is skipped over and
  replaced by \<open>OP_RETURN\<close>.
\<close>

theorem CTxOutCompressor_roundtrip:
  assumes "decompresses IsFullyValid DecompressKey" and "length (scriptPubKey out) + 6 < 2 ^ 32"
    and "0 \<le> nValue out" and "9 * nValue out < 2 ^ 64"
  shows "unser_CTxOutCompressor DecompressKey CTxOut_null (ser_CTxOutCompressor IsFullyValid out @ rest) =
    Inr (CTxOut_null\<lparr>nValue := nValue out, scriptPubKey :=
      (if length (scriptPubKey out) > MAX_SCRIPT_SIZE then [OP_RETURN] else scriptPubKey out)\<rparr>, rest)"
  using CTxOutCompressor_read [OF decompresses_script [OF assms(1)] assms(2-4), of CTxOut_null] by (simp add: CTxOut_null_def)

definition demo_point :: CPubKey where
  "demo_point = 4 # replicate 64 1"

theorem CTxOutCompressor_roundtrip_witness:
  "let valid = (\<lambda>key. key = demo_point);
       lift = (\<lambda>key. if key = 3 # replicate 32 1 then Some demo_point else None);
       out = \<lparr>nValue = 5000000000, scriptPubKey = 65 # demo_point @ [OP_CHECKSIG], nRounds = - 10\<rparr>
   in unser_CTxOutCompressor lift CTxOut_null (ser_CTxOutCompressor valid out @ [7]) =
        Inr (out, [7]) \<and>
      length (ser_CTxOutCompressor valid out) = 34"
proof -
  have d: "decompresses (\<lambda>key. key = demo_point)
      (\<lambda>key. if key = 3 # replicate 32 1 then Some demo_point else None)"
    by (simp add: decompresses_def demo_point_def numeral_eq_Suc)
  have "length (ser_CTxOutCompressor (\<lambda>key. key = demo_point)
      \<lparr>nValue = 5000000000, scriptPubKey = 65 # demo_point @ [OP_CHECKSIG], nRounds = - 10\<rparr>) = 34"
    by code_simp
  then show ?thesis
    using CTxOutCompressor_roundtrip [OF d, of "\<lparr>nValue = 5000000000, scriptPubKey = 65 # demo_point @ [OP_CHECKSIG], nRounds = - 10\<rparr>" "[7]"]
    by (simp add: CTxOut_null_def demo_point_def MAX_SCRIPT_SIZE_def)
qed

end
