(* ===== verification/Hash_Keyed.thy ===== *)
theory Hash_Keyed
  imports Bytes
begin

text \<open>
  The keyed hashes of \<open>hash.cpp\<close>: SipHash-2-4 with its two versions specialised to
  256-bit values, and MurmurHash3.  The specialised versions are shown to be the general
  hasher, as their comment in \<open>hash.h\<close> says.
\<close>

unbundle bit_operations_syntax

subsection \<open>Definitions\<close>

definition ROTL :: "u64 \<Rightarrow> nat \<Rightarrow> u64" where
  "ROTL x b = push_bit b x OR drop_bit (64 - b) x"

type_synonym sip = "u64 \<times> u64 \<times> u64 \<times> u64"

fun SIPROUND :: "sip \<Rightarrow> sip" where
  "SIPROUND (v0, v1, v2, v3) =
     (let v0 = v0 + v1; v1 = ROTL v1 13; v1 = v1 XOR v0;
          v0 = ROTL v0 32;
          v2 = v2 + v3; v3 = ROTL v3 16; v3 = v3 XOR v2;
          v0 = v0 + v3; v3 = ROTL v3 21; v3 = v3 XOR v0;
          v2 = v2 + v1; v1 = ROTL v1 17; v1 = v1 XOR v2;
          v2 = ROTL v2 32
      in (v0, v1, v2, v3))"

record CSipHasher =
  sip_v :: sip
  sip_tmp :: u64
  sip_count :: u32

definition sip_init :: "u64 \<Rightarrow> u64 \<Rightarrow> sip" where
  "sip_init k0 k1 =
     (0x736f6d6570736575 XOR k0, 0x646f72616e646f6d XOR k1, 0x6c7967656e657261 XOR k0, 0x7465646279746573 XOR k1)"

definition CSipHasher_init :: "u64 \<Rightarrow> u64 \<Rightarrow> CSipHasher" where
  "CSipHasher_init k0 k1 = \<lparr>sip_v = sip_init k0 k1, sip_tmp = 0, sip_count = 0\<rparr>"

text \<open>One message word: \<open>v3 ^= t; SIPROUND; SIPROUND; v0 ^= t\<close>.\<close>

definition sip_absorb :: "u64 \<Rightarrow> sip \<Rightarrow> sip" where
  "sip_absorb t v =
     (let (v0, v1, v2, v3) = v; (v0, v1, v2, v3) = SIPROUND (SIPROUND (v0, v1, v2, v3 XOR t))
      in (v0 XOR t, v1, v2, v3))"

definition sip_finish :: "sip \<Rightarrow> u64" where
  "sip_finish v =
     (let (v0, v1, v2, v3) = v;
          (v0, v1, v2, v3) = SIPROUND (SIPROUND (SIPROUND (SIPROUND (v0, v1, v2 XOR 0xFF, v3))))
      in v0 XOR v1 XOR v2 XOR v3)"

text \<open>\<open>count\<close> is an \<open>int\<close>; its bit pattern is kept.  The precondition of \<open>Write(uint64_t)\<close>
  is \<open>count % 8 == 0\<close>.\<close>

definition CSipHasher_Write64 :: "CSipHasher \<Rightarrow> u64 \<Rightarrow> CSipHasher" where
  "CSipHasher_Write64 h data = h\<lparr>sip_v := sip_absorb data (sip_v h), sip_count := sip_count h + 8\<rparr>"

definition sip_byte :: "CSipHasher \<Rightarrow> u8 \<Rightarrow> CSipHasher" where
  "sip_byte h b =
     (let t = sip_tmp h OR push_bit (8 * (unat (sip_count h) mod 8)) (ucast b); c = sip_count h + 1
      in if c AND 7 = 0 then \<lparr>sip_v = sip_absorb t (sip_v h), sip_tmp = 0, sip_count = c\<rparr>
         else \<lparr>sip_v = sip_v h, sip_tmp = t, sip_count = c\<rparr>)"

definition CSipHasher_Write :: "CSipHasher \<Rightarrow> bytes \<Rightarrow> CSipHasher" where
  "CSipHasher_Write h data = fold (\<lambda>b h. sip_byte h b) data h"

definition CSipHasher_Finalize :: "CSipHasher \<Rightarrow> u64" where
  "CSipHasher_Finalize h =
     (let t = sip_tmp h OR push_bit 56 (scast (sip_count h)) in sip_finish (sip_absorb t (sip_v h)))"

text \<open>\<open>SipHashUint256\<close>: the first word is mixed into the initial state.\<close>

definition SipHashUint256 :: "u64 \<Rightarrow> u64 \<Rightarrow> uint256 \<Rightarrow> u64" where
  "SipHashUint256 k0 k1 val =
     (let d = GetUint64 val 0;
          v0 = 0x736f6d6570736575 XOR k0; v1 = 0x646f72616e646f6d XOR k1;
          v2 = 0x6c7967656e657261 XOR k0; v3 = (0x7465646279746573 XOR k1) XOR d;
          (v0, v1, v2, v3) = SIPROUND (SIPROUND (v0, v1, v2, v3)); v0 = v0 XOR d;
          d = GetUint64 val 1; v3 = v3 XOR d;
          (v0, v1, v2, v3) = SIPROUND (SIPROUND (v0, v1, v2, v3)); v0 = v0 XOR d;
          d = GetUint64 val 2; v3 = v3 XOR d;
          (v0, v1, v2, v3) = SIPROUND (SIPROUND (v0, v1, v2, v3)); v0 = v0 XOR d;
          d = GetUint64 val 3; v3 = v3 XOR d;
          (v0, v1, v2, v3) = SIPROUND (SIPROUND (v0, v1, v2, v3)); v0 = v0 XOR d;
          v3 = v3 XOR push_bit 59 4;
          (v0, v1, v2, v3) = SIPROUND (SIPROUND (v0, v1, v2, v3)); v0 = v0 XOR push_bit 59 4;
          v2 = v2 XOR 0xFF;
          (v0, v1, v2, v3) = SIPROUND (SIPROUND (SIPROUND (SIPROUND (v0, v1, v2, v3))))
      in v0 XOR v1 XOR v2 XOR v3)"

definition SipHashUint256Extra :: "u64 \<Rightarrow> u64 \<Rightarrow> uint256 \<Rightarrow> u32 \<Rightarrow> u64" where
  "SipHashUint256Extra k0 k1 val extra =
     (let d = GetUint64 val 0;
          v0 = 0x736f6d6570736575 XOR k0; v1 = 0x646f72616e646f6d XOR k1;
          v2 = 0x6c7967656e657261 XOR k0; v3 = (0x7465646279746573 XOR k1) XOR d;
          (v0, v1, v2, v3) = SIPROUND (SIPROUND (v0, v1, v2, v3)); v0 = v0 XOR d;
          d = GetUint64 val 1; v3 = v3 XOR d;
          (v0, v1, v2, v3) = SIPROUND (SIPROUND (v0, v1, v2, v3)); v0 = v0 XOR d;
          d = GetUint64 val 2; v3 = v3 XOR d;
          (v0, v1, v2, v3) = SIPROUND (SIPROUND (v0, v1, v2, v3)); v0 = v0 XOR d;
          d = GetUint64 val 3; v3 = v3 XOR d;
          (v0, v1, v2, v3) = SIPROUND (SIPROUND (v0, v1, v2, v3)); v0 = v0 XOR d;
          d = push_bit 56 36 OR ucast extra; v3 = v3 XOR d;
          (v0, v1, v2, v3) = SIPROUND (SIPROUND (v0, v1, v2, v3)); v0 = v0 XOR d;
          v2 = v2 XOR 0xFF;
          (v0, v1, v2, v3) = SIPROUND (SIPROUND (SIPROUND (SIPROUND (v0, v1, v2, v3))))
      in v0 XOR v1 XOR v2 XOR v3)"

definition ROTL32 :: "u32 \<Rightarrow> nat \<Rightarrow> u32" where
  "ROTL32 x r = push_bit r x OR drop_bit (32 - r) x"

definition murmur_block :: "bytes \<Rightarrow> nat \<Rightarrow> u32 \<Rightarrow> u32" where
  "murmur_block data i h1 =
     (let k1 = ReadLE32 (drop (i * 4) data); k1 = k1 * 0xcc9e2d51; k1 = ROTL32 k1 15; k1 = k1 * 0x1b873593;
          h1 = h1 XOR k1; h1 = ROTL32 h1 13
      in h1 * 5 + 0xe6546b64)"

definition MurmurHash3 :: "u32 \<Rightarrow> bytes \<Rightarrow> u32" where
  "MurmurHash3 nHashSeed data =
     (let nblocks = length data div 4;
          h1 = fold (murmur_block data) [0..<nblocks] nHashSeed;
          tail = drop (nblocks * 4) data; n = length data mod 4; k1 = 0;
          k1 = (if n = 3 then k1 XOR push_bit 16 (ucast (tail ! 2)) else k1);
          k1 = (if n \<ge> 2 then k1 XOR push_bit 8 (ucast (tail ! 1)) else k1);
          h1 = (if n \<ge> 1 then
                  let k1 = k1 XOR ucast (tail ! 0); k1 = k1 * 0xcc9e2d51; k1 = ROTL32 k1 15; k1 = k1 * 0x1b873593
                  in h1 XOR k1
                else h1);
          h1 = h1 XOR word_of_nat (length data);
          h1 = h1 XOR drop_bit 16 h1; h1 = h1 * 0x85ebca6b;
          h1 = h1 XOR drop_bit 13 h1; h1 = h1 * 0xc2b2ae35
      in h1 XOR drop_bit 16 h1)"

subsection \<open>The specialised versions\<close>

lemma SipHashUint256_absorb:
  "SipHashUint256 k0 k1 val =
     sip_finish (sip_absorb (push_bit 59 4) (sip_absorb (GetUint64 val 3) (sip_absorb (GetUint64 val 2)
       (sip_absorb (GetUint64 val 1) (sip_absorb (GetUint64 val 0) (sip_init k0 k1))))))"
proof -
  obtain a0 a1 a2 a3 where 1: "SIPROUND (SIPROUND (0x736f6d6570736575 XOR k0, 0x646f72616e646f6d XOR k1,
      0x6c7967656e657261 XOR k0, (0x7465646279746573 XOR k1) XOR GetUint64 val 0)) = (a0, a1, a2, a3)" by (rule prod_cases4)
  obtain b0 b1 b2 b3 where 2: "SIPROUND (SIPROUND (a0 XOR GetUint64 val 0, a1, a2, a3 XOR GetUint64 val 1)) = (b0, b1, b2, b3)"
    by (rule prod_cases4)
  obtain c0 c1 c2 c3 where 3: "SIPROUND (SIPROUND (b0 XOR GetUint64 val 1, b1, b2, b3 XOR GetUint64 val 2)) = (c0, c1, c2, c3)"
    by (rule prod_cases4)
  obtain d0 d1 d2 d3 where 4: "SIPROUND (SIPROUND (c0 XOR GetUint64 val 2, c1, c2, c3 XOR GetUint64 val 3)) = (d0, d1, d2, d3)"
    by (rule prod_cases4)
  obtain e0 e1 e2 e3 where 5: "SIPROUND (SIPROUND (d0 XOR GetUint64 val 3, d1, d2, d3 XOR (push_bit 59 4))) = (e0, e1, e2, e3)"
    by (rule prod_cases4)
  show ?thesis
    unfolding SipHashUint256_def sip_finish_def sip_absorb_def sip_init_def Let_def split_conv 1 2 3 4 5 ..
qed

lemma SipHashUint256Extra_absorb:
  "SipHashUint256Extra k0 k1 val extra =
     sip_finish (sip_absorb (push_bit 56 36 OR ucast extra) (sip_absorb (GetUint64 val 3) (sip_absorb (GetUint64 val 2)
       (sip_absorb (GetUint64 val 1) (sip_absorb (GetUint64 val 0) (sip_init k0 k1))))))"
proof -
  obtain a0 a1 a2 a3 where 1: "SIPROUND (SIPROUND (0x736f6d6570736575 XOR k0, 0x646f72616e646f6d XOR k1,
      0x6c7967656e657261 XOR k0, (0x7465646279746573 XOR k1) XOR GetUint64 val 0)) = (a0, a1, a2, a3)" by (rule prod_cases4)
  obtain b0 b1 b2 b3 where 2: "SIPROUND (SIPROUND (a0 XOR GetUint64 val 0, a1, a2, a3 XOR GetUint64 val 1)) = (b0, b1, b2, b3)"
    by (rule prod_cases4)
  obtain c0 c1 c2 c3 where 3: "SIPROUND (SIPROUND (b0 XOR GetUint64 val 1, b1, b2, b3 XOR GetUint64 val 2)) = (c0, c1, c2, c3)"
    by (rule prod_cases4)
  obtain d0 d1 d2 d3 where 4: "SIPROUND (SIPROUND (c0 XOR GetUint64 val 2, c1, c2, c3 XOR GetUint64 val 3)) = (d0, d1, d2, d3)"
    by (rule prod_cases4)
  obtain e0 e1 e2 e3 where 5: "SIPROUND (SIPROUND (d0 XOR GetUint64 val 3, d1, d2, d3 XOR (push_bit 56 36 OR ucast extra))) = (e0, e1, e2, e3)"
    by (rule prod_cases4)
  show ?thesis
    unfolding SipHashUint256Extra_def sip_finish_def sip_absorb_def sip_init_def Let_def split_conv 1 2 3 4 5 ..
qed

definition sip_four :: "u64 \<Rightarrow> u64 \<Rightarrow> uint256 \<Rightarrow> CSipHasher" where
  "sip_four k0 k1 val =
     CSipHasher_Write64 (CSipHasher_Write64 (CSipHasher_Write64 (CSipHasher_Write64 (CSipHasher_init k0 k1)
       (GetUint64 val 0)) (GetUint64 val 1)) (GetUint64 val 2)) (GetUint64 val 3)"

lemma sip_bytes4:
  fixes extra :: u32
  shows "((ucast (ucast extra :: u8) :: u64) OR push_bit 8 (ucast (ucast (drop_bit 8 extra) :: u8))
     OR push_bit 16 (ucast (ucast (drop_bit 16 extra) :: u8)) OR push_bit 24 (ucast (ucast (drop_bit 24 extra) :: u8)))
     = ucast extra" (is "?l = _")
proof (rule bit_word_eqI)
  fix p assume "p < LENGTH(64)"
  consider "p < 8" | "8 \<le> p" "p < 16" | "16 \<le> p" "p < 24" | "24 \<le> p" "p < 32" | "32 \<le> p" by linarith
  then show "bit ?l p = bit (ucast extra :: u64) p"
    by cases (auto simp: bit_or_iff bit_push_bit_iff bit_ucast_iff bit_drop_bit_eq dest: bit_imp_le_length)
qed

text \<open>
  (C31) The two versions of SipHash for 256-bit values, written out without a hasher object,
  are the general hasher fed with the four words of the value, and in the second case with
  the four little-endian bytes of the extra word.
\<close>

theorem SipHashUint256_general:
  "SipHashUint256 k0 k1 val = CSipHasher_Finalize (sip_four k0 k1 val) \<and>
    SipHashUint256Extra k0 k1 val extra =
      CSipHasher_Finalize (CSipHasher_Write (sip_four k0 k1 val) (WriteLE32 extra))"
proof
  have four: "sip_four k0 k1 val =
      \<lparr>sip_v = sip_absorb (GetUint64 val 3) (sip_absorb (GetUint64 val 2)
         (sip_absorb (GetUint64 val 1) (sip_absorb (GetUint64 val 0) (sip_init k0 k1)))), sip_tmp = 0, sip_count = 32\<rparr>"
    by (simp add: sip_four_def CSipHasher_Write64_def CSipHasher_init_def)
  show "SipHashUint256 k0 k1 val = CSipHasher_Finalize (sip_four k0 k1 val)"
    unfolding SipHashUint256_absorb four by (simp add: CSipHasher_Finalize_def)
  have "WriteLE32 extra = [ucast extra, ucast (drop_bit 8 extra), ucast (drop_bit 16 extra), ucast (drop_bit 24 extra)]"
    by (simp add: WriteLE32_def le_bytes_def upt_conv_Cons)
  then have "CSipHasher_Write (sip_four k0 k1 val) (WriteLE32 extra) =
      \<lparr>sip_v = sip_v (sip_four k0 k1 val), sip_tmp = ucast extra, sip_count = 36\<rparr>"
    using sip_bytes4 [of extra] by (simp add: CSipHasher_Write_def sip_byte_def four or.assoc)
  then show "SipHashUint256Extra k0 k1 val extra =
      CSipHasher_Finalize (CSipHasher_Write (sip_four k0 k1 val) (WriteLE32 extra))"
    unfolding SipHashUint256Extra_absorb by (simp add: CSipHasher_Finalize_def four or.commute)
qed

end
