(* ===== verification/Coins.thy ===== *)
theory Coins
  imports Compressor_Props Hash_Keyed "HOL-Library.AList"
begin

text \<open>
  The set of unspent outputs and its caches (\<open>coins.h\<close>, \<open>coins.cpp\<close>).  The virtual
  methods of \<open>CCoinsView\<close> that a cache calls on its base are a record of functions, so a
  cache can stand on any view, another cache included; methods declared \<open>const\<close> return the new
  state because they fill caches.  \<open>CCoinsMap\<close>, an unordered map, is an association list
  whose order is its order of iteration.  The two flag bits are Booleans, and the
  accounting of memory is left out.
\<close>

unbundle bit_operations_syntax

subsection \<open>Coins\<close>

record Coin =
  coin_out :: CTxOut
  fCoinBase :: bool
  coin_nHeight :: "31 word"

definition Coin_of :: "CTxOut \<Rightarrow> int \<Rightarrow> bool \<Rightarrow> Coin" where
  "Coin_of outIn nHeightIn fCoinBaseIn =
     \<lparr>coin_out = outIn, fCoinBase = fCoinBaseIn, coin_nHeight = word_of_int nHeightIn\<rparr>"

definition coinEmpty :: Coin where
  "coinEmpty = \<lparr>coin_out = CTxOut_null, fCoinBase = False, coin_nHeight = 0\<rparr>"

definition Coin_Clear :: "Coin \<Rightarrow> Coin" where
  "Coin_Clear coin = coin\<lparr>coin_out := CTxOut_null, fCoinBase := False, coin_nHeight := 0\<rparr>"

definition Coin_IsSpent :: "Coin \<Rightarrow> bool" where
  "Coin_IsSpent coin \<longleftrightarrow> CTxOut_IsNull (coin_out coin)"

definition coin_code :: "Coin \<Rightarrow> u32" where
  "coin_code coin = ucast (coin_nHeight coin) * 2 + of_bool (fCoinBase coin)"

text \<open>\<open>None\<close> is the failed assertion that the coin is not spent.\<close>

definition ser_Coin :: "(CPubKey \<Rightarrow> bool) \<Rightarrow> Coin \<Rightarrow> bytes option" where
  "ser_Coin IsFullyValid coin =
     (if Coin_IsSpent coin then None
      else Some (WriteVarInt (coin_code coin) @ ser_CTxOutCompressor IsFullyValid (coin_out coin)))"

definition unser_Coin :: "(CPubKey \<Rightarrow> CPubKey option) \<Rightarrow> Coin \<Rightarrow> Coin parser" where
  "unser_Coin DecompressKey old =
     pbind ReadVarInt (\<lambda>code :: u32.
     pbind (unser_CTxOutCompressor DecompressKey (coin_out old)) (\<lambda>out.
       preturn \<lparr>coin_out = out, fCoinBase = (code AND 1 = 1), coin_nHeight = ucast (drop_bit 1 code)\<rparr>))"

record CCoinsCacheEntry =
  ce_coin :: Coin
  DIRTY :: bool
  FRESH :: bool

type_synonym CCoinsMap = "(COutPoint \<times> CCoinsCacheEntry) list"

subsection \<open>Views\<close>

datatype coins_error = Assertion_failed | Logic_error

record 'b CCoinsView =
  base_GetCoin :: "COutPoint \<Rightarrow> 'b \<Rightarrow> Coin option \<times> 'b"
  base_GetBestBlock :: "'b \<Rightarrow> uint256 \<times> 'b"
  base_BatchWrite :: "CCoinsMap \<Rightarrow> uint256 \<Rightarrow> 'b \<Rightarrow> coins_error + bool \<times> 'b"

record 'b CCoinsViewCache =
  base :: 'b
  hashBlock :: uint256
  cacheCoins :: CCoinsMap

definition CCoinsViewCache_on :: "'b \<Rightarrow> 'b CCoinsViewCache" where
  "CCoinsViewCache_on baseIn = \<lparr>base = baseIn, hashBlock = blob_null 32, cacheCoins = []\<rparr>"

definition FetchCoin ::
    "'b CCoinsView \<Rightarrow> COutPoint \<Rightarrow> 'b CCoinsViewCache \<Rightarrow> CCoinsCacheEntry option \<times> 'b CCoinsViewCache" where
  "FetchCoin V outpoint c =
     (case map_of (cacheCoins c) outpoint of
        Some it \<Rightarrow> (Some it, c)
      | None \<Rightarrow>
          (case base_GetCoin V outpoint (base c) of
             (None, b) \<Rightarrow> (None, c\<lparr>base := b\<rparr>)
           | (Some tmp, b) \<Rightarrow>
               let ret = \<lparr>ce_coin = tmp, DIRTY = False, FRESH = Coin_IsSpent tmp\<rparr>
               in (Some ret, c\<lparr>base := b, cacheCoins := (outpoint, ret) # cacheCoins c\<rparr>)))"

definition GetCoin :: "'b CCoinsView \<Rightarrow> COutPoint \<Rightarrow> 'b CCoinsViewCache \<Rightarrow> Coin option \<times> 'b CCoinsViewCache" where
  "GetCoin V outpoint c =
     (case FetchCoin V outpoint c of
        (Some it, c) \<Rightarrow> (if Coin_IsSpent (ce_coin it) then None else Some (ce_coin it), c)
      | (None, c) \<Rightarrow> (None, c))"

text \<open>The entry that \<open>emplace\<close> finds or makes.\<close>

definition emplaced :: "COutPoint \<Rightarrow> CCoinsMap \<Rightarrow> CCoinsCacheEntry" where
  "emplaced outpoint m =
     (case map_of m outpoint of Some it \<Rightarrow> it | None \<Rightarrow> \<lparr>ce_coin = coinEmpty, DIRTY = False, FRESH = False\<rparr>)"

definition AddCoin ::
    "COutPoint \<Rightarrow> Coin \<Rightarrow> bool \<Rightarrow> 'b CCoinsViewCache \<Rightarrow> coins_error + 'b CCoinsViewCache" where
  "AddCoin outpoint coin possible_overwrite c =
     (if Coin_IsSpent coin then Inl Assertion_failed
      else if IsUnspendable (scriptPubKey (coin_out coin)) then Inr c
      else let it = emplaced outpoint (cacheCoins c)
           in if \<not> possible_overwrite \<and> \<not> Coin_IsSpent (ce_coin it) then Inl Logic_error
              else let fresh = (\<not> possible_overwrite \<and> \<not> DIRTY it);
                       it = \<lparr>ce_coin = coin, DIRTY = True, FRESH = FRESH it \<or> fresh\<rparr>
                   in Inr (c\<lparr>cacheCoins := AList.update outpoint it (cacheCoins c)\<rparr>))"

text \<open>The result of \<open>SpendCoin\<close>: \<open>None\<close> for \<open>false\<close>, else the coin that is moved out.\<close>

definition SpendCoin :: "'b CCoinsView \<Rightarrow> COutPoint \<Rightarrow> 'b CCoinsViewCache \<Rightarrow> Coin option \<times> 'b CCoinsViewCache" where
  "SpendCoin V outpoint c =
     (case FetchCoin V outpoint c of
        (None, c) \<Rightarrow> (None, c)
      | (Some it, c) \<Rightarrow>
          (Some (ce_coin it),
           if FRESH it then c\<lparr>cacheCoins := AList.delete outpoint (cacheCoins c)\<rparr>
           else c\<lparr>cacheCoins := AList.update outpoint
                   (it\<lparr>DIRTY := True, ce_coin := Coin_Clear (ce_coin it)\<rparr>) (cacheCoins c)\<rparr>))"

definition AccessCoin :: "'b CCoinsView \<Rightarrow> COutPoint \<Rightarrow> 'b CCoinsViewCache \<Rightarrow> Coin \<times> 'b CCoinsViewCache" where
  "AccessCoin V outpoint c =
     (case FetchCoin V outpoint c of (None, c) \<Rightarrow> (coinEmpty, c) | (Some it, c) \<Rightarrow> (ce_coin it, c))"

definition HaveCoin :: "'b CCoinsView \<Rightarrow> COutPoint \<Rightarrow> 'b CCoinsViewCache \<Rightarrow> bool \<times> 'b CCoinsViewCache" where
  "HaveCoin V outpoint c =
     (case FetchCoin V outpoint c of (None, c) \<Rightarrow> (False, c) | (Some it, c) \<Rightarrow> (\<not> Coin_IsSpent (ce_coin it), c))"

definition GetBestBlock :: "'b CCoinsView \<Rightarrow> 'b CCoinsViewCache \<Rightarrow> uint256 \<times> 'b CCoinsViewCache" where
  "GetBestBlock V c =
     (if blob_IsNull (hashBlock c) then
        (case base_GetBestBlock V (base c) of (h, b) \<Rightarrow> (h, c\<lparr>base := b, hashBlock := h\<rparr>))
      else (hashBlock c, c))"

definition SetBestBlock :: "uint256 \<Rightarrow> 'b CCoinsViewCache \<Rightarrow> 'b CCoinsViewCache" where
  "SetBestBlock hashBlockIn c = c\<lparr>hashBlock := hashBlockIn\<rparr>"

subsection \<open>Outputs of a transaction\<close>

text \<open>\<open>SerializeHash\<close> is the hash behind \<open>GetHash\<close>; \<open>i\<close> is the loop counter.\<close>

fun add_outputs ::
    "'b CCoinsView \<Rightarrow> uint256 \<Rightarrow> bool \<Rightarrow> int \<Rightarrow> bool \<Rightarrow> u32 \<Rightarrow> CTxOut list \<Rightarrow> 'b CCoinsViewCache \<Rightarrow>
     coins_error + 'b CCoinsViewCache" where
  "add_outputs V txid fCoinbase nHeight check i [] c = Inr c"
| "add_outputs V txid fCoinbase nHeight check i (txout # outs) c =
     (let outpoint = \<lparr>op_hash = txid, op_n = i\<rparr>;
          (overwrite, c) = (if check then HaveCoin V outpoint c else (fCoinbase, c))
      in case AddCoin outpoint (Coin_of txout nHeight fCoinbase) overwrite c of
           Inl e \<Rightarrow> Inl e
         | Inr c \<Rightarrow> add_outputs V txid fCoinbase nHeight check (i + 1) outs c)"

definition AddCoins ::
    "'b CCoinsView \<Rightarrow> (bytes \<Rightarrow> uint256) \<Rightarrow> CTransaction \<Rightarrow> int \<Rightarrow> bool \<Rightarrow> 'b CCoinsViewCache \<Rightarrow>
     coins_error + 'b CCoinsViewCache" where
  "AddCoins V SerializeHash tx nHeight check c =
     add_outputs V (tx_GetHash SerializeHash tx) (IsCoinBase tx) nHeight check 0 (vout tx) c"

subsection \<open>Writing back\<close>

definition batch_entry ::
    "COutPoint \<Rightarrow> CCoinsCacheEntry \<Rightarrow> CCoinsMap \<Rightarrow> coins_error + CCoinsMap" where
  "batch_entry outpoint it m =
     (if \<not> DIRTY it then Inr m
      else case map_of m outpoint of
        None \<Rightarrow>
          if FRESH it \<and> Coin_IsSpent (ce_coin it) then Inr m
          else Inr ((outpoint, \<lparr>ce_coin = ce_coin it, DIRTY = True, FRESH = FRESH it\<rparr>) # m)
      | Some itUs \<Rightarrow>
          if FRESH it \<and> \<not> Coin_IsSpent (ce_coin itUs) then Inl Logic_error
          else if FRESH itUs \<and> Coin_IsSpent (ce_coin it) then Inr (AList.delete outpoint m)
          else Inr (AList.update outpoint (itUs\<lparr>ce_coin := ce_coin it, DIRTY := True\<rparr>) m))"

fun batch_entries :: "CCoinsMap \<Rightarrow> CCoinsMap \<Rightarrow> coins_error + CCoinsMap" where
  "batch_entries [] m = Inr m"
| "batch_entries ((outpoint, it) # mapCoins) m =
     (case batch_entry outpoint it m of Inl e \<Rightarrow> Inl e | Inr m \<Rightarrow> batch_entries mapCoins m)"

definition BatchWrite ::
    "CCoinsMap \<Rightarrow> uint256 \<Rightarrow> 'b CCoinsViewCache \<Rightarrow> coins_error + bool \<times> 'b CCoinsViewCache" where
  "BatchWrite mapCoins hashBlockIn c =
     (case batch_entries mapCoins (cacheCoins c) of
        Inl e \<Rightarrow> Inl e
      | Inr m \<Rightarrow> Inr (True, c\<lparr>cacheCoins := m, hashBlock := hashBlockIn\<rparr>))"

definition Flush :: "'b CCoinsView \<Rightarrow> 'b CCoinsViewCache \<Rightarrow> coins_error + bool \<times> 'b CCoinsViewCache" where
  "Flush V c =
     (case base_BatchWrite V (cacheCoins c) (hashBlock c) (base c) of
        Inl e \<Rightarrow> Inl e
      | Inr (fOk, b) \<Rightarrow> Inr (fOk, c\<lparr>base := b, cacheCoins := []\<rparr>))"

definition Uncache :: "COutPoint \<Rightarrow> 'b CCoinsViewCache \<Rightarrow> 'b CCoinsViewCache" where
  "Uncache outpoint c =
     (case map_of (cacheCoins c) outpoint of
        None \<Rightarrow> c
      | Some it \<Rightarrow>
          if \<not> DIRTY it \<and> \<not> FRESH it then c\<lparr>cacheCoins := AList.delete outpoint (cacheCoins c)\<rparr> else c)"

text \<open>A cache is itself a view.\<close>

definition CCoinsViewCache_view :: "'b CCoinsView \<Rightarrow> 'b CCoinsViewCache CCoinsView" where
  "CCoinsViewCache_view V =
     \<lparr>base_GetCoin = GetCoin V, base_GetBestBlock = GetBestBlock V, base_BatchWrite = BatchWrite\<rparr>"

subsection \<open>Inputs of a transaction\<close>

fun have_all :: "'b CCoinsView \<Rightarrow> CTxIn list \<Rightarrow> 'b CCoinsViewCache \<Rightarrow> bool \<times> 'b CCoinsViewCache" where
  "have_all V [] c = (True, c)"
| "have_all V (txin # ins) c =
     (case HaveCoin V (prevout txin) c of (have, c) \<Rightarrow> if have then have_all V ins c else (False, c))"

definition HaveInputs :: "'b CCoinsView \<Rightarrow> CTransaction \<Rightarrow> 'b CCoinsViewCache \<Rightarrow> bool \<times> 'b CCoinsViewCache" where
  "HaveInputs V tx c = (if \<not> IsCoinBase tx then have_all V (vin tx) c else (True, c))"

text \<open>A block of two million bytes over the nine bytes of an empty output.\<close>

definition MAX_OUTPUTS_PER_BLOCK :: u32 where
  "MAX_OUTPUTS_PER_BLOCK = 2000000 div word_of_nat (length (ser_CTxOut CTxOut_null))"

function access_from :: "'b CCoinsView \<Rightarrow> COutPoint \<Rightarrow> 'b CCoinsViewCache \<Rightarrow> Coin \<times> 'b CCoinsViewCache" where
  "access_from V iter c =
     (if op_n iter < MAX_OUTPUTS_PER_BLOCK then
        (case AccessCoin V iter c of
           (alternate, c) \<Rightarrow>
             if \<not> Coin_IsSpent alternate then (alternate, c)
             else access_from V (iter\<lparr>op_n := op_n iter + 1\<rparr>) c)
      else (coinEmpty, c))"
  by pat_completeness auto
termination
proof (relation "measure (\<lambda>(_, iter, _). unat (- 1 - op_n iter))", goal_cases)
  case (2 V iter c alternate c1)
  then have "op_n iter \<noteq> - 1" by (auto simp: word_order.extremum_strict)
  then have "unat (- 1 - op_n iter - 1) < unat (- 1 - op_n iter)"
    by (intro measure_unat) (simp add: eq_diff_eq)
  then show ?case by (simp add: diff_diff_eq [symmetric] del: diff_numeral_special)
qed simp

declare access_from.simps [simp del]

definition AccessByTxid :: "'b CCoinsView \<Rightarrow> uint256 \<Rightarrow> 'b CCoinsViewCache \<Rightarrow> Coin \<times> 'b CCoinsViewCache" where
  "AccessByTxid V txid c = access_from V \<lparr>op_hash = txid, op_n = 0\<rparr> c"

end
