(* ===== verification/Coins_View.thy ===== *)
theory Coins_View
  imports Coins
begin

text \<open>
  The contract of a coins view, and that a cache on any view that keeps it keeps it too.  A
  view stands for a partial function from outpoints to unspent coins and for the hash of the best
  block.  The flags of a cache entry are given their meaning here: \<open>FRESH\<close> entries have no
  unspent coin in the base, entries that are not \<open>DIRTY\<close> agree with it.
\<close>

type_synonym utxo_set = "COutPoint \<rightharpoonup> Coin"

subsection \<open>Maps of entries over a set of coins\<close>

definition unspent :: "Coin \<Rightarrow> Coin option" where
  "unspent coin = (if Coin_IsSpent coin then None else Some coin)"

definition entry_ok :: "(Coin \<Rightarrow> bool) \<Rightarrow> utxo_set \<Rightarrow> COutPoint \<Rightarrow> CCoinsCacheEntry \<Rightarrow> bool" where
  "entry_ok ok A p e \<longleftrightarrow>
     wf_COutPoint p \<and> (FRESH e \<longrightarrow> A p = None) \<and> (\<not> DIRTY e \<longrightarrow> unspent (ce_coin e) = A p) \<and>
     (\<not> Coin_IsSpent (ce_coin e) \<longrightarrow> ok (ce_coin e))"

definition map_inv :: "(Coin \<Rightarrow> bool) \<Rightarrow> utxo_set \<Rightarrow> CCoinsMap \<Rightarrow> bool" where
  "map_inv ok A m \<longleftrightarrow> distinct (map fst m) \<and> (\<forall>p e. map_of m p = Some e \<longrightarrow> entry_ok ok A p e)"

definition map_utxo :: "utxo_set \<Rightarrow> CCoinsMap \<Rightarrow> utxo_set" where
  "map_utxo A m = (\<lambda>p. case map_of m p of Some e \<Rightarrow> unspent (ce_coin e) | None \<Rightarrow> A p)"

text \<open>What a batch does to the set it is written to, and when it may be.\<close>

definition overlay :: "CCoinsMap \<Rightarrow> utxo_set \<Rightarrow> utxo_set" where
  "overlay m A =
     (\<lambda>p. case map_of m p of None \<Rightarrow> A p | Some e \<Rightarrow> if DIRTY e then unspent (ce_coin e) else A p)"

definition batch_ok :: "(Coin \<Rightarrow> bool) \<Rightarrow> utxo_set \<Rightarrow> CCoinsMap \<Rightarrow> bool" where
  "batch_ok ok A m \<longleftrightarrow>
     distinct (map fst m) \<and>
     (\<forall>(p, e) \<in> set m. DIRTY e \<longrightarrow>
        wf_COutPoint p \<and> (FRESH e \<longrightarrow> A p = None) \<and> (\<not> Coin_IsSpent (ce_coin e) \<longrightarrow> ok (ce_coin e)))"

definition hash_ok :: "uint256 \<Rightarrow> bool" where
  "hash_ok h \<longleftrightarrow> length h = 32 \<and> \<not> blob_IsNull h"

lemma unspent_empty [simp]: "unspent coinEmpty = None" "unspent (Coin_Clear coin) = None"
  by (simp_all add: unspent_def coinEmpty_def Coin_Clear_def Coin_IsSpent_def CTxOut_IsNull_def CTxOut_null_def)

lemma spent_empty [simp]: "Coin_IsSpent coinEmpty" "Coin_IsSpent (Coin_Clear coin)"
  by (simp_all add: coinEmpty_def Coin_Clear_def Coin_IsSpent_def CTxOut_IsNull_def CTxOut_null_def)

lemma unspent_simps [simp]: "Coin_IsSpent coin \<Longrightarrow> unspent coin = None" "\<not> Coin_IsSpent coin \<Longrightarrow> unspent coin = Some coin"
  by (simp_all add: unspent_def)

lemma unspent_eq_None [simp]: "unspent coin = None \<longleftrightarrow> Coin_IsSpent coin" "None = unspent coin \<longleftrightarrow> Coin_IsSpent coin"
  by (simp_all add: unspent_def)

lemma map_inv_Nil [simp]: "map_inv ok A []" "map_utxo A [] = A"
  by (simp_all add: map_inv_def map_utxo_def)

lemma map_inv_entry: "map_inv ok A m \<Longrightarrow> map_of m p = Some e \<Longrightarrow> entry_ok ok A p e"
  by (simp add: map_inv_def)

lemma map_inv_distinct: "map_inv ok A m \<Longrightarrow> distinct (map fst m)"
  by (simp add: map_inv_def)

lemma map_inv_update:
  "map_inv ok A m \<Longrightarrow> entry_ok ok A p e \<Longrightarrow> map_inv ok A (AList.update p e m)"
  by (auto simp: map_inv_def update_conv' distinct_update split: if_splits)

lemma map_inv_delete: "map_inv ok A m \<Longrightarrow> map_inv ok A (AList.delete p m)"
  by (auto simp: map_inv_def delete_conv' distinct_delete split: if_splits)

lemma map_inv_Cons:
  "map_inv ok A m \<Longrightarrow> map_of m p = None \<Longrightarrow> entry_ok ok A p e \<Longrightarrow> map_inv ok A ((p, e) # m)"
  by (auto simp: map_inv_def map_of_eq_None_iff)

lemma map_utxo_update: "map_utxo A (AList.update p e m) = (map_utxo A m)(p := unspent (ce_coin e))"
  by (auto simp: map_utxo_def update_conv')

lemma map_utxo_Cons: "map_utxo A ((p, e) # m) = (map_utxo A m)(p := unspent (ce_coin e))"
  by (auto simp: map_utxo_def)

lemma map_utxo_delete: "map_utxo A (AList.delete p m) = (map_utxo A m)(p := A p)"
  by (auto simp: map_utxo_def delete_conv')

lemmas map_utxo_simps = map_utxo_update map_utxo_Cons map_utxo_delete

lemma map_utxo_None: "map_of m p = None \<Longrightarrow> map_utxo A m p = A p"
  by (simp add: map_utxo_def)

lemma map_utxo_Some: "map_of m p = Some e \<Longrightarrow> map_utxo A m p = unspent (ce_coin e)"
  by (simp add: map_utxo_def)

lemma map_inv_batch_ok: "map_inv ok A m \<Longrightarrow> batch_ok ok A m"
  by (auto simp: map_inv_def batch_ok_def entry_ok_def)

lemma map_inv_overlay: "map_inv ok A m \<Longrightarrow> overlay m A = map_utxo A m"
  by (auto simp: overlay_def map_utxo_def map_inv_def entry_ok_def fun_eq_iff split: option.splits)

subsection \<open>Batches into a cache\<close>

lemma batch_entry_spec:
  assumes valid: "map_inv ok A m" and wf: "wf_COutPoint p" and fresh: "FRESH e \<Longrightarrow> map_utxo A m p = None"
    and ok: "\<not> Coin_IsSpent (ce_coin e) \<Longrightarrow> ok (ce_coin e)" and dirty: "DIRTY e"
  shows "\<exists>m'. batch_entry p e m = Inr m' \<and> map_inv ok A m' \<and>
    map_utxo A m' = (map_utxo A m)(p := unspent (ce_coin e))"
proof (cases "map_of m p")
  case None
  then have A: "map_utxo A m p = A p" by (rule map_utxo_None)
  let ?e = "\<lparr>ce_coin = ce_coin e, DIRTY = True, FRESH = FRESH e\<rparr>"
  have "map_inv ok A ((p, ?e) # m)"
    using valid None wf fresh ok by (intro map_inv_Cons) (auto simp: entry_ok_def A)
  moreover have "(map_utxo A m)(p := None) = map_utxo A m" if "FRESH e"
    using fresh [OF that] by (rule fun_upd_idem)
  ultimately show ?thesis using None dirty valid by (simp add: batch_entry_def map_utxo_Cons)
next
  case (Some us)
  note us = map_inv_entry [OF valid Some] map_utxo_Some [OF Some, of A]
  let ?e = "us\<lparr>ce_coin := ce_coin e, DIRTY := True\<rparr>"
  have "map_inv ok A (AList.update p ?e m)"
    using us ok by (intro map_inv_update valid) (simp add: entry_ok_def)
  moreover have "map_inv ok A (AList.delete p m)" by (rule map_inv_delete [OF valid])
  moreover have "FRESH us \<Longrightarrow> A p = None" "FRESH e \<Longrightarrow> Coin_IsSpent (ce_coin us)"
    using us fresh by (simp_all add: entry_ok_def)
  ultimately show ?thesis using Some dirty by (simp add: batch_entry_def map_utxo_simps)
qed

lemma batch_ok_Cons:
  "batch_ok ok A ((p, e) # m) \<longleftrightarrow>
     p \<notin> fst ` set m \<and> batch_ok ok A m \<and>
     (DIRTY e \<longrightarrow> wf_COutPoint p \<and> (FRESH e \<longrightarrow> A p = None) \<and> (\<not> Coin_IsSpent (ce_coin e) \<longrightarrow> ok (ce_coin e)))"
  by (auto simp: batch_ok_def)

lemma batch_ok_upd: "batch_ok ok A m \<Longrightarrow> p \<notin> fst ` set m \<Longrightarrow> batch_ok ok (A(p := x)) m"
  unfolding batch_ok_def by (intro conjI ballI; clarify) (auto simp: image_iff dest: bspec)

lemma overlay_Cons:
  "p \<notin> fst ` set m \<Longrightarrow>
   overlay ((p, e) # m) A = overlay m (if DIRTY e then A(p := unspent (ce_coin e)) else A)"
  by (rule ext) (auto simp: overlay_def map_of_eq_None_iff [THEN iffD2] split: option.split)

lemma batch_entries_spec:
  "map_inv ok A m \<Longrightarrow> batch_ok ok (map_utxo A m) es \<Longrightarrow>
   \<exists>m'. batch_entries es m = Inr m' \<and> map_inv ok A m' \<and> map_utxo A m' = overlay es (map_utxo A m)"
proof (induction es arbitrary: m)
  case Nil
  then show ?case by (simp add: overlay_def)
next
  case (Cons pe es)
  obtain p e where pe: "pe = (p, e)" by fastforce
  from Cons.prems(2) have new: "p \<notin> fst ` set es" and es: "batch_ok ok (map_utxo A m) es"
    and e: "DIRTY e \<longrightarrow> wf_COutPoint p \<and> (FRESH e \<longrightarrow> map_utxo A m p = None) \<and>
      (\<not> Coin_IsSpent (ce_coin e) \<longrightarrow> ok (ce_coin e))"
    by (simp_all add: pe batch_ok_Cons)
  show ?case
  proof (cases "DIRTY e")
    case False
    with Cons.IH [OF Cons.prems(1) es] show ?thesis by (simp add: pe batch_entry_def overlay_Cons new)
  next
    case True
    with batch_entry_spec [OF Cons.prems(1), of p e] e obtain m1 where
      m1: "batch_entry p e m = Inr m1" "map_inv ok A m1" "map_utxo A m1 = (map_utxo A m)(p := unspent (ce_coin e))"
      by blast
    have "batch_ok ok (map_utxo A m1) es" unfolding m1(3) by (rule batch_ok_upd [OF es new])
    from Cons.IH [OF m1(2) this] True show ?thesis
      by (simp add: pe overlay_Cons new m1(1) m1(3) del: fun_upd_apply)
  qed
qed

subsection \<open>The contract\<close>

locale coins_view =
  fixes V :: "'b CCoinsView" and utxo :: "'b \<Rightarrow> utxo_set" and best :: "'b \<Rightarrow> uint256"
    and valid :: "'b \<Rightarrow> bool" and ok :: "Coin \<Rightarrow> bool"
  assumes get_coin: "valid b \<Longrightarrow> wf_COutPoint p \<Longrightarrow> base_GetCoin V p b = (r, b') \<Longrightarrow>
      r = utxo b p \<and> valid b' \<and> utxo b' = utxo b \<and> best b' = best b"
    and best_block: "valid b \<Longrightarrow> base_GetBestBlock V b = (h, b') \<Longrightarrow>
      h = best b \<and> valid b' \<and> utxo b' = utxo b \<and> best b' = best b"
    and utxo_unspent: "valid b \<Longrightarrow> utxo b p = Some coin \<Longrightarrow> wf_COutPoint p \<and> \<not> Coin_IsSpent coin \<and> ok coin"
    and batch_write: "valid b \<Longrightarrow> batch_ok ok (utxo b) m \<Longrightarrow> hash_ok h \<Longrightarrow>
      \<exists>b'. base_BatchWrite V m h b = Inr (True, b') \<and> valid b' \<and> utxo b' = overlay m (utxo b) \<and> best b' = h"

text \<open>The set a cache stands for, its best block and its invariant, given those of its base.\<close>

definition cache_utxo :: "('b \<Rightarrow> utxo_set) \<Rightarrow> 'b CCoinsViewCache \<Rightarrow> utxo_set" where
  "cache_utxo utxo c = map_utxo (utxo (base c)) (cacheCoins c)"

definition cache_best :: "('b \<Rightarrow> uint256) \<Rightarrow> 'b CCoinsViewCache \<Rightarrow> uint256" where
  "cache_best best c = (if blob_IsNull (hashBlock c) then best (base c) else hashBlock c)"

definition cache_inv ::
    "('b \<Rightarrow> utxo_set) \<Rightarrow> ('b \<Rightarrow> bool) \<Rightarrow> (Coin \<Rightarrow> bool) \<Rightarrow> 'b CCoinsViewCache \<Rightarrow> bool" where
  "cache_inv utxo valid ok c \<longleftrightarrow> valid (base c) \<and> map_inv ok (utxo (base c)) (cacheCoins c)"

lemmas cache_defs = cache_utxo_def cache_best_def cache_inv_def

lemma cache_upd [simp]:
  "cache_utxo utxo (c\<lparr>cacheCoins := m\<rparr>) = map_utxo (utxo (base c)) m"
  "cache_best best (c\<lparr>cacheCoins := m\<rparr>) = cache_best best c"
  "cache_inv utxo valid ok (c\<lparr>cacheCoins := m\<rparr>) \<longleftrightarrow> valid (base c) \<and> map_inv ok (utxo (base c)) m"
  by (simp_all add: cache_defs)

text \<open>Two states that stand for the same.\<close>

definition cache_same ::
    "('b \<Rightarrow> utxo_set) \<Rightarrow> ('b \<Rightarrow> uint256) \<Rightarrow> ('b \<Rightarrow> bool) \<Rightarrow> (Coin \<Rightarrow> bool) \<Rightarrow>
     'b CCoinsViewCache \<Rightarrow> 'b CCoinsViewCache \<Rightarrow> bool" where
  "cache_same utxo best valid ok c c' \<longleftrightarrow>
     cache_inv utxo valid ok c' \<and> cache_utxo utxo c' = cache_utxo utxo c \<and> cache_best best c' = cache_best best c"

context coins_view
begin

text \<open>Lookups fill the cache and change nothing else.\<close>

lemma fetch_coin:
  assumes valid: "cache_inv utxo valid ok c" and wf: "wf_COutPoint p" and f: "FetchCoin V p c = (r, c')"
  shows "cache_same utxo best valid ok c c'" and "map_of (cacheCoins c') p = r"
    and "Option.bind r (\<lambda>e. unspent (ce_coin e)) = cache_utxo utxo c p" and "hashBlock c' = hashBlock c"
proof -
  have b: "valid (base c)" and m: "map_inv ok (utxo (base c)) (cacheCoins c)"
    using valid by (simp_all add: cache_inv_def)
  have "cache_same utxo best valid ok c c' \<and> map_of (cacheCoins c') p = r \<and>
    Option.bind r (\<lambda>e. unspent (ce_coin e)) = cache_utxo utxo c p \<and> hashBlock c' = hashBlock c"
  proof (cases "map_of (cacheCoins c) p")
    case (Some e)
    then have "r = Some e" "c' = c" using f by (simp_all add: FetchCoin_def)
    with Some valid show ?thesis by (simp add: cache_same_def cache_utxo_def map_utxo_Some)
  next
    case None
    obtain q b' where g: "base_GetCoin V p (base c) = (q, b')" by fastforce
    note b' = get_coin [OF b wf g]
    show ?thesis
    proof (cases q)
      case None': None
      then show ?thesis
        using None f g b' m by (auto simp: FetchCoin_def cache_same_def cache_defs map_utxo_None)
    next
      case q: (Some coin)
      let ?e = "\<lparr>ce_coin = coin, DIRTY = False, FRESH = Coin_IsSpent coin\<rparr>"
      from q b' have u: "utxo (base c) p = Some coin" by simp
      note coin = utxo_unspent [OF b u]
      have c': "r = Some ?e" "c' = c\<lparr>base := b', cacheCoins := (p, ?e) # cacheCoins c\<rparr>"
        using None f g q by (auto simp: FetchCoin_def Let_def)
      have "map_inv ok (utxo (base c)) ((p, ?e) # cacheCoins c)"
        using m None coin u by (intro map_inv_Cons) (auto simp: entry_ok_def)
      moreover have "map_utxo (utxo (base c)) ((p, ?e) # cacheCoins c) = map_utxo (utxo (base c)) (cacheCoins c)"
        using coin u None by (simp add: map_utxo_Cons fun_upd_idem_iff map_utxo_None)
      ultimately show ?thesis
        using c' b' coin u None by (simp add: cache_same_def cache_defs map_utxo_None)
    qed
  qed
  then show "cache_same utxo best valid ok c c'" "map_of (cacheCoins c') p = r"
    "Option.bind r (\<lambda>e. unspent (ce_coin e)) = cache_utxo utxo c p" "hashBlock c' = hashBlock c" by simp_all
qed

lemma lookups:
  assumes "cache_inv utxo valid ok c" and "wf_COutPoint p"
  shows "GetCoin V p c = (r, c') \<Longrightarrow> r = cache_utxo utxo c p \<and> cache_same utxo best valid ok c c'"
    and "HaveCoin V p c = (h, c') \<Longrightarrow> h = (cache_utxo utxo c p \<noteq> None) \<and> cache_same utxo best valid ok c c'"
    and "AccessCoin V p c = (coin, c') \<Longrightarrow> unspent coin = cache_utxo utxo c p \<and> cache_same utxo best valid ok c c'"
proof -
  obtain e c1 where f: "FetchCoin V p c = (e, c1)" by fastforce
  note f1 = fetch_coin [OF assms f]
  show "GetCoin V p c = (r, c') \<Longrightarrow> r = cache_utxo utxo c p \<and> cache_same utxo best valid ok c c'"
    using f f1 by (cases e) (auto simp: GetCoin_def unspent_def)
  show "HaveCoin V p c = (h, c') \<Longrightarrow> h = (cache_utxo utxo c p \<noteq> None) \<and> cache_same utxo best valid ok c c'"
    using f f1(1) f1(3) [symmetric] by (cases e) (auto simp: HaveCoin_def)
  show "AccessCoin V p c = (coin, c') \<Longrightarrow> unspent coin = cache_utxo utxo c p \<and> cache_same utxo best valid ok c c'"
    using f f1(1) f1(3) [symmetric] by (cases e) (auto simp: AccessCoin_def)
qed

lemma get_best:
  assumes "cache_inv utxo valid ok c" and "GetBestBlock V c = (h, c')"
  shows "h = cache_best best c \<and> cache_same utxo best valid ok c c'"
proof (cases "blob_IsNull (hashBlock c)")
  case True
  obtain h1 b' where g: "base_GetBestBlock V (base c) = (h1, b')" by fastforce
  have "valid (base c)" using assms(1) by (simp add: cache_inv_def)
  from best_block [OF this g] True assms g show ?thesis
    by (auto simp: GetBestBlock_def cache_same_def cache_defs)
next
  case False
  with assms show ?thesis by (auto simp: GetBestBlock_def cache_same_def cache_defs)
qed

text \<open>
  A coin may be added over nothing, or where an overwrite is announced; an unspendable one is
  dropped.
\<close>

lemma add_coin:
  assumes valid: "cache_inv utxo valid ok c" and wf: "wf_COutPoint p" and coin: "\<not> Coin_IsSpent coin" "IsUnspendable (scriptPubKey (coin_out coin)) \<or> ok coin"
    and free: "overwrite \<or> cache_utxo utxo c p = None"
  shows "\<exists>c'. AddCoin p coin overwrite c = Inr c' \<and> cache_inv utxo valid ok c' \<and>
    cache_utxo utxo c' =
      (if IsUnspendable (scriptPubKey (coin_out coin)) then cache_utxo utxo c else (cache_utxo utxo c)(p \<mapsto> coin)) \<and>
    cache_best best c' = cache_best best c"
proof (cases "IsUnspendable (scriptPubKey (coin_out coin))")
  case True
  with valid coin show ?thesis by (simp add: AddCoin_def)
next
  case False
  let ?it = "emplaced p (cacheCoins c)" and ?A = "utxo (base c)"
  let ?e = "\<lparr>ce_coin = coin, DIRTY = True, FRESH = FRESH ?it \<or> \<not> overwrite \<and> \<not> DIRTY ?it\<rparr>"
  have m: "map_inv ok ?A (cacheCoins c)" using valid by (simp add: cache_inv_def)
  have it: "FRESH ?it \<Longrightarrow> ?A p = None" "\<not> overwrite \<Longrightarrow> Coin_IsSpent (ce_coin ?it)"
    "\<not> overwrite \<Longrightarrow> \<not> DIRTY ?it \<Longrightarrow> ?A p = None"
    using free map_inv_entry [OF m, of p]
    by (auto simp: emplaced_def cache_utxo_def map_utxo_def entry_ok_def split: option.splits)
  have "map_inv ok ?A (AList.update p ?e (cacheCoins c))"
    using it wf coin False by (intro map_inv_update m) (auto simp: entry_ok_def)
  then show ?thesis
    using valid False coin it(2) by (auto simp: AddCoin_def Let_def cache_utxo_def cache_inv_def map_utxo_update)
qed

text \<open>Spending takes the coin out and hands it over; a coin that is not there is not handed over.\<close>

lemma spend_coin:
  assumes valid: "cache_inv utxo valid ok c" and wf: "wf_COutPoint p" and s: "SpendCoin V p c = (r, c')"
  shows "Option.bind r unspent = cache_utxo utxo c p \<and> cache_inv utxo valid ok c' \<and>
    cache_utxo utxo c' = (cache_utxo utxo c)(p := None) \<and> cache_best best c' = cache_best best c"
proof -
  obtain e c1 where f: "FetchCoin V p c = (e, c1)" by fastforce
  note f1 = fetch_coin [OF valid wf f]
  have same: "cache_inv utxo valid ok c1" "cache_utxo utxo c1 = cache_utxo utxo c" "cache_best best c1 = cache_best best c"
    using f1(1) by (simp_all add: cache_same_def)
  show ?thesis
  proof (cases e)
    case None
    then have "cache_utxo utxo c p = None" using f1(3) by simp
    with None s f same show ?thesis by (auto simp: SpendCoin_def)
  next
    case (Some it)
    let ?A = "utxo (base c1)"
    have m: "map_inv ok ?A (cacheCoins c1)" using same(1) by (simp add: cache_inv_def)
    from map_inv_entry [OF m, of p it] f1(2) Some have it: "entry_ok ok ?A p it" by simp
    have r: "Option.bind r unspent = cache_utxo utxo c p" using Some s f f1(3) by (auto simp: SpendCoin_def)
    show ?thesis
    proof (cases "FRESH it")
      case True
      then have "c' = c1\<lparr>cacheCoins := AList.delete p (cacheCoins c1)\<rparr>" using Some s f by (simp add: SpendCoin_def)
      with True r same it map_inv_delete [OF m, of p] show ?thesis
        by (simp add: cache_utxo_def cache_inv_def map_utxo_delete entry_ok_def)
    next
      case False
      let ?e = "it\<lparr>DIRTY := True, ce_coin := Coin_Clear (ce_coin it)\<rparr>"
      have "c' = c1\<lparr>cacheCoins := AList.update p ?e (cacheCoins c1)\<rparr>"
        using False Some s f by (simp add: SpendCoin_def)
      moreover have "map_inv ok ?A (AList.update p ?e (cacheCoins c1))"
        using it by (intro map_inv_update m) (simp add: entry_ok_def)
      ultimately show ?thesis using r same by (simp add: cache_utxo_def cache_inv_def map_utxo_update)
    qed
  qed
qed

lemma uncache:
  assumes valid: "cache_inv utxo valid ok c"
  shows "cache_same utxo best valid ok c (Uncache p c)"
proof (cases "map_of (cacheCoins c) p")
  case None
  with valid show ?thesis by (simp add: Uncache_def cache_same_def)
next
  case (Some it)
  have m: "map_inv ok (utxo (base c)) (cacheCoins c)" using valid by (simp add: cache_inv_def)
  from map_inv_entry [OF m Some] map_utxo_Some [OF Some] map_inv_delete [OF m] valid Some show ?thesis
    by (auto simp: Uncache_def cache_same_def cache_utxo_def cache_inv_def map_utxo_delete entry_ok_def fun_upd_idem_iff)
qed

text \<open>Flushing makes the base stand for what the cache stood for, and empties the cache.\<close>

lemma flush:
  assumes valid: "cache_inv utxo valid ok c" and h: "hash_ok (hashBlock c)"
  shows "\<exists>c'. Flush V c = Inr (True, c') \<and> cache_same utxo best valid ok c c' \<and> cacheCoins c' = [] \<and>
    utxo (base c') = cache_utxo utxo c \<and> best (base c') = hashBlock c \<and> hashBlock c' = hashBlock c"
proof -
  have b: "valid (base c)" and m: "map_inv ok (utxo (base c)) (cacheCoins c)"
    using valid by (simp_all add: cache_inv_def)
  from batch_write [OF b map_inv_batch_ok [OF m] h] obtain b' where
    b': "base_BatchWrite V (cacheCoins c) (hashBlock c) (base c) = Inr (True, b')" "valid b'"
      "utxo b' = map_utxo (utxo (base c)) (cacheCoins c)" "best b' = hashBlock c"
    unfolding map_inv_overlay [OF m] by blast
  have "\<not> blob_IsNull (hashBlock c)" using h by (simp add: hash_ok_def)
  with b' show ?thesis by (simp add: Flush_def cache_same_def cache_defs)
qed

lemma cache_view:
  "coins_view (CCoinsViewCache_view V) (cache_utxo utxo) (cache_best best) (cache_inv utxo valid ok) ok"
proof unfold_locales
  fix c p r c'
  assume "cache_inv utxo valid ok c" "wf_COutPoint p" "base_GetCoin (CCoinsViewCache_view V) p c = (r, c')"
  then show "r = cache_utxo utxo c p \<and> cache_inv utxo valid ok c' \<and> cache_utxo utxo c' = cache_utxo utxo c \<and>
      cache_best best c' = cache_best best c"
    using lookups(1) [of c p r c'] by (simp add: CCoinsViewCache_view_def cache_same_def)
next
  fix c h c'
  assume "cache_inv utxo valid ok c" "base_GetBestBlock (CCoinsViewCache_view V) c = (h, c')"
  then show "h = cache_best best c \<and> cache_inv utxo valid ok c' \<and> cache_utxo utxo c' = cache_utxo utxo c \<and>
      cache_best best c' = cache_best best c"
    using get_best [of c h c'] by (simp add: CCoinsViewCache_view_def cache_same_def)
next
  fix c p coin
  assume c: "cache_inv utxo valid ok c" "cache_utxo utxo c p = Some coin"
  then have b: "valid (base c)" and m: "map_inv ok (utxo (base c)) (cacheCoins c)" by (simp_all add: cache_inv_def)
  show "wf_COutPoint p \<and> \<not> Coin_IsSpent coin \<and> ok coin"
    using c(2) utxo_unspent [OF b, of p coin] map_inv_entry [OF m, of p]
    by (auto simp: cache_utxo_def map_utxo_def entry_ok_def unspent_def split: option.splits if_splits)
next
  fix c m h
  assume c: "cache_inv utxo valid ok c" "batch_ok ok (cache_utxo utxo c) m" "hash_ok h"
  then have "map_inv ok (utxo (base c)) (cacheCoins c)" "batch_ok ok (map_utxo (utxo (base c)) (cacheCoins c)) m"
    by (simp_all add: cache_inv_def cache_utxo_def)
  from batch_entries_spec [OF this] obtain m' where m': "batch_entries m (cacheCoins c) = Inr m'"
    "map_inv ok (utxo (base c)) m'" "map_utxo (utxo (base c)) m' = overlay m (cache_utxo utxo c)"
    unfolding cache_utxo_def [symmetric] by blast
  have "valid (base c)" "\<not> blob_IsNull h" using c by (simp_all add: cache_inv_def hash_ok_def)
  with m' show "\<exists>c'. base_BatchWrite (CCoinsViewCache_view V) m h c = Inr (True, c') \<and> cache_inv utxo valid ok c' \<and>
      cache_utxo utxo c' = overlay m (cache_utxo utxo c) \<and> cache_best best c' = h"
    by (simp add: CCoinsViewCache_view_def BatchWrite_def cache_inv_def cache_best_def cache_utxo_def)
qed

end

subsection \<open>Refinement\<close>

text \<open>
  The operations of a cache as data, with what they return.  A spent coin that \<open>SpendCoin\<close>
  hands over counts as none.
\<close>

datatype coins_op = Op_GetCoin COutPoint | Op_HaveCoin COutPoint | Op_AddCoin COutPoint Coin bool
  | Op_SpendCoin COutPoint | Op_Uncache COutPoint | Op_Flush | Op_GetBestBlock | Op_SetBestBlock uint256

datatype coins_reply = Reply_coin "Coin option" | Reply_bool bool | Reply_hash uint256 | Reply_done

fun perform :: "'b CCoinsView \<Rightarrow> coins_op \<Rightarrow> 'b CCoinsViewCache \<Rightarrow> coins_error + coins_reply \<times> 'b CCoinsViewCache" where
  "perform V (Op_GetCoin p) c = (case GetCoin V p c of (r, c) \<Rightarrow> Inr (Reply_coin r, c))"
| "perform V (Op_HaveCoin p) c = (case HaveCoin V p c of (r, c) \<Rightarrow> Inr (Reply_bool r, c))"
| "perform V (Op_AddCoin p coin overwrite) c =
     (case AddCoin p coin overwrite c of Inl e \<Rightarrow> Inl e | Inr c \<Rightarrow> Inr (Reply_done, c))"
| "perform V (Op_SpendCoin p) c = (case SpendCoin V p c of (r, c) \<Rightarrow> Inr (Reply_coin (Option.bind r unspent), c))"
| "perform V (Op_Uncache p) c = Inr (Reply_done, Uncache p c)"
| "perform V Op_Flush c = (case Flush V c of Inl e \<Rightarrow> Inl e | Inr (fOk, c) \<Rightarrow> Inr (Reply_bool fOk, c))"
| "perform V Op_GetBestBlock c = (case GetBestBlock V c of (h, c) \<Rightarrow> Inr (Reply_hash h, c))"
| "perform V (Op_SetBestBlock h) c = Inr (Reply_done, SetBestBlock h c)"

fun performs :: "'b CCoinsView \<Rightarrow> coins_op list \<Rightarrow> 'b CCoinsViewCache \<Rightarrow> coins_error + coins_reply list \<times> 'b CCoinsViewCache" where
  "performs V [] c = Inr ([], c)"
| "performs V (op # ops) c =
     (case perform V op c of
        Inl e \<Rightarrow> Inl e
      | Inr (r, c) \<Rightarrow> (case performs V ops c of Inl e \<Rightarrow> Inl e | Inr (rs, c) \<Rightarrow> Inr (r # rs, c)))"

text \<open>
  The specification: a set of coins, the best block and whether the cache itself holds its
  hash.  \<open>None\<close> is an operation outside the contract: an addition over an unspent coin that is
  not announced, or a flush before the best block is known.
\<close>

type_synonym coins_spec = "utxo_set \<times> uint256 \<times> bool"

fun spec_op :: "(Coin \<Rightarrow> bool) \<Rightarrow> coins_op \<Rightarrow> coins_spec \<Rightarrow> (coins_reply \<times> coins_spec) option" where
  "spec_op ok (Op_GetCoin p) (A, h, k) = (if wf_COutPoint p then Some (Reply_coin (A p), A, h, k) else None)"
| "spec_op ok (Op_HaveCoin p) (A, h, k) = (if wf_COutPoint p then Some (Reply_bool (A p \<noteq> None), A, h, k) else None)"
| "spec_op ok (Op_AddCoin p coin overwrite) (A, h, k) =
     (if wf_COutPoint p \<and> \<not> Coin_IsSpent coin \<and> (overwrite \<or> A p = None) then
        if IsUnspendable (scriptPubKey (coin_out coin)) then Some (Reply_done, A, h, k)
        else if ok coin then Some (Reply_done, A(p \<mapsto> coin), h, k) else None
      else None)"
| "spec_op ok (Op_SpendCoin p) (A, h, k) =
     (if wf_COutPoint p then Some (Reply_coin (A p), A(p := None), h, k) else None)"
| "spec_op ok (Op_Uncache p) (A, h, k) = Some (Reply_done, A, h, k)"
| "spec_op ok Op_Flush (A, h, k) = (if k \<and> hash_ok h then Some (Reply_bool True, A, h, k) else None)"
| "spec_op ok Op_GetBestBlock (A, h, k) = Some (Reply_hash h, A, h, \<not> blob_IsNull h)"
| "spec_op ok (Op_SetBestBlock h') (A, h, k) = (if hash_ok h' then Some (Reply_done, A, h', True) else None)"

fun spec_ops :: "(Coin \<Rightarrow> bool) \<Rightarrow> coins_op list \<Rightarrow> coins_spec \<Rightarrow> (coins_reply list \<times> coins_spec) option" where
  "spec_ops ok [] s = Some ([], s)"
| "spec_ops ok (op # ops) s =
     (case spec_op ok op s of
        None \<Rightarrow> None
      | Some (r, s) \<Rightarrow> (case spec_ops ok ops s of None \<Rightarrow> None | Some (rs, s) \<Rightarrow> Some (r # rs, s)))"

definition cache_spec :: "('b \<Rightarrow> utxo_set) \<Rightarrow> ('b \<Rightarrow> uint256) \<Rightarrow> 'b CCoinsViewCache \<Rightarrow> coins_spec" where
  "cache_spec utxo best c = (cache_utxo utxo c, cache_best best c, \<not> blob_IsNull (hashBlock c))"

context coins_view
begin

lemma hash_kept:
  "GetCoin V p c = (r, c') \<Longrightarrow> hashBlock c' = hashBlock c" "HaveCoin V p c = (b, c') \<Longrightarrow> hashBlock c' = hashBlock c"
  "SpendCoin V p c = (r, c') \<Longrightarrow> hashBlock c' = hashBlock c" "hashBlock (Uncache p c) = hashBlock c"
  "AddCoin p coin overwrite c = Inr c' \<Longrightarrow> hashBlock c' = hashBlock c"
  by (auto simp: GetCoin_def HaveCoin_def SpendCoin_def FetchCoin_def Uncache_def AddCoin_def Let_def
      split: option.splits prod.splits if_splits)

lemma perform_refines:
  assumes c: "cache_inv utxo valid ok c" and s: "spec_op ok op (cache_spec utxo best c) = Some (r, s')"
  shows "\<exists>c'. perform V op c = Inr (r, c') \<and> cache_inv utxo valid ok c' \<and> cache_spec utxo best c' = s'"
proof (cases op)
  case (Op_GetCoin p)
  obtain q c' where g: "GetCoin V p c = (q, c')" by fastforce
  with lookups(1) [OF c _ g] hash_kept(1) [OF g] s Op_GetCoin show ?thesis
    by (simp add: cache_spec_def cache_same_def split: if_splits)
next
  case (Op_HaveCoin p)
  obtain q c' where g: "HaveCoin V p c = (q, c')" by fastforce
  with lookups(2) [OF c _ g] hash_kept(2) [OF g] s Op_HaveCoin show ?thesis
    by (simp add: cache_spec_def cache_same_def split: if_splits)
next
  case (Op_AddCoin p coin overwrite)
  from s Op_AddCoin have pre: "wf_COutPoint p" "\<not> Coin_IsSpent coin"
    "IsUnspendable (scriptPubKey (coin_out coin)) \<or> ok coin" "overwrite \<or> cache_utxo utxo c p = None"
    by (auto simp: cache_spec_def split: if_splits)
  from add_coin [OF c pre] obtain c' where a: "AddCoin p coin overwrite c = Inr c'" "cache_inv utxo valid ok c'"
    "cache_utxo utxo c' = (if IsUnspendable (scriptPubKey (coin_out coin)) then cache_utxo utxo c
       else (cache_utxo utxo c)(p \<mapsto> coin))" "cache_best best c' = cache_best best c" by blast
  with hash_kept(5) [OF a(1)] s Op_AddCoin show ?thesis by (simp add: cache_spec_def split: if_splits)
next
  case (Op_SpendCoin p)
  obtain q c' where g: "SpendCoin V p c = (q, c')" by fastforce
  with spend_coin [OF c _ g] hash_kept(3) [OF g] s Op_SpendCoin show ?thesis
    by (simp add: cache_spec_def split: if_splits)
next
  case (Op_Uncache p)
  with uncache [OF c, of p] hash_kept(4) [of p c] s show ?thesis by (simp add: cache_spec_def cache_same_def)
next
  case Op_Flush
  with s have h: "\<not> blob_IsNull (hashBlock c)" "hash_ok (cache_best best c)" by (simp_all add: cache_spec_def split: if_splits)
  then have "hash_ok (hashBlock c)" by (simp add: cache_best_def)
  from flush [OF c this] Op_Flush s h show ?thesis by (auto simp: cache_spec_def cache_same_def)
next
  case Op_GetBestBlock
  obtain h c' where g: "GetBestBlock V c = (h, c')" by fastforce
  moreover from g have "hashBlock c' = h" by (auto simp: GetBestBlock_def split: if_splits prod.splits)
  ultimately show ?thesis using get_best [OF c g] s Op_GetBestBlock by (simp add: cache_spec_def cache_same_def)
next
  case (Op_SetBestBlock h)
  with s c show ?thesis
    by (auto simp: cache_spec_def SetBestBlock_def cache_defs hash_ok_def split: if_splits)
qed

lemma performs_refine:
  "cache_inv utxo valid ok c \<Longrightarrow> spec_ops ok ops (cache_spec utxo best c) = Some (rs, s') \<Longrightarrow>
   \<exists>c'. performs V ops c = Inr (rs, c') \<and> cache_inv utxo valid ok c' \<and> cache_spec utxo best c' = s'"
proof (induction ops arbitrary: c rs)
  case (Cons op ops)
  from Cons.prems(2) obtain r s1 rs1 where r: "spec_op ok op (cache_spec utxo best c) = Some (r, s1)"
    "spec_ops ok ops s1 = Some (rs1, s')" "rs = r # rs1" by (auto split: option.splits prod.splits)
  from perform_refines [OF Cons.prems(1) r(1)] obtain c1 where
    c1: "perform V op c = Inr (r, c1)" "cache_inv utxo valid ok c1" "cache_spec utxo best c1 = s1" by blast
  from Cons.IH [OF c1(2), of rs1] c1 r show ?case by auto
qed simp

end

end
