(* ===== verification/Rewards.thy ===== *)
theory Rewards
  imports Transaction Consensus_Params "HOL-Library.Signed_Division"
begin

text \<open>
  What a block may create and whom it has to pay: \<open>GetBlockSubsidy\<close> and
  \<open>GetSmartnodePayment\<close> of \<open>validation.cpp\<close>, \<open>founder_payment.cpp\<close>,
  \<open>smartnode/smartnode-collaterals.cpp\<close>, the heights and limits of superblocks
  (\<open>governance/governance-classes.cpp\<close>) and \<open>IsBlockValueValid\<close> of
  \<open>smartnode/smartnode-payments.cpp\<close>.  The state of the governance system, of the sporks
  and of the synchronisation is an argument.
\<close>

subsection \<open>Subsidy\<close>

text \<open>
  The source computes with a \<open>double\<close> that only takes integral values below 2^53 and, last,
  \<open>0.001\<close>, whose product with \<open>COIN\<close> rounds to 100000.
\<close>

definition owlings :: int where "owlings = 21262"

definition GetBlockSubsidy :: "int \<Rightarrow> CAmount" where
  "GetBlockSubsidy nPrevHeight =
     (if nPrevHeight < 329 then 5000000 * COIN
      else if nPrevHeight < 721 then 4 * COIN
      else if nPrevHeight > 553531 \<and> nPrevHeight < 2105657 then
        (5000 - ((nPrevHeight - 553532) div owlings * 10 + 10)) * COIN
      else if nPrevHeight > 2105657 \<and> nPrevHeight < 5273695 then
        (5000 - ((nPrevHeight - 2105658) div owlings * 20 + 750)) * COIN
      else if nPrevHeight > 5273695 \<and> nPrevHeight < 7378633 then
        (5000 - ((nPrevHeight - 5273696) div owlings * 10 + 3720)) * COIN
      else if nPrevHeight > 7378633 \<and> nPrevHeight < 8399209 then
        (5000 - ((nPrevHeight - 7378634) div owlings * 5 + 4705)) * COIN
      else if nPrevHeight > 8399209 \<and> nPrevHeight < 14735285 then 55 * COIN
      else if nPrevHeight > 14735285 \<and> nPrevHeight < 15798385 then
        (5000 - ((nPrevHeight - 14735286) div owlings + 4946)) * COIN
      else if nPrevHeight > 15798385 \<and> nPrevHeight < 25844304 then 5 * COIN
      else if nPrevHeight > 125844304 then 100000
      else 5000 * COIN)"

definition IsMaxCash :: "('a Params_scheme) \<Rightarrow> int option \<Rightarrow> bool" where
  "IsMaxCash params tip \<longleftrightarrow> (case tip of None \<Rightarrow> 0 | Some height \<Rightarrow> height) \<ge> nMaxCash params"

subsection \<open>Founder payment\<close>

record FounderRewardStructure =
  frs_blockHeight :: int
  rewardPercentage :: int

text \<open>\<open>payee\<close> is the script of the founder address.\<close>

record FounderPayment =
  payee :: CScript
  startBlock :: int
  rewardStructures :: "FounderRewardStructure list"

definition getFounderPaymentAmount :: "FounderPayment \<Rightarrow> int \<Rightarrow> CAmount \<Rightarrow> CAmount" where
  "getFounderPaymentAmount fp blockHeight blockReward =
     (if blockHeight \<le> startBlock fp then 0
      else case find (\<lambda>r. frs_blockHeight r = INT_MAX \<or> blockHeight \<le> frs_blockHeight r) (rewardStructures fp) of
             Some r \<Rightarrow> s64 (blockReward * rewardPercentage r) sdiv 100
           | None \<Rightarrow> 0)"

text \<open>The coinbase with the founder's output, taken from the first output.\<close>

definition FillFounderPayment :: "FounderPayment \<Rightarrow> CTransaction \<Rightarrow> int \<Rightarrow> CAmount \<Rightarrow> CTransaction" where
  "FillFounderPayment fp txNew nBlockHeight blockReward =
     (let founderPayment = getFounderPaymentAmount fp nBlockHeight blockReward;
          out0 = vout txNew ! 0
      in txNew\<lparr>vout := (vout txNew)[0 := out0\<lparr>nValue := nValue out0 - founderPayment\<rparr>] @
           [\<lparr>nValue = founderPayment, scriptPubKey = payee fp, nRounds = - 10\<rparr>]\<rparr>)"

definition founder_IsBlockPayeeValid :: "FounderPayment \<Rightarrow> CTransaction \<Rightarrow> int \<Rightarrow> CAmount \<Rightarrow> bool" where
  "founder_IsBlockPayeeValid fp txNew height blockReward \<longleftrightarrow>
     (let founderReward = getFounderPaymentAmount fp height blockReward
      in list_ex (\<lambda>out. scriptPubKey out = payee fp \<and> nValue out \<ge> founderReward) (vout txNew))"

subsection \<open>Smartnodes\<close>

text \<open>Pairs of a last height and an amount, and of a last height and a percentage.\<close>

record SmartnodeCollaterals =
  collaterals :: "(int \<times> CAmount) list"
  rewardPercentages :: "(int \<times> int) list"

definition first_reaching :: "(int \<times> int) list \<Rightarrow> int \<Rightarrow> int" where
  "first_reaching xs height =
     (case find (\<lambda>(h, _). h = INT_MAX \<or> height \<le> h) xs of Some (_, x) \<Rightarrow> x | None \<Rightarrow> 0)"

definition getRewardPercentage :: "SmartnodeCollaterals \<Rightarrow> int \<Rightarrow> int" where
  "getRewardPercentage c height = first_reaching (rewardPercentages c) height"

text \<open>\<open>mnCount\<close> is the number of smartnodes at the tip, 0 without a tip.\<close>

definition GetSmartnodePayment :: "SmartnodeCollaterals \<Rightarrow> nat \<Rightarrow> int \<Rightarrow> CAmount \<Rightarrow> CAmount" where
  "GetSmartnodePayment c mnCount height blockValue =
     (if mnCount \<ge> 10 then s64 (blockValue * getRewardPercentage c height) sdiv 100 else 0)"

subsection \<open>Parameters\<close>

record Reward_Params = Params +
  nBudgetPaymentsStartBlock :: int
  nBudgetPaymentsCycleBlocks :: int
  nBudgetPaymentsWindowBlocks :: int
  nFounderPayment :: FounderPayment
  nCollaterals :: SmartnodeCollaterals

definition mainnet_rewards :: "CScript \<Rightarrow> Reward_Params" where
  "mainnet_rewards founder = Params.extend mainnet
     (Reward_Params.fields INT_MAX 16616 100
       \<lparr>payee = founder, startBlock = 250,
        rewardStructures = [\<lparr>frs_blockHeight = INT_MAX, rewardPercentage = 5\<rparr>]\<rparr>
       \<lparr>collaterals = [(150000, 6000000 * COIN), (150001, 8000000 * COIN), (500000, 15000000 * COIN),
          (700000, 20000000 * COIN), (INT_MAX, 25000000 * COIN)],
        rewardPercentages = [(5761, 0), (INT_MAX, 20)]\<rparr>)"

subsection \<open>The value of a block\<close>

definition IsValidBlockHeight :: "('a Params_scheme) \<Rightarrow> int \<Rightarrow> bool" where
  "IsValidBlockHeight params nBlockHeight \<longleftrightarrow>
     nBlockHeight \<ge> nSuperblockStartBlock params \<and> nBlockHeight smod nSuperblockCycle params = 0"

definition GetPaymentsLimit :: "('a Params_scheme) \<Rightarrow> int \<Rightarrow> CAmount" where
  "GetPaymentsLimit params nBlockHeight =
     (if \<not> IsValidBlockHeight params nBlockHeight then 0
      else GetBlockSubsidy (nBlockHeight - 1) * nSuperblockCycle params)"

text \<open>What is asked of the synchronisation, the sporks and the governance system.\<close>

record superblock_env =
  IsSynced :: bool
  fLiteMode :: bool
  superblocks_enabled :: bool
  IsSuperblockTriggered :: "int \<Rightarrow> bool"
  superblock_IsValid :: "CTransaction \<Rightarrow> int \<Rightarrow> CAmount \<Rightarrow> bool"

definition IsOldBudgetBlockValueValid :: "Reward_Params \<Rightarrow> superblock_env \<Rightarrow> bool \<Rightarrow> int \<Rightarrow> bool" where
  "IsOldBudgetBlockValueValid params env isBlockRewardValueMet nBlockHeight =
     (if nBlockHeight < nBudgetPaymentsStartBlock params then False
      else if nBlockHeight \<ge> nSuperblockStartBlock params then False
      else let nOffset = nBlockHeight smod nBudgetPaymentsCycleBlocks params
           in if nBlockHeight \<ge> nBudgetPaymentsStartBlock params \<and> nOffset < nBudgetPaymentsWindowBlocks params
              then if IsSynced env then isBlockRewardValueMet else True
              else isBlockRewardValueMet)"

text \<open>\<open>None\<close>: \<open>GetValueOut\<close> throws.\<close>

definition IsBlockValueValid ::
    "Reward_Params \<Rightarrow> superblock_env \<Rightarrow> CTransaction \<Rightarrow> int \<Rightarrow> CAmount \<Rightarrow> bool option" where
  "IsBlockValueValid params env coinbase nBlockHeight blockReward =
     (case GetValueOut coinbase of
        None \<Rightarrow> None
      | Some value \<Rightarrow>
          let isBlockRewardValueMet = (value \<le> blockReward)
          in Some
            (if nBlockHeight < nBudgetPaymentsStartBlock params then isBlockRewardValueMet
             else if nBlockHeight < nSuperblockStartBlock params
             then IsOldBudgetBlockValueValid params env isBlockRewardValueMet nBlockHeight
             else let nSuperblockMaxValue = blockReward + GetPaymentsLimit params nBlockHeight;
                      isSuperblockMaxValueMet = (value \<le> nSuperblockMaxValue)
                  in if \<not> IsValidBlockHeight params nBlockHeight then isBlockRewardValueMet
                     else if \<not> isSuperblockMaxValueMet then False
                     else if \<not> IsSynced env \<or> fLiteMode env then True
                     else if \<not> superblocks_enabled env then isBlockRewardValueMet
                     else if \<not> IsSuperblockTriggered env nBlockHeight then isBlockRewardValueMet
                     else superblock_IsValid env coinbase nBlockHeight blockReward))"

subsection \<open>The schedule\<close>

text \<open>The heights between two ranges, which belong to neither.\<close>

definition subsidy_gaps :: "int set" where
  "subsidy_gaps = {2105657, 5273695, 7378633, 8399209, 14735285, 15798385}"

text \<open>The ranges from height 721 on, with the least and the greatest subsidy of each.\<close>

fun subsidy_range :: "nat \<Rightarrow> int \<times> int" where
  "subsidy_range n =
     (if n = 0 then (5000, 5000) else if n = 1 then (4270, 4990) else if n = 2 then (1290, 4250)
      else if n = 3 then (300, 1280) else if n = 4 then (60, 295) else if n = 5 then (55, 55)
      else if n = 6 then (5, 54) else (5, 5))"

definition subsidy_index :: "int \<Rightarrow> nat" where
  "subsidy_index h =
     (if h \<le> 553531 then 0 else if h < 2105657 then 1 else if h < 5273695 then 2 else if h < 7378633 then 3
      else if h < 8399209 then 4 else if h < 14735285 then 5 else if h < 15798385 then 6 else 7)"

lemma div_bounds: "a \<le> h \<Longrightarrow> h < a + n * 21262 \<Longrightarrow> 0 \<le> (h - a) div 21262 \<and> (h - a) div 21262 < (n :: int)"
  by (simp add: pos_imp_zdiv_nonneg_iff div_less_iff_less_mult)

text \<open>One equation for each range.\<close>

lemma subsidy_cases:
  assumes "721 \<le> h" "h < 25844304" "h \<notin> subsidy_gaps"
  obtains "subsidy_index h = 0" "GetBlockSubsidy h = 5000 * COIN"
    | k where "subsidy_index h = 1" "k = (h - 553532) div 21262" "0 \<le> k" "k < 73" "GetBlockSubsidy h = (4990 - 10 * k) * COIN"
    | k where "subsidy_index h = 2" "k = (h - 2105658) div 21262" "0 \<le> k" "k < 149" "GetBlockSubsidy h = (4250 - 20 * k) * COIN"
    | k where "subsidy_index h = 3" "k = (h - 5273696) div 21262" "0 \<le> k" "k < 99" "GetBlockSubsidy h = (1280 - 10 * k) * COIN"
    | k where "subsidy_index h = 4" "k = (h - 7378634) div 21262" "0 \<le> k" "k < 48" "GetBlockSubsidy h = (295 - 5 * k) * COIN"
    | "subsidy_index h = 5" "GetBlockSubsidy h = 55 * COIN"
    | k where "subsidy_index h = 6" "k = (h - 14735286) div 21262" "0 \<le> k" "k < 50" "GetBlockSubsidy h = (54 - k) * COIN"
    | "subsidy_index h = 7" "GetBlockSubsidy h = 5 * COIN"
proof -
  note defs = GetBlockSubsidy_def subsidy_index_def owlings_def
  consider "h \<le> 553531" | "553532 \<le> h" "h < 2105657" | "2105658 \<le> h" "h < 5273695" | "5273696 \<le> h" "h < 7378633"
    | "7378634 \<le> h" "h < 8399209" | "8399210 \<le> h" "h < 14735285" | "14735286 \<le> h" "h < 15798385" | "15798386 \<le> h"
    using assms(3) unfolding subsidy_gaps_def by force
  then show thesis
  proof cases
    case 2 then show thesis using div_bounds [of 553532 h 73] by (intro that(2) [OF _ refl]) (simp_all add: defs)
  next
    case 3 then show thesis using div_bounds [of 2105658 h 149] by (intro that(3) [OF _ refl]) (simp_all add: defs)
  next
    case 4 then show thesis using div_bounds [of 5273696 h 99] by (intro that(4) [OF _ refl]) (simp_all add: defs)
  next
    case 5 then show thesis using div_bounds [of 7378634 h 48] by (intro that(5) [OF _ refl]) (simp_all add: defs)
  next
    case 7 then show thesis using div_bounds [of 14735286 h 50] by (intro that(7) [OF _ refl]) (simp_all add: defs)
  qed (use assms that(1,6,8) in \<open>simp_all add: defs\<close>)
qed

lemma subsidy_in_range:
  assumes "721 \<le> h" "h < 25844304" "h \<notin> subsidy_gaps"
  shows "fst (subsidy_range (subsidy_index h)) * COIN \<le> GetBlockSubsidy h"
    and "GetBlockSubsidy h \<le> snd (subsidy_range (subsidy_index h)) * COIN"
  by (rule subsidy_cases [OF assms]; simp add: COIN_def)+

definition subsidy_at :: "nat \<Rightarrow> int \<Rightarrow> CAmount" where
  "subsidy_at i h =
     (if i = 0 then 5000 else if i = 1 then 4990 - 10 * ((h - 553532) div owlings)
      else if i = 2 then 4250 - 20 * ((h - 2105658) div owlings) else if i = 3 then 1280 - 10 * ((h - 5273696) div owlings)
      else if i = 4 then 295 - 5 * ((h - 7378634) div owlings) else if i = 5 then 55
      else if i = 6 then 54 - (h - 14735286) div owlings else 5) * COIN"

lemma subsidy_at_index:
  assumes "721 \<le> h" "h < 25844304" "h \<notin> subsidy_gaps"
  shows "GetBlockSubsidy h = subsidy_at (subsidy_index h) h"
  by (rule subsidy_cases [OF assms]; simp add: subsidy_at_def owlings_def)

lemma subsidy_at_falls: "h \<le> h' \<Longrightarrow> subsidy_at i h' \<le> subsidy_at i h"
proof -
  assume "h \<le> h'"
  then have "(h - a) div owlings \<le> (h' - a) div owlings" for a by (intro zdiv_mono1) (simp_all add: owlings_def)
  then show ?thesis unfolding subsidy_at_def by (intro mult_right_mono) (simp_all add: COIN_def)
qed

lemma subsidy_same_range:
  assumes "721 \<le> h" "h \<le> h'" "h' < 25844304" "h \<notin> subsidy_gaps" "h' \<notin> subsidy_gaps" "subsidy_index h = subsidy_index h'"
  shows "GetBlockSubsidy h' \<le> GetBlockSubsidy h"
  using assms subsidy_at_falls [OF assms(2), of "subsidy_index h"] subsidy_at_index [of h] subsidy_at_index [of h']
  by simp

lemma subsidy_ranges_fall: "i < j \<Longrightarrow> j \<le> 7 \<Longrightarrow> snd (subsidy_range j) \<le> fst (subsidy_range i)"
  by (auto simp: le_Suc_eq less_Suc_eq numeral_eq_Suc)

lemma subsidy_falls:
  assumes "721 \<le> h" "h \<le> h'" "h' < 25844304" "h \<notin> subsidy_gaps" "h' \<notin> subsidy_gaps"
  shows "GetBlockSubsidy h' \<le> GetBlockSubsidy h"
proof (cases "subsidy_index h = subsidy_index h'")
  case True
  then show ?thesis using subsidy_same_range assms by blast
next
  case False
  with assms(2) have "subsidy_index h < subsidy_index h'" "subsidy_index h' \<le> 7"
    by (auto simp: subsidy_index_def split: if_splits)
  from subsidy_ranges_fall [OF this]
  have "snd (subsidy_range (subsidy_index h')) * COIN \<le> fst (subsidy_range (subsidy_index h)) * COIN"
    by (simp add: COIN_def)
  moreover have "GetBlockSubsidy h' \<le> snd (subsidy_range (subsidy_index h')) * COIN"
    using assms by (intro subsidy_in_range) auto
  moreover have "fst (subsidy_range (subsidy_index h)) * COIN \<le> GetBlockSubsidy h"
    using assms by (intro subsidy_in_range) auto
  ultimately show ?thesis by linarith
qed

lemma subsidy_gap: "h \<in> subsidy_gaps \<Longrightarrow> GetBlockSubsidy h = 5000 * COIN"
  unfolding subsidy_gaps_def by (elim insertE emptyE; simp add: GetBlockSubsidy_def)

lemma subsidy_late: "25844304 \<le> h \<Longrightarrow> h \<le> 125844304 \<Longrightarrow> GetBlockSubsidy h = 5000 * COIN"
  by (simp add: GetBlockSubsidy_def)

lemma subsidy_pos: "0 < GetBlockSubsidy h"
proof (cases "721 \<le> h \<and> h < 25844304 \<and> h \<notin> subsidy_gaps")
  case True
  then have "fst (subsidy_range (subsidy_index h)) * COIN \<le> GetBlockSubsidy h" by (intro subsidy_in_range) auto
  moreover have "0 < fst (subsidy_range (subsidy_index h)) * COIN" by (simp add: COIN_def)
  ultimately show ?thesis by linarith
next
  case False
  then consider "h < 721" | "h \<in> subsidy_gaps" | "25844304 \<le> h \<and> h \<le> 125844304" | "125844304 < h" by linarith
  then show ?thesis by cases (auto simp: subsidy_gap subsidy_late COIN_def, auto simp: GetBlockSubsidy_def COIN_def)
qed

text \<open>
  (C37) The shape of the subsidy by height of the previous block.  It is 5000 coins from
  height 721 to 553531 and never rises from there until the last range, except at the six heights between two ranges,
  where it is back at 5000 coins, as it is for the hundred million heights before 125844304;
  so the subsidies add up to more than \<open>MAX_MONEY\<close>.  The values that \<open>test/subsidy_tests.cpp\<close>
  expects, such as 21 coins at height 5464 and 122 at 5465, are not those of the code.
\<close>

theorem GetBlockSubsidy_schedule:
  "(721 \<le> h \<and> h \<le> 553531 \<longrightarrow> GetBlockSubsidy h = 5000 * COIN) \<and>
   (721 \<le> h \<and> h \<le> h' \<and> h' < 25844304 \<and> h \<notin> subsidy_gaps \<and> h' \<notin> subsidy_gaps \<longrightarrow>
      GetBlockSubsidy h' \<le> GetBlockSubsidy h) \<and>
   (h \<in> subsidy_gaps \<or> 25844304 \<le> h \<and> h \<le> 125844304 \<longrightarrow> GetBlockSubsidy h = 5000 * COIN) \<and>
   0 < GetBlockSubsidy h \<and> MAX_MONEY < (\<Sum>h = 0..<30044305. GetBlockSubsidy h)"
proof -
  have "(\<Sum>h = 25844304..<30044305. GetBlockSubsidy h) = (\<Sum>h = 25844304..<30044305 :: int. 5000 * COIN)"
    by (rule sum.cong) (auto simp: subsidy_late)
  moreover have "(\<Sum>h = 25844304..<30044305. GetBlockSubsidy h) \<le> (\<Sum>h = 0..<30044305. GetBlockSubsidy h)"
    by (rule sum_mono2) (auto intro: less_imp_le subsidy_pos)
  ultimately have "MAX_MONEY < (\<Sum>h = 0..<30044305. GetBlockSubsidy h)"
    by (simp add: MAX_MONEY_def COIN_def)
  moreover have "721 \<le> h \<and> h \<le> 553531 \<longrightarrow> GetBlockSubsidy h = 5000 * COIN" by (simp add: GetBlockSubsidy_def)
  ultimately show ?thesis using subsidy_falls subsidy_gap subsidy_late subsidy_pos by auto
qed

theorem GetBlockSubsidy_schedule_witness:
  "GetBlockSubsidy 5464 = 5000 * COIN \<and> GetBlockSubsidy 600000 \<le> GetBlockSubsidy 1000 \<and> GetBlockSubsidy 2105657 = 5000 * COIN \<and>
   GetBlockSubsidy 30000000 = 5000 * COIN"
  using GetBlockSubsidy_schedule [of 1000 600000] GetBlockSubsidy_schedule [of 2105657 0]
    GetBlockSubsidy_schedule [of 30000000 0] GetBlockSubsidy_schedule [of 5464 0]
  by (simp add: subsidy_gaps_def)

text \<open>On the main network a block never pays more than its reward.\<close>

lemma IsBlockValueValid_mainnet:
  "nBlockHeight < INT_MAX \<Longrightarrow> GetValueOut coinbase = Some v \<Longrightarrow>
   IsBlockValueValid (mainnet_rewards founder) env coinbase nBlockHeight blockReward = Some (v \<le> blockReward)"
  by (simp add: IsBlockValueValid_def mainnet_rewards_def Params.extend_def Reward_Params.fields_def Let_def)

end
