(* ===== verification/Tx_Verify.thy ===== *)
theory Tx_Verify
  imports Coins_View Rewards Block_Index Sighash
begin

text \<open>
  The rules for single transactions (\<open>consensus/tx_verify.cpp\<close>): finality, relative lock
  times, signature operation counts, the checks without context and those against the coins
  that are spent.  A failed check is the reject that \<open>CValidationState::DoS\<close> records.
\<close>

unbundle bit_operations_syntax

subsection \<open>Results\<close>

text \<open>\<open>Reject level reason\<close>; a failed assertion; an exception.\<close>

datatype check_error = Reject int string | Check_assertion | Check_exception

definition MAX_LEGACY_BLOCK_SIZE :: int where "MAX_LEGACY_BLOCK_SIZE = 1000000"
definition MAX_DIP0001_BLOCK_SIZE :: int where "MAX_DIP0001_BLOCK_SIZE = 2000000"

definition MaxBlockSize :: "bool \<Rightarrow> int" where
  "MaxBlockSize fDIP0001Active = (if fDIP0001Active then MAX_DIP0001_BLOCK_SIZE else MAX_LEGACY_BLOCK_SIZE)"

definition MaxBlockSigOps :: "bool \<Rightarrow> int" where
  "MaxBlockSigOps fDIP0001Active = MaxBlockSize fDIP0001Active div 50"

definition MAX_TX_EXTRA_PAYLOAD :: int where "MAX_TX_EXTRA_PAYLOAD = 10000"
definition COINBASE_MATURITY :: int where "COINBASE_MATURITY = 100"
definition LOCKTIME_VERIFY_SEQUENCE :: u32 where "LOCKTIME_VERIFY_SEQUENCE = push_bit 0 1"

subsection \<open>Lock times\<close>

definition IsFinalTx :: "CTransaction \<Rightarrow> int \<Rightarrow> int \<Rightarrow> bool" where
  "IsFinalTx tx nBlockHeight nBlockTime =
     (if nLockTime tx = 0 then True
      else if uint (nLockTime tx) < (if nLockTime tx < LOCKTIME_THRESHOLD then nBlockHeight else nBlockTime) then True
      else list_all (\<lambda>txin. nSequence txin = SEQUENCE_FINAL) (vin tx))"

text \<open>
  The loop over the inputs with their heights; the heights of inputs that are not locked are
  set to 0.  \<open>None\<close>: a pointer of the block index does not lead to a block.
\<close>

fun sequence_loop ::
    "block_store \<Rightarrow> block_id \<Rightarrow> CTxIn list \<Rightarrow> int list \<Rightarrow> int \<times> int \<Rightarrow> ((int \<times> int) \<times> int list) option" where
  "sequence_loop st block (txin # ins) (nCoinHeight # heights) (nMinHeight, nMinTime) =
     (if nSequence txin AND SEQUENCE_LOCKTIME_DISABLE_FLAG \<noteq> 0 then
        map_option (apsnd ((#) 0)) (sequence_loop st block ins heights (nMinHeight, nMinTime))
      else let lock = nSequence txin AND SEQUENCE_LOCKTIME_MASK in
        if nSequence txin AND SEQUENCE_LOCKTIME_TYPE_FLAG \<noteq> 0 then
          (case GetAncestor st block (max (nCoinHeight - 1) 0) of
             Some (Some p) \<Rightarrow>
               (case GetMedianTimePast st p of
                  None \<Rightarrow> None
                | Some nCoinTime \<Rightarrow>
                    map_option (apsnd ((#) nCoinHeight))
                      (sequence_loop st block ins heights
                        (nMinHeight, max nMinTime (nCoinTime + uint (push_bit SEQUENCE_LOCKTIME_GRANULARITY lock) - 1))))
           | _ \<Rightarrow> None)
        else map_option (apsnd ((#) nCoinHeight))
          (sequence_loop st block ins heights (max nMinHeight (nCoinHeight + uint lock - 1), nMinTime)))"
| "sequence_loop st block _ heights locks = Some (locks, heights)"

definition CalculateSequenceLocks ::
    "block_store \<Rightarrow> CTransaction \<Rightarrow> u32 \<Rightarrow> int list \<Rightarrow> block_id \<Rightarrow> ((int \<times> int) \<times> int list) option" where
  "CalculateSequenceLocks st tx flags prevHeights block =
     (if length prevHeights \<noteq> length (vin tx) then None
      else let fEnforceBIP68 = ((scast (tx_nVersion tx) :: u32) \<ge> 2 \<and> flags AND LOCKTIME_VERIFY_SEQUENCE \<noteq> 0)
           in if \<not> fEnforceBIP68 then Some ((- 1, - 1), prevHeights)
              else sequence_loop st block (vin tx) prevHeights (- 1, - 1))"

definition EvaluateSequenceLocks :: "block_store \<Rightarrow> block_id \<Rightarrow> int \<times> int \<Rightarrow> bool option" where
  "EvaluateSequenceLocks st block lockPair =
     do { b \<leftarrow> deref st block; q \<leftarrow> pprev b; nBlockTime \<leftarrow> GetMedianTimePast st q;
          Some (\<not> (fst lockPair \<ge> nHeight b \<or> snd lockPair \<ge> nBlockTime)) }"

definition SequenceLocks :: "block_store \<Rightarrow> CTransaction \<Rightarrow> u32 \<Rightarrow> int list \<Rightarrow> block_id \<Rightarrow> bool option" where
  "SequenceLocks st tx flags prevHeights block =
     do { (lockPair, _) \<leftarrow> CalculateSequenceLocks st tx flags prevHeights block;
          EvaluateSequenceLocks st block lockPair }"

subsection \<open>Signature operations\<close>

definition GetLegacySigOpCount :: "CTransaction \<Rightarrow> int" where
  "GetLegacySigOpCount tx =
     sum_list (map (\<lambda>txin. GetSigOpCount (scriptSig txin) False) (vin tx)) +
     sum_list (map (\<lambda>txout. GetSigOpCount (scriptPubKey txout) False) (vout tx))"

text \<open>The result is \<open>None\<close> when the assertion that a coin is not spent fails.\<close>

fun p2sh_sigops ::
    "'b CCoinsView \<Rightarrow> int \<Rightarrow> CTxIn list \<Rightarrow> 'b CCoinsViewCache \<Rightarrow> int option \<times> 'b CCoinsViewCache" where
  "p2sh_sigops V nSigOps [] c = (Some nSigOps, c)"
| "p2sh_sigops V nSigOps (txin # ins) c =
     (case AccessCoin V (prevout txin) c of
        (coin, c) \<Rightarrow>
          if Coin_IsSpent coin then (None, c)
          else let script = scriptPubKey (coin_out coin)
               in p2sh_sigops V (if IsPayToScriptHash script then nSigOps + GetSigOpCount_P2SH script (scriptSig txin) else nSigOps)
                    ins c)"

definition GetP2SHSigOpCount :: "'b CCoinsView \<Rightarrow> CTransaction \<Rightarrow> 'b CCoinsViewCache \<Rightarrow> int option \<times> 'b CCoinsViewCache" where
  "GetP2SHSigOpCount V tx c = (if IsCoinBase tx then (Some 0, c) else p2sh_sigops V 0 (vin tx) c)"

definition GetTransactionSigOpCount ::
    "'b CCoinsView \<Rightarrow> CTransaction \<Rightarrow> u32 \<Rightarrow> 'b CCoinsViewCache \<Rightarrow> int option \<times> 'b CCoinsViewCache" where
  "GetTransactionSigOpCount V tx flags c =
     (let nSigOps = GetLegacySigOpCount tx
      in if IsCoinBase tx then (Some nSigOps, c)
         else if flags AND SCRIPT_VERIFY_P2SH \<noteq> 0 then
           (case GetP2SHSigOpCount V tx c of (n, c) \<Rightarrow> (map_option ((+) nSigOps) n, c))
         else (Some nSigOps, c))"

subsection \<open>Checks without context\<close>

fun check_outputs :: "bool \<Rightarrow> CAmount \<Rightarrow> CTxOut list \<Rightarrow> check_error + CAmount" where
  "check_outputs ismaxcash nValueOut [] = Inr nValueOut"
| "check_outputs ismaxcash nValueOut (txout # outs) =
     (if nValue txout < 0 then Inl (Reject 100 ''bad-txns-vout-negative'')
      else if nValue txout > (if ismaxcash then MAX_MONEY else OLD_MAX_MONEY)
      then Inl (Reject 100 ''bad-txns-vout-toolarge'')
      else let nValueOut = nValueOut + nValue txout
           in if \<not> MoneyRange nValueOut ismaxcash then Inl (Reject 100 ''bad-txns-txouttotal-toolarge'')
              else check_outputs ismaxcash nValueOut outs)"

definition check_coinbase :: "FounderPayment \<Rightarrow> CTransaction \<Rightarrow> int \<Rightarrow> CAmount \<Rightarrow> check_error option" where
  "check_coinbase fp tx height blockReward =
     (let minCbSize = (if tx_nType tx = TRANSACTION_COINBASE then 1 else 2); n = length (scriptSig (vin tx ! 0));
          founderReward = getFounderPaymentAmount fp height blockReward
      in if n < minCbSize \<or> n > 100 then Some (Reject 100 ''bad-cb-length'')
         else if height > startBlock fp \<and> founderReward \<noteq> 0 \<and> \<not> founder_IsBlockPayeeValid fp tx height blockReward
         then Some (Reject 100 ''bad-cb-founder-payment-not-found'')
         else None)"

text \<open>Inserting into the set of outpoints fails exactly when an outpoint occurs twice.\<close>

definition CheckTransaction ::
    "FounderPayment \<Rightarrow> bool \<Rightarrow> CTransaction \<Rightarrow> int \<Rightarrow> CAmount \<Rightarrow> check_error option" where
  "CheckTransaction fp ismaxcash tx height blockReward =
     (let allowEmptyTxInOut = (tx_nType tx = TRANSACTION_QUORUM_COMMITMENT)
      in if \<not> allowEmptyTxInOut \<and> vin tx = [] then Some (Reject 10 ''bad-txns-vin-empty'')
         else if \<not> allowEmptyTxInOut \<and> vout tx = [] then Some (Reject 10 ''bad-txns-vout-empty'')
         else if int (GetTotalSize tx) > MAX_LEGACY_BLOCK_SIZE then Some (Reject 100 ''bad-txns-oversize'')
         else if int (length (vExtraPayload tx)) > MAX_TX_EXTRA_PAYLOAD then Some (Reject 100 ''bad-txns-payload-oversize'')
         else case check_outputs ismaxcash 0 (vout tx) of
           Inl e \<Rightarrow> Some e
         | Inr _ \<Rightarrow>
             if \<not> distinct (map prevout (vin tx)) then Some (Reject 100 ''bad-txns-inputs-duplicate'')
             else if IsCoinBase tx then check_coinbase fp tx height blockReward
             else if list_ex (\<lambda>txin. COutPoint_IsNull (prevout txin)) (vin tx)
             then Some (Reject 10 ''bad-txns-prevout-null'')
             else None)"

subsection \<open>Checks against the coins\<close>

fun inputs_value ::
    "'b CCoinsView \<Rightarrow> int \<Rightarrow> bool \<Rightarrow> CAmount \<Rightarrow> CTxIn list \<Rightarrow> 'b CCoinsViewCache \<Rightarrow>
     (check_error + CAmount) \<times> 'b CCoinsViewCache" where
  "inputs_value V nSpendHeight ismaxcash nValueIn [] c = (Inr nValueIn, c)"
| "inputs_value V nSpendHeight ismaxcash nValueIn (txin # ins) c =
     (case AccessCoin V (prevout txin) c of
        (coin, c) \<Rightarrow>
          if Coin_IsSpent coin then (Inl Check_assertion, c)
          else if fCoinBase coin \<and> nSpendHeight - uint (coin_nHeight coin) < COINBASE_MATURITY
          then (Inl (Reject 0 ''bad-txns-premature-spend-of-coinbase''), c)
          else let nValueIn = nValueIn + nValue (coin_out coin)
               in if \<not> MoneyRange (nValue (coin_out coin)) ismaxcash \<or> \<not> MoneyRange nValueIn ismaxcash
                  then (Inl (Reject 100 ''bad-txns-inputvalues-outofrange''), c)
                  else inputs_value V nSpendHeight ismaxcash nValueIn ins c)"

definition fee_of :: "bool \<Rightarrow> CTransaction \<Rightarrow> CAmount \<Rightarrow> check_error + CAmount" where
  "fee_of ismaxcash tx nValueIn =
     (case GetValueOut tx of
        None \<Rightarrow> Inl Check_exception
      | Some value_out \<Rightarrow>
          if nValueIn < value_out then Inl (Reject 100 ''bad-txns-in-belowout'')
          else let txfee_aux = nValueIn - value_out
               in if \<not> MoneyRange txfee_aux ismaxcash then Inl (Reject 100 ''bad-txns-fee-outofrange'')
                  else Inr txfee_aux)"

definition CheckTxInputs ::
    "'b CCoinsView \<Rightarrow> CTransaction \<Rightarrow> int \<Rightarrow> bool \<Rightarrow> 'b CCoinsViewCache \<Rightarrow>
     (check_error + CAmount) \<times> 'b CCoinsViewCache" where
  "CheckTxInputs V tx nSpendHeight ismaxcash c =
     (case HaveInputs V tx c of
        (False, c) \<Rightarrow> (Inl (Reject 100 ''bad-txns-inputs-missingorspent''), c)
      | (True, c) \<Rightarrow>
          (case inputs_value V nSpendHeight ismaxcash 0 (vin tx) c of
             (Inl e, c) \<Rightarrow> (Inl e, c)
           | (Inr nValueIn, c) \<Rightarrow> (fee_of ismaxcash tx nValueIn, c)))"

end
