(* ===== verification/DB_Wrapper.thy ===== *)
theory DB_Wrapper
  imports Serialize "HOL-Library.AList"
begin

text \<open>
  The typed interface to LevelDB (\<open>dbwrapper.h\<close>, \<open>dbwrapper.cpp\<close>, \<open>CDataStream::Xor\<close>
  of \<open>streams.h\<close>).  LevelDB is represented by the finite map of keys to values it stores, with
  batches applied in order and as a whole; its failures, which throw, are not represented.  Keys and
  values are given by their serializations.
\<close>

unbundle bit_operations_syntax

subsection \<open>Obfuscation\<close>

fun xor_from :: "bytes \<Rightarrow> nat \<Rightarrow> bytes \<Rightarrow> bytes" where
  "xor_from key j [] = []"
| "xor_from key j (b # vch) = (b XOR key ! j) # xor_from key (if j + 1 = length key then 0 else j + 1) vch"

definition Xor :: "bytes \<Rightarrow> bytes \<Rightarrow> bytes" where
  "Xor key vch = (if key = [] then vch else xor_from key 0 vch)"

subsection \<open>Batches\<close>

datatype db_op = Put bytes bytes | Delete bytes

record CDBBatch =
  batch :: "db_op list"
  size_estimate :: nat

definition batch_empty :: CDBBatch where
  "batch_empty = \<lparr>batch = [], size_estimate = 0\<rparr>"

text \<open>\<open>key\<close> is the obfuscation key of the database the batch is meant for.\<close>

definition batch_Write :: "bytes \<Rightarrow> bytes \<Rightarrow> bytes \<Rightarrow> CDBBatch \<Rightarrow> CDBBatch" where
  "batch_Write key ssKey ssValue b =
     (let slValue = Xor key ssValue
      in \<lparr>batch = batch b @ [Put ssKey slValue],
          size_estimate = size_estimate b + 3 + of_bool (length ssKey > 127) + length ssKey +
            of_bool (length slValue > 127) + length slValue\<rparr>)"

definition batch_Erase :: "bytes \<Rightarrow> CDBBatch \<Rightarrow> CDBBatch" where
  "batch_Erase ssKey b =
     \<lparr>batch = batch b @ [Delete ssKey],
      size_estimate = size_estimate b + 2 + of_bool (length ssKey > 127) + length ssKey\<rparr>"

subsection \<open>The database\<close>

record CDBWrapper =
  pdb :: "(bytes \<times> bytes) list"
  obfuscate_key :: bytes

fun apply_op :: "db_op \<Rightarrow> (bytes \<times> bytes) list \<Rightarrow> (bytes \<times> bytes) list" where
  "apply_op (Put k v) s = AList.update k v s"
| "apply_op (Delete k) s = AList.delete k s"

definition db_WriteBatch :: "CDBBatch \<Rightarrow> CDBWrapper \<Rightarrow> CDBWrapper" where
  "db_WriteBatch b w = w\<lparr>pdb := fold apply_op (batch b) (pdb w)\<rparr>"

definition ReadDataStream :: "CDBWrapper \<Rightarrow> bytes \<Rightarrow> bytes option" where
  "ReadDataStream w ssKey = map_option (Xor (obfuscate_key w)) (map_of (pdb w) ssKey)"

text \<open>A value that does not decode counts as missing; bytes after it are ignored.\<close>

definition db_Read :: "'a parser \<Rightarrow> CDBWrapper \<Rightarrow> bytes \<Rightarrow> 'a option" where
  "db_Read dec w ssKey =
     (case ReadDataStream w ssKey of
        None \<Rightarrow> None
      | Some ssValue \<Rightarrow> (case dec ssValue of Inl _ \<Rightarrow> None | Inr (val, _) \<Rightarrow> Some val))"

subsection \<open>Laws\<close>

lemma xor_from_twice: "xor_from key j (xor_from key j vch) = vch"
  by (induction key j vch rule: xor_from.induct) (simp_all add: xor.assoc)

lemma Xor_Xor [simp]: "Xor key (Xor key vch) = vch"
  by (simp add: Xor_def xor_from_twice)

text \<open>Operations as updates of the lookup function.\<close>

fun op_effect :: "bytes \<Rightarrow> db_op \<Rightarrow> (bytes \<rightharpoonup> bytes) \<Rightarrow> bytes \<rightharpoonup> bytes" where
  "op_effect key (Put k v) f = f(k \<mapsto> Xor key v)"
| "op_effect key (Delete k) f = f(k := None)"

lemma ReadDataStream_apply:
  "ReadDataStream (w\<lparr>pdb := apply_op p s\<rparr>) = op_effect (obfuscate_key w) p (ReadDataStream (w\<lparr>pdb := s\<rparr>))"
  by (cases p) (auto simp: ReadDataStream_def update_conv' delete_conv' fun_eq_iff)

lemma ReadDataStream_fold:
  "ReadDataStream (w\<lparr>pdb := fold apply_op ops s\<rparr>) =
   fold (op_effect (obfuscate_key w)) ops (ReadDataStream (w\<lparr>pdb := s\<rparr>))"
  by (induction ops arbitrary: s) (simp_all add: ReadDataStream_apply)

lemma ReadDataStream_WriteBatch:
  "ReadDataStream (db_WriteBatch b w) = fold (op_effect (obfuscate_key w)) (batch b) (ReadDataStream w)"
  using ReadDataStream_fold [where w = w and ops = "batch b" and s = "pdb w"] by (simp add: db_WriteBatch_def)

lemma obfuscate_key_WriteBatch [simp]: "obfuscate_key (db_WriteBatch b w) = obfuscate_key w"
  by (simp add: db_WriteBatch_def)

lemma WriteBatches:
  "obfuscate_key (fold db_WriteBatch bs w) = obfuscate_key w"
  "ReadDataStream (fold db_WriteBatch bs w) =
   fold (op_effect (obfuscate_key w)) (concat (map batch bs)) (ReadDataStream w)"
  by (induction bs arbitrary: w) (simp_all add: ReadDataStream_WriteBatch)

lemma db_Read_stream: "ReadDataStream w k = ReadDataStream w' k' \<Longrightarrow> db_Read dec w k = db_Read dec w' k'"
  by (simp add: db_Read_def)

context codec
begin

text \<open>What is written under a key is read back, whatever the obfuscation key.\<close>

lemma db_read_write: "ok x \<Longrightarrow> ReadDataStream w k = Some (enc x) \<Longrightarrow> db_Read dec w k = Some x"
  using dec_enc [of x "[]"] by (simp add: db_Read_def)

end

end
