(* ===== verification/Tx_DB.thy ===== *)
theory Tx_DB
  imports Coins_View DB_Wrapper
begin

text \<open>
  The coin database (\<open>CCoinsViewDB\<close> of \<open>txdb.cpp\<close>): the bytes of keys and values, lookups,
  and the writing of a batch of changes in several database batches.  It keeps the contract of a
  coins view, and a crash between two of its batches is recognised afterwards.
\<close>

unbundle bit_operations_syntax

subsection \<open>Keys and lookups\<close>

definition DB_COIN :: u8 where "DB_COIN = 0x43"
definition DB_BEST_BLOCK :: u8 where "DB_BEST_BLOCK = 0x42"
definition DB_HEAD_BLOCKS :: u8 where "DB_HEAD_BLOCKS = 0x48"

lemmas DB_keys = DB_COIN_def DB_BEST_BLOCK_def DB_HEAD_BLOCKS_def

definition CoinEntry :: "COutPoint \<Rightarrow> bytes" where
  "CoinEntry outpoint = [DB_COIN] @ op_hash outpoint @ WriteVarInt (op_n outpoint)"

definition db_GetCoin :: "(CPubKey \<Rightarrow> CPubKey option) \<Rightarrow> COutPoint \<Rightarrow> CDBWrapper \<Rightarrow> Coin option" where
  "db_GetCoin DecompressKey outpoint w = db_Read (unser_Coin DecompressKey coinEmpty) w (CoinEntry outpoint)"

definition db_GetBestBlock :: "CDBWrapper \<Rightarrow> uint256" where
  "db_GetBestBlock w =
     (case db_Read (read_data 32) w [DB_BEST_BLOCK] of None \<Rightarrow> blob_null 32 | Some hashBestChain \<Rightarrow> hashBestChain)"

definition db_GetHeadBlocks :: "CDBWrapper \<Rightarrow> uint256 list" where
  "db_GetHeadBlocks w =
     (case db_Read (unser_vector (read_data 32)) w [DB_HEAD_BLOCKS] of
        None \<Rightarrow> [] | Some vhashHeadBlocks \<Rightarrow> vhashHeadBlocks)"

subsection \<open>Writing\<close>

definition coin_change :: "(CPubKey \<Rightarrow> bool) \<Rightarrow> bytes \<Rightarrow> COutPoint \<Rightarrow> Coin \<Rightarrow> CDBBatch \<Rightarrow> CDBBatch" where
  "coin_change IsFullyValid key outpoint coin b =
     (case ser_Coin IsFullyValid coin of
        None \<Rightarrow> batch_Erase (CoinEntry outpoint) b
      | Some ssValue \<Rightarrow> batch_Write key (CoinEntry outpoint) ssValue b)"

text \<open>
  The batches in the order they are written: \<open>b\<close> is the one being filled, the last one marks
  the database as consistent again.
\<close>

fun coin_batches ::
    "(CPubKey \<Rightarrow> bool) \<Rightarrow> bytes \<Rightarrow> nat \<Rightarrow> uint256 \<Rightarrow> CCoinsMap \<Rightarrow> CDBBatch \<Rightarrow> CDBBatch list" where
  "coin_batches IsFullyValid key batch_size h [] b =
     [batch_Write key [DB_BEST_BLOCK] h (batch_Erase [DB_HEAD_BLOCKS] b)]"
| "coin_batches IsFullyValid key batch_size h ((outpoint, it) # mapCoins) b =
     (let b = (if DIRTY it then coin_change IsFullyValid key outpoint (ce_coin it) b else b)
      in if size_estimate b > batch_size
         then b # coin_batches IsFullyValid key batch_size h mapCoins batch_empty
         else coin_batches IsFullyValid key batch_size h mapCoins b)"

definition db_old_tip :: "CDBWrapper \<Rightarrow> uint256" where
  "db_old_tip w =
     (let old_tip = db_GetBestBlock w; old_heads = db_GetHeadBlocks w
      in if blob_IsNull old_tip \<and> length old_heads = 2 then old_heads ! 1 else old_tip)"

definition db_batches :: "(CPubKey \<Rightarrow> bool) \<Rightarrow> nat \<Rightarrow> CCoinsMap \<Rightarrow> uint256 \<Rightarrow> CDBWrapper \<Rightarrow> CDBBatch list" where
  "db_batches IsFullyValid batch_size mapCoins h w =
     coin_batches IsFullyValid (obfuscate_key w) batch_size h mapCoins
       (batch_Write (obfuscate_key w) [DB_HEAD_BLOCKS] (ser_vector (\<lambda>x. x) [h, db_old_tip w])
         (batch_Erase [DB_BEST_BLOCK] batch_empty))"

definition db_BatchWrite ::
    "(CPubKey \<Rightarrow> bool) \<Rightarrow> nat \<Rightarrow> CCoinsMap \<Rightarrow> uint256 \<Rightarrow> CDBWrapper \<Rightarrow> coins_error + bool \<times> CDBWrapper" where
  "db_BatchWrite IsFullyValid batch_size mapCoins h w =
     (let old_heads = db_GetHeadBlocks w
      in if blob_IsNull h then Inl Assertion_failed
         else if blob_IsNull (db_GetBestBlock w) \<and> length old_heads = 2 \<and> old_heads ! 0 \<noteq> h
         then Inl Assertion_failed
         else Inr (True, fold db_WriteBatch (db_batches IsFullyValid batch_size mapCoins h w) w))"

definition CCoinsViewDB ::
    "(CPubKey \<Rightarrow> bool) \<Rightarrow> (CPubKey \<Rightarrow> CPubKey option) \<Rightarrow> nat \<Rightarrow> CDBWrapper CCoinsView" where
  "CCoinsViewDB IsFullyValid DecompressKey batch_size =
     \<lparr>base_GetCoin = (\<lambda>p w. (db_GetCoin DecompressKey p w, w)),
      base_GetBestBlock = (\<lambda>w. (db_GetBestBlock w, w)),
      base_BatchWrite = db_BatchWrite IsFullyValid batch_size\<rparr>"

subsection \<open>Coins in bytes\<close>

text \<open>The coins whose bytes are read back as they were.\<close>

definition storable :: "(CPubKey \<Rightarrow> bool) \<Rightarrow> (CPubKey \<Rightarrow> CPubKey option) \<Rightarrow> Coin \<Rightarrow> bool" where
  "storable IsFullyValid DecompressKey coin \<longleftrightarrow>
     (let out = coin_out coin
      in 0 \<le> nValue out \<and> 9 * nValue out < 2 ^ 64 \<and> length (scriptPubKey out) \<le> MAX_SCRIPT_SIZE \<and>
         script_decompresses IsFullyValid DecompressKey (scriptPubKey out) \<and> nRounds out = - 10)"

lemma storable_unspent: "storable IsFullyValid DecompressKey coin \<Longrightarrow> \<not> Coin_IsSpent coin"
  by (auto simp: storable_def Coin_IsSpent_def CTxOut_IsNull_def Let_def)

lemma coin_code_fields:
  "(coin_code coin AND 1 = 1) = fCoinBase coin" "ucast (drop_bit 1 (coin_code coin)) = coin_nHeight coin"
proof -
  define h where "h = (ucast (coin_nHeight coin) :: u32)"
  have hb: "\<not> bit h 31" by (auto simp: h_def bit_ucast_iff dest: bit_imp_le_length)
  have code: "coin_code coin = push_bit 1 h OR of_bool (fCoinBase coin)"
    unfolding coin_code_def h_def [symmetric]
    by (subst disjunctive_add [symmetric]) (auto simp: bit_push_bit_iff bit_of_bool_iff push_bit_eq_mult bit_0)
  show "(coin_code coin AND 1 = 1) = fCoinBase coin"
    unfolding code and_one_eq odd_iff_mod_2_eq_one [symmetric] even_or_iff by (simp add: even_push_bit_iff)
  show "ucast (drop_bit 1 (coin_code coin)) = coin_nHeight coin"
    unfolding code
    by (rule bit_word_eqI) (auto simp: bit_ucast_iff bit_drop_bit_eq bit_or_iff bit_of_bool_iff h_def bit_double_iff mult.commute [of _ "2 :: u32"])
qed

lemma unser_ser_Coin:
  assumes "storable IsFullyValid DecompressKey coin"
  shows "\<exists>v. ser_Coin IsFullyValid coin = Some v \<and> unser_Coin DecompressKey coinEmpty (v @ rest) = Inr (coin, rest)"
proof -
  have s: "script_decompresses IsFullyValid DecompressKey (scriptPubKey (coin_out coin))"
    "length (scriptPubKey (coin_out coin)) + 6 < 2 ^ 32" "0 \<le> nValue (coin_out coin)"
    "9 * nValue (coin_out coin) < 2 ^ 64" "\<not> length (scriptPubKey (coin_out coin)) > MAX_SCRIPT_SIZE"
    "nRounds (coin_out coin) = - 10"
    using assms by (auto simp: storable_def Let_def MAX_SCRIPT_SIZE_def)
  have "(CTxOut_null\<lparr>nValue := nValue (coin_out coin), scriptPubKey := scriptPubKey (coin_out coin)\<rparr>) = coin_out coin"
    using s(6) by (simp add: CTxOut_null_def)
  with CTxOutCompressor_read [OF s(1-4), of CTxOut_null rest] s(5)
  have "unser_CTxOutCompressor DecompressKey CTxOut_null (ser_CTxOutCompressor IsFullyValid (coin_out coin) @ rest) =
      Inr (coin_out coin, rest)" by simp
  then show ?thesis
    using storable_unspent [OF assms]
    by (simp add: ser_Coin_def unser_Coin_def pbind_def preturn_def varint32.dec_enc coinEmpty_def coin_code_fields [simplified])
qed

subsection \<open>The batches as operations on the database\<close>

definition coin_op :: "(CPubKey \<Rightarrow> bool) \<Rightarrow> bytes \<Rightarrow> COutPoint \<Rightarrow> Coin \<Rightarrow> db_op" where
  "coin_op IsFullyValid key p coin =
     (case ser_Coin IsFullyValid coin of None \<Rightarrow> Delete (CoinEntry p) | Some v \<Rightarrow> Put (CoinEntry p) (Xor key v))"

fun coin_ops :: "(CPubKey \<Rightarrow> bool) \<Rightarrow> bytes \<Rightarrow> CCoinsMap \<Rightarrow> db_op list" where
  "coin_ops IsFullyValid key [] = []"
| "coin_ops IsFullyValid key ((p, e) # m) =
     (if DIRTY e then [coin_op IsFullyValid key p (ce_coin e)] else []) @ coin_ops IsFullyValid key m"

lemma batch_ops [simp]:
  "batch (batch_Write key k v b) = batch b @ [Put k (Xor key v)]" "batch (batch_Erase k b) = batch b @ [Delete k]"
  "batch batch_empty = []" "batch (coin_change IsFullyValid key p coin b) = batch b @ [coin_op IsFullyValid key p coin]"
  by (simp_all add: batch_Write_def batch_Erase_def batch_empty_def coin_change_def coin_op_def Let_def split: option.split)

lemma coin_batches_ops:
  "concat (map batch (coin_batches IsFullyValid key batch_size h m b)) =
   batch b @ coin_ops IsFullyValid key m @ [Delete [DB_HEAD_BLOCKS], Put [DB_BEST_BLOCK] (Xor key h)]"
proof (induction m arbitrary: b)
  case (Cons pe m)
  then show ?case by (cases pe; cases "DIRTY (snd pe)") (simp_all add: Let_def)
qed simp

lemma coin_batches_prefix:
  "k < length (coin_batches IsFullyValid key batch_size h m b) \<Longrightarrow>
   \<exists>j. concat (map batch (take k (coin_batches IsFullyValid key batch_size h m b))) =
     (if k = 0 then [] else batch b @ coin_ops IsFullyValid key (take j m))"
proof (induction m arbitrary: k b)
  case (Cons pe m)
  obtain p e where pe: "pe = (p, e)" by fastforce
  define b' where "b' = (if DIRTY e then coin_change IsFullyValid key p (ce_coin e) b else b)"
  have b': "batch b' @ coin_ops IsFullyValid key (take j m) =
      batch b @ coin_ops IsFullyValid key (take (Suc j) (pe # m))" for j
    by (simp add: b'_def pe)
  show ?case
  proof (cases "size_estimate b' > batch_size")
    case False
    then have eq: "coin_batches IsFullyValid key batch_size h (pe # m) b = coin_batches IsFullyValid key batch_size h m b'"
      by (simp add: pe b'_def Let_def)
    from Cons.IH [of k b'] Cons.prems show ?thesis unfolding eq using b' by metis
  next
    case True
    then have eq: "coin_batches IsFullyValid key batch_size h (pe # m) b =
        b' # coin_batches IsFullyValid key batch_size h m batch_empty" by (simp add: pe b'_def Let_def)
    show ?thesis
    proof (cases k)
      case (Suc k')
      with Cons.prems have "k' < length (coin_batches IsFullyValid key batch_size h m batch_empty)" by (simp add: eq)
      from Cons.IH [OF this] obtain j where
        "concat (map batch (take k' (coin_batches IsFullyValid key batch_size h m batch_empty))) =
          coin_ops IsFullyValid key (take j m)" by (cases "k' = 0") (auto intro: that [of 0])
      then show ?thesis unfolding eq Suc using b' [of j] by (intro exI [of _ "Suc j"]) simp
    qed simp
  qed
qed simp

lemma CoinEntry_inject: "wf_COutPoint p \<Longrightarrow> wf_COutPoint q \<Longrightarrow> CoinEntry p = CoinEntry q \<longleftrightarrow> p = q"
  using varint32.enc_inject(1) [where x = "op_n p" and y = "op_n q" and r = "[]" and r' = "[]"]
  by (auto simp: CoinEntry_def wf_COutPoint_def)

lemma CoinEntry_other [simp]:
  "CoinEntry p \<noteq> [DB_BEST_BLOCK]" "CoinEntry p \<noteq> [DB_HEAD_BLOCKS]"
  "[DB_BEST_BLOCK] \<noteq> CoinEntry p" "[DB_HEAD_BLOCKS] \<noteq> CoinEntry p" "DB_HEAD_BLOCKS \<noteq> DB_BEST_BLOCK" "DB_BEST_BLOCK \<noteq> DB_HEAD_BLOCKS"
  by (simp_all add: CoinEntry_def DB_keys)

lemma coin_op_effect:
  "op_effect key (coin_op IsFullyValid key p coin) f = f(CoinEntry p := ser_Coin IsFullyValid coin)"
  by (simp add: coin_op_def split: option.split)

lemma coin_ops_effect:
  assumes "wf_COutPoint q"
  shows "batch_ok ok A m \<Longrightarrow>
    fold (op_effect key) (coin_ops IsFullyValid key m) f (CoinEntry q) =
    (case map_of m q of
       Some e \<Rightarrow> if DIRTY e then ser_Coin IsFullyValid (ce_coin e) else f (CoinEntry q)
     | None \<Rightarrow> f (CoinEntry q))"
proof (induction m arbitrary: f)
  case (Cons pe m)
  obtain p e where pe: "pe = (p, e)" by fastforce
  from Cons.prems have m: "batch_ok ok A m" and p: "p \<notin> fst ` set m" "DIRTY e \<longrightarrow> wf_COutPoint p"
    by (simp_all add: pe batch_ok_Cons)
  then have "map_of m p = None" by (simp add: map_of_eq_None_iff)
  with Cons.IH [OF m] p CoinEntry_inject [OF _ assms, of p] show ?case
    by (auto simp: pe coin_op_effect split: option.split)
qed simp

lemma coin_ops_other:
  "(\<And>p. k \<noteq> CoinEntry p) \<Longrightarrow> fold (op_effect key) (coin_ops IsFullyValid key m) f k = f k"
  by (induction m arbitrary: f) (auto simp: coin_op_effect)

subsection \<open>The database as a view\<close>

definition db_utxo :: "(CPubKey \<Rightarrow> CPubKey option) \<Rightarrow> CDBWrapper \<Rightarrow> utxo_set" where
  "db_utxo DecompressKey w = (\<lambda>p. if wf_COutPoint p then db_GetCoin DecompressKey p w else None)"

definition db_valid :: "(CPubKey \<Rightarrow> bool) \<Rightarrow> (CPubKey \<Rightarrow> CPubKey option) \<Rightarrow> CDBWrapper \<Rightarrow> bool" where
  "db_valid IsFullyValid DecompressKey w \<longleftrightarrow>
     db_GetHeadBlocks w = [] \<and>
     (\<forall>p coin. db_utxo DecompressKey w p = Some coin \<longrightarrow> storable IsFullyValid DecompressKey coin)"

lemma db_utxo_ops:
  assumes m: "batch_ok (storable IsFullyValid DecompressKey) A m"
    and eq: "\<And>p. ReadDataStream w' (CoinEntry p) =
      fold (op_effect key) (coin_ops IsFullyValid key m) f (CoinEntry p)"
    and f: "\<And>p. f (CoinEntry p) = ReadDataStream w (CoinEntry p)"
  shows "db_utxo DecompressKey w' = overlay m (db_utxo DecompressKey w)"
proof
  fix p
  show "db_utxo DecompressKey w' p = overlay m (db_utxo DecompressKey w) p"
  proof (cases "wf_COutPoint p")
    case False
    then have "DIRTY e \<Longrightarrow> map_of m p \<noteq> Some e" for e
      using m by (auto simp: batch_ok_def dest!: map_of_SomeD)
    with False show ?thesis by (auto simp: db_utxo_def overlay_def split: option.split)
  next
    case True
    note r = coin_ops_effect [OF True m, of key IsFullyValid f] eq [of p] f [of p]
    show ?thesis
    proof (cases "map_of m p")
      case (Some e)
      then have "DIRTY e \<Longrightarrow> \<not> Coin_IsSpent (ce_coin e) \<Longrightarrow> storable IsFullyValid DecompressKey (ce_coin e)"
        using m by (auto simp: batch_ok_def dest!: map_of_SomeD)
      with unser_ser_Coin [of IsFullyValid DecompressKey "ce_coin e" "[]"] Some r True show ?thesis
        by (cases "Coin_IsSpent (ce_coin e)")
          (auto simp: db_utxo_def overlay_def db_GetCoin_def db_Read_def ser_Coin_def)
    qed (use r True in \<open>simp add: db_utxo_def overlay_def db_GetCoin_def db_Read_def\<close>)
  qed
qed

lemma db_GetBestBlock_length: "length (db_GetBestBlock w) = 32"
  by (auto simp: db_GetBestBlock_def db_Read_def blob_null_def split: option.splits sum.splits dest: read_data_InrD)

lemma db_GetBestBlock_stream:
  "ReadDataStream w [DB_BEST_BLOCK] = Some h \<Longrightarrow> length h = 32 \<Longrightarrow> db_GetBestBlock w = h"
  "ReadDataStream w [DB_BEST_BLOCK] = None \<Longrightarrow> db_GetBestBlock w = blob_null 32"
  using read_data_append [of h 32 "[]"] by (simp_all add: db_GetBestBlock_def db_Read_def)

interpretation head_blocks: canonical_codec "ser_vector (\<lambda>h :: uint256. h)" "unser_vector (read_data 32)"
    "\<lambda>v. size_ok v \<and> list_all (\<lambda>h. length h = 32) v"
  by (rule blob256.vector_canonical_codec)

lemma db_GetHeadBlocks_stream:
  "ReadDataStream w [DB_HEAD_BLOCKS] = Some (ser_vector (\<lambda>h. h) [a, b]) \<Longrightarrow> length a = 32 \<Longrightarrow> length b = 32 \<Longrightarrow>
     db_GetHeadBlocks w = [a, b]"
  "ReadDataStream w [DB_HEAD_BLOCKS] = None \<Longrightarrow> db_GetHeadBlocks w = []"
  using head_blocks.db_read_write [of "[a, b]" w "[DB_HEAD_BLOCKS]"]
  by (simp_all add: db_GetHeadBlocks_def db_Read_def size_ok_def MAX_SIZE_def)

lemma db_old_tip_length: "length (db_old_tip w) = 32"
proof -
  have "list_all (\<lambda>h. length h = 32) (db_GetHeadBlocks w)"
    by (auto simp: db_GetHeadBlocks_def db_Read_def split: option.splits sum.splits dest!: head_blocks.enc_dec)
  then show ?thesis by (auto simp: db_old_tip_def Let_def db_GetBestBlock_length list_all_length)
qed

lemma db_batches_ops:
  "concat (map batch (db_batches IsFullyValid batch_size m h w)) =
   [Delete [DB_BEST_BLOCK], Put [DB_HEAD_BLOCKS] (Xor (obfuscate_key w) (ser_vector (\<lambda>x. x) [h, db_old_tip w]))] @
   coin_ops IsFullyValid (obfuscate_key w) m @
   [Delete [DB_HEAD_BLOCKS], Put [DB_BEST_BLOCK] (Xor (obfuscate_key w) h)]"
  unfolding db_batches_def coin_batches_ops by simp

lemma db_BatchWrite_spec:
  assumes m: "batch_ok (storable IsFullyValid DecompressKey) A m" and h: "hash_ok h"
    and heads: "length (db_GetHeadBlocks w) = 2 \<Longrightarrow> db_GetHeadBlocks w ! 0 = h"
  shows "\<exists>w'. db_BatchWrite IsFullyValid batch_size m h w = Inr (True, w') \<and>
    db_utxo DecompressKey w' = overlay m (db_utxo DecompressKey w) \<and> db_GetBestBlock w' = h \<and> db_GetHeadBlocks w' = []"
proof -
  let ?bs = "db_batches IsFullyValid batch_size m h w" and ?key = "obfuscate_key w"
  define w' where "w' = fold db_WriteBatch ?bs w"
  let ?f = "(ReadDataStream w)([DB_BEST_BLOCK] := None, [DB_HEAD_BLOCKS] \<mapsto> ser_vector (\<lambda>x. x) [h, db_old_tip w])"
  have S: "ReadDataStream w' =
      (fold (op_effect ?key) (coin_ops IsFullyValid ?key m) ?f)([DB_HEAD_BLOCKS] := None, [DB_BEST_BLOCK] \<mapsto> h)"
    unfolding w'_def WriteBatches(2) db_batches_ops by simp
  have "db_utxo DecompressKey w' = overlay m (db_utxo DecompressKey w)"
    by (rule db_utxo_ops [OF m, where f = ?f and key = ?key]) (simp_all add: S)
  moreover have "db_GetBestBlock w' = h"
    using h by (intro db_GetBestBlock_stream(1)) (simp_all add: S hash_ok_def)
  moreover have "db_GetHeadBlocks w' = []" by (rule db_GetHeadBlocks_stream(2)) (simp add: S)
  moreover have "db_BatchWrite IsFullyValid batch_size m h w = Inr (True, w')"
    using h heads by (auto simp: db_BatchWrite_def hash_ok_def w'_def Let_def)
  ultimately show ?thesis by blast
qed

interpretation db: coins_view "CCoinsViewDB IsFullyValid DecompressKey batch_size" "db_utxo DecompressKey"
    db_GetBestBlock "db_valid IsFullyValid DecompressKey" "storable IsFullyValid DecompressKey"
  for IsFullyValid DecompressKey batch_size
proof (unfold_locales, goal_cases)
  case (4 w m h)
  from 4(1) have w: "length (db_GetHeadBlocks w) = 2 \<Longrightarrow> db_GetHeadBlocks w ! 0 = h" by (simp add: db_valid_def)
  from db_BatchWrite_spec [OF 4(2,3) w, of batch_size] obtain w' where
    w': "db_BatchWrite IsFullyValid batch_size m h w = Inr (True, w')"
      "db_utxo DecompressKey w' = overlay m (db_utxo DecompressKey w)" "db_GetBestBlock w' = h" "db_GetHeadBlocks w' = []"
    by blast
  have "storable IsFullyValid DecompressKey coin" if "overlay m (db_utxo DecompressKey w) p = Some coin" for p coin
    using that 4(1,2)
    by (auto simp: overlay_def batch_ok_def db_valid_def unspent_def split: option.splits if_splits dest!: map_of_SomeD)
  with w' show ?case by (simp add: CCoinsViewDB_def db_valid_def)
qed (auto simp: CCoinsViewDB_def db_utxo_def db_valid_def dest: storable_unspent split: if_splits)

text \<open>The cache on the database, and a cache on that one.\<close>

interpretation tip: coins_view "CCoinsViewCache_view (CCoinsViewDB IsFullyValid DecompressKey batch_size)"
    "cache_utxo (db_utxo DecompressKey)" "cache_best db_GetBestBlock"
    "cache_inv (db_utxo DecompressKey) (db_valid IsFullyValid DecompressKey) (storable IsFullyValid DecompressKey)"
    "storable IsFullyValid DecompressKey"
  for IsFullyValid DecompressKey batch_size
  by (rule db.cache_view)

abbreviation stack_inv ::
    "(CPubKey \<Rightarrow> bool) \<Rightarrow> (CPubKey \<Rightarrow> CPubKey option) \<Rightarrow> CDBWrapper CCoinsViewCache CCoinsViewCache \<Rightarrow> bool" where
  "stack_inv IsFullyValid DecompressKey \<equiv>
     cache_inv (cache_utxo (db_utxo DecompressKey))
       (cache_inv (db_utxo DecompressKey) (db_valid IsFullyValid DecompressKey) (storable IsFullyValid DecompressKey))
       (storable IsFullyValid DecompressKey)"

abbreviation stack_utxo :: "(CPubKey \<Rightarrow> CPubKey option) \<Rightarrow> CDBWrapper CCoinsViewCache CCoinsViewCache \<Rightarrow> utxo_set" where
  "stack_utxo DecompressKey \<equiv> cache_utxo (cache_utxo (db_utxo DecompressKey))"

lemma cache_on:
  "cache_utxo utxo (CCoinsViewCache_on b) = utxo b" "cache_best best (CCoinsViewCache_on b) = best b"
  "cache_inv utxo valid ok (CCoinsViewCache_on b) = valid b"
  "blob_IsNull (hashBlock (CCoinsViewCache_on b))"
  by (simp_all add: CCoinsViewCache_on_def cache_defs blob_IsNull_iff blob_null_def)

lemma stack_flush:
  assumes c: "stack_inv IsFullyValid DecompressKey c" and h: "hash_ok (hashBlock c)"
  shows "\<exists>c1 t. Flush (CCoinsViewCache_view (CCoinsViewDB IsFullyValid DecompressKey batch_size)) c = Inr (True, c1) \<and>
    Flush (CCoinsViewDB IsFullyValid DecompressKey batch_size) (base c1) = Inr (True, t) \<and>
    db_utxo DecompressKey (base t) = stack_utxo DecompressKey c \<and> db_GetBestBlock (base t) = hashBlock c"
proof -
  from tip.flush [OF c h, of batch_size] obtain c1 where
    c1: "Flush (CCoinsViewCache_view (CCoinsViewDB IsFullyValid DecompressKey batch_size)) c = Inr (True, c1)"
      "stack_inv IsFullyValid DecompressKey c1" "cache_utxo (db_utxo DecompressKey) (base c1) = stack_utxo DecompressKey c"
    by (auto simp: cache_same_def)
  have hb: "hashBlock (base c1) = hashBlock c"
    using c1(1)
    by (cases c; cases "base c") (auto simp: Flush_def CCoinsViewCache_view_def BatchWrite_def split: sum.splits)
  have "cache_inv (db_utxo DecompressKey) (db_valid IsFullyValid DecompressKey) (storable IsFullyValid DecompressKey) (base c1)"
    using c1(2) by (simp add: cache_inv_def [of "cache_utxo _"])
  from db.flush [OF this, of batch_size] h hb c1(1,3) show ?thesis by auto
qed

text \<open>
  (C3) The coin caches implement a set of unspent coins.  On the stack the node runs, a cache
  on the cache on the database, every sequence of operations within the contract runs without an
  exception and gives the replies of the abstract set, and the stack stands for the
  resulting set; when the best block is known, flushing both caches leaves the database
  with exactly that set and that block.
\<close>

theorem CCoinsViewCache_refines:
  assumes "db_valid IsFullyValid DecompressKey w"
    and "spec_ops (storable IsFullyValid DecompressKey) ops (db_utxo DecompressKey w, db_GetBestBlock w, False) =
      Some (rs, A, h, known)"
  shows "\<exists>c. performs (CCoinsViewCache_view (CCoinsViewDB IsFullyValid DecompressKey batch_size)) ops
      (CCoinsViewCache_on (CCoinsViewCache_on w)) = Inr (rs, c) \<and>
    stack_utxo DecompressKey c = A \<and>
    (known \<and> hash_ok h \<longrightarrow>
      (\<exists>c1 t. Flush (CCoinsViewCache_view (CCoinsViewDB IsFullyValid DecompressKey batch_size)) c = Inr (True, c1) \<and>
        Flush (CCoinsViewDB IsFullyValid DecompressKey batch_size) (base c1) = Inr (True, t) \<and>
        db_utxo DecompressKey (base t) = A \<and> db_GetBestBlock (base t) = h))"
proof -
  let ?c = "CCoinsViewCache_on (CCoinsViewCache_on w)"
  have "stack_inv IsFullyValid DecompressKey ?c" using assms(1) by (simp add: cache_on)
  moreover have "cache_spec (cache_utxo (db_utxo DecompressKey)) (cache_best db_GetBestBlock) ?c =
      (db_utxo DecompressKey w, db_GetBestBlock w, False)"
    by (simp add: cache_spec_def cache_on)
  ultimately obtain c where
    c: "performs (CCoinsViewCache_view (CCoinsViewDB IsFullyValid DecompressKey batch_size)) ops ?c = Inr (rs, c)"
      "stack_inv IsFullyValid DecompressKey c"
      "cache_spec (cache_utxo (db_utxo DecompressKey)) (cache_best db_GetBestBlock) c = (A, h, known)"
    using tip.performs_refine [where c = ?c and ops = ops and rs = rs and s' = "(A, h, known)" and batch_size = batch_size
        and IsFullyValid = IsFullyValid and DecompressKey = DecompressKey] assms(2) by auto
  then have "stack_utxo DecompressKey c = A" "known \<Longrightarrow> hashBlock c = h"
    by (auto simp: cache_spec_def cache_best_def)
  with c stack_flush [OF c(2), of batch_size] show ?thesis by auto
qed

definition demo_hash :: uint256 where "demo_hash = replicate 32 7"
definition demo_outpoint :: COutPoint where "demo_outpoint = \<lparr>op_hash = demo_hash, op_n = 3\<rparr>"
definition demo_coin :: Coin where
  "demo_coin = Coin_of \<lparr>nValue = 5000000000, scriptPubKey = [OP_DUP], nRounds = - 10\<rparr> 100 True"
definition demo_db :: CDBWrapper where "demo_db = \<lparr>pdb = [], obfuscate_key = [1, 2, 3, 4, 5, 6, 7, 8]\<rparr>"

lemmas demo_defs = demo_hash_def demo_outpoint_def demo_coin_def demo_db_def

lemma demo_facts:
  "db_valid (\<lambda>_. False) (\<lambda>_. None) demo_db" "db_utxo (\<lambda>_. None) demo_db = (\<lambda>_. None)"
  "storable (\<lambda>_. False) (\<lambda>_. None) demo_coin" "wf_COutPoint demo_outpoint" "hash_ok demo_hash"
  "\<not> Coin_IsSpent demo_coin" "\<not> IsUnspendable (scriptPubKey (coin_out demo_coin))"
proof -
  show u: "db_utxo (\<lambda>_. None) demo_db = (\<lambda>_. None)"
    by (simp add: db_utxo_def db_GetCoin_def db_Read_def ReadDataStream_def demo_db_def fun_eq_iff)
  show "db_valid (\<lambda>_. False) (\<lambda>_. None) demo_db"
    unfolding db_valid_def u by (simp add: db_GetHeadBlocks_def db_Read_def ReadDataStream_def demo_db_def)
qed (simp_all add: storable_def script_decompresses_def IsToPubKey_def demo_defs Coin_of_def MAX_SCRIPT_SIZE_def
    wf_COutPoint_def hash_ok_def blob_IsNull_def list_all_iff Coin_IsSpent_def CTxOut_IsNull_def IsUnspendable_def)

theorem CCoinsViewCache_refines_witness:
  "\<exists>c. performs (CCoinsViewCache_view (CCoinsViewDB (\<lambda>_. False) (\<lambda>_. None) 1000))
      [Op_SetBestBlock demo_hash, Op_AddCoin demo_outpoint demo_coin False, Op_Flush, Op_GetCoin demo_outpoint]
      (CCoinsViewCache_on (CCoinsViewCache_on demo_db)) =
    Inr ([Reply_done, Reply_done, Reply_bool True, Reply_coin (Some demo_coin)], c) \<and>
    stack_utxo (\<lambda>_. None) c = [demo_outpoint \<mapsto> demo_coin]"
  using CCoinsViewCache_refines [OF demo_facts(1), where batch_size = 1000 and
      ops = "[Op_SetBestBlock demo_hash, Op_AddCoin demo_outpoint demo_coin False, Op_Flush, Op_GetCoin demo_outpoint]"]
  by (auto simp: demo_facts)

text \<open>
  (C13) Interrupted writes to the coin database.  If the node stops after some but not all of the
  batches of a write, the best block reads as null, the head blocks are the new and the old
  one, and every coin is either the old or the new one.  Writing the same changes again
  completes the transition.
\<close>

theorem BatchWrite_interrupted:
  assumes "db_valid IsFullyValid DecompressKey w" and m: "batch_ok (storable IsFullyValid DecompressKey) (db_utxo DecompressKey w) m"
    and h: "hash_ok h" and k: "0 < k" "k < length (db_batches IsFullyValid batch_size m h w)"
    and w': "w' = fold db_WriteBatch (take k (db_batches IsFullyValid batch_size m h w)) w"
  shows "blob_IsNull (db_GetBestBlock w') \<and> db_GetHeadBlocks w' = [h, db_GetBestBlock w] \<and>
    (\<forall>p. db_utxo DecompressKey w' p = db_utxo DecompressKey w p \<or>
      db_utxo DecompressKey w' p = overlay m (db_utxo DecompressKey w) p) \<and>
    (\<exists>w''. db_BatchWrite IsFullyValid batch_size m h w' = Inr (True, w'') \<and>
      db_utxo DecompressKey w'' = overlay m (db_utxo DecompressKey w) \<and> db_GetBestBlock w'' = h \<and> db_GetHeadBlocks w'' = [])"
proof -
  let ?key = "obfuscate_key w" and ?old = "db_GetBestBlock w"
  have tip: "db_old_tip w = ?old" using assms(1) by (simp add: db_old_tip_def db_valid_def)
  from coin_batches_prefix [of k] k obtain j where
    "concat (map batch (take k (db_batches IsFullyValid batch_size m h w))) =
      [Delete [DB_BEST_BLOCK], Put [DB_HEAD_BLOCKS] (Xor ?key (ser_vector (\<lambda>x. x) [h, ?old]))] @
      coin_ops IsFullyValid ?key (take j m)"
    unfolding db_batches_def tip by fastforce
  then have S: "ReadDataStream w' = fold (op_effect ?key) (coin_ops IsFullyValid ?key (take j m))
      ((ReadDataStream w)([DB_BEST_BLOCK] := None, [DB_HEAD_BLOCKS] \<mapsto> ser_vector (\<lambda>x. x) [h, ?old]))"
    unfolding w' WriteBatches(2) by simp
  have best: "db_GetBestBlock w' = blob_null 32"
    by (rule db_GetBestBlock_stream(2)) (simp add: S coin_ops_other)
  have heads: "db_GetHeadBlocks w' = [h, ?old]"
    using h by (intro db_GetHeadBlocks_stream(1)) (simp_all add: S coin_ops_other hash_ok_def db_GetBestBlock_length)
  have mj: "batch_ok (storable IsFullyValid DecompressKey) (db_utxo DecompressKey w) (take j m)"
    using m by (auto simp: batch_ok_def take_map [symmetric] dest: in_set_takeD)
  have u: "db_utxo DecompressKey w' = overlay (take j m) (db_utxo DecompressKey w)"
    by (rule db_utxo_ops [OF mj, where key = ?key and
        f = "(ReadDataStream w)([DB_BEST_BLOCK] := None, [DB_HEAD_BLOCKS] \<mapsto> ser_vector (\<lambda>x. x) [h, ?old])"])
      (simp_all add: S)
  have dist: "distinct (map fst m)" using m by (simp add: batch_ok_def)
  have mo: "map_of (take j m) p = None \<or> map_of (take j m) p = map_of m p" for p
    using dist by (cases "map_of (take j m) p") (auto dest!: map_of_SomeD in_set_takeD)
  have "overlay m (overlay (take j m) B) = overlay m B" for B
  proof
    show "overlay m (overlay (take j m) B) p = overlay m B p" for p
      using mo [of p] by (auto simp: overlay_def split: option.split)
  qed
  moreover have "overlay (take j m) B p = B p \<or> overlay (take j m) B p = overlay m B p" for B p
    using mo [of p] by (auto simp: overlay_def)
  ultimately show ?thesis
    using db_BatchWrite_spec [OF m h, of w' batch_size] best heads
    by (simp add: u blob_IsNull_iff blob_null_def)
qed

theorem BatchWrite_interrupted_witness:
  "let m = [(demo_outpoint, \<lparr>ce_coin = demo_coin, DIRTY = True, FRESH = True\<rparr>)];
       w' = fold db_WriteBatch (take 1 (db_batches (\<lambda>_. False) 10 m demo_hash demo_db)) demo_db
   in length (db_batches (\<lambda>_. False) 10 m demo_hash demo_db) = 2 \<and>
      db_GetHeadBlocks w' = [demo_hash, blob_null 32]"
proof -
  let ?m = "[(demo_outpoint, \<lparr>ce_coin = demo_coin, DIRTY = True, FRESH = True\<rparr>)]"
  have l: "length (db_batches (\<lambda>_. False) 10 ?m demo_hash demo_db) = 2"
    by (simp add: db_batches_def coin_change_def ser_Coin_def batch_Write_def batch_Erase_def Let_def demo_facts CoinEntry_def)
  have b: "db_GetBestBlock demo_db = blob_null 32"
    by (simp add: db_GetBestBlock_def db_Read_def ReadDataStream_def demo_db_def)
  have m: "batch_ok (storable (\<lambda>_. False) (\<lambda>_. None)) (db_utxo (\<lambda>_. None) demo_db) ?m"
    by (simp add: batch_ok_def demo_facts)
  show ?thesis
    using BatchWrite_interrupted [OF demo_facts(1) m demo_facts(5), of 1 10] l b by (simp add: Let_def)
qed

end
