(* ===== verification/Tx_Verify_Props.thy ===== *)
theory Tx_Verify_Props
  imports Tx_Verify Tx_DB
begin

text \<open>
  Lock times in scripts against those of transactions, and the values of transactions against
  the coins they spend.
\<close>

unbundle bit_operations_syntax

subsection \<open>Lock times\<close>

lemma and_flag_mask:
  fixes x :: int
  assumes "m \<le> k"
  shows "x AND (2 ^ k OR mask m) = (if bit x k then 2 ^ k else 0) + (x AND mask m)"
proof -
  have "x AND (2 ^ k OR mask m) = (if bit x k then 2 ^ k else 0) OR (x AND mask m)"
    by (rule bit_eqI) (auto simp: bit_and_iff bit_or_iff bit_exp_iff)
  also have "\<dots> = (if bit x k then 2 ^ k else 0) + (x AND mask m)"
    using assms by (intro disjunctive_add [symmetric]) (auto simp: bit_and_iff bit_mask_iff bit_exp_iff)
  finally show ?thesis .
qed

lemma lock_masks:
  "uint (SEQUENCE_LOCKTIME_TYPE_FLAG OR SEQUENCE_LOCKTIME_MASK) = (2 ^ 22 OR mask 16 :: int)"
  "uint SEQUENCE_LOCKTIME_TYPE_FLAG = 2 ^ 22"
  by (simp_all add: SEQUENCE_LOCKTIME_TYPE_FLAG_def SEQUENCE_LOCKTIME_MASK_def mask_eq_exp_minus_1)

lemma and_mask_bounds: "0 \<le> x AND mask 16" "x AND mask 16 < 2 ^ 22" for x :: int
proof -
  show "0 \<le> x AND mask 16" by simp
  have "x AND mask 16 < 2 ^ 16" unfolding take_bit_eq_mask [symmetric] by (rule take_bit_int_less_exp)
  then show "x AND mask 16 < 2 ^ 22" by simp
qed

text \<open>What \<open>CHECKSEQUENCEVERIFY\<close> compares: the kinds agree and the operand is at most the input's lock.\<close>

lemma CheckSequence_lock:
  assumes "tx_CheckSequence tx n sequence"
  shows "2 \<le> (scast (tx_nVersion tx) :: u32)" and "\<not> bit (nSequence (vin tx ! n)) 31"
    and "bit sequence 22 = bit (nSequence (vin tx ! n)) 22"
    and "sequence AND mask 16 \<le> uint (nSequence (vin tx ! n) AND SEQUENCE_LOCKTIME_MASK)"
proof -
  let ?w = "nSequence (vin tx ! n)"
  have d: "uint SEQUENCE_LOCKTIME_DISABLE_FLAG = 2 ^ 31" by (simp add: SEQUENCE_LOCKTIME_DISABLE_FLAG_def)
  have w: "uint (?w AND SEQUENCE_LOCKTIME_MASK) = uint ?w AND mask 16"
    by (simp add: SEQUENCE_LOCKTIME_MASK_def uint_and mask_eq_exp_minus_1)
  have fl: "x AND (2 ^ 22 OR mask 16) = (if bit x 22 then 2 ^ 22 else 0) + (x AND mask 16)" for x :: int
    by (rule and_flag_mask) simp
  note s = assms [unfolded tx_CheckSequence_def Let_def lock_masks d fl]
  show "2 \<le> (scast (tx_nVersion tx) :: u32)" using s by (simp add: not_less split: if_splits)
  have "uint ?w AND 2 ^ 31 = 0" using s by (simp split: if_splits)
  then have "\<not> bit (uint ?w) 31" by (rule and_exp_eq_0_iff_not_bit [THEN iffD1])
  then show "\<not> bit ?w 31" by (simp add: bit_uint_iff)
  have b: "bit (uint ?w) 22 = bit ?w 22" by (simp add: bit_uint_iff)
  show "bit sequence 22 = bit ?w 22" "sequence AND mask 16 \<le> uint (?w AND SEQUENCE_LOCKTIME_MASK)"
    using s and_mask_bounds [of "uint ?w"] and_mask_bounds [of sequence] unfolding w b [symmetric]
    by (auto split: if_splits)
qed

lemma uint_lock_time:
  "uint (push_bit SEQUENCE_LOCKTIME_GRANULARITY (w AND SEQUENCE_LOCKTIME_MASK)) =
   512 * uint (w AND SEQUENCE_LOCKTIME_MASK)" for w :: u32
proof -
  have "uint (w AND SEQUENCE_LOCKTIME_MASK) = uint w AND mask 16"
    by (simp add: SEQUENCE_LOCKTIME_MASK_def uint_and mask_eq_exp_minus_1)
  then have "uint (w AND SEQUENCE_LOCKTIME_MASK) < 2 ^ 22" using and_mask_bounds(2) [of "uint w"] by simp
  then show ?thesis
    by (simp add: push_bit_eq_mult SEQUENCE_LOCKTIME_GRANULARITY_def uint_word_ariths)
qed

lemma flag_bit: "w AND SEQUENCE_LOCKTIME_DISABLE_FLAG \<noteq> 0 \<longleftrightarrow> bit w 31"
  "w AND SEQUENCE_LOCKTIME_TYPE_FLAG \<noteq> 0 \<longleftrightarrow> bit w 22"
  unfolding SEQUENCE_LOCKTIME_DISABLE_FLAG_def SEQUENCE_LOCKTIME_TYPE_FLAG_def push_bit_of_1
  by (simp_all only: and_exp_eq_0_iff_not_bit not_not)

text \<open>The lock of one input, as the loop adds it to the pair.\<close>

definition input_lock :: "block_store \<Rightarrow> block_id \<Rightarrow> u32 \<Rightarrow> int \<Rightarrow> int \<times> int \<Rightarrow> bool" where
  "input_lock st block w height locks \<longleftrightarrow>
     (let lock = w AND SEQUENCE_LOCKTIME_MASK
      in if bit w 22
         then \<exists>p t. GetAncestor st block (max (height - 1) 0) = Some (Some p) \<and> GetMedianTimePast st p = Some t \<and>
                t + uint (push_bit SEQUENCE_LOCKTIME_GRANULARITY lock) - 1 \<le> snd locks
         else height + uint lock - 1 \<le> fst locks)"

lemma input_lock_mono:
  "input_lock st block w height locks \<Longrightarrow> fst locks \<le> fst locks' \<Longrightarrow> snd locks \<le> snd locks' \<Longrightarrow>
   input_lock st block w height locks'"
  by (fastforce simp: input_lock_def Let_def split: if_splits)

lemma sequence_loop_step:
  assumes "sequence_loop st block (txin # ins) (h # hs) locks = Some (locks', heights')"
  shows "\<exists>mid r. sequence_loop st block ins hs mid = Some (locks', r) \<and> fst locks \<le> fst mid \<and> snd locks \<le> snd mid \<and>
    (\<not> bit (nSequence txin) 31 \<longrightarrow> input_lock st block (nSequence txin) h mid)"
proof -
  obtain a b where ab: "locks = (a, b)" by fastforce
  let ?lock = "nSequence txin AND SEQUENCE_LOCKTIME_MASK"
  show ?thesis
  proof (cases "bit (nSequence txin) 31")
    case True
    then show ?thesis using assms unfolding ab by (intro exI [of _ "(a, b)"]) (auto simp: flag_bit [simplified])
  next
    case no: False
    show ?thesis
    proof (cases "bit (nSequence txin) 22")
      case True
      then obtain p t where p: "GetAncestor st block (max (h - 1) 0) = Some (Some p)" "GetMedianTimePast st p = Some t"
        using assms no unfolding ab by (auto simp: Let_def flag_bit [simplified] split: option.splits)
      with True no assms show ?thesis unfolding ab
        by (intro exI [of _ "(a, max b (t + uint (push_bit SEQUENCE_LOCKTIME_GRANULARITY ?lock) - 1))"])
          (auto simp: Let_def flag_bit [simplified] input_lock_def)
    next
      case False
      with no assms show ?thesis unfolding ab
        by (intro exI [of _ "(max a (h + uint ?lock - 1), b)"]) (auto simp: Let_def flag_bit [simplified] input_lock_def)
    qed
  qed
qed

lemma sequence_loop_locks:
  "sequence_loop st block ins heights locks = Some (locks', heights') \<Longrightarrow> length ins = length heights \<Longrightarrow>
   fst locks \<le> fst locks' \<and> snd locks \<le> snd locks' \<and>
   (\<forall>i < length ins. \<not> bit (nSequence (ins ! i)) 31 \<longrightarrow>
      input_lock st block (nSequence (ins ! i)) (heights ! i) locks')"
proof (induction ins arbitrary: heights locks heights')
  case (Cons txin ins)
  obtain h hs where hs: "heights = h # hs" using Cons.prems(2) by (cases heights) auto
  from sequence_loop_step [OF Cons.prems(1) [unfolded hs]] obtain mid r where mid: "sequence_loop st block ins hs mid = Some (locks', r)" "fst locks \<le> fst mid"
    "snd locks \<le> snd mid" "\<not> bit (nSequence txin) 31 \<longrightarrow> input_lock st block (nSequence txin) h mid" by blast
  have "length ins = length hs" using Cons.prems(2) hs by simp
  from Cons.IH [OF mid(1) this] mid(2-4) show ?case
    unfolding hs by (auto simp: less_Suc_eq_0_disj intro: input_lock_mono)
qed auto

text \<open>
  (C38) Lock times in scripts are enforced by the rules for blocks.  A transaction that
  passes \<open>CHECKLOCKTIMEVERIFY\<close> and is final at some height and time is past the lock of the
  script.  A transaction that passes \<open>CHECKSEQUENCEVERIFY\<close> and whose relative locks hold in
  a block is that many blocks, or that many units of 512 seconds of median time, past the coin it
  spends.
\<close>

theorem script_locks_enforced:
  assumes n: "n < length (vin tx)"
  shows "(tx_CheckLockTime tx n lock \<and> IsFinalTx tx height time \<and> 0 < height \<and> 0 < time \<longrightarrow>
      lock < (if lock < uint LOCKTIME_THRESHOLD then height else time)) \<and>
    (tx_CheckSequence tx n sequence \<and> flags AND LOCKTIME_VERIFY_SEQUENCE \<noteq> 0 \<and>
      SequenceLocks st tx flags prevHeights block = Some True \<longrightarrow>
      (\<exists>b q t. deref st block = Some b \<and> pprev b = Some q \<and> GetMedianTimePast st q = Some t \<and>
        (if bit sequence 22
         then \<exists>p t0. GetAncestor st block (max (prevHeights ! n - 1) 0) = Some (Some p) \<and> GetMedianTimePast st p = Some t0 \<and>
                t0 + 512 * (sequence AND mask 16) \<le> t
         else prevHeights ! n + (sequence AND mask 16) \<le> nHeight b)))"
proof (intro conjI impI)
  assume a: "tx_CheckLockTime tx n lock \<and> IsFinalTx tx height time \<and> 0 < height \<and> 0 < time"
  then have c: "tx_CheckLockTime tx n lock" and f: "IsFinalTx tx height time" by auto
  have "nSequence (vin tx ! n) \<noteq> SEQUENCE_FINAL" using c by (auto simp: tx_CheckLockTime_def split: if_splits)
  with n have "\<not> list_all (\<lambda>i. nSequence i = SEQUENCE_FINAL) (vin tx)" by (auto simp: list_all_length)
  with f have "nLockTime tx = 0 \<or>
      uint (nLockTime tx) < (if nLockTime tx < LOCKTIME_THRESHOLD then height else time)"
    by (auto simp: IsFinalTx_def split: if_splits)
  with a c show "lock < (if lock < uint LOCKTIME_THRESHOLD then height else time)"
    by (auto simp: tx_CheckLockTime_def word_less_def word_le_def split: if_splits)
next
  assume a: "tx_CheckSequence tx n sequence \<and> flags AND LOCKTIME_VERIFY_SEQUENCE \<noteq> 0 \<and>
    SequenceLocks st tx flags prevHeights block = Some True"
  note c = CheckSequence_lock [of tx n sequence]
  let ?w = "nSequence (vin tx ! n)"
  from a c(1) obtain locks hs b q t where
    l: "sequence_loop st block (vin tx) prevHeights (- 1, - 1) = Some (locks, hs)" "length (vin tx) = length prevHeights"
      and e: "deref st block = Some b" "pprev b = Some q" "GetMedianTimePast st q = Some t"
        "fst locks < nHeight b" "snd locks < t"
    by (auto simp: SequenceLocks_def CalculateSequenceLocks_def EvaluateSequenceLocks_def bind_eq_Some_conv Let_def
        split: if_splits)
  from sequence_loop_locks [OF l] n a c(2) have i: "input_lock st block ?w (prevHeights ! n) locks" by auto
  have "uint (push_bit SEQUENCE_LOCKTIME_GRANULARITY (?w AND SEQUENCE_LOCKTIME_MASK)) =
      512 * uint (?w AND SEQUENCE_LOCKTIME_MASK)" by (rule uint_lock_time)
  with i e c(3,4) a show "\<exists>b q t. deref st block = Some b \<and> pprev b = Some q \<and> GetMedianTimePast st q = Some t \<and>
      (if bit sequence 22
       then \<exists>p t0. GetAncestor st block (max (prevHeights ! n - 1) 0) = Some (Some p) \<and> GetMedianTimePast st p = Some t0 \<and>
              t0 + 512 * (sequence AND mask 16) \<le> t
       else prevHeights ! n + (sequence AND mask 16) \<le> nHeight b)"
    by (force simp: input_lock_def Let_def split: if_splits)
qed

definition demo_lock_tx :: CTransaction where
  "demo_lock_tx = \<lparr>tx_nVersion = 2, tx_nType = 0,
     vin = [\<lparr>prevout = COutPoint_null, scriptSig = [], nSequence = 5\<rparr>], vout = [], nLockTime = 100, vExtraPayload = []\<rparr>"

definition demo_store :: block_store where
  "demo_store = [CBlockIndex_SetNull\<lparr>nTime := 1000\<rparr>, CBlockIndex_SetNull\<lparr>pprev := Some 0, nHeight := 10\<rparr>]"

theorem script_locks_enforced_witness:
  "tx_CheckLockTime demo_lock_tx 0 50 \<and> IsFinalTx demo_lock_tx 200 1000 \<and> (50 :: int) < 200 \<and>
   tx_CheckSequence demo_lock_tx 0 4 \<and> SequenceLocks demo_store demo_lock_tx 1 [4] 1 = Some True \<and>
   4 + (4 AND mask 16) \<le> (10 :: int)"
proof -
  have "tx_CheckLockTime demo_lock_tx 0 50 \<and> IsFinalTx demo_lock_tx 200 1000" by code_simp
  moreover have "tx_CheckSequence demo_lock_tx 0 4 \<and> SequenceLocks demo_store demo_lock_tx 1 [4] 1 = Some True" by code_simp
  moreover have "deref demo_store 1 = Some (CBlockIndex_SetNull\<lparr>pprev := Some 0, nHeight := 10\<rparr>)"
    "\<not> bit (4 :: int) 22" "(1 :: u32) AND LOCKTIME_VERIFY_SEQUENCE \<noteq> 0" "uint LOCKTIME_THRESHOLD = 500000000"
    by (simp_all add: demo_store_def deref_def LOCKTIME_VERIFY_SEQUENCE_def LOCKTIME_THRESHOLD_def)
  ultimately show ?thesis
    using script_locks_enforced [of 0 demo_lock_tx 50 200 1000 4 1 demo_store "[4]" 1]
    by (auto simp: demo_lock_tx_def)
qed

end
