(* ===== verification/Update_Coins.thy ===== *)
theory Update_Coins
  imports Tx_DB
begin

text \<open>
  Transactions and blocks against the coins (\<open>UpdateCoins\<close>, \<open>ApplyTxInUndo\<close> and
  \<open>DisconnectBlock\<close> of \<open>validation.cpp\<close>), with the undo records of \<open>undo.h\<close>.
  The optional address and spent indexes are left out; reading the undo data from disk and undoing
  the special transactions are arguments of \<open>DisconnectBlock\<close>.
\<close>

unbundle bit_operations_syntax

subsection \<open>Undo records\<close>

type_synonym CTxUndo = "Coin list"
type_synonym CBlockUndo = "CTxUndo list"

text \<open>
  The height and the coinbase flag are written as a \<open>VARINT\<close> of type \<open>int\<close>, whose
  nonnegative values are the 31-bit words, and read as an \<open>unsigned int\<close>.
\<close>

definition ser_TxInUndo :: "(CPubKey \<Rightarrow> bool) \<Rightarrow> Coin \<Rightarrow> bytes" where
  "ser_TxInUndo IsFullyValid coin =
     WriteVarInt (coin_nHeight coin * 2 + of_bool (fCoinBase coin)) @
     (if coin_nHeight coin > 0 then [0] else []) @
     ser_CTxOutCompressor IsFullyValid (coin_out coin)"

definition unser_TxInUndo :: "(CPubKey \<Rightarrow> CPubKey option) \<Rightarrow> Coin parser" where
  "unser_TxInUndo DecompressKey =
     pbind ReadVarInt (\<lambda>nCode :: u32.
     let height = ucast (nCode div 2) :: 31 word in
     pbind (if height > 0 then pbind ReadVarInt (\<lambda>_ :: 31 word. preturn ()) else preturn ()) (\<lambda>_.
     pbind (unser_CTxOutCompressor DecompressKey CTxOut_null) (\<lambda>out.
     preturn \<lparr>coin_out = out, fCoinBase = (nCode AND 1 = 1), coin_nHeight = height\<rparr>)))"

text \<open>Two million bytes over the size of an empty input.\<close>

definition MAX_INPUTS_PER_BLOCK :: u64 where
  "MAX_INPUTS_PER_BLOCK =
     2000000 div word_of_nat (length (ser_CTxIn \<lparr>prevout = COutPoint_null, scriptSig = [], nSequence = SEQUENCE_FINAL\<rparr>))"

definition ser_CTxUndo :: "(CPubKey \<Rightarrow> bool) \<Rightarrow> CTxUndo \<Rightarrow> bytes" where
  "ser_CTxUndo IsFullyValid vprevout = ser_vector (ser_TxInUndo IsFullyValid) vprevout"

definition unser_CTxUndo :: "(CPubKey \<Rightarrow> CPubKey option) \<Rightarrow> CTxUndo parser" where
  "unser_CTxUndo DecompressKey =
     pbind ReadCompactSize (\<lambda>count.
       if count > MAX_INPUTS_PER_BLOCK then pfail Size_too_large
       else unser_n (unser_TxInUndo DecompressKey) (unat count))"

definition ser_CBlockUndo :: "(CPubKey \<Rightarrow> bool) \<Rightarrow> CBlockUndo \<Rightarrow> bytes" where
  "ser_CBlockUndo IsFullyValid vtxundo = ser_vector (ser_CTxUndo IsFullyValid) vtxundo"

definition unser_CBlockUndo :: "(CPubKey \<Rightarrow> CPubKey option) \<Rightarrow> CBlockUndo parser" where
  "unser_CBlockUndo DecompressKey = unser_vector (unser_CTxUndo DecompressKey)"

subsection \<open>Connecting\<close>

fun spend_inputs ::
    "'b CCoinsView \<Rightarrow> CTxIn list \<Rightarrow> 'b CCoinsViewCache \<Rightarrow> coins_error + CTxUndo \<times> 'b CCoinsViewCache" where
  "spend_inputs V [] c = Inr ([], c)"
| "spend_inputs V (txin # ins) c =
     (case SpendCoin V (prevout txin) c of
        (None, c) \<Rightarrow> Inl Assertion_failed
      | (Some coin, c) \<Rightarrow>
          (case spend_inputs V ins c of Inl e \<Rightarrow> Inl e | Inr (vprevout, c) \<Rightarrow> Inr (coin # vprevout, c)))"

definition UpdateCoins ::
    "'b CCoinsView \<Rightarrow> (bytes \<Rightarrow> uint256) \<Rightarrow> CTransaction \<Rightarrow> int \<Rightarrow> 'b CCoinsViewCache \<Rightarrow>
     coins_error + CTxUndo \<times> 'b CCoinsViewCache" where
  "UpdateCoins V SerializeHash tx height c =
     (case (if \<not> IsCoinBase tx then spend_inputs V (vin tx) c else Inr ([], c)) of
        Inl e \<Rightarrow> Inl e
      | Inr (vprevout, c) \<Rightarrow>
          (case AddCoins V SerializeHash tx height False c of Inl e \<Rightarrow> Inl e | Inr c \<Rightarrow> Inr (vprevout, c)))"

subsection \<open>Disconnecting\<close>

datatype DisconnectResult = DISCONNECT_OK | DISCONNECT_UNCLEAN | DISCONNECT_FAILED

definition ApplyTxInUndo ::
    "'b CCoinsView \<Rightarrow> Coin \<Rightarrow> COutPoint \<Rightarrow> 'b CCoinsViewCache \<Rightarrow> coins_error + DisconnectResult \<times> 'b CCoinsViewCache" where
  "ApplyTxInUndo V undo outpoint c =
     (let (have, c) = HaveCoin V outpoint c; fClean = (\<not> have);
          (undo', c) =
            (if coin_nHeight undo = 0 then
               let (alternate, c) = AccessByTxid V (op_hash outpoint) c
               in (if Coin_IsSpent alternate then None
                   else Some (undo\<lparr>coin_nHeight := coin_nHeight alternate, fCoinBase := fCoinBase alternate\<rparr>), c)
             else (Some undo, c))
      in case undo' of
           None \<Rightarrow> Inr (DISCONNECT_FAILED, c)
         | Some undo \<Rightarrow>
             (case AddCoin outpoint undo (\<not> fClean) c of
                Inl e \<Rightarrow> Inl e
              | Inr c \<Rightarrow> Inr (if fClean then DISCONNECT_OK else DISCONNECT_UNCLEAN, c)))"

text \<open>The outputs of a transaction, counted by \<open>o\<close>; the Boolean is \<open>fClean\<close>.\<close>

fun disconnect_outputs ::
    "'b CCoinsView \<Rightarrow> uint256 \<Rightarrow> int \<Rightarrow> bool \<Rightarrow> u32 \<Rightarrow> CTxOut list \<Rightarrow> bool \<Rightarrow> 'b CCoinsViewCache \<Rightarrow>
     bool \<times> 'b CCoinsViewCache" where
  "disconnect_outputs V txid height is_coinbase n [] fClean c = (fClean, c)"
| "disconnect_outputs V txid height is_coinbase n (txout # outs) fClean c =
     (if IsUnspendable (scriptPubKey txout) then disconnect_outputs V txid height is_coinbase (n + 1) outs fClean c
      else let (spent, c) = SpendCoin V \<lparr>op_hash = txid, op_n = n\<rparr> c;
               matches = (case spent of
                  None \<Rightarrow> False
                | Some coin \<Rightarrow> txout = coin_out coin \<and> height = uint (coin_nHeight coin) \<and> is_coinbase = fCoinBase coin)
           in disconnect_outputs V txid height is_coinbase (n + 1) outs (fClean \<and> matches) c)"

text \<open>Inputs with their undo records, last input first; \<open>None\<close> is \<open>DISCONNECT_FAILED\<close>.\<close>

fun restore_inputs ::
    "'b CCoinsView \<Rightarrow> (CTxIn \<times> Coin) list \<Rightarrow> bool \<Rightarrow> 'b CCoinsViewCache \<Rightarrow>
     coins_error + bool option \<times> 'b CCoinsViewCache" where
  "restore_inputs V [] fClean c = Inr (Some fClean, c)"
| "restore_inputs V ((txin, undo) # rest) fClean c =
     (case ApplyTxInUndo V undo (prevout txin) c of
        Inl e \<Rightarrow> Inl e
      | Inr (res, c) \<Rightarrow>
          if res = DISCONNECT_FAILED then Inr (None, c)
          else restore_inputs V rest (fClean \<and> res \<noteq> DISCONNECT_UNCLEAN) c)"

text \<open>One transaction; the coinbase of the block has no undo record.\<close>

definition disconnect_tx ::
    "'b CCoinsView \<Rightarrow> (bytes \<Rightarrow> uint256) \<Rightarrow> int \<Rightarrow> CTransaction \<Rightarrow> CTxUndo option \<Rightarrow> bool \<Rightarrow> 'b CCoinsViewCache \<Rightarrow>
     coins_error + bool option \<times> 'b CCoinsViewCache" where
  "disconnect_tx V SerializeHash height tx txundo fClean c =
     (let (fClean, c) = disconnect_outputs V (tx_GetHash SerializeHash tx) height (IsCoinBase tx) 0 (vout tx) fClean c
      in case txundo of
           None \<Rightarrow> Inr (Some fClean, c)
         | Some vprevout \<Rightarrow>
             if length vprevout \<noteq> length (vin tx) then Inr (None, c)
             else restore_inputs V (rev (zip (vin tx) vprevout)) fClean c)"

fun disconnect_txs ::
    "'b CCoinsView \<Rightarrow> (bytes \<Rightarrow> uint256) \<Rightarrow> int \<Rightarrow> (CTransaction \<times> CTxUndo option) list \<Rightarrow> bool \<Rightarrow> 'b CCoinsViewCache \<Rightarrow>
     coins_error + bool option \<times> 'b CCoinsViewCache" where
  "disconnect_txs V SerializeHash height [] fClean c = Inr (Some fClean, c)"
| "disconnect_txs V SerializeHash height ((tx, txundo) # rest) fClean c =
     (case disconnect_tx V SerializeHash height tx txundo fClean c of
        Inl e \<Rightarrow> Inl e
      | Inr (None, c) \<Rightarrow> Inr (None, c)
      | Inr (Some fClean, c) \<Rightarrow> disconnect_txs V SerializeHash height rest fClean c)"

text \<open>
  \<open>evo_ok\<close>: the database of special transactions is at this block, or is not yet in use;
  \<open>blockUndo\<close> is what \<open>UndoReadFromDisk\<close> gives, \<open>hashPrev\<close> the hash of the previous
  block.
\<close>

definition DisconnectBlock ::
    "'b CCoinsView \<Rightarrow> (bytes \<Rightarrow> uint256) \<Rightarrow> CTransaction list \<Rightarrow> int \<Rightarrow> uint256 \<Rightarrow> bool \<Rightarrow> CBlockUndo option \<Rightarrow>
     bool \<Rightarrow> 'b CCoinsViewCache \<Rightarrow> coins_error + DisconnectResult \<times> 'b CCoinsViewCache" where
  "DisconnectBlock V SerializeHash vtx height hashPrev evo_ok blockUndo special_undone c =
     (if \<not> evo_ok then Inr (DISCONNECT_FAILED, c)
      else case blockUndo of
        None \<Rightarrow> Inr (DISCONNECT_FAILED, c)
      | Some vtxundo \<Rightarrow>
          if length vtxundo + 1 \<noteq> length vtx then Inr (DISCONNECT_FAILED, c)
          else if \<not> special_undone then Inr (DISCONNECT_FAILED, c)
          else case disconnect_txs V SerializeHash height (rev (zip vtx (None # map Some vtxundo))) True c of
            Inl e \<Rightarrow> Inl e
          | Inr (None, c) \<Rightarrow> Inr (DISCONNECT_FAILED, c)
          | Inr (Some fClean, c) \<Rightarrow>
              Inr (if fClean then DISCONNECT_OK else DISCONNECT_UNCLEAN, SetBestBlock hashPrev c))"

subsection \<open>The same on sets of coins\<close>

text \<open>The inputs of a transaction taken out of a set, and its outputs put in.\<close>

definition take_out :: "CTxIn list \<Rightarrow> utxo_set \<Rightarrow> utxo_set" where
  "take_out ins A = (\<lambda>p. if p \<in> prevout ` set ins then None else A p)"

definition outpoint_at :: "uint256 \<Rightarrow> nat \<Rightarrow> COutPoint" where
  "outpoint_at txid i = \<lparr>op_hash = txid, op_n = word_of_nat i\<rparr>"

fun put_in :: "uint256 \<Rightarrow> int \<Rightarrow> bool \<Rightarrow> nat \<Rightarrow> CTxOut list \<Rightarrow> utxo_set \<Rightarrow> utxo_set" where
  "put_in txid height cb i [] A = A"
| "put_in txid height cb i (txout # outs) A =
     put_in txid height cb (Suc i) outs
       (if IsUnspendable (scriptPubKey txout) then A else A(outpoint_at txid i \<mapsto> Coin_of txout height cb))"

text \<open>What connecting a transaction needs of the set: its inputs are there, its outputs are not.\<close>

definition outs_new :: "uint256 \<Rightarrow> utxo_set \<Rightarrow> bool" where
  "outs_new txid A \<longleftrightarrow> (\<forall>p. op_hash p = txid \<longrightarrow> A p = None)"

definition outs_ok :: "(Coin \<Rightarrow> bool) \<Rightarrow> int \<Rightarrow> bool \<Rightarrow> CTxOut list \<Rightarrow> bool" where
  "outs_ok ok height cb outs \<longleftrightarrow>
     list_all (\<lambda>txout. nValue txout \<noteq> - 1 \<and> (IsUnspendable (scriptPubKey txout) \<or> ok (Coin_of txout height cb))) outs"

lemma outs_ok_Cons:
  "outs_ok ok height cb (txout # outs) \<longleftrightarrow>
     nValue txout \<noteq> - 1 \<and> (IsUnspendable (scriptPubKey txout) \<or> ok (Coin_of txout height cb)) \<and> outs_ok ok height cb outs"
  by (simp add: outs_ok_def)

lemma Coin_of_unspent: "Coin_IsSpent (Coin_of txout height cb) \<longleftrightarrow> nValue txout = - 1"
  by (simp add: Coin_IsSpent_def Coin_of_def CTxOut_IsNull_def)

lemma coin_out_Coin_of [simp]: "coin_out (Coin_of txout height cb) = txout"
  by (simp add: Coin_of_def)

lemma put_in_other: "op_hash p \<noteq> txid \<Longrightarrow> put_in txid height cb i outs A p = A p"
  by (induction outs arbitrary: i A) (auto simp: outpoint_at_def)

lemma op_n_at: "op_n (outpoint_at txid i) = word_of_nat i" "op_hash (outpoint_at txid i) = txid"
  by (simp_all add: outpoint_at_def)

lemma outpoint_at_eq:
  "i < 2 ^ 32 \<Longrightarrow> j < 2 ^ 32 \<Longrightarrow> outpoint_at txid i = outpoint_at txid j \<longleftrightarrow> i = j"
  by (simp add: outpoint_at_def word_of_nat_eq_iff take_bit_nat_eq_self)

text \<open>An output that is put in is not touched by the ones after it.\<close>

lemma put_in_later:
  "j < i \<Longrightarrow> i + length outs \<le> 2 ^ 32 \<Longrightarrow> put_in txid height cb i outs A (outpoint_at txid j) = A (outpoint_at txid j)"
proof (induction outs arbitrary: i A)
  case (Cons txout outs)
  then have "outpoint_at txid j \<noteq> outpoint_at txid i" by (simp add: outpoint_at_eq)
  with Cons show ?case by simp
qed simp

lemma put_in_upd:
  "j < i \<Longrightarrow> i + length outs \<le> 2 ^ 32 \<Longrightarrow>
   put_in txid height cb i outs (A(outpoint_at txid j := x)) = (put_in txid height cb i outs A)(outpoint_at txid j := x)"
proof (induction outs arbitrary: i A)
  case (Cons txout outs)
  then have "outpoint_at txid j \<noteq> outpoint_at txid i" by (simp add: outpoint_at_eq)
  from fun_upd_twist [OF this, of A x] Cons show ?case by (simp del: fun_upd_apply)
qed simp

fun put_out :: "uint256 \<Rightarrow> nat \<Rightarrow> CTxOut list \<Rightarrow> utxo_set \<Rightarrow> utxo_set" where
  "put_out txid i [] A = A"
| "put_out txid i (txout # outs) A =
     put_out txid (Suc i) outs (if IsUnspendable (scriptPubKey txout) then A else A(outpoint_at txid i := None))"

lemma put_in_at:
  "k < length outs \<Longrightarrow> i + length outs \<le> 2 ^ 32 \<Longrightarrow> \<not> IsUnspendable (scriptPubKey (outs ! k)) \<Longrightarrow>
   put_in txid height cb i outs A (outpoint_at txid (i + k)) = Some (Coin_of (outs ! k) height cb)"
proof (induction outs arbitrary: i k A)
  case (Cons txout outs)
  show ?case
  proof (cases k)
    case 0
    with Cons.prems put_in_later [of i "Suc i" outs txid height cb] show ?thesis by simp
  next
    case (Suc k')
    with Cons.IH [of k' "Suc i"] Cons.prems show ?thesis by simp
  qed
qed simp

lemma put_out_put_in:
  "(\<And>j. i \<le> j \<Longrightarrow> j < i + length outs \<Longrightarrow> A (outpoint_at txid j) = None) \<Longrightarrow> i + length outs \<le> 2 ^ 32 \<Longrightarrow>
   put_out txid i outs (put_in txid height cb i outs A) = A"
proof (induction outs arbitrary: i A)
  case (Cons txout outs)
  have IH: "put_out txid (Suc i) outs (put_in txid height cb (Suc i) outs A) = A"
    using Cons.prems by (intro Cons.IH) auto
  have "(put_in txid height cb (Suc i) outs A)(outpoint_at txid i := None) = put_in txid height cb (Suc i) outs A"
    using Cons.prems put_in_later [of i "Suc i" outs txid height cb A] by (intro fun_upd_idem) simp
  with IH Cons.prems show ?case by (simp add: put_in_upd del: fun_upd_apply)
qed simp

context coins_view
begin

lemma spend_inputs_spec:
  "cache_inv utxo valid ok c \<Longrightarrow> distinct (map prevout ins) \<Longrightarrow>
   list_all (\<lambda>i. wf_COutPoint (prevout i) \<and> cache_utxo utxo c (prevout i) \<noteq> None) ins \<Longrightarrow>
   \<exists>c'. spend_inputs V ins c = Inr (map (\<lambda>i. the (cache_utxo utxo c (prevout i))) ins, c') \<and>
     cache_inv utxo valid ok c' \<and> cache_utxo utxo c' = take_out ins (cache_utxo utxo c) \<and>
     cache_best best c' = cache_best best c"
proof (induction ins arbitrary: c)
  case (Cons txin ins)
  let ?p = "prevout txin"
  obtain coin where coin: "cache_utxo utxo c ?p = Some coin" and wf: "wf_COutPoint ?p" using Cons.prems(3) by auto
  obtain r c1 where s: "SpendCoin V ?p c = (r, c1)" by fastforce
  from spend_coin [OF Cons.prems(1) wf s] coin have c1: "r = Some coin" "cache_inv utxo valid ok c1"
    "cache_utxo utxo c1 = (cache_utxo utxo c)(?p := None)" "cache_best best c1 = cache_best best c"
    by (cases r; auto simp: unspent_def split: if_splits)+
  have "list_all (\<lambda>i. wf_COutPoint (prevout i) \<and> cache_utxo utxo c1 (prevout i) \<noteq> None) ins"
    using Cons.prems(2,3) by (auto simp: c1(3) list_all_iff image_iff)
  from Cons.IH [OF c1(2) _ this] Cons.prems(2) obtain c2 where
    c2: "spend_inputs V ins c1 = Inr (map (\<lambda>i. the (cache_utxo utxo c1 (prevout i))) ins, c2)"
      "cache_inv utxo valid ok c2" "cache_utxo utxo c2 = take_out ins (cache_utxo utxo c1)"
      "cache_best best c2 = cache_best best c1" by auto
  have "map (\<lambda>i. the (cache_utxo utxo c1 (prevout i))) ins = map (\<lambda>i. the (cache_utxo utxo c (prevout i))) ins"
    using Cons.prems(2) by (auto simp: c1(3) image_iff)
  moreover have "take_out ins (cache_utxo utxo c1) = take_out (txin # ins) (cache_utxo utxo c)"
    by (auto simp: take_out_def c1(3))
  ultimately show ?case using s c1 c2 coin by auto
qed (simp add: take_out_def)

lemma add_outputs_spec:
  "cache_inv utxo valid ok c \<Longrightarrow> length txid = 32 \<Longrightarrow> outs_ok ok height cb outs \<Longrightarrow> i + length outs \<le> 2 ^ 32 \<Longrightarrow>
   cb \<or> (\<forall>j. i \<le> j \<and> j < i + length outs \<longrightarrow> cache_utxo utxo c (outpoint_at txid j) = None) \<Longrightarrow>
   \<exists>c'. add_outputs V txid cb height False (word_of_nat i) outs c = Inr c' \<and> cache_inv utxo valid ok c' \<and>
     cache_utxo utxo c' = put_in txid height cb i outs (cache_utxo utxo c) \<and> cache_best best c' = cache_best best c"
proof (induction outs arbitrary: c i)
  case (Cons txout outs)
  let ?p = "outpoint_at txid i" and ?coin = "Coin_of txout height cb"
  have coin: "\<not> Coin_IsSpent ?coin" "IsUnspendable (scriptPubKey (coin_out ?coin)) \<or> ok ?coin" "outs_ok ok height cb outs"
    using Cons.prems(3) by (auto simp: outs_ok_Cons Coin_of_unspent)
  have wf: "wf_COutPoint ?p" using Cons.prems(2) by (simp add: wf_COutPoint_def op_n_at)
  have free: "cb \<or> cache_utxo utxo c ?p = None" using Cons.prems(5) by auto
  from add_coin [OF Cons.prems(1) wf coin(1,2) free] obtain c1 where
    c1: "AddCoin ?p ?coin cb c = Inr c1" "cache_inv utxo valid ok c1"
      "cache_utxo utxo c1 = (if IsUnspendable (scriptPubKey txout) then cache_utxo utxo c else (cache_utxo utxo c)(?p \<mapsto> ?coin))"
      "cache_best best c1 = cache_best best c" by auto
  have "cb \<or> (\<forall>j. Suc i \<le> j \<and> j < Suc i + length outs \<longrightarrow> cache_utxo utxo c1 (outpoint_at txid j) = None)"
    using Cons.prems(4,5) by (auto simp: c1(3) outpoint_at_eq)
  from Cons.IH [OF c1(2) Cons.prems(2) coin(3) _ this] Cons.prems(4) c1 show ?case
    by (simp add: outpoint_at_def add.commute)
qed auto

lemma disconnect_outputs_spec:
  "cache_inv utxo valid ok c \<Longrightarrow> length txid = 32 \<Longrightarrow> 0 \<le> height \<Longrightarrow> height < 2 ^ 31 \<Longrightarrow> i + length outs \<le> 2 ^ 32 \<Longrightarrow>
   (\<And>k. k < length outs \<Longrightarrow> \<not> IsUnspendable (scriptPubKey (outs ! k)) \<Longrightarrow>
      cache_utxo utxo c (outpoint_at txid (i + k)) = Some (Coin_of (outs ! k) height cb)) \<Longrightarrow>
   \<exists>c'. disconnect_outputs V txid height cb (word_of_nat i) outs fClean c = (fClean, c') \<and> cache_inv utxo valid ok c' \<and>
     cache_utxo utxo c' = put_out txid i outs (cache_utxo utxo c) \<and> cache_best best c' = cache_best best c"
proof (induction outs arbitrary: c i)
  case (Cons txout outs)
  let ?p = "outpoint_at txid i" and ?coin = "Coin_of txout height cb"
  have next1: "word_of_nat i + 1 = (word_of_nat (Suc i) :: u32)" by simp
  show ?case
  proof (cases "IsUnspendable (scriptPubKey txout)")
    case True
    have "\<exists>c'. disconnect_outputs V txid height cb (word_of_nat (Suc i)) outs fClean c = (fClean, c') \<and> cache_inv utxo valid ok c' \<and>
      cache_utxo utxo c' = put_out txid (Suc i) outs (cache_utxo utxo c) \<and> cache_best best c' = cache_best best c"
      using Cons.prems(1-5) Cons.prems(6) [of "Suc _"] by (intro Cons.IH) auto
    with True show ?thesis by (simp add: next1 del: of_nat_Suc)
  next
    case False
    obtain r c1 where s: "SpendCoin V ?p c = (r, c1)" by fastforce
    have wf: "wf_COutPoint ?p" using Cons.prems(2) by (simp add: wf_COutPoint_def op_n_at)
    from Cons.prems(6) [of 0] False have at: "cache_utxo utxo c ?p = Some ?coin" by simp
    from spend_coin [OF Cons.prems(1) wf s] at have c1: "r = Some ?coin" "cache_inv utxo valid ok c1"
      "cache_utxo utxo c1 = (cache_utxo utxo c)(?p := None)" "cache_best best c1 = cache_best best c"
      by (cases r; auto simp: unspent_def split: if_splits)+
    have h: "height = uint (coin_nHeight ?coin)" "cb = fCoinBase ?coin"
      using Cons.prems(3,4) by (simp_all add: Coin_of_def uint_word_of_int)
    have "\<exists>c'. disconnect_outputs V txid height cb (word_of_nat (Suc i)) outs fClean c1 = (fClean, c') \<and> cache_inv utxo valid ok c' \<and>
      cache_utxo utxo c' = put_out txid (Suc i) outs (cache_utxo utxo c1) \<and> cache_best best c' = cache_best best c1"
      using Cons.prems(2-5) c1(2) Cons.prems(6) [of "Suc _"]
      by (intro Cons.IH) (auto simp: c1(3) outpoint_at_eq)
    then show ?thesis
      using False s c1 h by (simp add: next1 outpoint_at_def [symmetric] del: of_nat_Suc fun_upd_apply)
  qed
qed simp

lemma apply_undo:
  assumes c: "cache_inv utxo valid ok c" and wf: "wf_COutPoint p" and none: "cache_utxo utxo c p = None"
    and u: "\<not> Coin_IsSpent undo" "ok undo" "coin_nHeight undo \<noteq> 0" "\<not> IsUnspendable (scriptPubKey (coin_out undo))"
  shows "\<exists>c'. ApplyTxInUndo V undo p c = Inr (DISCONNECT_OK, c') \<and> cache_inv utxo valid ok c' \<and>
    cache_utxo utxo c' = (cache_utxo utxo c)(p \<mapsto> undo) \<and> cache_best best c' = cache_best best c"
proof -
  obtain h c1 where hc: "HaveCoin V p c = (h, c1)" by fastforce
  from lookups(2) [OF c wf hc] none have c1: "\<not> h" "cache_inv utxo valid ok c1"
    "cache_utxo utxo c1 = cache_utxo utxo c" "cache_best best c1 = cache_best best c" by (auto simp: cache_same_def)
  from add_coin [OF c1(2) wf u(1), of False] u none c1 show ?thesis
    by (auto simp: ApplyTxInUndo_def hc Let_def)
qed

lemma restore_inputs_spec:
  "cache_inv utxo valid ok c \<Longrightarrow> distinct (map (prevout \<circ> fst) l) \<Longrightarrow>
   list_all (\<lambda>(i, u). wf_COutPoint (prevout i) \<and> cache_utxo utxo c (prevout i) = None \<and> \<not> Coin_IsSpent u \<and> ok u \<and>
     coin_nHeight u \<noteq> 0 \<and> \<not> IsUnspendable (scriptPubKey (coin_out u))) l \<Longrightarrow>
   \<exists>c'. restore_inputs V l fClean c = Inr (Some fClean, c') \<and> cache_inv utxo valid ok c' \<and>
     cache_utxo utxo c' = cache_utxo utxo c ++ map_of (map (\<lambda>(i, u). (prevout i, u)) l) \<and>
     cache_best best c' = cache_best best c"
proof (induction l arbitrary: c)
  case (Cons x l)
  obtain i u where x: "x = (i, u)" by fastforce
  from Cons.prems(3) have u: "wf_COutPoint (prevout i)" "cache_utxo utxo c (prevout i) = None" "\<not> Coin_IsSpent u" "ok u"
    "coin_nHeight u \<noteq> 0" "\<not> IsUnspendable (scriptPubKey (coin_out u))" by (simp_all add: x)
  from apply_undo [OF Cons.prems(1) u] obtain c1 where
    c1: "ApplyTxInUndo V u (prevout i) c = Inr (DISCONNECT_OK, c1)" "cache_inv utxo valid ok c1"
      "cache_utxo utxo c1 = (cache_utxo utxo c)(prevout i \<mapsto> u)" "cache_best best c1 = cache_best best c" by blast
  have new: "prevout i \<notin> (\<lambda>y. prevout (fst y)) ` set l" using Cons.prems(2) by (auto simp: x)
  have "list_all (\<lambda>(i, u). wf_COutPoint (prevout i) \<and> cache_utxo utxo c1 (prevout i) = None \<and> \<not> Coin_IsSpent u \<and> ok u \<and>
     coin_nHeight u \<noteq> 0 \<and> \<not> IsUnspendable (scriptPubKey (coin_out u))) l"
    using Cons.prems(3) new by (force simp: x c1(3) list_all_iff)
  from Cons.IH [OF c1(2) _ this] Cons.prems(2) obtain c2 where
    c2: "restore_inputs V l fClean c1 = Inr (Some fClean, c2)" "cache_inv utxo valid ok c2"
      "cache_utxo utxo c2 = cache_utxo utxo c1 ++ map_of (map (\<lambda>(i, u). (prevout i, u)) l)"
      "cache_best best c2 = cache_best best c1" by auto
  have "prevout i \<notin> dom (map_of (map (\<lambda>(i, u). (prevout i, u)) l))"
    using new by (auto simp: dom_map_of_conv_image_fst image_iff)
  then have "(cache_utxo utxo c)(prevout i \<mapsto> u) ++ map_of (map (\<lambda>(i, u). (prevout i, u)) l) =
      cache_utxo utxo c ++ map_of (map (\<lambda>(i, u). (prevout i, u)) (x # l))"
    by (simp add: x map_add_upd map_add_upd_left)
  with c1 c2 x show ?case by (simp del: fun_upd_apply)
qed simp

end

subsection \<open>Blocks\<close>

definition apply_tx :: "(bytes \<Rightarrow> uint256) \<Rightarrow> int \<Rightarrow> CTransaction \<Rightarrow> utxo_set \<Rightarrow> utxo_set" where
  "apply_tx SerializeHash height tx A =
     put_in (tx_GetHash SerializeHash tx) height (IsCoinBase tx) 0 (vout tx)
       (if IsCoinBase tx then A else take_out (vin tx) A)"

text \<open>
  A transaction fits a set: its identifier is new there, its inputs are distinct and unspent, and
  its outputs can be kept.  Blocks that pass the checks have only such transactions.
\<close>

definition tx_fits :: "(Coin \<Rightarrow> bool) \<Rightarrow> (bytes \<Rightarrow> uint256) \<Rightarrow> int \<Rightarrow> CTransaction \<Rightarrow> utxo_set \<Rightarrow> bool" where
  "tx_fits ok SerializeHash height tx A \<longleftrightarrow>
     length (tx_GetHash SerializeHash tx) = 32 \<and> outs_new (tx_GetHash SerializeHash tx) A \<and>
     outs_ok ok height (IsCoinBase tx) (vout tx) \<and> length (vout tx) \<le> 2 ^ 32 \<and>
     (IsCoinBase tx \<or>
      distinct (map prevout (vin tx)) \<and>
      list_all (\<lambda>i. wf_COutPoint (prevout i) \<and> A (prevout i) \<noteq> None) (vin tx))"

fun block_fits :: "(Coin \<Rightarrow> bool) \<Rightarrow> (bytes \<Rightarrow> uint256) \<Rightarrow> int \<Rightarrow> CTransaction list \<Rightarrow> utxo_set \<Rightarrow> bool" where
  "block_fits ok SerializeHash height [] A = True"
| "block_fits ok SerializeHash height (tx # vtx) A \<longleftrightarrow>
     tx_fits ok SerializeHash height tx A \<and> block_fits ok SerializeHash height vtx (apply_tx SerializeHash height tx A)"

text \<open>The coins that undo data can restore.\<close>

definition restorable :: "utxo_set \<Rightarrow> bool" where
  "restorable A \<longleftrightarrow>
     (\<forall>p coin. A p = Some coin \<longrightarrow> coin_nHeight coin \<noteq> 0 \<and> \<not> IsUnspendable (scriptPubKey (coin_out coin)))"

definition spent_coins :: "CTransaction \<Rightarrow> utxo_set \<Rightarrow> CTxUndo" where
  "spent_coins tx A = (if IsCoinBase tx then [] else map (\<lambda>i. the (A (prevout i))) (vin tx))"

lemma map_of_images: "map_of (map (\<lambda>i. (f i, g (f i))) l) = (\<lambda>p. if p \<in> f ` set l then Some (g p) else None)"
  by (induction l) auto

lemma restore_taken:
  assumes "list_all (\<lambda>i. wf_COutPoint (prevout i) \<and> A (prevout i) \<noteq> None) ins"
  shows "take_out ins A ++ map_of (map (\<lambda>(i, u). (prevout i, u)) (rev (map (\<lambda>i. (i, the (A (prevout i)))) ins))) = A"
proof
  fix p
  have "map (\<lambda>(i, u). (prevout i, u)) (rev (map (\<lambda>i. (i, the (A (prevout i)))) ins)) =
      map (\<lambda>i. (prevout i, the (A (prevout i)))) (rev ins)" by (simp add: rev_map)
  then show "(take_out ins A ++ map_of (map (\<lambda>(i, u). (prevout i, u)) (rev (map (\<lambda>i. (i, the (A (prevout i)))) ins)))) p = A p"
    using assms by (auto simp: map_of_images [where g = "\<lambda>p. the (A p)"] map_add_def take_out_def list_all_iff)
qed

context coins_view
begin

lemma update_coins:
  assumes c: "cache_inv utxo valid ok c" and fits: "tx_fits ok SerializeHash height tx (cache_utxo utxo c)"
  shows "\<exists>c'. UpdateCoins V SerializeHash tx height c = Inr (spent_coins tx (cache_utxo utxo c), c') \<and>
    cache_inv utxo valid ok c' \<and> cache_utxo utxo c' = apply_tx SerializeHash height tx (cache_utxo utxo c) \<and>
    cache_best best c' = cache_best best c"
proof -
  let ?txid = "tx_GetHash SerializeHash tx" and ?cb = "IsCoinBase tx"
  have "\<exists>c1. (if \<not> ?cb then spend_inputs V (vin tx) c else Inr ([], c)) = Inr (spent_coins tx (cache_utxo utxo c), c1) \<and>
      cache_inv utxo valid ok c1 \<and> cache_utxo utxo c1 = (if ?cb then cache_utxo utxo c else take_out (vin tx) (cache_utxo utxo c)) \<and>
      cache_best best c1 = cache_best best c"
    using c fits spend_inputs_spec [OF c, of "vin tx"] by (cases ?cb) (auto simp: tx_fits_def spent_coins_def)
  then obtain c1 where
    c1: "(if \<not> ?cb then spend_inputs V (vin tx) c else Inr ([], c)) = Inr (spent_coins tx (cache_utxo utxo c), c1)"
      "cache_inv utxo valid ok c1" "cache_utxo utxo c1 = (if ?cb then cache_utxo utxo c else take_out (vin tx) (cache_utxo utxo c))"
      "cache_best best c1 = cache_best best c" by blast
  have "cache_utxo utxo c1 (outpoint_at ?txid j) = None" for j
    using fits by (auto simp: c1(3) take_out_def tx_fits_def outs_new_def op_n_at)
  with add_outputs_spec [OF c1(2), of ?txid height ?cb "vout tx" 0] fits obtain c2 where
    "AddCoins V SerializeHash tx height False c1 = Inr c2" "cache_inv utxo valid ok c2"
    "cache_utxo utxo c2 = put_in ?txid height ?cb 0 (vout tx) (cache_utxo utxo c1)" "cache_best best c2 = cache_best best c1"
    by (auto simp: AddCoins_def tx_fits_def)
  with c1 show ?thesis unfolding UpdateCoins_def c1(1) by (simp add: apply_tx_def)
qed

lemma disconnect_update:
  assumes c: "cache_inv utxo valid ok c" and A: "cache_utxo utxo c = apply_tx SerializeHash height tx A"
    and fits: "tx_fits ok SerializeHash height tx A" and h: "0 \<le> height" "height < 2 ^ 31"
    and ok: "\<And>p coin. A p = Some coin \<Longrightarrow> \<not> Coin_IsSpent coin \<and> ok coin" and rest: "restorable A"
    and undo: "undo = (if IsCoinBase tx then None else Some (spent_coins tx A))"
  shows "\<exists>c'. disconnect_tx V SerializeHash height tx undo fClean c = Inr (Some fClean, c') \<and>
    cache_inv utxo valid ok c' \<and> cache_utxo utxo c' = A \<and> cache_best best c' = cache_best best c"
proof -
  let ?txid = "tx_GetHash SerializeHash tx" and ?cb = "IsCoinBase tx"
  define A1 where "A1 = (if ?cb then A else take_out (vin tx) A)"
  have new: "A1 (outpoint_at ?txid j) = None" for j
    using fits by (auto simp: A1_def take_out_def tx_fits_def outs_new_def op_n_at)
  have len: "0 + length (vout tx) \<le> 2 ^ 32" "length ?txid = 32" using fits by (simp_all add: tx_fits_def)
  have A': "cache_utxo utxo c = put_in ?txid height ?cb 0 (vout tx) A1" by (simp add: A apply_tx_def A1_def)
  have "\<exists>c1. disconnect_outputs V ?txid height ?cb (word_of_nat 0) (vout tx) fClean c = (fClean, c1) \<and>
      cache_inv utxo valid ok c1 \<and> cache_utxo utxo c1 = put_out ?txid 0 (vout tx) (cache_utxo utxo c) \<and>
      cache_best best c1 = cache_best best c"
    using len h by (intro disconnect_outputs_spec c) (simp_all add: A' put_in_at [where i = 0, simplified])
  moreover have "put_out ?txid 0 (vout tx) (cache_utxo utxo c) = A1"
    unfolding A' using len new by (intro put_out_put_in) auto
  ultimately obtain c1 where c1: "disconnect_outputs V ?txid height ?cb 0 (vout tx) fClean c = (fClean, c1)"
    "cache_inv utxo valid ok c1" "cache_utxo utxo c1 = A1" "cache_best best c1 = cache_best best c" by auto
  show ?thesis
  proof (cases ?cb)
    case True
    with c1 undo show ?thesis by (simp add: disconnect_tx_def A1_def)
  next
    case False
    let ?l = "rev (zip (vin tx) (spent_coins tx A))"
    have l: "zip (vin tx) (spent_coins tx A) = map (\<lambda>i. (i, the (A (prevout i)))) (vin tx)"
      using False by (simp add: spent_coins_def zip_map2 zip_same_conv_map)
    have ins: "distinct (map prevout (vin tx))" "list_all (\<lambda>i. wf_COutPoint (prevout i) \<and> A (prevout i) \<noteq> None) (vin tx)"
      using fits False by (simp_all add: tx_fits_def)
    have "distinct (map (prevout \<circ> fst) ?l)" using ins(1) by (simp add: l rev_map [symmetric] comp_def)
    moreover have "list_all (\<lambda>(i, u). wf_COutPoint (prevout i) \<and> cache_utxo utxo c1 (prevout i) = None \<and> \<not> Coin_IsSpent u \<and> ok u \<and>
        coin_nHeight u \<noteq> 0 \<and> \<not> IsUnspendable (scriptPubKey (coin_out u))) ?l"
      using ins(2) ok rest False by (force simp: l list_all_iff c1(3) A1_def take_out_def restorable_def)
    ultimately obtain c2 where c2: "restore_inputs V ?l fClean c1 = Inr (Some fClean, c2)" "cache_inv utxo valid ok c2"
      "cache_utxo utxo c2 = A1 ++ map_of (map (\<lambda>(i, u). (prevout i, u)) ?l)" "cache_best best c2 = cache_best best c1"
      using restore_inputs_spec [OF c1(2), of ?l fClean] c1(3) by auto
    have "A1 ++ map_of (map (\<lambda>(i, u). (prevout i, u)) ?l) = A"
      using ins(2) False by (simp add: l A1_def restore_taken)
    with c1 c2 undo False show ?thesis by (simp add: disconnect_tx_def spent_coins_def)
  qed
qed

end

lemma restorable_upd:
  "restorable A \<Longrightarrow> coin_nHeight coin \<noteq> 0 \<Longrightarrow> \<not> IsUnspendable (scriptPubKey (coin_out coin)) \<Longrightarrow> restorable (A(p \<mapsto> coin))"
  by (simp add: restorable_def)

lemma put_in_restorable:
  "restorable A \<Longrightarrow> (word_of_int height :: 31 word) \<noteq> 0 \<Longrightarrow> restorable (put_in txid height cb i outs A)"
proof (induction outs arbitrary: i A)
  case (Cons txout outs)
  then show ?case
    using restorable_upd [OF Cons.prems(1), of "Coin_of txout height cb"] by (simp add: Coin_of_def del: fun_upd_apply)
qed simp

lemma apply_tx_restorable:
  "restorable A \<Longrightarrow> (word_of_int height :: 31 word) \<noteq> 0 \<Longrightarrow> restorable (apply_tx SerializeHash height tx A)"
  unfolding apply_tx_def by (rule put_in_restorable) (auto simp: restorable_def take_out_def split: if_splits)

lemma disconnect_txs_append:
  "disconnect_txs V SerializeHash height (xs @ ys) fClean c =
     (case disconnect_txs V SerializeHash height xs fClean c of
        Inl e \<Rightarrow> Inl e | Inr (None, c) \<Rightarrow> Inr (None, c)
      | Inr (Some fClean, c) \<Rightarrow> disconnect_txs V SerializeHash height ys fClean c)"
  by (induction xs arbitrary: fClean c) (auto split: sum.split option.split)

text \<open>The undo records as \<open>DisconnectBlock\<close> pairs them with transactions.\<close>

definition undo_of :: "CTransaction \<Rightarrow> CTxUndo \<Rightarrow> CTransaction \<times> CTxUndo option" where
  "undo_of tx txundo = (tx, if IsCoinBase tx then None else Some txundo)"

text \<open>The undo data of a block, and the coins after it.\<close>

fun block_undos :: "(bytes \<Rightarrow> uint256) \<Rightarrow> int \<Rightarrow> CTransaction list \<Rightarrow> utxo_set \<Rightarrow> CTxUndo list" where
  "block_undos SerializeHash height [] A = []"
| "block_undos SerializeHash height (tx # vtx) A =
     spent_coins tx A # block_undos SerializeHash height vtx (apply_tx SerializeHash height tx A)"

definition apply_block :: "(bytes \<Rightarrow> uint256) \<Rightarrow> int \<Rightarrow> CTransaction list \<Rightarrow> utxo_set \<Rightarrow> utxo_set" where
  "apply_block SerializeHash height vtx A = fold (apply_tx SerializeHash height) vtx A"

lemma apply_block_simps [simp]:
  "apply_block SerializeHash height [] A = A"
  "apply_block SerializeHash height (tx # vtx) A = apply_block SerializeHash height vtx (apply_tx SerializeHash height tx A)"
  by (simp_all add: apply_block_def)

lemma length_block_undos [simp]: "length (block_undos SerializeHash height vtx A) = length vtx"
  by (induction vtx arbitrary: A) simp_all

definition coins_ok :: "(Coin \<Rightarrow> bool) \<Rightarrow> utxo_set \<Rightarrow> bool" where
  "coins_ok ok A \<longleftrightarrow> (\<forall>p coin. A p = Some coin \<longrightarrow> \<not> Coin_IsSpent coin \<and> ok coin)"

lemma coins_ok_upd: "coins_ok ok A \<Longrightarrow> \<not> Coin_IsSpent coin \<Longrightarrow> ok coin \<Longrightarrow> coins_ok ok (A(p \<mapsto> coin))"
  by (simp add: coins_ok_def)

lemma coins_ok_put_in:
  "coins_ok ok A \<Longrightarrow> outs_ok ok height cb outs \<Longrightarrow> coins_ok ok (put_in txid height cb i outs A)"
proof (induction outs arbitrary: i A)
  case (Cons txout outs)
  then show ?case
    using coins_ok_upd [OF Cons.prems(1), of "Coin_of txout height cb"]
    by (cases "IsUnspendable (scriptPubKey txout)") (simp_all add: outs_ok_Cons Coin_of_unspent del: fun_upd_apply)
qed simp

lemma coins_ok_take_out: "coins_ok ok A \<Longrightarrow> coins_ok ok (take_out ins A)"
  by (simp add: coins_ok_def take_out_def)

lemma coins_ok_apply_tx:
  "coins_ok ok A \<Longrightarrow> tx_fits ok SerializeHash height tx A \<Longrightarrow> coins_ok ok (apply_tx SerializeHash height tx A)"
  unfolding apply_tx_def by (rule coins_ok_put_in) (simp_all add: coins_ok_take_out tx_fits_def)

context coins_view
begin

lemma cache_coins_ok: "cache_inv utxo valid ok c \<Longrightarrow> coins_ok ok (cache_utxo utxo c)"
  using coins_view.utxo_unspent [OF cache_view] by (auto simp: coins_ok_def)

text \<open>Undoing the transactions of a block, last one first, gives the coins before it.\<close>

lemma disconnect_block:
  assumes h: "0 < height" "height < 2 ^ 31"
  shows "cache_inv utxo valid ok d \<Longrightarrow> cache_utxo utxo d = apply_block SerializeHash height vtx A \<Longrightarrow>
    block_fits ok SerializeHash height vtx A \<Longrightarrow> restorable A \<Longrightarrow> coins_ok ok A \<Longrightarrow>
    \<exists>d'. disconnect_txs V SerializeHash height (rev (map2 undo_of vtx (block_undos SerializeHash height vtx A))) True d =
        Inr (Some True, d') \<and>
      cache_inv utxo valid ok d' \<and> cache_utxo utxo d' = A \<and> cache_best best d' = cache_best best d"
proof (induction vtx arbitrary: A)
  case (Cons tx vtx)
  let ?A = "apply_tx SerializeHash height tx A"
  have h31: "(word_of_int height :: 31 word) \<noteq> 0"
    using h by (auto simp: word_of_int_eq_0_iff dest!: zdvd_imp_le)
  have fits: "tx_fits ok SerializeHash height tx A" "block_fits ok SerializeHash height vtx ?A" using Cons.prems(3) by simp_all
  obtain d1 where
    d1: "disconnect_txs V SerializeHash height (rev (map2 undo_of vtx (block_undos SerializeHash height vtx ?A))) True d = Inr (Some True, d1)"
      "cache_inv utxo valid ok d1" "cache_utxo utxo d1 = ?A" "cache_best best d1 = cache_best best d"
    using Cons.IH [OF Cons.prems(1) _ fits(2) apply_tx_restorable [OF Cons.prems(4) h31] coins_ok_apply_tx [OF Cons.prems(5) fits(1)]]
      Cons.prems(2) by auto
  have "\<exists>d2. disconnect_tx V SerializeHash height tx (if IsCoinBase tx then None else Some (spent_coins tx A)) True d1 =
      Inr (Some True, d2) \<and> cache_inv utxo valid ok d2 \<and> cache_utxo utxo d2 = A \<and> cache_best best d2 = cache_best best d1"
    (is "\<exists>d2. ?undone d2")
    by (rule disconnect_update [OF d1(2,3) fits(1)]) (use h Cons.prems(4,5) in \<open>auto simp: coins_ok_def\<close>)
  then obtain d2 where "?undone d2" by blast
  with d1(1,4) show ?case by (intro exI [of _ d2]) (simp add: disconnect_txs_append undo_of_def split del: if_split)
qed auto

end

end
