(* ===== verification/SHA256_D64.thy ===== *)
theory SHA256_D64
  imports Hash_Functions
begin

text \<open>
  \<open>SHA256D64\<close> of \<open>crypto/sha256.cpp\<close>, the double hash of 64-byte blocks behind the Merkle
  trees: the portable \<open>TransformD64\<close>, with the schedule of the padding blocks computed in
  advance, and the generic \<open>TransformD64Wrapper\<close>.  The implementations for particular
  processors, which replace them after a self-test, are not modelled.
\<close>

unbundle bit_operations_syntax

subsection \<open>The routines\<close>

text \<open>The constants of the second transform: those of the rounds plus the schedule of the padding.\<close>

definition d64_K2 :: "u32 list" where
  "d64_K2 = concat
    [[0xc28a2f98, 0x71374491, 0xb5c0fbcf, 0xe9b5dba5, 0x3956c25b, 0x59f111f1, 0x923f82a4, 0xab1c5ed5],
     [0xd807aa98, 0x12835b01, 0x243185be, 0x550c7dc3, 0x72be5d74, 0x80deb1fe, 0x9bdc06a7, 0xc19bf374],
     [0x649b69c1, 0xf0fe4786, 0x0fe1edc6, 0x240cf254, 0x4fe9346f, 0x6cc984be, 0x61b9411e, 0x16f988fa],
     [0xf2c65152, 0xa88e5a6d, 0xb019fc65, 0xb9d99ec7, 0x9a1231c3, 0xe70eeaa0, 0xfdb1232b, 0xc7353eb0],
     [0x3069bad5, 0xcb976d5f, 0x5a0f118f, 0xdc1eeefd, 0x0a35b689, 0xde0b7a04, 0x58f4ca9d, 0xe15d5b16],
     [0x007f3e86, 0x37088980, 0xa507ea32, 0x6fab9537, 0x17406110, 0x0d8cd6f1, 0xcdaa3b6d, 0xc0bbbe37],
     [0x83613bda, 0xdb48a363, 0x0b02e931, 0x6fd15ca7, 0x521afaca, 0x31338431, 0x6ed41a95, 0x6d437890],
     [0xc39c91f2, 0x9eccabbd, 0xb5c9a0e6, 0x532fb63c, 0xd2c741c6, 0x07237ea3, 0xa4954b68, 0x4c191d76]]"

text \<open>The schedule of the third transform; the words from 8 on are assigned before they are read.\<close>

definition d64_schedule :: "u32 list \<Rightarrow> nat \<Rightarrow> u32 list" where
  "d64_schedule w t =
     (if t < 16 then w
      else if t = 16 then w[0 := w ! 0 + sigma0 (w ! 1)]
      else if t = 17 then w[1 := w ! 1 + (0xa00000 + sigma0 (w ! 2))]
      else if t = 18 then w[2 := w ! 2 + (sigma1 (w ! 0) + sigma0 (w ! 3))]
      else if t = 19 then w[3 := w ! 3 + (sigma1 (w ! 1) + sigma0 (w ! 4))]
      else if t = 20 then w[4 := w ! 4 + (sigma1 (w ! 2) + sigma0 (w ! 5))]
      else if t = 21 then w[5 := w ! 5 + (sigma1 (w ! 3) + sigma0 (w ! 6))]
      else if t = 22 then w[6 := w ! 6 + (sigma1 (w ! 4) + 0x100 + sigma0 (w ! 7))]
      else if t = 23 then w[7 := w ! 7 + (sigma1 (w ! 5) + w ! 0 + 0x11002000)]
      else if t = 24 then w[8 := 0x80000000 + sigma1 (w ! 6) + w ! 1]
      else if t = 25 then w[9 := sigma1 (w ! 7) + w ! 2]
      else if t = 26 then w[10 := sigma1 (w ! 8) + w ! 3]
      else if t = 27 then w[11 := sigma1 (w ! 9) + w ! 4]
      else if t = 28 then w[12 := sigma1 (w ! 10) + w ! 5]
      else if t = 29 then w[13 := sigma1 (w ! 11) + w ! 6]
      else if t = 30 then w[14 := sigma1 (w ! 12) + w ! 7 + 0x400022]
      else if t = 31 then w[15 := 0x100 + sigma1 (w ! 13) + w ! 8 + sigma0 (w ! 0)]
      else sha2_schedule sigma0 sigma1 w t)"

definition d64_term :: "u32 list \<Rightarrow> nat \<Rightarrow> u32" where
  "d64_term w t =
     (if t < 8 then sha256_K ! t + w ! t
      else if t = 8 then 0x5807aa98
      else if t < 15 then sha256_K ! t
      else if t = 15 then 0xc19bf274
      else sha256_K ! t + w ! (t mod 16))"

definition TransformD64 :: "bytes \<Rightarrow> bytes" where
  "TransformD64 inp =
     (let t = sha256_Transform sha256_Initialize inp;
          r = fold (\<lambda>k r. sha256_Round r k) d64_K2 (regs8_of t);
          w = map2 (+) t (list_of_regs8 r);
          (r, _) = fold (\<lambda>t (r, w). let w = d64_schedule w t in (sha256_Round r (d64_term w t), w))
            [0..<64] (regs8_of sha256_Initialize, w @ replicate 8 0)
      in concat (map WriteBE32 (map2 (+) sha256_Initialize (list_of_regs8 r))))"

definition TransformD64Wrapper :: "(u32 list \<Rightarrow> bytes \<Rightarrow> u32 list) \<Rightarrow> bytes \<Rightarrow> bytes" where
  "TransformD64Wrapper tr inp =
     (let padding1 = 0x80 # replicate 61 0 @ [2, 0];
          s = tr (tr sha256_Initialize inp) padding1;
          buffer2 = concat (map (\<lambda>i. WriteBE32 (s ! i)) [0..<8]) @ 0x80 # replicate 29 0 @ [1, 0];
          s = tr sha256_Initialize buffer2
      in concat (map (\<lambda>i. WriteBE32 (s ! i)) [0..<8]))"

text \<open>One block at a time, as without the routines for several blocks.\<close>

fun SHA256D64 :: "(bytes \<Rightarrow> bytes) \<Rightarrow> bytes \<Rightarrow> nat \<Rightarrow> bytes" where
  "SHA256D64 tr inp 0 = []"
| "SHA256D64 tr inp (Suc blocks) = tr (take 64 inp) @ SHA256D64 tr (drop 64 inp) blocks"

subsection \<open>Rounds as a fold over the terms added\<close>

fun sched_terms :: "(u32 list \<Rightarrow> nat \<Rightarrow> u32 list) \<Rightarrow> (u32 list \<Rightarrow> nat \<Rightarrow> u32) \<Rightarrow> nat list \<Rightarrow> u32 list \<Rightarrow> u32 list" where
  "sched_terms S k [] w = []"
| "sched_terms S k (t # ts) w = (let w = S w t in k w t # sched_terms S k ts w)"

lemma rounds_terms:
  "fst (fold (\<lambda>t (r, w). let w = S w t in (sha256_Round r (k w t), w)) ts (r, w)) =
     fold (\<lambda>k r. sha256_Round r k) (sched_terms S k ts w) r"
  by (induction ts arbitrary: r w) (simp_all add: Let_def)

definition padding_words :: "u32 list" where
  "padding_words = 0x80000000 # replicate 14 0 @ [512]"

lemma d64_K2_terms:
  "sched_terms (sha2_schedule sigma0 sigma1) (\<lambda>w t. sha256_K ! t + w ! (t mod 16)) [0..<64] padding_words = d64_K2"
  by code_simp

subsection \<open>The third transform\<close>

lemma sigma_values:
  "sigma0 0 = 0" "sigma1 0 = 0" "sigma1 0x100 = 0xa00000" "sigma0 0x80000000 = 0x11002000" "sigma0 0x100 = 0x400022"
  by code_simp+

text \<open>The list with the padding words where the source has not assigned a word yet, before round \<open>t\<close>.\<close>

definition d64_full :: "nat \<Rightarrow> u32 list \<Rightarrow> u32 list" where
  "d64_full t w = map (\<lambda>i. if i < 8 \<or> i + 16 < t then w ! i else [0x80000000, 0, 0, 0, 0, 0, 0, 0x100] ! (i - 8)) [0..<16]"

lemma upt_16: "[0..<16] = [0, 1, 2, 3, 4, 5, 6, 7, 8, 9, 10, 11, 12, 13, 14, 15 :: nat]"
  by (simp add: upt_rec)

lemma list16: "length w = 16 \<Longrightarrow> \<exists>a b c d e f g h i j k l m n p q. w = [a, b, c, d, e, f, g, h, i, j, k, l, m, n, p, q]"
  by (auto simp: length_Suc_conv numeral_eq_Suc)

lemma d64_schedule_full:
  assumes w: "length w = 16" and "16 \<le> t" "t < 32"
  shows "sha2_schedule sigma0 sigma1 (d64_full t w) t = d64_full (Suc t) (d64_schedule w t)"
proof -
  obtain a b c d e f g h i j k l m n p q where w16: "w = [a, b, c, d, e, f, g, h, i, j, k, l, m, n, p, q]"
    using list16 [OF w] by blast
  have "t \<in> set [16..<32]" using assms(2,3) by (simp only: set_upt atLeastLessThan_iff)
  then have "t = 16 \<or> t = 17 \<or> t = 18 \<or> t = 19 \<or> t = 20 \<or> t = 21 \<or> t = 22 \<or> t = 23 \<or> t = 24 \<or> t = 25 \<or> t = 26 \<or> t = 27 \<or>
      t = 28 \<or> t = 29 \<or> t = 30 \<or> t = 31"
    by (simp add: upt_rec del: set_upt)
  then show ?thesis
    by (elim disjE) (simp_all add: w16 sha2_schedule_def d64_schedule_def d64_full_def upt_16 sigma_values)
qed

lemma length_schedules [simp]:
  "length (d64_schedule w t) = length w" "length (sha2_schedule s0 s1 v t) = length v"
  by (simp_all add: d64_schedule_def sha2_schedule_def Let_def)

lemma d64_full_late: "length w = 16 \<Longrightarrow> 32 \<le> t \<Longrightarrow> d64_full t w = w"
  by (rule nth_equalityI) (simp_all add: d64_full_def)

lemma d64_full_early: "t < 16 \<Longrightarrow> d64_full (Suc t) w = d64_full t w"
  by (simp add: d64_full_def)

lemma d64_step:
  assumes w: "length w = 16"
  shows "sha2_schedule sigma0 sigma1 (d64_full t w) t = d64_full (Suc t) (d64_schedule w t)"
proof -
  consider "t < 16" | "16 \<le> t" "t < 32" | "32 \<le> t" by linarith
  then show ?thesis
  proof cases
    case 1
    then show ?thesis by (simp add: sha2_schedule_def d64_schedule_def d64_full_early)
  next
    case 2
    with w show ?thesis by (rule d64_schedule_full)
  next
    case 3
    then have "d64_schedule w t = sha2_schedule sigma0 sigma1 w t" by (simp add: d64_schedule_def)
    with 3 w show ?thesis by (simp add: d64_full_late)
  qed
qed

lemma sha256_K_values:
  "sha256_K ! 8 + 0x80000000 = 0x5807aa98" "sha256_K ! 15 + 0x100 = 0xc19bf274"
  by code_simp+

lemma d64_term_full: "sha256_K ! t + d64_full (Suc t) w ! (t mod 16) = d64_term w t"
proof -
  consider "t < 8" | "t = 8" | "9 \<le> t" "t < 15" | "t = 15" | "16 \<le> t" by linarith
  then show ?thesis
  proof cases
    case 3
    then have "t = 9 \<or> t = 10 \<or> t = 11 \<or> t = 12 \<or> t = 13 \<or> t = 14" by linarith
    then show ?thesis by (elim disjE) (simp_all add: d64_full_def d64_term_def)
  next
    case 5
    then have "t mod 16 + 16 < Suc t"
      by (metis add.commute add_le_cancel_left div_le_mono div_self less_Suc_eq_le mult.commute mult_le_mono2
        mult_div_mod_eq nat_mult_1_right zero_neq_numeral)
    with 5 show ?thesis by (simp add: d64_full_def d64_term_def)
  qed (simp_all add: d64_full_def d64_term_def sha256_K_values)
qed

lemma d64_terms:
  "length w = 16 \<Longrightarrow> t \<le> 64 \<Longrightarrow>
   sched_terms (sha2_schedule sigma0 sigma1) (\<lambda>w t. sha256_K ! t + w ! (t mod 16)) [t..<64] (d64_full t w) =
     sched_terms d64_schedule d64_term [t..<64] w"
proof (induction "64 - t" arbitrary: t w)
  case (Suc n)
  then have t: "[t..<64] = t # [Suc t..<64]" by (simp add: upt_conv_Cons)
  have "sched_terms (sha2_schedule sigma0 sigma1) (\<lambda>w t. sha256_K ! t + w ! (t mod 16)) [Suc t..<64] (d64_full (Suc t) (d64_schedule w t)) =
     sched_terms d64_schedule d64_term [Suc t..<64] (d64_schedule w t)"
    using Suc.hyps(2) Suc.prems by (intro Suc.hyps(1)) simp_all
  then show ?case by (simp add: t d64_step [OF Suc.prems(1)] d64_term_full Let_def del: upt_Suc)
qed simp

subsection \<open>Both routines compute the double hash\<close>

lemma sha256_Transform_terms:
  "sha256_Transform s chunk =
     map2 (+) s (list_of_regs8 (fold (\<lambda>k r. sha256_Round r k)
       (sched_terms (sha2_schedule sigma0 sigma1) (\<lambda>w t. sha256_K ! t + w ! (t mod 16)) [0..<64]
         (map (\<lambda>i. ReadBE32 (drop (4 * i) chunk)) [0..<16])) (regs8_of s)))"
  unfolding sha256_Transform_def by (simp add: split_beta rounds_terms del: upt_Suc)

lemma ReadBE32_words:
  "i < length ws \<Longrightarrow> ReadBE32 (drop (4 * i) (concat (map WriteBE32 ws) @ rest)) = ws ! i"
proof (induction ws arbitrary: i)
  case (Cons w ws)
  then show ?case by (cases i) (simp_all add: Read_Write_BE)
qed simp

lemma nths_8: "length s = 8 \<Longrightarrow> map (\<lambda>i. f (s ! i)) [0..<8] = map f s"
  by (rule nth_equalityI) simp_all

lemma length_regs8 [simp]: "length (list_of_regs8 r) = 8"
  by (induction r rule: list_of_regs8.induct) simp

lemma length_Transform: "length s = 8 \<Longrightarrow> length (sha256_Transform s chunk) = 8"
  by (simp add: sha256_Transform_terms)

lemma digest_spec:
  "CSHA256_Finalize (CSHA256_Write CSHA256 d) =
     concat (map (\<lambda>i. WriteBE32 (fst (md_chunks 64 sha256_Transform sha256_Initialize (md_padded 64 119 WriteBE64 d)) ! i)) [0..<8])"
  using b64.Finish_spec [where d = 8 and h = CSHA256 and tr = sha256_Transform and m = 119 and sz = WriteBE64 and msg = d]
  by (simp add: CSHA256_Finalize_def CSHA256_Write_def)

lemma Hash_digest: "Hash d = CSHA256_Finalize (CSHA256_Write CSHA256 (CSHA256_Finalize (CSHA256_Write CSHA256 d)))"
  using CSHA256_Reset_fresh [of "CSHA256_Write CSHA256 d"] CSHA256_fold_buf [of "[d]"]
  by (simp add: Hash_def CHash256_Finalize_def)

lemma length_bytes_written: "WriteBE64 512 = [0, 0, 0, 0, 0, 0, 2, 0]" "WriteBE64 256 = [0, 0, 0, 0, 0, 0, 1, 0]"
  by code_simp+

lemma zeros_join: "replicate n 0 @ 0 # 0 # 0 # 0 # 0 # 0 # l = replicate (n + 6) 0 @ l"
  by (induction n) (simp_all add: numeral_eq_Suc)

lemma md_padded_blocks:
  "length d = 64 \<Longrightarrow> md_padded 64 119 WriteBE64 d = d @ 0x80 # replicate 61 0 @ [2, 0]"
  "length e = 32 \<Longrightarrow> md_padded 64 119 WriteBE64 e = e @ 0x80 # replicate 29 0 @ [1, 0]"
  by (simp_all add: md_padded_def md_pad_def length_bytes_written take_Cons' zeros_join)

lemma length_Initialize: "length sha256_Initialize = 8"
  by (simp add: sha256_Initialize_def)

lemma wrapper_Hash:
  assumes "length inp = 64"
  shows "TransformD64Wrapper sha256_Transform inp = Hash inp"
proof -
  let ?s = "sha256_Transform (sha256_Transform sha256_Initialize inp) (0x80 # replicate 61 0 @ [2, 0])"
  let ?d = "concat (map (\<lambda>i. WriteBE32 (?s ! i)) [0..<8])"
  have "md_chunks 64 sha256_Transform sha256_Initialize (inp @ 0x80 # replicate 61 0 @ [2, 0]) = (?s, [])"
    using assms md_chunks_block [of "0x80 # replicate 61 0 @ [2, 0]" 64 sha256_Transform _ "[]"]
    by (simp add: md_chunks_block md_chunks_short)
  then have d: "CSHA256_Finalize (CSHA256_Write CSHA256 inp) = ?d"
    using assms by (simp add: digest_spec md_padded_blocks)
  then have "length ?d = 32" using length_digests(1) by metis
  moreover from this have "md_chunks 64 sha256_Transform sha256_Initialize (?d @ 0x80 # replicate 29 0 @ [1, 0]) =
      (sha256_Transform sha256_Initialize (?d @ 0x80 # replicate 29 0 @ [1, 0]), [])"
    using md_chunks_block [of "?d @ 0x80 # replicate 29 0 @ [1, 0]" 64 sha256_Transform _ "[]"]
    by (simp add: md_chunks_short)
  ultimately show ?thesis
    by (simp add: Hash_digest d digest_spec [of ?d] md_padded_blocks(2) TransformD64Wrapper_def Let_def del: append.simps)
qed

lemma zero_bytes: "WriteBE32 0 = [0, 0, 0, 0]" "WriteBE32 0x80000000 = [0x80, 0, 0, 0]" "WriteBE32 512 = [0, 0, 2, 0]" "WriteBE32 0x100 = [0, 0, 1, 0]"
  by code_simp+

lemma padding_bytes: "0x80 # replicate 61 0 @ [2, 0] = concat (map WriteBE32 padding_words)"
  by (simp add: padding_words_def zero_bytes numeral_eq_Suc)

lemma padding_words: "map (\<lambda>i. ReadBE32 (drop (4 * i) (0x80 # replicate 61 0 @ [2, 0]))) [0..<16] = padding_words"
proof (rule nth_equalityI)
  fix i assume "i < length (map (\<lambda>i. ReadBE32 (drop (4 * i) (0x80 # replicate 61 0 @ [2, 0]))) [0..<16])"
  then have "i < 16" by simp
  with ReadBE32_words [of i padding_words "[]"]
  show "map (\<lambda>i. ReadBE32 (drop (4 * i) (0x80 # replicate 61 0 @ [2, 0]))) [0..<16] ! i = padding_words ! i"
    unfolding padding_bytes by (simp add: padding_words_def)
qed (simp add: padding_words_def)

definition buffer2_tail :: "u32 list" where
  "buffer2_tail = [0x80000000, 0, 0, 0, 0, 0, 0, 0x100]"

lemma buffer2_bytes: "0x80 # replicate 29 0 @ [1, 0] = concat (map WriteBE32 buffer2_tail)"
  by (simp add: buffer2_tail_def zero_bytes numeral_eq_Suc)

lemma buffer2_words:
  assumes "length ws = 8"
  shows "map (\<lambda>i. ReadBE32 (drop (4 * i) (concat (map WriteBE32 ws) @ 0x80 # replicate 29 0 @ [1, 0]))) [0..<16] =
    d64_full 0 (ws @ replicate 8 0)"
proof -
  have "ReadBE32 (drop (4 * i) (concat (map WriteBE32 ws) @ concat (map WriteBE32 buffer2_tail))) =
      (if i < 8 \<or> i + 16 < 0 then (ws @ replicate 8 0) ! i else buffer2_tail ! (i - 8))" if "i < 16" for i
    using ReadBE32_words [of i "ws @ buffer2_tail" "[]"] that assms by (simp add: nth_append buffer2_tail_def)
  then show ?thesis
    unfolding buffer2_bytes d64_full_def buffer2_tail_def [symmetric]
    by (intro map_cong refl) (simp only: set_upt atLeastLessThan_iff)
qed

lemma D64_Hash:
  assumes "length inp = 64"
  shows "TransformD64 inp = Hash inp"
proof -
  define t where "t = sha256_Transform sha256_Initialize inp"
  define w where "w = map2 (+) t (list_of_regs8 (fold (\<lambda>k r. sha256_Round r k) d64_K2 (regs8_of t)))"
  have t: "length t = 8" by (simp add: t_def length_Transform length_Initialize)
  have w: "sha256_Transform t (0x80 # replicate 61 0 @ [2, 0]) = w" "length w = 8"
    using t by (simp_all only: sha256_Transform_terms padding_words d64_K2_terms w_def) simp
  define u where "u = sha256_Transform sha256_Initialize (concat (map WriteBE32 w) @ 0x80 # replicate 29 0 @ [1, 0])"
  have "u = map2 (+) sha256_Initialize (list_of_regs8 (fold (\<lambda>k r. sha256_Round r k)
      (sched_terms d64_schedule d64_term [0..<64] (w @ replicate 8 0)) (regs8_of sha256_Initialize)))"
    using d64_terms [of "w @ replicate 8 0" 0] w(2) by (simp only: u_def sha256_Transform_terms buffer2_words) simp
  then have "TransformD64 inp = concat (map WriteBE32 u)"
    unfolding TransformD64_def Let_def t_def [symmetric] w_def [symmetric] by (simp only: split_beta rounds_terms [unfolded Let_def])
  moreover have "TransformD64Wrapper sha256_Transform inp = concat (map WriteBE32 u)"
    using w nths_8 [of w WriteBE32] nths_8 [of u WriteBE32] length_Transform [OF length_Initialize]
    by (simp only: TransformD64Wrapper_def Let_def t_def [symmetric] u_def)
  ultimately show ?thesis using wrapper_Hash [OF assms] by simp
qed

text \<open>
  (C10) The double hash of the Merkle trees.  On every block of 64 bytes the routine with the
  precomputed schedules (\<open>TransformD64\<close>) and the generic one (\<open>TransformD64Wrapper\<close> on the
  transform of SHA-256) give the digest that \<open>Hash\<close> computes by two passes of the stream
  hasher, padding included.
\<close>

theorem TransformD64_double_hash:
  assumes "length inp = 64"
  shows "TransformD64 inp = Hash inp \<and> TransformD64Wrapper sha256_Transform inp = Hash inp"
  using D64_Hash [OF assms] wrapper_Hash [OF assms] by simp

theorem TransformD64_double_hash_witness: "length (replicate 64 (7 :: u8)) = 64 \<and> TransformD64 (replicate 64 7) = Hash (replicate 64 7)"
  using TransformD64_double_hash [of "replicate 64 7"] by simp

end
