(* ===== verification/Merkle.thy ===== *)
theory Merkle
  imports SHA256_D64 Transaction
begin

text \<open>
  \<open>consensus/merkle.cpp\<close>: the root of the Merkle tree of a block and the sign of a mutated
  list, a pair of equal hashes next to each other at some level (CVE-2012-2459).
\<close>

subsection \<open>The root\<close>

text \<open>The vector of hashes is contiguous memory: \<open>SHA256D64\<close> reads and overwrites it as bytes.\<close>

definition blobs :: "nat \<Rightarrow> bytes \<Rightarrow> uint256 list" where
  "blobs n b = map (\<lambda>i. take 32 (drop (32 * i) b)) [0..<n]"

fun equal_pair :: "uint256 list \<Rightarrow> bool" where
  "equal_pair (x # y # hashes) \<longleftrightarrow> x = y \<or> equal_pair hashes"
| "equal_pair _ \<longleftrightarrow> False"

function merkle_loop :: "uint256 list \<Rightarrow> bool \<Rightarrow> uint256 list \<times> bool" where
  "merkle_loop hashes mutation =
     (if length hashes > 1 then
        let mutation = (mutation \<or> equal_pair hashes);
            hashes = (if odd (length hashes) then hashes @ [last hashes] else hashes);
            n = length hashes div 2
        in merkle_loop (blobs n (SHA256D64 TransformD64 (concat hashes) n)) mutation
      else (hashes, mutation))"
  by pat_completeness auto
termination
proof (relation "measure (\<lambda>(hashes, _). length hashes)", goal_cases)
  case (2 hashes mutation m hashes' n)
  then show ?case by (auto simp: blobs_def odd_pos elim!: oddE)
qed simp

declare merkle_loop.simps [simp del]

definition ComputeMerkleRoot :: "uint256 list \<Rightarrow> uint256 \<times> bool" where
  "ComputeMerkleRoot hashes =
     (case merkle_loop hashes False of (hashes, mutation) \<Rightarrow> (if hashes = [] then blob_null 32 else hashes ! 0, mutation))"

definition BlockMerkleRoot :: "(bytes \<Rightarrow> uint256) \<Rightarrow> CTransaction list \<Rightarrow> uint256 \<times> bool" where
  "BlockMerkleRoot SerializeHash vtx = ComputeMerkleRoot (map (tx_GetHash SerializeHash) vtx)"

subsection \<open>Levels of the tree\<close>

fun pair_up :: "uint256 list \<Rightarrow> bytes list" where
  "pair_up (x # y # hashes) = (x @ y) # pair_up hashes"
| "pair_up [x] = [x @ x]"
| "pair_up [] = []"

lemma length_pair_up: "length (pair_up hashes) = (length hashes + 1) div 2"
  by (induction hashes rule: pair_up.induct) simp_all

lemma length_SHA256D64: "\<forall>x. length (tr x) = 32 \<Longrightarrow> length (SHA256D64 tr b n) = 32 * n"
  by (induction n arbitrary: b) simp_all

lemma blobs_Suc: "length h = 32 \<Longrightarrow> blobs (Suc n) (h @ b) = h # blobs n b"
  unfolding blobs_def by (simp add: map_upt_Suc del: upt_Suc)

lemma level_bytes:
  "list_all (\<lambda>h. length h = 32) hashes \<Longrightarrow> even (length hashes) \<Longrightarrow>
   blobs (length hashes div 2) (SHA256D64 TransformD64 (concat hashes) (length hashes div 2)) = map Hash (pair_up hashes)"
proof (induction hashes rule: pair_up.induct)
  case (1 x y hashes)
  then have "TransformD64 (take 64 (concat (x # y # hashes))) = Hash (x @ y)" by (simp add: D64_Hash)
  with 1 show ?case by (simp add: blobs_Suc)
qed (simp_all add: blobs_def)

lemma pair_up_pad: "odd (length hashes) \<Longrightarrow> pair_up (hashes @ [last hashes]) = pair_up hashes"
  by (induction hashes rule: pair_up.induct) auto

lemma merkle_loop_step:
  assumes "list_all (\<lambda>h. length h = 32) hashes" and "1 < length hashes"
  shows "merkle_loop hashes m = merkle_loop (map Hash (pair_up hashes)) (m \<or> equal_pair hashes)"
proof -
  let ?p = "if odd (length hashes) then hashes @ [last hashes] else hashes"
  have "hashes \<noteq> []" using assms(2) by auto
  then have "last hashes \<in> set hashes" by simp
  then have "list_all (\<lambda>h. length h = 32) ?p" "even (length ?p)" using assms by (auto simp: list_all_iff)
  from level_bytes [OF this] have "blobs (length ?p div 2) (SHA256D64 TransformD64 (concat ?p) (length ?p div 2)) = map Hash (pair_up hashes)"
    by (simp add: pair_up_pad)
  with assms(2) show ?thesis by (subst merkle_loop.simps) (simp add: Let_def)
qed

lemma merkle_loop_end: "length hashes \<le> 1 \<Longrightarrow> merkle_loop hashes m = (hashes, m)"
  by (subst merkle_loop.simps) simp

text \<open>The number of levels over \<open>n\<close> leaves, and the blocks that are hashed on the way up.\<close>

function levels :: "nat \<Rightarrow> nat" where
  "levels n = (if n \<le> 1 then 0 else Suc (levels ((n + 1) div 2)))"
  by pat_completeness auto
termination by (relation "measure (\<lambda>n. n)") auto

declare levels.simps [simp del]

function merkle_inputs :: "uint256 list \<Rightarrow> bytes list" where
  "merkle_inputs hashes = (if length hashes \<le> 1 then [] else pair_up hashes @ merkle_inputs (map Hash (pair_up hashes)))"
  by pat_completeness auto
termination by (relation "measure length") (auto simp: length_pair_up)

declare merkle_inputs.simps [simp del]

definition collision :: "bytes list \<Rightarrow> bytes list \<Rightarrow> bool" where
  "collision xs ys \<longleftrightarrow> list_ex (\<lambda>x. list_ex (\<lambda>y. x \<noteq> y \<and> Hash x = Hash y) ys) xs"

lemma collision_iff: "collision xs ys \<longleftrightarrow> (\<exists>x\<in>set xs. \<exists>y\<in>set ys. x \<noteq> y \<and> Hash x = Hash y)"
  by (simp add: collision_def list_ex_iff)

lemma map_Hash_inject:
  "map Hash xs = map Hash ys \<Longrightarrow> xs = ys \<or> collision xs ys"
proof (induction xs arbitrary: ys)
  case (Cons x xs)
  then obtain y zs where ys: "ys = y # zs" "Hash x = Hash y" "map Hash xs = map Hash zs" by (cases ys) auto
  with Cons.IH [of zs] show ?case by (auto simp: collision_iff)
qed simp

lemma pair_up_inject:
  "pair_up as = pair_up bs \<Longrightarrow> list_all (\<lambda>h. length h = 32) as \<Longrightarrow> list_all (\<lambda>h. length h = 32) bs \<Longrightarrow>
   \<not> equal_pair as \<Longrightarrow> \<not> equal_pair bs \<Longrightarrow> as = bs"
proof (induction as arbitrary: bs rule: pair_up.induct)
  case (1 x y as)
  then show ?case by (cases bs rule: pair_up.cases) auto
next
  case (2 x)
  then show ?case
    by (cases bs rule: pair_up.cases) (auto simp: length_0_conv [symmetric] length_pair_up simp del: length_0_conv)
next
  case 3
  then show ?case by (cases bs rule: pair_up.cases) auto
qed

lemma merkle_loop_sticky: "snd (merkle_loop hashes True)"
proof (induction hashes True rule: merkle_loop.induct)
  case (1 hashes)
  then show ?case by (subst merkle_loop.simps) (simp add: Let_def)
qed

lemma merkle_loop_root: "fst (merkle_loop hashes a) = fst (merkle_loop hashes b)"
proof (induction hashes a arbitrary: b rule: merkle_loop.induct)
  case (1 hashes a)
  show ?case
  proof (cases "length hashes > 1")
    case True
    have "fst (merkle_loop hashes b) = fst (merkle_loop hashes c)" for b c
      using 1 [OF True refl refl refl, of "b \<or> equal_pair hashes"] 1 [OF True refl refl refl, of "c \<or> equal_pair hashes"] True
      by (simp only: merkle_loop.simps [of hashes] Let_def if_True)
    then show ?thesis .
  qed (simp add: merkle_loop.simps)
qed

lemma merkle_loop_unmutated:
  "list_all (\<lambda>h. length h = 32) hashes \<Longrightarrow> 1 < length hashes \<Longrightarrow> \<not> snd (merkle_loop hashes m) \<Longrightarrow>
   \<not> m \<and> \<not> equal_pair hashes \<and> merkle_loop hashes m = merkle_loop (map Hash (pair_up hashes)) False"
  using merkle_loop_step [of hashes m] merkle_loop_sticky [of "map Hash (pair_up hashes)"]
  by (cases "m \<or> equal_pair hashes") auto

lemma level_wf: "list_all (\<lambda>h. length h = 32) (map Hash xs)"
  by (simp add: list_all_iff)

lemma merkle_loop_inject:
  "list_all (\<lambda>h. length h = 32) as \<Longrightarrow> list_all (\<lambda>h. length h = 32) bs \<Longrightarrow> as \<noteq> [] \<Longrightarrow> bs \<noteq> [] \<Longrightarrow>
   levels (length as) = levels (length bs) \<Longrightarrow> merkle_loop as False = (r, False) \<Longrightarrow> merkle_loop bs False = (r, False) \<Longrightarrow>
   as = bs \<or> collision (merkle_inputs as) (merkle_inputs bs)"
proof (induction "levels (length as)" arbitrary: as bs)
  case 0
  then have "length as \<le> 1" "length bs \<le> 1" by (metis Zero_not_Suc levels.simps)+
  with 0 show ?case by (simp add: merkle_loop_end)
next
  case (Suc n)
  have big: "1 < length as" "1 < length bs" using Suc.hyps(2) Suc.prems(5) by (metis Zero_not_Suc levels.simps not_less)+
  let ?a = "map Hash (pair_up as)" and ?b = "map Hash (pair_up bs)"
  have n: "n = levels (length ?a)" "n = levels (length ?b)"
    using Suc.hyps(2) Suc.prems(5) big levels.simps [of "length as"] levels.simps [of "length bs"] by (simp_all add: length_pair_up)
  have a: "\<not> equal_pair as" "merkle_loop ?a False = (r, False)"
    using merkle_loop_unmutated [OF Suc.prems(1) big(1), of False] Suc.prems(6) by simp_all
  have b: "\<not> equal_pair bs" "merkle_loop ?b False = (r, False)"
    using merkle_loop_unmutated [OF Suc.prems(2) big(2), of False] Suc.prems(7) by simp_all
  have "?a \<noteq> []" "?b \<noteq> []" using big by (simp_all add: length_0_conv [symmetric] length_pair_up del: length_0_conv)
  from Suc.hyps(1) [OF n(1) level_wf level_wf this _ a(2) b(2)] n
  have "?a = ?b \<or> collision (merkle_inputs ?a) (merkle_inputs ?b)" by simp
  moreover have "merkle_inputs as = pair_up as @ merkle_inputs ?a" "merkle_inputs bs = pair_up bs @ merkle_inputs ?b"
    using big by (simp_all add: merkle_inputs.simps [of as] merkle_inputs.simps [of bs])
  moreover have "?a = ?b \<Longrightarrow> as = bs \<or> collision (pair_up as) (pair_up bs)"
    using map_Hash_inject pair_up_inject [OF _ Suc.prems(1,2) a(1) b(1)] by blast
  ultimately show ?case unfolding collision_iff by auto
qed

lemma equal_pair_pad: "odd (length as) \<Longrightarrow> equal_pair (as @ [last as])"
  by (induction as rule: equal_pair.induct) auto

lemma merkle_root:
  "ComputeMerkleRoot as = (r, m) \<Longrightarrow> as \<noteq> [] \<Longrightarrow> list_all (\<lambda>h. length h = 32) as \<Longrightarrow> merkle_loop as False = ([r], m)"
proof -
  have "length (fst (merkle_loop as b)) \<le> 1 \<and> (as \<noteq> [] \<longrightarrow> fst (merkle_loop as b) \<noteq> [])"
    if "list_all (\<lambda>h. length h = 32) as" for as b
    using that
  proof (induction "length as" arbitrary: as b rule: less_induct)
    case less
    show ?case
    proof (cases "length as \<le> 1")
      case False
      then have "pair_up as \<noteq> []" "length (pair_up as) < length as"
        by (simp_all add: length_0_conv [symmetric] length_pair_up del: length_0_conv)
      with less.hyps [of "map Hash (pair_up as)"] merkle_loop_step [OF less.prems] False show ?thesis
        by (simp add: level_wf)
    qed (simp add: merkle_loop_end)
  qed
  from this [of as False]
  show "ComputeMerkleRoot as = (r, m) \<Longrightarrow> as \<noteq> [] \<Longrightarrow> list_all (\<lambda>h. length h = 32) as \<Longrightarrow> merkle_loop as False = ([r], m)"
    by (cases "merkle_loop as False"; cases "fst (merkle_loop as False)") (auto simp: ComputeMerkleRoot_def)
qed

text \<open>
  (C9) What a Merkle root binds.  Two nonempty lists of hashes with as many levels, neither flagged
  as mutated, have the same root only if they are equal, or if two different blocks hashed
  on the way up have the same double hash.  The known way to change a list and keep its root,
  repeating the last hash of an odd number, does keep it and is flagged.
\<close>

theorem ComputeMerkleRoot_binds:
  assumes "list_all (\<lambda>h. length h = 32) as" and "list_all (\<lambda>h. length h = 32) bs" and "as \<noteq> []" and "bs \<noteq> []"
    and "levels (length as) = levels (length bs)"
  shows "(ComputeMerkleRoot as = (r, False) \<and> ComputeMerkleRoot bs = (r, False) \<longrightarrow>
      as = bs \<or> collision (merkle_inputs as) (merkle_inputs bs)) \<and>
    (odd (length as) \<and> 1 < length as \<longrightarrow>
      ComputeMerkleRoot (as @ [last as]) = (fst (ComputeMerkleRoot as), True))"
proof (intro conjI impI)
  assume "ComputeMerkleRoot as = (r, False) \<and> ComputeMerkleRoot bs = (r, False)"
  then show "as = bs \<or> collision (merkle_inputs as) (merkle_inputs bs)"
    using merkle_root [of as r False] merkle_root [of bs r False] merkle_loop_inject [of as bs "[r]"] assms by blast
next
  assume o: "odd (length as) \<and> 1 < length as"
  have "length (last as) = 32" using assms(1,3) last_in_set [of as] by (auto simp: list_all_iff)
  then have wf: "list_all (\<lambda>h. length h = 32) (as @ [last as])" using assms(1) by simp
  have "merkle_loop (as @ [last as]) False = merkle_loop (map Hash (pair_up as)) True"
    using o assms(3) merkle_loop_step [OF wf] equal_pair_pad [of as] by (simp add: pair_up_pad)
  moreover have "merkle_loop as False = merkle_loop (map Hash (pair_up as)) (equal_pair as)"
    using o merkle_loop_step [OF assms(1)] by simp
  ultimately show "ComputeMerkleRoot (as @ [last as]) = (fst (ComputeMerkleRoot as), True)"
    using merkle_loop_sticky [of "map Hash (pair_up as)"] merkle_loop_root [of "map Hash (pair_up as)" True "equal_pair as"]
    by (auto simp: ComputeMerkleRoot_def split: prod.splits)
qed

text \<open>Three leaves, and the same three: the hypotheses hold, and the fourth copy is flagged.\<close>

definition three_leaves :: "uint256 list" where
  "three_leaves = [replicate 32 1, replicate 32 2, replicate 32 3]"

theorem ComputeMerkleRoot_binds_witness:
  "list_all (\<lambda>h. length h = 32) three_leaves \<and> length three_leaves = 3 \<and>
   ComputeMerkleRoot (three_leaves @ [replicate 32 3]) = (fst (ComputeMerkleRoot three_leaves), True)"
  using ComputeMerkleRoot_binds [of three_leaves three_leaves] by (simp add: three_leaves_def)

end
