(* ===== verification/Check_Block.thy ===== *)
theory Check_Block
  imports Merkle Tx_Verify Pow
begin

text \<open>
  The checks of a block that do not need the coins (\<open>CheckBlockHeader\<close>, \<open>CheckBlock\<close>,
  \<open>ContextualCheckTransaction\<close>, \<open>ContextualCheckBlockHeader\<close> and \<open>ContextualCheckBlock\<close> of
  \<open>validation.cpp\<close>).  The checkpoints and the adjusted time are arguments.
\<close>

unbundle bit_operations_syntax

subsection \<open>Blocks and parameters\<close>

record CBlock = CBlockHeader +
  blk_vtx :: "CTransaction list"
  fChecked :: bool

definition CBlock_size :: "CBlock \<Rightarrow> nat" where
  "CBlock_size block = length (header_bytes (CBlockHeader.truncate block) @ ser_vector ser_CTransaction (blk_vtx block))"

record Block_Params = Reward_Params +
  hashGenesisBlock :: uint256
  hashDevnetGenesisBlock :: uint256
  nSuperblockStartHash :: uint256
  BIPCSVEnabled :: bool
  BIP147Enabled :: bool
  BIP65Enabled :: bool
  BIP66Enabled :: bool

definition mainnet_blocks :: "CScript \<Rightarrow> Block_Params" where
  "mainnet_blocks founder = Reward_Params.extend (mainnet_rewards founder)
     (Block_Params.fields
       (rev [0x00, 0x17, 0x87, 0xe5, 0xf9, 0xc3, 0xcd, 0x24,
       0x9f, 0x84, 0xf0, 0x14, 0x20, 0x71, 0xf6, 0x09,
       0x8d, 0x9e, 0x3b, 0x7e, 0xc8, 0x59, 0x1f, 0xf7,
       0x35, 0x43, 0xdd, 0xc4, 0x90, 0x0c, 0x1d, 0xc2])
       (blob_null 32) (blob_null 32) True True True True)"

definition MAX_STANDARD_TX_SIZE :: int where "MAX_STANDARD_TX_SIZE = 100000"
definition MAX_FUTURE_BLOCK_TIME :: int where "MAX_FUTURE_BLOCK_TIME = 15 * 60"

subsection \<open>Without context\<close>

definition CheckBlockHeader :: "pow_hashes \<Rightarrow> Block_Params \<Rightarrow> CBlockHeader \<Rightarrow> bool \<Rightarrow> check_error option" where
  "CheckBlockHeader H params block fCheckPOW =
     (if sint (hdr_nVersion block) > 4 \<and>
         hdr_nVersion block AND BLOCK_VERSION_ALGO \<notin>
           {BLOCK_VERSION_BUTKSCRYPT, BLOCK_VERSION_SHA256D, BLOCK_VERSION_LYRA2, BLOCK_VERSION_GHOSTRIDER,
            BLOCK_VERSION_YESPOWER, BLOCK_VERSION_SCRYPT}
      then Some (Reject 50 ''unknown-algo'')
      else if fCheckPOW \<and>
        \<not> CheckProofOfWork (CBlockHeader_GetPOWHash H block (CBlockHeader_GetAlgo block)) (hdr_nBits block) (Params.truncate params)
      then Some (Reject 50 ''high-hash'')
      else if \<not> blob_IsNull (hashDevnetGenesisBlock params) \<and> hdr_hashPrevBlock block = hashGenesisBlock params \<and>
        CBlockHeader_GetHash H block \<noteq> hashDevnetGenesisBlock params
      then Some (Reject 100 ''devnet-genesis'')
      else None)"

definition check_merkle :: "(bytes \<Rightarrow> uint256) \<Rightarrow> CBlock \<Rightarrow> check_error option" where
  "check_merkle TxHash block =
     (case BlockMerkleRoot TxHash (blk_vtx block) of
        (hashMerkleRoot2, mutated) \<Rightarrow>
          if hdr_hashMerkleRoot block \<noteq> hashMerkleRoot2 then Some (Reject 100 ''bad-txnmrklroot'')
          else if mutated then Some (Reject 100 ''bad-txns-duplicate'')
          else None)"

text \<open>The rest of \<open>CheckBlock\<close>, after the header and the Merkle root.\<close>

definition check_transactions :: "Block_Params \<Rightarrow> bool \<Rightarrow> int \<Rightarrow> CBlock \<Rightarrow> check_error option" where
  "check_transactions params ismaxcash height block =
     (let txs = blk_vtx block
      in if txs = [] \<or> int (length txs) > MaxBlockSize True \<or> int (CBlock_size block) > MaxBlockSize True
         then Some (Reject 100 ''bad-blk-length'')
         else if \<not> IsCoinBase (hd txs) then Some (Reject 100 ''bad-cb-missing'')
         else if list_ex IsCoinBase (tl txs) then Some (Reject 100 ''bad-cb-multiple'')
         else let blockReward = GetBlockSubsidy (height - 1);
                  check = CheckTransaction (nFounderPayment params) ismaxcash
              in case find (\<lambda>tx. check tx (height - 1) blockReward \<noteq> None) txs of
                   Some tx \<Rightarrow> check tx (height - 1) blockReward
                 | None \<Rightarrow>
                     if sum_list (map GetLegacySigOpCount txs) > MaxBlockSigOps True
                     then Some (Reject 100 ''bad-blk-sigops'')
                     else None)"

definition CheckBlock ::
    "pow_hashes \<Rightarrow> (bytes \<Rightarrow> uint256) \<Rightarrow> Block_Params \<Rightarrow> bool \<Rightarrow> int \<Rightarrow> bool \<Rightarrow> bool \<Rightarrow> CBlock \<Rightarrow>
     check_error option \<times> CBlock" where
  "CheckBlock H TxHash params ismaxcash height fCheckPOW fCheckMerkleRoot block =
     (if fChecked block then (None, block)
      else case CheckBlockHeader H params (CBlockHeader.truncate block) fCheckPOW of
        Some e \<Rightarrow> (Some e, block)
      | None \<Rightarrow>
          (case (if fCheckMerkleRoot then check_merkle TxHash block else None) of
             Some e \<Rightarrow> (Some e, block)
           | None \<Rightarrow>
               (case check_transactions params ismaxcash height block of
                  Some e \<Rightarrow> (Some e, block)
                | None \<Rightarrow> (None, if fCheckPOW \<and> fCheckMerkleRoot then block\<lparr>fChecked := True\<rparr> else block))))"

subsection \<open>In the context of the previous block\<close>

definition ContextualCheckTransaction :: "Block_Params \<Rightarrow> CTransaction \<Rightarrow> check_error option" where
  "ContextualCheckTransaction params tx =
     (if DIP0003Enabled params \<and> sint (tx_nVersion tx) \<ge> 3 \<and>
         tx_nType tx \<notin>
           {TRANSACTION_NORMAL, TRANSACTION_PROVIDER_REGISTER, TRANSACTION_PROVIDER_UPDATE_SERVICE,
            TRANSACTION_PROVIDER_UPDATE_REGISTRAR, TRANSACTION_PROVIDER_UPDATE_REVOKE, TRANSACTION_COINBASE,
            TRANSACTION_QUORUM_COMMITMENT}
      then Some (Reject 100 ''bad-txns-type'')
      else if DIP0003Enabled params \<and> sint (tx_nVersion tx) \<ge> 3 \<and> IsCoinBase tx \<and> tx_nType tx \<noteq> TRANSACTION_COINBASE
      then Some (Reject 100 ''bad-txns-cb-type'')
      else if DIP0003Enabled params \<and> \<not> sint (tx_nVersion tx) \<ge> 3 \<and> tx_nType tx \<noteq> TRANSACTION_NORMAL
      then Some (Reject 100 ''bad-txns-type'')
      else if DIP0001Enabled params \<and> int (GetTotalSize tx) > MAX_STANDARD_TX_SIZE
      then Some (Reject 100 ''bad-txns-oversize'')
      else None)"

text \<open>
  \<open>checkpoint\<close> is the height of the last checkpoint in the index, if checkpoints are enabled.
\<close>

definition ContextualCheckBlockHeader ::
    "block_store \<Rightarrow> Block_Params \<Rightarrow> CBlockHeader \<Rightarrow> block_id \<Rightarrow> int option \<Rightarrow> int \<Rightarrow> check_error option" where
  "ContextualCheckBlockHeader st params block pindexPrev checkpoint nAdjustedTime =
     (case (deref st pindexPrev, GetNextWorkRequired st (Some pindexPrev) (Params.truncate params) (CBlockHeader_GetAlgo block),
            GetMedianTimePast st pindexPrev) of
        (Some prev, Some (Inr required), Some mtp) \<Rightarrow>
          if hdr_nBits block \<noteq> required then Some (Reject 100 ''bad-diffbits'')
          else if (case checkpoint of None \<Rightarrow> False | Some h \<Rightarrow> nHeight prev + 1 < h)
          then Some (Reject 100 ''bad-fork-prior-to-checkpoint'')
          else if CBlockHeader_GetBlockTime block \<le> mtp then Some (Reject 0 ''time-too-old'')
          else if CBlockHeader_GetBlockTime block > nAdjustedTime + MAX_FUTURE_BLOCK_TIME then Some (Reject 0 ''time-too-new'')
          else None
      | _ \<Rightarrow> Some Check_exception)"

definition ContextualCheckBlock ::
    "block_store \<Rightarrow> Block_Params \<Rightarrow> CBlock \<Rightarrow> block_id option \<Rightarrow> check_error option" where
  "ContextualCheckBlock st params block pindexPrev =
     (case (case pindexPrev of None \<Rightarrow> Some 0 | Some p \<Rightarrow> map_option (\<lambda>b. nHeight b + 1) (deref st p),
            if BIPCSVEnabled params then Option.bind pindexPrev (GetMedianTimePast st)
            else Some (CBlockHeader_GetBlockTime (CBlockHeader.truncate block))) of
        (Some height, Some nLockTimeCutoff) \<Rightarrow>
          let txs = blk_vtx block; nMaxBlockSize = MaxBlockSize (DIP0001Enabled params);
              check = (\<lambda>tx. if \<not> IsFinalTx tx height nLockTimeCutoff then Some (Reject 10 ''bad-txns-nonfinal'')
                            else ContextualCheckTransaction params tx)
          in if txs = [] \<or> int (length txs) > nMaxBlockSize \<or> int (CBlock_size block) > nMaxBlockSize
             then Some (Reject 10 ''bad-blk-length'')
             else case find (\<lambda>tx. check tx \<noteq> None) txs of
               Some tx \<Rightarrow> check tx
             | None \<Rightarrow>
                 if sum_list (map GetLegacySigOpCount txs) > MaxBlockSigOps (DIP0001Enabled params)
                 then Some (Reject 10 ''bad-blk-sigops'')
                 else if BIP34Enabled params \<and> \<not> DIP0003Enabled params \<and>
                   take (length (push_int64 [] height)) (scriptSig (vin (hd txs) ! 0)) \<noteq> push_int64 [] height
                 then Some (Reject 100 ''bad-cb-height'')
                 else if DIP0003Enabled params \<and> tx_nType (hd txs) \<noteq> TRANSACTION_COINBASE
                 then Some (Reject 100 ''bad-cb-type'')
                 else None
      | _ \<Rightarrow> Some Check_exception)"

subsection \<open>What a block that passes is like\<close>

lemma check_outputs_values:
  "check_outputs mc v outs = Inr v' \<Longrightarrow> list_all (\<lambda>txout. 0 \<le> nValue txout) outs"
  by (induction outs arbitrary: v) (auto simp: Let_def split: if_splits)

lemma CheckTransaction_ok:
  assumes "CheckTransaction fp mc tx height reward = None"
  shows "distinct (map prevout (vin tx))" and "list_all (\<lambda>txout. 0 \<le> nValue txout) (vout tx)"
    and "int (GetTotalSize tx) \<le> MAX_LEGACY_BLOCK_SIZE"
  using assms check_outputs_values
  by (auto simp: CheckTransaction_def Let_def split: if_splits sum.splits)

lemma CheckBlock_ok:
  assumes "CheckBlock H TxHash params mc height pow merkle block = (None, block')" and "\<not> fChecked block"
  shows "\<exists>cb txs. blk_vtx block = cb # txs \<and> IsCoinBase cb \<and> list_all (\<lambda>tx. \<not> IsCoinBase tx) txs \<and>
    list_all (\<lambda>tx. CheckTransaction (nFounderPayment params) mc tx (height - 1) (GetBlockSubsidy (height - 1)) = None) (cb # txs)"
    and "blk_vtx block' = blk_vtx block"
proof -
  have t: "check_transactions params mc height block = None" and b: "blk_vtx block' = blk_vtx block"
    using assms by (auto simp: CheckBlock_def split: option.splits if_splits)
  show "blk_vtx block' = blk_vtx block" by (rule b)
  from t obtain cb txs where "blk_vtx block = cb # txs" by (cases "blk_vtx block") (auto simp: check_transactions_def Let_def)
  with t show "\<exists>cb txs. blk_vtx block = cb # txs \<and> IsCoinBase cb \<and> list_all (\<lambda>tx. \<not> IsCoinBase tx) txs \<and>
    list_all (\<lambda>tx. CheckTransaction (nFounderPayment params) mc tx (height - 1) (GetBlockSubsidy (height - 1)) = None) (cb # txs)"
    by (auto simp: check_transactions_def Let_def list_all_iff list_ex_iff find_None_iff find_Some_iff split: if_splits option.splits)
qed

subsection \<open>Values of the main network\<close>

lemma UintToArith256_val: "length h = 32 \<Longrightarrow> digits_val (UintToArith256 h) = digits_val h"
  using ArithToUint256_UintToArith256 [of h] digits_val_concat_bytes [of "UintToArith256 h"] by (simp add: ArithToUint256_def)

lemma mainnet_limit_ge: "65535 * 256 ^ 28 \<le> limit_val mainnet"
  by (simp add: mainnet_limit_val)

lemma mainnet_blocks_params: "Params.truncate (mainnet_blocks founder) = mainnet"
  by (simp add: mainnet_blocks_def Reward_Params.extend_def Params.truncate_def Block_Params.fields_def mainnet_rewards_def
      Params.extend_def Reward_Params.fields_def)

end
