(* ===== verification/Connect_Block.thy ===== *)
theory Connect_Block
  imports Update_Coins Check_Block
begin

text \<open>
  \<open>ConnectBlock\<close> of \<open>validation.cpp\<close>, with \<open>CheckInputs\<close> and the script flags of a block:
  the checks of the block, then for each transaction the checks of inputs, fees, relative locks,
  signature operations and scripts and the update of the coins, then the limit on what the coinbase may
  claim.  Scripts are checked in the calling thread, as with no script-checking threads.  What other
  parts of the node decide (chain locks, InstantSend locks, the database of special
  transactions, the smartnode payee), the cache of script executions and the success of writing to disk are
  arguments; the optional indexes are left out.  The cache of signatures is taken to answer as the
  verification it stores.
\<close>

unbundle bit_operations_syntax

subsection \<open>Script flags\<close>

definition GetBlockScriptFlags :: "CBlockIndex \<Rightarrow> Block_Params \<Rightarrow> u32" where
  "GetBlockScriptFlags pindex params =
     (let flags = (if GetBlockTime pindex \<ge> 1333238400 then SCRIPT_VERIFY_P2SH else SCRIPT_VERIFY_NONE);
          flags = (if BIP66Enabled params then flags OR SCRIPT_VERIFY_DERSIG else flags);
          flags = (if BIP65Enabled params then flags OR SCRIPT_VERIFY_CHECKLOCKTIMEVERIFY else flags);
          flags = (if BIPCSVEnabled params then flags OR SCRIPT_VERIFY_CHECKSEQUENCEVERIFY else flags)
      in if BIP147Enabled params then flags OR SCRIPT_VERIFY_NULLDUMMY else flags)"

definition MANDATORY_SCRIPT_VERIFY_FLAGS :: u32 where
  "MANDATORY_SCRIPT_VERIFY_FLAGS = SCRIPT_VERIFY_P2SH"

definition STANDARD_SCRIPT_VERIFY_FLAGS :: u32 where
  "STANDARD_SCRIPT_VERIFY_FLAGS = MANDATORY_SCRIPT_VERIFY_FLAGS OR SCRIPT_VERIFY_DERSIG OR SCRIPT_VERIFY_STRICTENC OR
     SCRIPT_VERIFY_MINIMALDATA OR SCRIPT_VERIFY_NULLDUMMY OR SCRIPT_VERIFY_DISCOURAGE_UPGRADABLE_NOPS OR
     SCRIPT_VERIFY_CLEANSTACK OR SCRIPT_VERIFY_NULLFAIL OR SCRIPT_VERIFY_CHECKLOCKTIMEVERIFY OR
     SCRIPT_VERIFY_CHECKSEQUENCEVERIFY OR SCRIPT_VERIFY_LOW_S"

definition STANDARD_NOT_MANDATORY_VERIFY_FLAGS :: u32 where
  "STANDARD_NOT_MANDATORY_VERIFY_FLAGS = STANDARD_SCRIPT_VERIFY_FLAGS AND NOT MANDATORY_SCRIPT_VERIFY_FLAGS"

subsection \<open>Scripts of the inputs\<close>

text \<open>
  What connecting a block asks of the rest of the node; \<open>ce_tip\<close> is the height of the tip of the
  active chain.
\<close>

record connect_env =
  ce_hashes :: pow_hashes
  ce_TxHash :: "bytes \<Rightarrow> uint256"
  ce_Verify :: "CPubKey \<Rightarrow> uint256 \<Rightarrow> bytes \<Rightarrow> bool"
  ce_CheckLowS :: "bytes \<Rightarrow> bool"
  ce_cached :: "CTransaction \<Rightarrow> bool"
  ce_store :: block_store
  ce_tip :: "int option"
  ce_fScriptChecks :: bool
  ce_chainlock_ok :: bool
  ce_evodb_ok :: bool
  ce_locks_ok :: bool
  ce_superblocks :: superblock_env
  ce_payee_ok :: "CTransaction \<Rightarrow> int \<Rightarrow> CAmount \<Rightarrow> bool"
  ce_special :: "check_error option"
  ce_written :: bool

definition CScriptCheck :: "connect_env \<Rightarrow> CTransaction \<Rightarrow> nat \<Rightarrow> u32 \<Rightarrow> CScript \<Rightarrow> ScriptError option" where
  "CScriptCheck env tx i flags script =
     VerifyScript (scriptSig (vin tx ! i)) script flags (TransactionSignatureChecker (ce_Verify env) tx i) (ce_CheckLowS env)"

definition script_check :: "connect_env \<Rightarrow> u32 \<Rightarrow> CTransaction \<Rightarrow> nat \<Rightarrow> CScript \<Rightarrow> check_error option" where
  "script_check env flags tx i script =
     (case CScriptCheck env tx i flags script of
        None \<Rightarrow> Some Check_assertion
      | Some err \<Rightarrow>
          if err = SCRIPT_ERR_OK then None
          else if flags AND STANDARD_NOT_MANDATORY_VERIFY_FLAGS \<noteq> 0 then
            (case CScriptCheck env tx i (flags AND NOT STANDARD_NOT_MANDATORY_VERIFY_FLAGS) script of
               None \<Rightarrow> Some Check_assertion
             | Some err2 \<Rightarrow>
                 if err2 = SCRIPT_ERR_OK then Some (Reject 0 ''non-mandatory-script-verify-flag'')
                 else Some (Reject 100 ''mandatory-script-verify-flag-failed''))
          else Some (Reject 100 ''mandatory-script-verify-flag-failed''))"

fun check_scripts ::
    "'b CCoinsView \<Rightarrow> connect_env \<Rightarrow> u32 \<Rightarrow> CTransaction \<Rightarrow> nat \<Rightarrow> CTxIn list \<Rightarrow> 'b CCoinsViewCache \<Rightarrow>
     check_error option \<times> 'b CCoinsViewCache" where
  "check_scripts V env flags tx i [] c = (None, c)"
| "check_scripts V env flags tx i (txin # ins) c =
     (case AccessCoin V (prevout txin) c of
        (coin, c) \<Rightarrow>
          if Coin_IsSpent coin then (Some Check_assertion, c)
          else case script_check env flags tx i (scriptPubKey (coin_out coin)) of
            Some e \<Rightarrow> (Some e, c)
          | None \<Rightarrow> check_scripts V env flags tx (i + 1) ins c)"

definition CheckInputs ::
    "'b CCoinsView \<Rightarrow> connect_env \<Rightarrow> u32 \<Rightarrow> CTransaction \<Rightarrow> 'b CCoinsViewCache \<Rightarrow> check_error option \<times> 'b CCoinsViewCache" where
  "CheckInputs V env flags tx c =
     (if IsCoinBase tx \<or> \<not> ce_fScriptChecks env \<or> ce_cached env tx then (None, c)
      else check_scripts V env flags tx 0 (vin tx) c)"

subsection \<open>The loop over the transactions\<close>

fun prev_heights :: "'b CCoinsView \<Rightarrow> CTxIn list \<Rightarrow> 'b CCoinsViewCache \<Rightarrow> int list \<times> 'b CCoinsViewCache" where
  "prev_heights V [] c = ([], c)"
| "prev_heights V (txin # ins) c =
     (case AccessCoin V (prevout txin) c of
        (coin, c) \<Rightarrow> (case prev_heights V ins c of (hs, c) \<Rightarrow> (uint (coin_nHeight coin) # hs, c)))"

text \<open>What is fixed for the block: its position, height and flags, and which limit of money applies.\<close>

record block_ctx =
  bc_pindex :: block_id
  bc_height :: int
  bc_flags :: u32
  bc_nLockTimeFlags :: u32
  bc_fDIP0001Active :: bool
  bc_ismaxcash :: bool

text \<open>The first block of the body, for all but coinbases: the new sum of fees.\<close>

definition connect_inputs ::
    "'b CCoinsView \<Rightarrow> connect_env \<Rightarrow> block_ctx \<Rightarrow> CTransaction \<Rightarrow> CAmount \<Rightarrow> 'b CCoinsViewCache \<Rightarrow>
     check_error + CAmount \<times> 'b CCoinsViewCache" where
  "connect_inputs V env ctx tx nFees c =
     (case CheckTxInputs V tx (bc_height ctx) (bc_ismaxcash ctx) c of
        (Inl e, c) \<Rightarrow> Inl e
      | (Inr txfee, c) \<Rightarrow>
          let nFees = nFees + txfee
          in if \<not> MoneyRange nFees (bc_ismaxcash ctx) then Inl (Reject 100 ''bad-txns-accumulated-fee-outofrange'')
             else case prev_heights V (vin tx) c of
               (prevheights, c) \<Rightarrow>
                 (case SequenceLocks (ce_store env) tx (bc_nLockTimeFlags ctx) prevheights (bc_pindex ctx) of
                    None \<Rightarrow> Inl Check_assertion
                  | Some locked \<Rightarrow> if \<not> locked then Inl (Reject 100 ''bad-txns-nonfinal'') else Inr (nFees, c)))"

definition coins_check :: "coins_error \<Rightarrow> check_error" where
  "coins_check e = (case e of Assertion_failed \<Rightarrow> Check_assertion | Logic_error \<Rightarrow> Check_exception)"

definition connect_tx ::
    "'b CCoinsView \<Rightarrow> connect_env \<Rightarrow> block_ctx \<Rightarrow> CTransaction \<Rightarrow> CAmount \<Rightarrow> int \<Rightarrow> 'b CCoinsViewCache \<Rightarrow>
     check_error + CAmount \<times> int \<times> CTxUndo \<times> 'b CCoinsViewCache" where
  "connect_tx V env ctx tx nFees nSigOps c =
     (case (if \<not> IsCoinBase tx then connect_inputs V env ctx tx nFees c else Inr (nFees, c)) of
        Inl e \<Rightarrow> Inl e
      | Inr (nFees, c) \<Rightarrow>
          (case GetTransactionSigOpCount V tx (bc_flags ctx) c of
             (None, c) \<Rightarrow> Inl Check_assertion
           | (Some n, c) \<Rightarrow>
               let nSigOps = nSigOps + n
               in if nSigOps > MaxBlockSigOps (bc_fDIP0001Active ctx) then Inl (Reject 100 ''bad-blk-sigops'')
                  else case (if \<not> IsCoinBase tx then CheckInputs V env (bc_flags ctx) tx c else (None, c)) of
                    (Some e, c) \<Rightarrow> Inl e
                  | (None, c) \<Rightarrow>
                      (case UpdateCoins V (ce_TxHash env) tx (bc_height ctx) c of
                         Inl e \<Rightarrow> Inl (coins_check e)
                       | Inr (txundo, c) \<Rightarrow> Inr (nFees, nSigOps, txundo, c))))"

fun connect_txs ::
    "'b CCoinsView \<Rightarrow> connect_env \<Rightarrow> block_ctx \<Rightarrow> CTransaction list \<Rightarrow> CAmount \<Rightarrow> int \<Rightarrow> 'b CCoinsViewCache \<Rightarrow>
     check_error + CAmount \<times> CTxUndo list \<times> 'b CCoinsViewCache" where
  "connect_txs V env ctx [] nFees nSigOps c = Inr (nFees, [], c)"
| "connect_txs V env ctx (tx # vtx) nFees nSigOps c =
     (case connect_tx V env ctx tx nFees nSigOps c of
        Inl e \<Rightarrow> Inl e
      | Inr (nFees, nSigOps, txundo, c) \<Rightarrow>
          (case connect_txs V env ctx vtx nFees nSigOps c of
             Inl e \<Rightarrow> Inl e
           | Inr (nFees, undos, c) \<Rightarrow> Inr (nFees, txundo # undos, c)))"

subsection \<open>Connecting a block\<close>

text \<open>
  After the loop: the locks, the value and the payee of the coinbase, the special transactions and
  the writes.  The undo data has no record for the first transaction.
\<close>

definition connect_rewards ::
    "connect_env \<Rightarrow> Block_Params \<Rightarrow> int \<Rightarrow> int \<Rightarrow> CTransaction list \<Rightarrow> CAmount \<Rightarrow> check_error option" where
  "connect_rewards env params height nPrevHeight vtx nFees =
     (if \<not> ce_locks_ok env then Some (Reject 10 ''conflict-tx-lock'')
      else let blockReward = nFees + GetBlockSubsidy nPrevHeight
           in case IsBlockValueValid (Reward_Params.truncate params) (ce_superblocks env) (vtx ! 0) height blockReward of
                None \<Rightarrow> Some Check_exception
              | Some valid \<Rightarrow>
                  if \<not> valid then Some (Reject 0 ''bad-cb-amount'')
                  else if \<not> ce_payee_ok env (vtx ! 0) height blockReward then Some (Reject 0 ''bad-cb-payee'')
                  else ce_special env)"

definition connect_body ::
    "'b CCoinsView \<Rightarrow> connect_env \<Rightarrow> Block_Params \<Rightarrow> bool \<Rightarrow> block_id \<Rightarrow> CBlockIndex \<Rightarrow> CBlockIndex \<Rightarrow> CTransaction list \<Rightarrow>
     'b CCoinsViewCache \<Rightarrow> check_error + CBlockUndo \<times> 'b CCoinsViewCache" where
  "connect_body V env params fJustCheck p pindex prev vtx c =
     (let ctx = \<lparr>bc_pindex = p, bc_height = nHeight pindex, bc_flags = GetBlockScriptFlags pindex params,
                 bc_nLockTimeFlags = (if BIPCSVEnabled params then LOCKTIME_VERIFY_SEQUENCE else 0),
                 bc_fDIP0001Active = DIP0001Enabled params, bc_ismaxcash = IsMaxCash params (ce_tip env)\<rparr>
      in case connect_txs V env ctx vtx 0 0 c of
           Inl e \<Rightarrow> Inl e
         | Inr (nFees, undos, c) \<Rightarrow>
             (case connect_rewards env params (nHeight pindex) (nHeight prev) vtx nFees of
                Some e \<Rightarrow> Inl e
              | None \<Rightarrow>
                  if fJustCheck then Inr (tl undos, c)
                  else if \<not> ce_written env then Inl Check_exception
                  else Inr (tl undos, SetBestBlock (GetBlockHash pindex) c)))"

text \<open>Without a previous block only the genesis block is connected; the source would follow a null pointer.\<close>

definition ConnectBlock ::
    "'b CCoinsView \<Rightarrow> connect_env \<Rightarrow> Block_Params \<Rightarrow> bool \<Rightarrow> CBlock \<Rightarrow> block_id \<Rightarrow> 'b CCoinsViewCache \<Rightarrow>
     check_error + CBlockUndo \<times> CBlock \<times> 'b CCoinsViewCache" where
  "ConnectBlock V env params fJustCheck block p c =
     (case deref (ce_store env) p of
        None \<Rightarrow> Inl Check_assertion
      | Some pindex \<Rightarrow>
          let hash = CBlockHeader_GetHash (ce_hashes env) (CBlockHeader.truncate block);
              prev = Option.bind (pprev pindex) (deref (ce_store env))
          in if phashBlock pindex \<noteq> None \<and> phashBlock pindex \<noteq> Some hash then Inl Check_assertion
             else case CheckBlock (ce_hashes env) (ce_TxHash env) params (IsMaxCash params (ce_tip env)) (nHeight pindex)
                    (\<not> fJustCheck) (\<not> fJustCheck) block of
               (Some e, _) \<Rightarrow> Inl e
             | (None, block) \<Rightarrow>
                 if prev \<noteq> None \<and> phashBlock pindex \<noteq> None \<and> \<not> ce_chainlock_ok env then Inl (Reject 10 ''bad-chainlock'')
                 else case GetBestBlock V c of
                   (best, c) \<Rightarrow>
                     if (case prev of None \<Rightarrow> blob_null 32 | Some b \<Rightarrow> GetBlockHash b) \<noteq> best then Inl Check_assertion
                     else if prev \<noteq> None \<and> DIP0003Enabled params \<and> \<not> ce_evodb_ok env then Inl Check_exception
                     else if hash = hashGenesisBlock params
                     then Inr ([], block, if fJustCheck then c else SetBestBlock (GetBlockHash pindex) c)
                     else if nHeight pindex = nSuperblockStartBlock params \<and> nSuperblockStartHash params \<noteq> blob_null 32 \<and>
                       hash \<noteq> nSuperblockStartHash params
                     then Inl (Reject 100 ''bad-sb-start'')
                     else case prev of
                       None \<Rightarrow> Inl Check_assertion
                     | Some b \<Rightarrow>
                         (case connect_body V env params fJustCheck p pindex b (blk_vtx block) c of
                            Inl e \<Rightarrow> Inl e
                          | Inr (undo, c) \<Rightarrow> Inr (undo, block, c)))"

end
