(* ===== verification/Connect_Props.thy ===== *)
theory Connect_Props
  imports Connect_Block Tx_DB
begin

text \<open>
  What connecting a block does to the coins: the checks leave them alone, the updates are those of
  \<open>apply_block\<close>, their total value grows by no more than the subsidy, and disconnecting the block
  brings them back.
\<close>

subsection \<open>The value of a set of coins\<close>

definition utxo_value :: "utxo_set \<Rightarrow> CAmount" where
  "utxo_value A = (\<Sum>p\<in>dom A. nValue (coin_out (the (A p))))"

lemma utxo_value_upd:
  assumes "finite (dom A)" and "A p = None"
  shows "utxo_value (A(p \<mapsto> coin)) = utxo_value A + nValue (coin_out coin)"
proof -
  have "p \<notin> dom A" using assms(2) by auto
  moreover from this have "(\<Sum>q\<in>dom A. nValue (coin_out (the ((A(p \<mapsto> coin)) q)))) = utxo_value A"
    unfolding utxo_value_def by (intro sum.cong) auto
  ultimately show ?thesis using assms(1) by (simp add: utxo_value_def)
qed

lemma utxo_value_del:
  assumes "finite (dom A)" and "A p = Some coin"
  shows "utxo_value (A(p := None)) = utxo_value A - nValue (coin_out coin)"
proof -
  have "(A(p := None))(p \<mapsto> coin) = A" using assms(2) by auto
  with utxo_value_upd [of "A(p := None)" p coin] assms(1) show ?thesis by simp
qed

lemma take_out_Cons: "take_out (txin # ins) A = take_out ins (A(prevout txin := None))"
  by (auto simp: take_out_def)

definition input_value :: "CTxIn list \<Rightarrow> utxo_set \<Rightarrow> CAmount" where
  "input_value ins A = sum_list (map (\<lambda>i. nValue (coin_out (the (A (prevout i))))) ins)"

lemma utxo_value_take_out:
  "finite (dom A) \<Longrightarrow> distinct (map prevout ins) \<Longrightarrow> list_all (\<lambda>i. A (prevout i) \<noteq> None) ins \<Longrightarrow>
   utxo_value (take_out ins A) = utxo_value A - input_value ins A"
proof (induction ins arbitrary: A)
  case (Cons txin ins)
  obtain coin where coin: "A (prevout txin) = Some coin" using Cons.prems(3) by auto
  let ?B = "A(prevout txin := None)"
  have same: "?B (prevout i) = A (prevout i)" if "i \<in> set ins" for i using Cons.prems(2) that by (auto simp: image_iff)
  then have "input_value ins ?B = input_value ins A" unfolding input_value_def by (auto cong: map_cong)
  moreover have "utxo_value (take_out ins ?B) = utxo_value ?B - input_value ins ?B"
  proof (rule Cons.IH)
    show "list_all (\<lambda>i. ?B (prevout i) \<noteq> None) ins" using Cons.prems(3) same by (simp add: list_all_iff del: fun_upd_apply)
  qed (use Cons.prems in \<open>simp_all del: fun_upd_apply\<close>)
  ultimately show ?case
    using utxo_value_del [OF Cons.prems(1) coin] coin by (simp add: take_out_Cons input_value_def)
qed (simp add: take_out_def input_value_def)

lemma finite_take_out: "finite (dom A) \<Longrightarrow> finite (dom (take_out ins A))"
  by (rule finite_subset [of _ "dom A"]) (auto simp: take_out_def split: if_splits)

lemma finite_put_in: "finite (dom A) \<Longrightarrow> finite (dom (put_in txid height cb i outs A))"
  by (induction outs arbitrary: i A) simp_all

definition output_value :: "CTxOut list \<Rightarrow> CAmount" where
  "output_value outs = sum_list (map nValue outs)"

lemma utxo_value_put_in:
  "finite (dom A) \<Longrightarrow> list_all (\<lambda>txout. 0 \<le> nValue txout) outs \<Longrightarrow> i + length outs \<le> 2 ^ 32 \<Longrightarrow>
   (\<And>j. i \<le> j \<Longrightarrow> j < i + length outs \<Longrightarrow> A (outpoint_at txid j) = None) \<Longrightarrow>
   utxo_value (put_in txid height cb i outs A) \<le> utxo_value A + output_value outs"
proof (induction outs arbitrary: i A)
  case (Cons txout outs)
  let ?p = "outpoint_at txid i" and ?coin = "Coin_of txout height cb"
  define B where "B = (if IsUnspendable (scriptPubKey txout) then A else A(?p \<mapsto> ?coin))"
  have "utxo_value B \<le> utxo_value A + nValue txout"
    using Cons.prems utxo_value_upd [OF Cons.prems(1), of ?p ?coin] by (simp add: B_def)
  moreover have "utxo_value (put_in txid height cb (Suc i) outs B) \<le> utxo_value B + output_value outs"
  proof (rule Cons.IH)
    show "B (outpoint_at txid j) = None" if "Suc i \<le> j" "j < Suc i + length outs" for j
      using Cons.prems(3) Cons.prems(4) [of j] that outpoint_at_eq [of i j txid] by (simp add: B_def)
  qed (use Cons.prems in \<open>simp_all add: B_def\<close>)
  ultimately show ?case by (simp add: B_def output_value_def del: fun_upd_apply)
qed (simp add: output_value_def)

lemma finite_apply_tx: "finite (dom A) \<Longrightarrow> finite (dom (apply_tx TxHash height tx A))"
  unfolding apply_tx_def by (intro finite_put_in) (simp add: finite_take_out)

lemma apply_tx_value:
  assumes "finite (dom A)" and "tx_fits ok TxHash height tx A" and "list_all (\<lambda>txout. 0 \<le> nValue txout) (vout tx)"
  shows "utxo_value (apply_tx TxHash height tx A) \<le>
    utxo_value A + output_value (vout tx) - (if IsCoinBase tx then 0 else input_value (vin tx) A)"
proof -
  let ?A = "if IsCoinBase tx then A else take_out (vin tx) A"
  have "utxo_value ?A = utxo_value A - (if IsCoinBase tx then 0 else input_value (vin tx) A)"
    using assms(1,2) utxo_value_take_out [of A "vin tx"] by (auto simp: tx_fits_def list_all_iff)
  moreover have "utxo_value (put_in (tx_GetHash TxHash tx) height (IsCoinBase tx) 0 (vout tx) ?A) \<le>
      utxo_value ?A + output_value (vout tx)"
  proof (rule utxo_value_put_in)
    show "?A (outpoint_at (tx_GetHash TxHash tx) j) = None" for j
      using assms(2) by (simp add: tx_fits_def outs_new_def take_out_def op_n_at)
  qed (use assms in \<open>simp_all add: finite_take_out tx_fits_def\<close>)
  ultimately show ?thesis by (simp add: apply_tx_def)
qed

lemma value_out_from_sum: "value_out_from v outs = Some w \<Longrightarrow> w = v + output_value outs"
proof (induction outs arbitrary: v)
  case (Cons txout outs)
  then have "value_out_from (v + nValue txout) outs = Some w" by (simp add: Let_def split: if_splits)
  from Cons.IH [OF this] show ?case by (simp add: output_value_def)
qed (simp add: output_value_def)

lemma GetValueOut_sum: "GetValueOut tx = Some v \<Longrightarrow> v = output_value (vout tx)"
  using value_out_from_sum [of 0 "vout tx" v] by (simp add: GetValueOut_def)

subsection \<open>The checks leave the coins alone\<close>

lemma cache_same_trans:
  "cache_same utxo best valid ok c c1 \<Longrightarrow> cache_same utxo best valid ok c1 c2 \<Longrightarrow> cache_same utxo best valid ok c c2"
  by (simp add: cache_same_def)

lemma cache_same_refl: "cache_inv utxo valid ok c \<Longrightarrow> cache_same utxo best valid ok c c"
  by (simp add: cache_same_def)

lemma cache_same_inv: "cache_same utxo best valid ok c c1 \<Longrightarrow> cache_inv utxo valid ok c1"
  by (simp add: cache_same_def)

abbreviation wf_inputs :: "CTxIn list \<Rightarrow> bool" where
  "wf_inputs ins \<equiv> list_all (\<lambda>i. wf_COutPoint (prevout i)) ins"

context coins_view
begin

lemma access_coin_E:
  assumes "cache_inv utxo valid ok c" and "wf_COutPoint p" and "AccessCoin V p c = (coin, c1)"
  obtains "unspent coin = cache_utxo utxo c p" "cache_same utxo best valid ok c c1" "cache_inv utxo valid ok c1"
    "cache_utxo utxo c1 = cache_utxo utxo c"
  using lookups(3) [OF assms] by (auto simp: cache_same_def)

lemma have_all_spec:
  "cache_inv utxo valid ok c \<Longrightarrow> wf_inputs ins \<Longrightarrow> have_all V ins c = (b, c') \<Longrightarrow>
   cache_same utxo best valid ok c c' \<and> (b \<longleftrightarrow> list_all (\<lambda>i. cache_utxo utxo c (prevout i) \<noteq> None) ins)"
proof (induction ins arbitrary: c)
  case (Cons txin ins)
  obtain h c1 where h: "HaveCoin V (prevout txin) c = (h, c1)" by fastforce
  have wf: "wf_COutPoint (prevout txin)" using Cons.prems(2) by simp
  note c1 = lookups(2) [OF Cons.prems(1) wf h]
  then show ?case
    using Cons.IH [of c1] Cons.prems h by (cases h) (auto simp: cache_same_def)
qed (simp add: cache_same_refl)

lemma inputs_value_spec:
  "cache_inv utxo valid ok c \<Longrightarrow> wf_inputs ins \<Longrightarrow> inputs_value V height mc v ins c = (Inr w, c') \<Longrightarrow>
   cache_same utxo best valid ok c c' \<and> w = v + input_value ins (cache_utxo utxo c)"
proof (induction ins arbitrary: c v)
  case (Cons txin ins)
  obtain coin c1 where a: "AccessCoin V (prevout txin) c = (coin, c1)" by fastforce
  have wf: "wf_COutPoint (prevout txin)" "wf_inputs ins" using Cons.prems(2) by simp_all
  note c1 = lookups(3) [OF Cons.prems(1) wf(1) a]
  from Cons.prems(3) a have next1: "\<not> Coin_IsSpent coin"
    "inputs_value V height mc (v + nValue (coin_out coin)) ins c1 = (Inr w, c')"
    by (auto simp: Let_def split: if_splits)
  from c1 next1(1) have "the (cache_utxo utxo c (prevout txin)) = coin" by (simp add: unspent_def) (metis option.sel)
  with Cons.IH [OF _ wf(2) next1(2)] c1 show ?case by (auto simp: cache_same_def input_value_def)
qed (simp add: cache_same_refl input_value_def)

lemma prev_heights_same:
  "cache_inv utxo valid ok c \<Longrightarrow> wf_inputs ins \<Longrightarrow> prev_heights V ins c = (hs, c') \<Longrightarrow> cache_same utxo best valid ok c c'"
proof (induction ins arbitrary: c hs c')
  case (Cons txin ins)
  obtain coin c1 where a: "AccessCoin V (prevout txin) c = (coin, c1)" by fastforce
  obtain hs' c2 where r: "prev_heights V ins c1 = (hs', c2)" by fastforce
  have wf: "wf_COutPoint (prevout txin)" "wf_inputs ins" using Cons.prems(2) by simp_all
  note c1 = lookups(3) [OF Cons.prems(1) wf(1) a]
  with Cons.IH [OF _ wf(2) r] Cons.prems(3) a r show ?case by (auto simp: cache_same_def)
qed (simp add: cache_same_refl)

lemma p2sh_sigops_same:
  "cache_inv utxo valid ok c \<Longrightarrow> wf_inputs ins \<Longrightarrow> p2sh_sigops V n ins c = (r, c') \<Longrightarrow> cache_same utxo best valid ok c c'"
proof (induction ins arbitrary: c n)
  case (Cons txin ins)
  obtain coin c1 where a: "AccessCoin V (prevout txin) c = (coin, c1)" by fastforce
  have wf: "wf_COutPoint (prevout txin)" "wf_inputs ins" using Cons.prems(2) by simp_all
  note c1 = lookups(3) [OF Cons.prems(1) wf(1) a]
  then have c1': "cache_inv utxo valid ok c1" by (simp add: cache_same_def)
  show ?case
    using c1 Cons.prems(3) a cache_same_trans [OF conjunct2 [OF c1]] Cons.IH [OF c1' wf(2)]
    by (auto simp: Let_def split: if_splits)
qed (simp add: cache_same_refl)

lemma check_scripts_same:
  "cache_inv utxo valid ok c \<Longrightarrow> wf_inputs ins \<Longrightarrow> check_scripts V env flags tx i ins c = (r, c') \<Longrightarrow>
   cache_same utxo best valid ok c c'"
proof (induction ins arbitrary: c i)
  case (Cons txin ins)
  obtain coin c1 where a: "AccessCoin V (prevout txin) c = (coin, c1)" by fastforce
  have wf: "wf_COutPoint (prevout txin)" "wf_inputs ins" using Cons.prems(2) by simp_all
  note c1 = lookups(3) [OF Cons.prems(1) wf(1) a]
  then have c1': "cache_inv utxo valid ok c1" by (simp add: cache_same_def)
  show ?case
    using c1 Cons.prems(3) a cache_same_trans [OF conjunct2 [OF c1]] Cons.IH [OF c1' wf(2)]
    by (auto split: if_splits option.splits)
qed (simp add: cache_same_refl)

lemma sigops_same:
  assumes "cache_inv utxo valid ok c" and "wf_inputs (vin tx)" and "GetTransactionSigOpCount V tx flags c = (n, c')"
  shows "cache_same utxo best valid ok c c'"
  using assms(3) p2sh_sigops_same [OF assms(1,2)] assms(1)
  by (auto simp: GetTransactionSigOpCount_def GetP2SHSigOpCount_def Let_def cache_same_refl split: if_splits prod.splits)

lemma CheckInputs_same:
  assumes "cache_inv utxo valid ok c" and "wf_inputs (vin tx)" and "CheckInputs V env flags tx c = (e, c')"
  shows "cache_same utxo best valid ok c c'"
  using assms(3) check_scripts_same [OF assms(1,2)] assms(1) by (auto simp: CheckInputs_def cache_same_refl split: if_splits)

lemma connect_inputs_spec:
  assumes c: "cache_inv utxo valid ok c" and wf: "wf_inputs (vin tx)" and cb: "\<not> IsCoinBase tx"
    and r: "connect_inputs V env ctx tx nFees c = Inr (nFees', c')"
  shows "cache_same utxo best valid ok c c'" and "list_all (\<lambda>i. cache_utxo utxo c (prevout i) \<noteq> None) (vin tx)"
    and "nFees' = nFees + (input_value (vin tx) (cache_utxo utxo c) - output_value (vout tx))"
proof -
  obtain b c1 where h: "have_all V (vin tx) c = (b, c1)" by fastforce
  obtain v c2 where i: "inputs_value V (bc_height ctx) (bc_ismaxcash ctx) 0 (vin tx) c1 = (v, c2)" by fastforce
  obtain hs c3 where p: "prev_heights V (vin tx) c2 = (hs, c3)" by fastforce
  from r h i p cb obtain w fee where ok1: b "v = Inr w" "fee_of (bc_ismaxcash ctx) tx w = Inr fee" "nFees' = nFees + fee" "c' = c3"
    by (auto simp: connect_inputs_def CheckTxInputs_def HaveInputs_def Let_def split: bool.splits sum.splits if_splits option.splits)
  note c1 = have_all_spec [OF c wf h]
  have "cache_inv utxo valid ok c1" using c1 by (simp add: cache_same_def)
  from inputs_value_spec [OF this wf i [unfolded ok1(2)]] have c2: "cache_same utxo best valid ok c1 c2"
    "w = input_value (vin tx) (cache_utxo utxo c)" using c1 by (auto simp: cache_same_def)
  have "cache_inv utxo valid ok c2" using c2(1) by (simp add: cache_same_def)
  from prev_heights_same [OF this wf p] c1 c2(1) ok1(5) show "cache_same utxo best valid ok c c'" by (simp add: cache_same_def)
  show "list_all (\<lambda>i. cache_utxo utxo c (prevout i) \<noteq> None) (vin tx)" using c1 ok1(1) by simp
  from ok1(3) have "fee = w - output_value (vout tx)"
    by (auto simp: fee_of_def Let_def dest: GetValueOut_sum split: option.splits if_splits)
  with ok1(4) c2(2) show "nFees' = nFees + (input_value (vin tx) (cache_utxo utxo c) - output_value (vout tx))" by simp
qed

end

subsection \<open>The loop\<close>

text \<open>
  What connecting relies on besides its own checks: hashes of 32 bytes, outputs that the coin
  database can hold, and identifiers that no unspent coin has yet.
\<close>

definition tx_storable :: "(Coin \<Rightarrow> bool) \<Rightarrow> (bytes \<Rightarrow> uint256) \<Rightarrow> int \<Rightarrow> CTransaction \<Rightarrow> bool" where
  "tx_storable ok TxHash height tx \<longleftrightarrow>
     length (tx_GetHash TxHash tx) = 32 \<and> length (vout tx) \<le> 2 ^ 32 \<and> wf_inputs (vin tx) \<and>
     list_all (\<lambda>txout. IsUnspendable (scriptPubKey txout) \<or> ok (Coin_of txout height (IsCoinBase tx))) (vout tx)"

definition ids_new :: "(bytes \<Rightarrow> uint256) \<Rightarrow> CTransaction list \<Rightarrow> utxo_set \<Rightarrow> bool" where
  "ids_new TxHash vtx A \<longleftrightarrow>
     distinct (map (tx_GetHash TxHash) vtx) \<and> list_all (\<lambda>tx. outs_new (tx_GetHash TxHash tx) A) vtx"

definition tx_sound :: "CTransaction \<Rightarrow> bool" where
  "tx_sound tx \<longleftrightarrow> distinct (map prevout (vin tx)) \<and> list_all (\<lambda>txout. 0 \<le> nValue txout) (vout tx)"

definition tx_fee :: "CTransaction \<Rightarrow> utxo_set \<Rightarrow> CAmount" where
  "tx_fee tx A = (if IsCoinBase tx then 0 else input_value (vin tx) A - output_value (vout tx))"

lemma outs_new_apply_tx:
  "txid \<noteq> tx_GetHash TxHash tx \<Longrightarrow> outs_new txid A \<Longrightarrow> outs_new txid (apply_tx TxHash height tx A)"
  by (auto simp: outs_new_def apply_tx_def put_in_other take_out_def)

lemma ids_new_Cons:
  "ids_new TxHash (tx # vtx) A \<Longrightarrow> outs_new (tx_GetHash TxHash tx) A \<and> ids_new TxHash vtx (apply_tx TxHash height tx A)"
  by (auto simp: ids_new_def list_all_iff image_iff intro!: outs_new_apply_tx)

context coins_view
begin

lemma connect_tx_spec:
  assumes c: "cache_inv utxo valid ok c" and st: "tx_storable ok (ce_TxHash env) (bc_height ctx) tx"
    and new: "outs_new (tx_GetHash (ce_TxHash env) tx) (cache_utxo utxo c)" and s: "tx_sound tx"
    and r: "connect_tx V env ctx tx nFees n c = Inr (nFees', n', undo, c')"
  shows "tx_fits ok (ce_TxHash env) (bc_height ctx) tx (cache_utxo utxo c)" and "undo = spent_coins tx (cache_utxo utxo c)"
    and "cache_inv utxo valid ok c'" and "cache_utxo utxo c' = apply_tx (ce_TxHash env) (bc_height ctx) tx (cache_utxo utxo c)"
    and "cache_best best c' = cache_best best c" and "nFees' = nFees + tx_fee tx (cache_utxo utxo c)"
proof -
  have wf: "wf_inputs (vin tx)" using st by (simp add: tx_storable_def)
  let ?first = "if \<not> IsCoinBase tx then connect_inputs V env ctx tx nFees c else Inr (nFees, c)"
  from r obtain fees c1 where 1: "?first = Inr (fees, c1)" by (auto simp: connect_tx_def split: sum.splits if_splits)
  have c1: "cache_same utxo best valid ok c c1" "fees = nFees + tx_fee tx (cache_utxo utxo c)"
    "IsCoinBase tx \<or> list_all (\<lambda>i. cache_utxo utxo c (prevout i) \<noteq> None) (vin tx)"
    using 1 connect_inputs_spec [OF c wf, of env ctx nFees fees c1] cache_same_refl [OF c]
    by (auto simp: tx_fee_def split: if_splits)
  obtain k c2 where 2: "GetTransactionSigOpCount V tx (bc_flags ctx) c1 = (k, c2)" by fastforce
  let ?scripts = "if \<not> IsCoinBase tx then CheckInputs V env (bc_flags ctx) tx c2 else (None, c2)"
  obtain e c3 where 3: "?scripts = (e, c3)" by fastforce
  from sigops_same [OF cache_same_inv [OF c1(1)] wf 2] have c2: "cache_same utxo best valid ok c c2"
    using cache_same_trans [OF c1(1)] by simp
  then have c3: "cache_same utxo best valid ok c c3"
    using 3 CheckInputs_same [OF cache_same_inv [OF c2] wf] cache_same_trans [OF c2] by (auto split: if_splits)
  from r have u: "UpdateCoins V (ce_TxHash env) tx (bc_height ctx) c3 = Inr (undo, c')" "nFees' = fees"
    unfolding connect_tx_def 1 by (auto simp: 2 3 Let_def split: option.splits if_splits sum.splits prod.splits)
  have c3': "cache_inv utxo valid ok c3" "cache_utxo utxo c3 = cache_utxo utxo c" "cache_best best c3 = cache_best best c"
    using c3 by (simp_all add: cache_same_def)
  show fits: "tx_fits ok (ce_TxHash env) (bc_height ctx) tx (cache_utxo utxo c)"
    using st new s c1(3) by (auto simp: tx_fits_def tx_storable_def tx_sound_def outs_ok_def list_all_iff)
  from update_coins [OF c3'(1), of "ce_TxHash env" "bc_height ctx" tx] fits u(1) c3'
  show "undo = spent_coins tx (cache_utxo utxo c)" "cache_inv utxo valid ok c'"
    "cache_utxo utxo c' = apply_tx (ce_TxHash env) (bc_height ctx) tx (cache_utxo utxo c)"
    "cache_best best c' = cache_best best c" by auto
  show "nFees' = nFees + tx_fee tx (cache_utxo utxo c)" using u(2) c1(2) by simp
qed

end

fun block_fees :: "(bytes \<Rightarrow> uint256) \<Rightarrow> int \<Rightarrow> CTransaction list \<Rightarrow> utxo_set \<Rightarrow> CAmount" where
  "block_fees TxHash height [] A = 0"
| "block_fees TxHash height (tx # vtx) A = tx_fee tx A + block_fees TxHash height vtx (apply_tx TxHash height tx A)"

context coins_view
begin

lemma connect_txs_spec:
  "cache_inv utxo valid ok c \<Longrightarrow> list_all (tx_storable ok (ce_TxHash env) (bc_height ctx)) vtx \<Longrightarrow>
   ids_new (ce_TxHash env) vtx (cache_utxo utxo c) \<Longrightarrow> list_all tx_sound vtx \<Longrightarrow>
   connect_txs V env ctx vtx nFees n c = Inr (nFees', undos, c') \<Longrightarrow>
   block_fits ok (ce_TxHash env) (bc_height ctx) vtx (cache_utxo utxo c) \<and>
   undos = block_undos (ce_TxHash env) (bc_height ctx) vtx (cache_utxo utxo c) \<and> cache_inv utxo valid ok c' \<and>
   cache_utxo utxo c' = apply_block (ce_TxHash env) (bc_height ctx) vtx (cache_utxo utxo c) \<and>
   cache_best best c' = cache_best best c \<and>
   nFees' = nFees + block_fees (ce_TxHash env) (bc_height ctx) vtx (cache_utxo utxo c)"
proof (induction vtx arbitrary: nFees n c undos)
  case (Cons tx vtx)
  from Cons.prems(5) obtain f1 n1 u1 c1 us where r: "connect_tx V env ctx tx nFees n c = Inr (f1, n1, u1, c1)"
    "connect_txs V env ctx vtx f1 n1 c1 = Inr (nFees', us, c')" "undos = u1 # us"
    by (auto split: sum.splits)
  have st: "tx_storable ok (ce_TxHash env) (bc_height ctx) tx" "tx_sound tx" using Cons.prems(2,4) by simp_all
  note new = ids_new_Cons [OF Cons.prems(3), of "bc_height ctx"]
  note 1 = connect_tx_spec [OF Cons.prems(1) st(1) conjunct1 [OF new] st(2) r(1)]
  from Cons.IH [OF 1(3) _ _ _ r(2)] Cons.prems(2,4) new 1 r(3) show ?case by auto
qed auto

end

lemma apply_block_value:
  "finite (dom A) \<Longrightarrow> block_fits ok TxHash height vtx A \<Longrightarrow> list_all tx_sound vtx \<Longrightarrow>
   utxo_value (apply_block TxHash height vtx A) \<le>
     utxo_value A + sum_list (map (\<lambda>tx. output_value (vout tx)) (filter IsCoinBase vtx)) - block_fees TxHash height vtx A"
proof (induction vtx arbitrary: A)
  case (Cons tx vtx)
  have "utxo_value (apply_tx TxHash height tx A) \<le>
      utxo_value A + output_value (vout tx) - (if IsCoinBase tx then 0 else input_value (vin tx) A)"
    using Cons.prems by (intro apply_tx_value) (auto simp: tx_sound_def)
  with Cons.IH [OF finite_apply_tx [OF Cons.prems(1)]] Cons.prems show ?case by (fastforce simp: tx_fee_def)
qed simp

subsection \<open>Blocks\<close>

lemma connect_rewards_mainnet:
  assumes "connect_rewards env params height prev_height vtx nFees = None"
    and "Reward_Params.truncate params = mainnet_rewards founder" and "height < INT_MAX"
  shows "output_value (vout (vtx ! 0)) \<le> nFees + GetBlockSubsidy prev_height"
proof (cases "GetValueOut (vtx ! 0)")
  case None
  with assms show ?thesis by (simp add: connect_rewards_def Let_def IsBlockValueValid_def split: if_splits)
next
  case (Some v)
  with IsBlockValueValid_mainnet [OF assms(3) Some] assms(1,2) GetValueOut_sum [OF Some] show ?thesis
    by (simp add: connect_rewards_def Let_def split: if_splits)
qed

lemma ConnectBlock_E:
  assumes "ConnectBlock V env params fJustCheck block p c = Inr (undo, block', c')"
    and "deref (ce_store env) p = Some pindex" "pprev pindex = Some q" "deref (ce_store env) q = Some prev"
    and "CBlockHeader_GetHash (ce_hashes env) (CBlockHeader.truncate block) \<noteq> hashGenesisBlock params"
  obtains c1 where "CheckBlock (ce_hashes env) (ce_TxHash env) params (IsMaxCash params (ce_tip env)) (nHeight pindex)
      (\<not> fJustCheck) (\<not> fJustCheck) block = (None, block')"
    and "GetBestBlock V c = (GetBlockHash prev, c1)"
    and "connect_body V env params fJustCheck p pindex prev (blk_vtx block') c1 = Inr (undo, c')"
proof -
  obtain e b where k: "CheckBlock (ce_hashes env) (ce_TxHash env) params (IsMaxCash params (ce_tip env)) (nHeight pindex)
      (\<not> fJustCheck) (\<not> fJustCheck) block = (e, b)" by fastforce
  obtain best c1 where g: "GetBestBlock V c = (best, c1)" by fastforce
  from assms k g have "e = None" "b = block'" "best = GetBlockHash prev"
    "connect_body V env params fJustCheck p pindex prev (blk_vtx block') c1 = Inr (undo, c')"
    by (auto simp: ConnectBlock_def Let_def split: if_splits option.splits sum.splits)
  with k g show ?thesis by (intro that) simp_all
qed

lemma tx_sound_checked:
  "list_all (\<lambda>tx. CheckTransaction fp mc tx height reward = None) vtx \<Longrightarrow> list_all tx_sound vtx"
  using CheckTransaction_ok(1,2) by (fastforce simp: tx_sound_def list_all_iff)

definition body_ctx :: "connect_env \<Rightarrow> Block_Params \<Rightarrow> block_id \<Rightarrow> CBlockIndex \<Rightarrow> block_ctx" where
  "body_ctx env params p pindex =
     \<lparr>bc_pindex = p, bc_height = nHeight pindex, bc_flags = GetBlockScriptFlags pindex params,
      bc_nLockTimeFlags = (if BIPCSVEnabled params then LOCKTIME_VERIFY_SEQUENCE else 0),
      bc_fDIP0001Active = DIP0001Enabled params, bc_ismaxcash = IsMaxCash params (ce_tip env)\<rparr>"

lemma connect_body_E:
  assumes "connect_body V env params fJustCheck p pindex prev vtx c = Inr (undo, c')"
  obtains nFees undos c2 where "connect_txs V env (body_ctx env params p pindex) vtx 0 0 c = Inr (nFees, undos, c2)"
    and "connect_rewards env params (nHeight pindex) (nHeight prev) vtx nFees = None" and "undo = tl undos"
    and "c' = (if fJustCheck then c2 else SetBestBlock (GetBlockHash pindex) c2)"
  using assms that by (auto simp: connect_body_def Let_def body_ctx_def split: sum.splits option.splits if_splits)

lemma SetBestBlock_same:
  "cache_inv utxo valid ok (SetBestBlock h c) \<longleftrightarrow> cache_inv utxo valid ok c" "cache_utxo utxo (SetBestBlock h c) = cache_utxo utxo c"
  by (simp_all add: SetBestBlock_def cache_inv_def cache_utxo_def)

text \<open>Everything that connecting a block past the genesis block does to the coins.\<close>

context coins_view
begin

lemma connect_block:
  assumes c: "cache_inv utxo valid ok c"
    and b: "ConnectBlock V env params fJustCheck block p c = Inr (undo, block', c')" "\<not> fChecked block"
    and idx: "deref (ce_store env) p = Some pindex" "pprev pindex = Some q" "deref (ce_store env) q = Some prev"
    and gen: "CBlockHeader_GetHash (ce_hashes env) (CBlockHeader.truncate block) \<noteq> hashGenesisBlock params"
    and st: "list_all (tx_storable ok (ce_TxHash env) (nHeight pindex)) (blk_vtx block)"
    and new: "ids_new (ce_TxHash env) (blk_vtx block) (cache_utxo utxo c)"
  shows "cache_inv utxo valid ok c'"
    and "cache_utxo utxo c' = apply_block (ce_TxHash env) (nHeight pindex) (blk_vtx block) (cache_utxo utxo c)"
    and "block_fits ok (ce_TxHash env) (nHeight pindex) (blk_vtx block) (cache_utxo utxo c)"
    and "undo = tl (block_undos (ce_TxHash env) (nHeight pindex) (blk_vtx block) (cache_utxo utxo c))"
    and "cache_best best c = GetBlockHash prev"
    and "\<exists>cb txs. blk_vtx block = cb # txs \<and> IsCoinBase cb \<and> list_all (\<lambda>tx. \<not> IsCoinBase tx) txs \<and> list_all tx_sound (cb # txs)"
    and "connect_rewards env params (nHeight pindex) (nHeight prev) (blk_vtx block)
      (block_fees (ce_TxHash env) (nHeight pindex) (blk_vtx block) (cache_utxo utxo c)) = None"
proof -
  obtain c1 where k: "CheckBlock (ce_hashes env) (ce_TxHash env) params (IsMaxCash params (ce_tip env)) (nHeight pindex)
      (\<not> fJustCheck) (\<not> fJustCheck) block = (None, block')" and g: "GetBestBlock V c = (GetBlockHash prev, c1)"
    and body: "connect_body V env params fJustCheck p pindex prev (blk_vtx block') c1 = Inr (undo, c')"
    using ConnectBlock_E [OF b(1) idx gen] by blast
  note checked = CheckBlock_ok [OF k b(2)]
  show shape: "\<exists>cb txs. blk_vtx block = cb # txs \<and> IsCoinBase cb \<and> list_all (\<lambda>tx. \<not> IsCoinBase tx) txs \<and> list_all tx_sound (cb # txs)"
    using checked(1) tx_sound_checked by blast
  have g1: "GetBlockHash prev = cache_best best c" "cache_inv utxo valid ok c1" "cache_utxo utxo c1 = cache_utxo utxo c"
    using get_best [OF c g] by (simp_all add: cache_same_def)
  then show "cache_best best c = GetBlockHash prev" by simp
  obtain nFees undos c2 where t: "connect_txs V env (body_ctx env params p pindex) (blk_vtx block) 0 0 c1 = Inr (nFees, undos, c2)"
    and rw: "connect_rewards env params (nHeight pindex) (nHeight prev) (blk_vtx block) nFees = None" and u: "undo = tl undos"
    and c': "c' = (if fJustCheck then c2 else SetBestBlock (GetBlockHash pindex) c2)"
    using connect_body_E [OF body] checked(2) by auto
  have "bc_height (body_ctx env params p pindex) = nHeight pindex" by (simp add: body_ctx_def)
  with connect_txs_spec [OF g1(2), of env "body_ctx env params p pindex" "blk_vtx block" 0 0 nFees undos c2] t st new shape g1(3)
  have r: "block_fits ok (ce_TxHash env) (nHeight pindex) (blk_vtx block) (cache_utxo utxo c)"
    "undos = block_undos (ce_TxHash env) (nHeight pindex) (blk_vtx block) (cache_utxo utxo c)" "cache_inv utxo valid ok c2"
    "cache_utxo utxo c2 = apply_block (ce_TxHash env) (nHeight pindex) (blk_vtx block) (cache_utxo utxo c)"
    "nFees = block_fees (ce_TxHash env) (nHeight pindex) (blk_vtx block) (cache_utxo utxo c)"
    by auto
  from r c' show "cache_inv utxo valid ok c'"
    "cache_utxo utxo c' = apply_block (ce_TxHash env) (nHeight pindex) (blk_vtx block) (cache_utxo utxo c)"
    by (simp_all add: SetBestBlock_same)
  from r(1) show "block_fits ok (ce_TxHash env) (nHeight pindex) (blk_vtx block) (cache_utxo utxo c)" .
  from u r(2) show "undo = tl (block_undos (ce_TxHash env) (nHeight pindex) (blk_vtx block) (cache_utxo utxo c))" by simp
  from rw r(5) show "connect_rewards env params (nHeight pindex) (nHeight prev) (blk_vtx block)
      (block_fees (ce_TxHash env) (nHeight pindex) (blk_vtx block) (cache_utxo utxo c)) = None" by simp
qed

end

lemma undo_pairs:
  "length us = length txs \<Longrightarrow> list_all (\<lambda>tx. \<not> IsCoinBase tx) txs \<Longrightarrow> map2 undo_of txs us = zip txs (map Some us)"
proof (induction txs arbitrary: us)
  case (Cons tx txs)
  then show ?case by (cases us) (auto simp: undo_of_def)
qed simp

context coins_view
begin

lemma disconnect_connected:
  assumes c': "cache_inv utxo valid ok c'" "cache_utxo utxo c' = apply_block TxHash height vtx A"
    and A: "block_fits ok TxHash height vtx A" "restorable A" "coins_ok ok A" and h: "0 < height" "height < 2 ^ 31"
    and vtx: "vtx = cb # txs" "IsCoinBase cb" "list_all (\<lambda>tx. \<not> IsCoinBase tx) txs"
  shows "\<exists>d. DisconnectBlock V TxHash vtx height hashPrev True (Some (tl (block_undos TxHash height vtx A))) True c' =
      Inr (DISCONNECT_OK, d) \<and> cache_inv utxo valid ok d \<and> cache_utxo utxo d = A \<and> hashBlock d = hashPrev"
proof -
  let ?us = "block_undos TxHash height txs (apply_tx TxHash height cb A)"
  have "map2 undo_of vtx (block_undos TxHash height vtx A) = zip vtx (None # map Some ?us)"
    using vtx undo_pairs [of ?us txs] by (simp add: undo_of_def)
  moreover obtain d where "disconnect_txs V TxHash height (rev (map2 undo_of vtx (block_undos TxHash height vtx A))) True c' =
      Inr (Some True, d)" "cache_inv utxo valid ok d" "cache_utxo utxo d = A"
    using disconnect_block [OF h c' A] by blast
  ultimately show ?thesis
    using vtx(1) by (auto simp: DisconnectBlock_def SetBestBlock_same) (simp add: SetBestBlock_def)
qed

end

subsection \<open>On the stack of caches over the database\<close>

text \<open>
  (C1) No inflation.  On the main network, connecting a block to the coin cache over the
  database changes the coins as the transactions of the block say, one after the other, and
  raises the total value of the unspent coins by no more than the subsidy of the block: fees
  are moved, not made.  The hypotheses are that the caches are coherent and hold finitely many coins,
  that the block is not the genesis block and is not yet marked as checked, so that \<open>CheckBlock\<close> runs on
  it, that identifiers of transactions are new and that outputs can be stored.
\<close>

theorem ConnectBlock_no_inflation:
  assumes "stack_inv IsFullyValid DecompressKey c" and "finite (dom (stack_utxo DecompressKey c))"
    and "Reward_Params.truncate params = mainnet_rewards founder" and "nHeight pindex < INT_MAX"
    and "deref (ce_store env) p = Some pindex" "pprev pindex = Some q" "deref (ce_store env) q = Some prev"
    and "CBlockHeader_GetHash (ce_hashes env) (CBlockHeader.truncate block) \<noteq> hashGenesisBlock params" and "\<not> fChecked block"
    and "list_all (tx_storable (storable IsFullyValid DecompressKey) (ce_TxHash env) (nHeight pindex)) (blk_vtx block)"
    and "ids_new (ce_TxHash env) (blk_vtx block) (stack_utxo DecompressKey c)"
    and "ConnectBlock (CCoinsViewCache_view (CCoinsViewDB IsFullyValid DecompressKey batch_size)) env params fJustCheck block p c =
      Inr (undo, block', c')"
  shows "stack_inv IsFullyValid DecompressKey c' \<and>
    stack_utxo DecompressKey c' = apply_block (ce_TxHash env) (nHeight pindex) (blk_vtx block) (stack_utxo DecompressKey c) \<and>
    utxo_value (stack_utxo DecompressKey c') \<le> utxo_value (stack_utxo DecompressKey c) + GetBlockSubsidy (nHeight prev)"
proof -
  let ?A = "stack_utxo DecompressKey c"
  note r = tip.connect_block [OF assms(1,12,9,5-8,10,11)]
  obtain cb txs where vtx: "blk_vtx block = cb # txs" "IsCoinBase cb" "list_all (\<lambda>tx. \<not> IsCoinBase tx) txs" "list_all tx_sound (cb # txs)"
    using r(6) by blast
  have "filter IsCoinBase (blk_vtx block) = [cb]" using vtx by (auto simp: list_all_iff filter_empty_conv)
  moreover have "list_all tx_sound (blk_vtx block)" using vtx(1,4) by simp
  moreover have "output_value (vout (blk_vtx block ! 0)) \<le>
      block_fees (ce_TxHash env) (nHeight pindex) (blk_vtx block) ?A + GetBlockSubsidy (nHeight prev)"
    by (rule connect_rewards_mainnet [OF r(7) assms(3,4)])
  ultimately have "utxo_value (stack_utxo DecompressKey c') \<le> utxo_value ?A + GetBlockSubsidy (nHeight prev)"
    using apply_block_value [OF assms(2) r(3)] r(2) vtx(1) by simp
  with r(1,2) show ?thesis by blast
qed

text \<open>
  (C2) Disconnecting what was connected.  After \<open>ConnectBlock\<close> has accepted a block,
  \<open>DisconnectBlock\<close> with the undo data it produced reports a clean result and leaves exactly the coins
  there were before, with the previous block as the best one.  The coins there were can be
  restored, that is, their undo records keep them; the block is not the genesis block and not yet marked as
  checked, its identifiers are new and its outputs can be stored.
\<close>

theorem ConnectBlock_DisconnectBlock:
  assumes "stack_inv IsFullyValid DecompressKey c" and "restorable (stack_utxo DecompressKey c)"
    and "0 < nHeight pindex" "nHeight pindex < 2 ^ 31"
    and "deref (ce_store env) p = Some pindex" "pprev pindex = Some q" "deref (ce_store env) q = Some prev"
    and "CBlockHeader_GetHash (ce_hashes env) (CBlockHeader.truncate block) \<noteq> hashGenesisBlock params" and "\<not> fChecked block"
    and "list_all (tx_storable (storable IsFullyValid DecompressKey) (ce_TxHash env) (nHeight pindex)) (blk_vtx block)"
    and "ids_new (ce_TxHash env) (blk_vtx block) (stack_utxo DecompressKey c)"
    and "ConnectBlock (CCoinsViewCache_view (CCoinsViewDB IsFullyValid DecompressKey batch_size)) env params fJustCheck block p c =
      Inr (undo, block', c')"
  shows "\<exists>d. DisconnectBlock (CCoinsViewCache_view (CCoinsViewDB IsFullyValid DecompressKey batch_size)) (ce_TxHash env)
        (blk_vtx block) (nHeight pindex) (GetBlockHash prev) True (Some undo) True c' = Inr (DISCONNECT_OK, d) \<and>
      stack_inv IsFullyValid DecompressKey d \<and> stack_utxo DecompressKey d = stack_utxo DecompressKey c \<and>
      hashBlock d = GetBlockHash prev"
proof -
  note r = tip.connect_block [OF assms(1,12,9,5-8,10,11)]
  obtain cb txs where vtx: "blk_vtx block = cb # txs" "IsCoinBase cb" "list_all (\<lambda>tx. \<not> IsCoinBase tx) txs"
    using r(6) by blast
  show ?thesis
    unfolding r(4) by (rule tip.disconnect_connected [OF r(1-3) assms(2) tip.cache_coins_ok [OF assms(1)] assms(3,4) vtx])
qed

end
