(* ===== verification/Connect_Demo.thy ===== *)
theory Connect_Demo
  imports Connect_Props
begin

text \<open>
  A block connected to a small stack of caches: instances of the theorems on \<open>ConnectBlock\<close>.
\<close>

declare ancestor_walk.simps [code]

subsection \<open>A cache with one coin, and two transactions\<close>

definition spent_coin :: Coin where
  "spent_coin = Coin_of \<lparr>nValue = 1000, scriptPubKey = [OP_1], nRounds = - 10\<rparr> 50 False"

definition demo_cache :: "CDBWrapper CCoinsViewCache CCoinsViewCache" where
  "demo_cache = \<lparr>base = CCoinsViewCache_on demo_db, hashBlock = demo_hash,
     cacheCoins = [(demo_outpoint, \<lparr>ce_coin = spent_coin, DIRTY = True, FRESH = True\<rparr>)]\<rparr>"

definition demo_coinbase :: "u32 \<Rightarrow> u32 \<Rightarrow> CTransaction" where
  "demo_coinbase locktime sequence =
     \<lparr>tx_nVersion = 3, tx_nType = TRANSACTION_COINBASE,
      vin = [\<lparr>prevout = COutPoint_null, scriptSig = [1, 1], nSequence = sequence\<rparr>],
      vout = [\<lparr>nValue = 4 * COIN, scriptPubKey = [OP_1], nRounds = - 10\<rparr>], nLockTime = locktime, vExtraPayload = []\<rparr>"

definition demo_spend :: CTransaction where
  "demo_spend =
     \<lparr>tx_nVersion = 1, tx_nType = TRANSACTION_NORMAL, vin = [\<lparr>prevout = demo_outpoint, scriptSig = [], nSequence = SEQUENCE_FINAL\<rparr>],
      vout = [\<lparr>nValue = 900, scriptPubKey = [OP_1], nRounds = - 10\<rparr>], nLockTime = 0, vExtraPayload = []\<rparr>"

definition demo_prev :: CBlockIndex where
  "demo_prev = CBlockIndex_SetNull\<lparr>phashBlock := Some demo_hash, nHeight := 200\<rparr>"

definition demo_pindex :: CBlockIndex where
  "demo_pindex = CBlockIndex_SetNull\<lparr>pprev := Some 0, nHeight := 201\<rparr>"

definition demo_indexes :: block_store where
  "demo_indexes = [demo_prev, demo_pindex]"

definition demo_hashes :: pow_hashes where
  "demo_hashes = \<lparr>SerializeHash = (\<lambda>_. 1 # replicate 31 0), HashGR = (\<lambda>_ _. []), yespower_hash = (\<lambda>_. []), LYRA2 = (\<lambda>_ _ _ _ _. []), scrypt_1024_1_1_256 = (\<lambda>_. [])\<rparr>"

definition demo_env :: connect_env where
  "demo_env = \<lparr>ce_hashes = demo_hashes, ce_TxHash = (\<lambda>b. take 32 b), ce_Verify = (\<lambda>_ _ _. False), ce_CheckLowS = (\<lambda>_. False),
     ce_cached = (\<lambda>_. False), ce_store = demo_indexes, ce_tip = Some 200, ce_fScriptChecks = True, ce_chainlock_ok = True,
     ce_evodb_ok = True, ce_locks_ok = True,
     ce_superblocks = \<lparr>IsSynced = True, fLiteMode = False, superblocks_enabled = False, IsSuperblockTriggered = (\<lambda>_. False),
       superblock_IsValid = (\<lambda>_ _ _. False)\<rparr>,
     ce_payee_ok = (\<lambda>_ _ _. True), ce_special = None, ce_written = True\<rparr>"

definition demo_block :: "CTransaction list \<Rightarrow> CBlock" where
  "demo_block txs = \<lparr>hdr_nVersion = 4, hdr_hashPrevBlock = demo_hash, hdr_hashMerkleRoot = tx_GetHash (take 32) (txs ! 0), hdr_nTime = 1700000000, hdr_nBits = 0x1f00ffff,
     hdr_nNonce = 0, hdr_hash = blob_null 32, blk_vtx = txs, fChecked = False\<rparr>"

definition demo_view :: "CDBWrapper CCoinsViewCache CCoinsView" where
  "demo_view = CCoinsViewCache_view (CCoinsViewDB (\<lambda>_. False) (\<lambda>_. None) 1000)"

lemmas demo_tx_defs = demo_coinbase_def demo_spend_def spent_coin_def demo_outpoint_def demo_hash_def COutPoint_null_def

lemma demo_cache_facts:
  "stack_utxo (\<lambda>_. None) demo_cache = [demo_outpoint \<mapsto> spent_coin]" "stack_inv (\<lambda>_. False) (\<lambda>_. None) demo_cache"
proof -
  have empty: "cache_utxo (db_utxo (\<lambda>_. None)) (CCoinsViewCache_on demo_db) = (\<lambda>_. None)"
    by (simp add: cache_utxo_def CCoinsViewCache_on_def map_utxo_def demo_facts)
  have unsp: "unspent spent_coin = Some spent_coin" by (simp add: unspent_def Coin_IsSpent_def CTxOut_IsNull_def spent_coin_def Coin_of_def)
  show "stack_utxo (\<lambda>_. None) demo_cache = [demo_outpoint \<mapsto> spent_coin]"
    using empty unsp by (auto simp: cache_utxo_def [of "cache_utxo _"] demo_cache_def map_utxo_def fun_eq_iff)
  have "cache_inv (db_utxo (\<lambda>_. None)) (db_valid (\<lambda>_. False) (\<lambda>_. None)) (storable (\<lambda>_. False) (\<lambda>_. None)) (CCoinsViewCache_on demo_db)"
    by (simp add: cache_inv_def CCoinsViewCache_on_def demo_facts map_inv_def)
  moreover have "storable (\<lambda>_. False) (\<lambda>_. None) spent_coin"
    by (simp add: storable_def script_decompresses_def IsToPubKey_def spent_coin_def Coin_of_def MAX_SCRIPT_SIZE_def Coin_IsSpent_def
        CTxOut_IsNull_def)
  ultimately show "stack_inv (\<lambda>_. False) (\<lambda>_. None) demo_cache"
    using empty by (simp add: cache_inv_def [of "cache_utxo _"] demo_cache_def map_inv_def entry_ok_def demo_facts)
qed

lemma demo_ids:
  "tx_GetHash (take 32) (demo_coinbase l s) = [3, 0, 5, 0, 1] @ replicate 27 0"
  "tx_GetHash (take 32) demo_spend = [1, 0, 0, 0, 1] @ replicate 27 7"
  by code_simp+

definition demo_txs :: "CTransaction list" where
  "demo_txs = [demo_coinbase 0 SEQUENCE_FINAL, demo_spend]"

lemma demo_tx_sel:
  "vin (demo_coinbase l s) = [\<lparr>prevout = COutPoint_null, scriptSig = [1, 1], nSequence = s\<rparr>]"
  "vin demo_spend = [\<lparr>prevout = demo_outpoint, scriptSig = [], nSequence = SEQUENCE_FINAL\<rparr>]"
  "vout (demo_coinbase l s) = [\<lparr>nValue = 4 * COIN, scriptPubKey = [OP_1], nRounds = - 10\<rparr>]"
  "vout demo_spend = [\<lparr>nValue = 900, scriptPubKey = [OP_1], nRounds = - 10\<rparr>]"
  by (simp_all add: demo_coinbase_def demo_spend_def)

lemma demo_txs_storable: "list_all (tx_storable (storable (\<lambda>_. False) (\<lambda>_. None)) (take 32) 201) demo_txs"
  by (simp add: demo_txs_def tx_storable_def demo_ids demo_tx_sel storable_def script_decompresses_def IsToPubKey_def Coin_of_def
      MAX_SCRIPT_SIZE_def wf_COutPoint_def COIN_def demo_outpoint_def demo_hash_def COutPoint_null_def blob_null_def)

lemma demo_ids_new: "tx_GetHash (take 32) (demo_coinbase l s) \<noteq> demo_hash" "tx_GetHash (take 32) demo_spend \<noteq> demo_hash"
  "tx_GetHash (take 32) (demo_coinbase l s) \<noteq> tx_GetHash (take 32) demo_spend"
  unfolding demo_ids demo_hash_def by (auto dest!: arg_cong [where f = hd])

lemma demo_txs_new: "ids_new (take 32) demo_txs (stack_utxo (\<lambda>_. None) demo_cache)"
  using demo_ids_new demo_ids_new [symmetric] by (auto simp: ids_new_def demo_txs_def outs_new_def demo_cache_facts demo_outpoint_def)

lemma demo_restorable: "restorable (stack_utxo (\<lambda>_. None) demo_cache)"
  by (simp add: restorable_def demo_cache_facts spent_coin_def Coin_of_def IsUnspendable_def MAX_SCRIPT_SIZE_def)

lemma demo_value: "finite (dom (stack_utxo (\<lambda>_. None) demo_cache))" "utxo_value (stack_utxo (\<lambda>_. None) demo_cache) = 1000"
  by (simp_all add: demo_cache_facts utxo_value_def spent_coin_def Coin_of_def)

lemma demo_index:
  "deref (ce_store demo_env) (Suc 0) = Some demo_pindex" "pprev demo_pindex = Some 0" "deref (ce_store demo_env) 0 = Some demo_prev"
  "nHeight demo_pindex = 201" "nHeight demo_prev = 200" "ce_TxHash demo_env = take 32" "phashBlock demo_pindex = None"
  "GetBlockHash demo_prev = demo_hash"
  by (simp_all add: demo_env_def demo_indexes_def demo_prev_def demo_pindex_def deref_def GetBlockHash_def CBlockIndex_SetNull_def)

lemma demo_hash_not_genesis:
  "CBlockHeader_GetHash (ce_hashes demo_env) h \<noteq> hashGenesisBlock (mainnet_blocks [])"
proof
  assume "CBlockHeader_GetHash (ce_hashes demo_env) h = hashGenesisBlock (mainnet_blocks [])"
  then have "hd (CBlockHeader_GetHash (ce_hashes demo_env) h) = hd (hashGenesisBlock (mainnet_blocks []))" by simp
  then show False
    by (simp add: CBlockHeader_GetHash_def demo_env_def demo_hashes_def mainnet_blocks_def Reward_Params.extend_def Block_Params.fields_def)
qed

lemma mainnet_blocks_truncate: "Reward_Params.truncate (mainnet_blocks founder) = mainnet_rewards founder"
  by (simp add: mainnet_blocks_def Reward_Params.extend_def Reward_Params.truncate_def Block_Params.fields_def mainnet_rewards_def
      Params.extend_def Reward_Params.fields_def)

lemma demo_block_sel: "blk_vtx (demo_block txs) = txs" "\<not> fChecked (demo_block txs)"
  by (simp_all add: demo_block_def)

text \<open>Whether a call of \<open>ConnectBlock\<close> succeeds.\<close>

definition connects :: "bool \<Rightarrow> CTransaction list \<Rightarrow> bool" where
  "connects fJustCheck txs \<longleftrightarrow>
     (case ConnectBlock demo_view demo_env (mainnet_blocks []) fJustCheck (demo_block txs) (Suc 0) demo_cache of
        Inl _ \<Rightarrow> False
      | Inr _ \<Rightarrow> True)"

lemma connectsE:
  assumes "connects fJustCheck txs"
  obtains undo block' c' where "ConnectBlock (CCoinsViewCache_view (CCoinsViewDB (\<lambda>_. False) (\<lambda>_. None) 1000)) demo_env
    (mainnet_blocks []) fJustCheck (demo_block txs) (Suc 0) demo_cache = Inr (undo, block', c')"
  using assms by (auto simp: connects_def demo_view_def split: sum.splits)

lemma demo_txs_connect: "connects True demo_txs"
  by code_simp

lemmas demo_hyps = demo_cache_facts(2) demo_txs_storable demo_txs_new [unfolded demo_cache_facts(1)] demo_value(2) [unfolded demo_cache_facts(1)] demo_index
  mainnet_blocks_truncate demo_hash_not_genesis demo_block_sel INT_MAX_def

theorem ConnectBlock_no_inflation_witness:
  "\<exists>undo block' c'. ConnectBlock demo_view demo_env (mainnet_blocks []) True (demo_block demo_txs) (Suc 0) demo_cache = Inr (undo, block', c') \<and>
     stack_utxo (\<lambda>_. None) c' = apply_block (take 32) 201 demo_txs [demo_outpoint \<mapsto> spent_coin] \<and>
     utxo_value (stack_utxo (\<lambda>_. None) c') \<le> 1000 + GetBlockSubsidy 200"
proof -
  obtain undo block' c' where r: "ConnectBlock (CCoinsViewCache_view (CCoinsViewDB (\<lambda>_. False) (\<lambda>_. None) 1000)) demo_env
      (mainnet_blocks []) True (demo_block demo_txs) (Suc 0) demo_cache = Inr (undo, block', c')"
    by (rule connectsE [OF demo_txs_connect])
  with ConnectBlock_no_inflation [OF demo_cache_facts(2) demo_value(1) mainnet_blocks_truncate _ demo_index(1-3) demo_hash_not_genesis _ _ _ r]
  show ?thesis unfolding demo_view_def by (auto simp: demo_hyps demo_cache_facts(1))
qed

theorem ConnectBlock_DisconnectBlock_witness:
  "\<exists>undo block' c' d. ConnectBlock demo_view demo_env (mainnet_blocks []) True (demo_block demo_txs) (Suc 0) demo_cache = Inr (undo, block', c') \<and>
     DisconnectBlock demo_view (take 32) demo_txs 201 demo_hash True (Some undo) True c' = Inr (DISCONNECT_OK, d) \<and>
     stack_utxo (\<lambda>_. None) d = [demo_outpoint \<mapsto> spent_coin]"
proof -
  obtain undo block' c' where r: "ConnectBlock (CCoinsViewCache_view (CCoinsViewDB (\<lambda>_. False) (\<lambda>_. None) 1000)) demo_env
      (mainnet_blocks []) True (demo_block demo_txs) (Suc 0) demo_cache = Inr (undo, block', c')"
    by (rule connectsE [OF demo_txs_connect])
  with ConnectBlock_DisconnectBlock [OF demo_cache_facts(2) demo_restorable _ _ demo_index(1-3) demo_hash_not_genesis _ _ _ r]
  show ?thesis unfolding demo_view_def by (auto simp: demo_hyps demo_cache_facts(1))
qed

end
