(* ===== verification/Chain_State.thy ===== *)
theory Chain_State
  imports Block_Tree Check_Block
begin

text \<open>
  The state of the block tree of \<open>validation.cpp\<close> beyond the index itself: the active chain,
  the candidates for the next tip, the blocks that failed and the blocks that wait for a
  predecessor, with the handlers that change them: \<open>AcceptBlockHeader\<close>,
  \<open>ProcessNewBlockHeaders\<close>, \<open>ReceivedBlockTransactions\<close>, \<open>InvalidBlockFound\<close>,
  \<open>ResetBlockFailureFlags\<close>, \<open>FindMostWorkChain\<close>, \<open>PruneBlockIndexCandidates\<close> and
  \<open>AcceptBlock\<close>.  \<open>CheckBlockIndex\<close>, a self-test that only runs with the option
  \<open>-checkblockindex\<close>, is left out of the handlers that call it.  As in
  the index, \<open>None\<close> is a failed assertion, a dereferenced null pointer or a loop that does not
  return; a position in the store stands for the address of an entry.
\<close>

unbundle bit_operations_syntax

subsection \<open>State\<close>

text \<open>
  \<open>setBlockIndexCandidates\<close> is the list of the elements of the ordered set, worst first, and
  \<open>mapBlocksUnlinked\<close> the list of the pairs of the multimap in the order of insertion.
\<close>

record chain_state =
  cs_tree :: block_tree
  chainActive :: CChain
  pindexBestInvalid :: "block_id option"
  setBlockIndexCandidates :: "block_id list"
  mapBlocksUnlinked :: "(block_id \<times> block_id) list"
  nBlockSequenceId :: int
  g_failed_blocks :: "block_id set"

abbreviation cs_store :: "chain_state \<Rightarrow> block_store" where
  "cs_store s \<equiv> bt_store (cs_tree s)"

text \<open>Assignments to fields of an entry, with and without \<open>setDirtyBlockIndex.insert\<close>.\<close>

definition modify :: "block_id \<Rightarrow> (CBlockIndex \<Rightarrow> CBlockIndex) \<Rightarrow> block_tree \<Rightarrow> block_tree" where
  "modify p f bt = bt\<lparr>bt_store := (bt_store bt)[p := f (bt_store bt ! p)]\<rparr>"

definition modify_dirty :: "block_id \<Rightarrow> (CBlockIndex \<Rightarrow> CBlockIndex) \<Rightarrow> block_tree \<Rightarrow> block_tree" where
  "modify_dirty p f bt = (modify p f bt)\<lparr>setDirtyBlockIndex := insert p (setDirtyBlockIndex bt)\<rparr>"

definition fail_with :: "u32 \<Rightarrow> CBlockIndex \<Rightarrow> CBlockIndex" where
  "fail_with bits b = b\<lparr>nStatus := nStatus b OR bits\<rparr>"

definition clear_failed :: "CBlockIndex \<Rightarrow> CBlockIndex" where
  "clear_failed b = b\<lparr>nStatus := nStatus b AND NOT BLOCK_FAILED_MASK\<rparr>"

definition candidate_insert :: "block_store \<Rightarrow> block_id \<Rightarrow> block_id list \<Rightarrow> block_id list" where
  "candidate_insert st p cs =
     (if p \<in> set cs then cs
      else takeWhile (\<lambda>c. CBlockIndexWorkComparator st c p) cs @ p # dropWhile (\<lambda>c. CBlockIndexWorkComparator st c p) cs)"

definition better_than_tip :: "chain_state \<Rightarrow> block_tree \<Rightarrow> block_id \<Rightarrow> bool option" where
  "better_than_tip s bt p =
     (case Tip (chainActive s) of None \<Rightarrow> None | Some tip \<Rightarrow> Some (CBlockIndexWorkComparator (bt_store bt) tip p))"

subsection \<open>Failed blocks\<close>

text \<open>\<open>pindexBestInvalid\<close> is the failed tip with the most work.\<close>

definition note_invalid :: "block_id \<Rightarrow> chain_state \<Rightarrow> chain_state option" where
  "note_invalid pindexNew s = do {
     b \<leftarrow> deref (cs_store s) pindexNew;
     more \<leftarrow> (case pindexBestInvalid s of
                None \<Rightarrow> Some True
              | Some o1 \<Rightarrow> map_option (\<lambda>bo. CompareTo (nChainWork b) (nChainWork bo) > 0) (deref (cs_store s) o1));
     Some (if more then s\<lparr>pindexBestInvalid := Some pindexNew\<rparr> else s) }"

text \<open>The warnings about forks that follow are left out.\<close>

definition InvalidChainFound :: "block_id \<Rightarrow> chain_state \<Rightarrow> chain_state option" where
  "InvalidChainFound p s = do { s \<leftarrow> note_invalid p s; tip \<leftarrow> Tip (chainActive s); Some s }"

definition InvalidBlockFound :: "block_id \<Rightarrow> bool \<Rightarrow> chain_state \<Rightarrow> chain_state option" where
  "InvalidBlockFound p corruptionPossible s =
     (if corruptionPossible then Some s
      else do {
        b \<leftarrow> deref (cs_store s) p;
        InvalidChainFound p
          (s\<lparr>cs_tree := modify_dirty p (fail_with BLOCK_FAILED_VALID) (cs_tree s),
             g_failed_blocks := insert p (g_failed_blocks s),
             setBlockIndexCandidates := removeAll p (setBlockIndexCandidates s)\<rparr>) })"

text \<open>One entry of the loop over \<open>mapBlockIndex\<close>.\<close>

definition reset_descendant :: "block_id \<Rightarrow> int \<Rightarrow> block_id \<Rightarrow> chain_state \<Rightarrow> chain_state option" where
  "reset_descendant pindex height p s = do {
     b \<leftarrow> deref (cs_store s) p;
     valid \<leftarrow> IsValid b BLOCK_VALID_TRANSACTIONS;
     below \<leftarrow> (if valid then Some False else map_option (\<lambda>a. a = Some pindex) (GetAncestor (cs_store s) p height));
     if \<not> below then Some s
     else do {
       let bt = modify_dirty p clear_failed (cs_tree s) in do {
       valid \<leftarrow> IsValid (clear_failed b) BLOCK_VALID_TRANSACTIONS;
       add \<leftarrow> (if valid \<and> nChainTx b \<noteq> 0 then better_than_tip s bt p else Some False);
       Some (s\<lparr>cs_tree := bt,
               setBlockIndexCandidates := (if add then candidate_insert (bt_store bt) p (setBlockIndexCandidates s)
                 else setBlockIndexCandidates s),
               pindexBestInvalid := (if pindexBestInvalid s = Some p then None else pindexBestInvalid s),
               g_failed_blocks := g_failed_blocks s - {p}\<rparr>) } } }"

fun reset_descendants :: "block_id \<Rightarrow> int \<Rightarrow> block_id list \<Rightarrow> chain_state \<Rightarrow> chain_state option" where
  "reset_descendants pindex height [] s = Some s"
| "reset_descendants pindex height (p # ps) s =
     do { s \<leftarrow> reset_descendant pindex height p s; reset_descendants pindex height ps s }"

partial_function (option) reset_ancestors :: "block_id option \<Rightarrow> block_tree \<Rightarrow> block_tree option" where
  "reset_ancestors pindex bt =
     (case pindex of
        None \<Rightarrow> Some bt
      | Some p \<Rightarrow> do {
          b \<leftarrow> deref (bt_store bt) p;
          reset_ancestors (pprev b)
            (if nStatus b AND BLOCK_FAILED_MASK \<noteq> 0 then modify_dirty p clear_failed bt else bt) })"

text \<open>The entries of \<open>mapBlockIndex\<close>; the loop does the same in every order.\<close>

definition indexed :: "block_tree \<Rightarrow> block_id list" where
  "indexed bt = filter (\<lambda>p. mapBlockIndex bt (GetBlockHash (bt_store bt ! p)) = Some p) [0..<length (bt_store bt)]"

definition ResetBlockFailureFlags :: "block_id \<Rightarrow> chain_state \<Rightarrow> chain_state option" where
  "ResetBlockFailureFlags pindex s = do {
     b \<leftarrow> deref (cs_store s) pindex;
     s \<leftarrow> reset_descendants pindex (nHeight b) (indexed (cs_tree s)) s;
     bt \<leftarrow> reset_ancestors (Some pindex) (cs_tree s);
     Some (s\<lparr>cs_tree := bt\<rparr>) }"

subsection \<open>Headers\<close>

record header_env =
  he_hashes :: pow_hashes
  he_params :: Block_Params
  he_checkpoint :: "int option"
  he_adjusted_time :: int
  he_conflicting :: "int \<Rightarrow> uint256 \<Rightarrow> bool"

definition pow_check :: "pow_error \<Rightarrow> check_error" where
  "pow_check e = (case e of Pow_uint _ \<Rightarrow> Check_exception | Pow_assert \<Rightarrow> Check_assertion)"

definition add_header ::
    "header_env \<Rightarrow> CBlockHeader \<Rightarrow> u32 \<Rightarrow> chain_state \<Rightarrow> ((check_error + block_id) \<times> chain_state) option" where
  "add_header env block status s =
     map_option (\<lambda>r. case r of Inl e \<Rightarrow> (Inl (pow_check e), s) | Inr (bt, p) \<Rightarrow> (Inr p, s\<lparr>cs_tree := bt\<rparr>))
       (AddToBlockIndex (he_hashes env) (Params.truncate (he_params env)) (cs_tree s) block status)"

text \<open>The first failed block the entry descends from, in the order of addresses.\<close>

fun find_failed :: "block_store \<Rightarrow> block_id \<Rightarrow> block_id list \<Rightarrow> block_id option option" where
  "find_failed st p [] = Some None"
| "find_failed st p (failedit # fs) = do {
     bf \<leftarrow> deref st failedit;
     a \<leftarrow> GetAncestor st p (nHeight bf);
     if a = Some failedit then Some (Some failedit) else find_failed st p fs }"

partial_function (option) mark_children :: "block_id \<Rightarrow> block_id \<Rightarrow> block_tree \<Rightarrow> block_tree option" where
  "mark_children failedit invalid_walk bt =
     (if invalid_walk = failedit then Some bt
      else do {
        b \<leftarrow> deref (bt_store bt) invalid_walk;
        q \<leftarrow> pprev b;
        mark_children failedit q (modify_dirty invalid_walk (fail_with BLOCK_FAILED_CHILD) bt) })"

definition check_failed_blocks :: "block_id \<Rightarrow> CBlockIndex \<Rightarrow> chain_state \<Rightarrow> (check_error option \<times> chain_state) option" where
  "check_failed_blocks q prev s = do {
     valid \<leftarrow> IsValid prev BLOCK_VALID_SCRIPTS;
     failed \<leftarrow> (if valid then Some None else find_failed (cs_store s) q (sorted_list_of_set (g_failed_blocks s)));
     case failed of
       None \<Rightarrow> Some (None, s)
     | Some f \<Rightarrow>
         if nStatus (cs_store s ! f) AND BLOCK_FAILED_VALID = 0 then Some (Some Check_assertion, s)
         else do { bt \<leftarrow> mark_children f q (cs_tree s); Some (Some (Reject 100 ''bad-prevblk''), s\<lparr>cs_tree := bt\<rparr>) } }"

definition AcceptBlockHeader ::
    "header_env \<Rightarrow> CBlockHeader \<Rightarrow> chain_state \<Rightarrow> ((check_error + block_id) \<times> chain_state) option" where
  "AcceptBlockHeader env block s =
     (let hash = CBlockHeader_GetPOWHash (he_hashes env) block (CBlockHeader_GetAlgo block)
      in if hash \<noteq> hashGenesisBlock (he_params env) then
           (case mapBlockIndex (cs_tree s) hash of
              Some p \<Rightarrow> do {
                b \<leftarrow> deref (cs_store s) p;
                Some (if nStatus b AND BLOCK_FAILED_MASK \<noteq> 0 then Inl (Reject 0 ''duplicate'') else Inr p, s) }
            | None \<Rightarrow>
                (case CheckBlockHeader (he_hashes env) (he_params env) block True of
                   Some e \<Rightarrow> Some (Inl e, s)
                 | None \<Rightarrow>
                     (case mapBlockIndex (cs_tree s) (hdr_hashPrevBlock block) of
                        None \<Rightarrow> Some (Inl (Reject 10 ''prev-blk-not-found''), s)
                      | Some q \<Rightarrow> do {
                          prev \<leftarrow> deref (cs_store s) q;
                          if nStatus prev AND BLOCK_FAILED_MASK \<noteq> 0 then Some (Inl (Reject 100 ''bad-prevblk''), s)
                          else if nStatus prev AND BLOCK_CONFLICT_CHAINLOCK \<noteq> 0
                          then Some (Inl (Reject 10 ''bad-prevblk-chainlock''), s)
                          else case ContextualCheckBlockHeader (cs_store s) (he_params env) block q (he_checkpoint env)
                              (he_adjusted_time env) of
                            Some e \<Rightarrow> Some (Inl e, s)
                          | None \<Rightarrow> do {
                              (failed, s) \<leftarrow> check_failed_blocks q prev s;
                              case failed of
                                Some e \<Rightarrow> Some (Inl e, s)
                              | None \<Rightarrow>
                                  if he_conflicting env (nHeight prev + 1) hash
                                  then map_option (\<lambda>(r, s). (case r of Inl e \<Rightarrow> Inl e | Inr p \<Rightarrow> Inl (Reject 10 ''bad-chainlock''), s))
                                         (add_header env block BLOCK_CONFLICT_CHAINLOCK s)
                                  else add_header env block BLOCK_VALID_TREE s } })))
         else add_header env block BLOCK_VALID_TREE s)"

text \<open>The last accepted entry, or the first header that is refused.\<close>

fun ProcessNewBlockHeaders ::
    "header_env \<Rightarrow> CBlockHeader list \<Rightarrow> block_id option \<Rightarrow> chain_state \<Rightarrow>
     ((check_error \<times> CBlockHeader + block_id option) \<times> chain_state) option" where
  "ProcessNewBlockHeaders env [] pindex s = Some (Inr pindex, s)"
| "ProcessNewBlockHeaders env (header # headers) pindex s = do {
     (r, s) \<leftarrow> AcceptBlockHeader env header s;
     case r of
       Inl e \<Rightarrow> Some (Inl (e, header), s)
     | Inr p \<Rightarrow> ProcessNewBlockHeaders env headers (Some p) s }"

subsection \<open>Blocks with their transactions\<close>

text \<open>The queue of entries whose predecessors all have their transactions.\<close>

function link_queue :: "block_id list \<Rightarrow> chain_state \<Rightarrow> chain_state option" where
  "link_queue [] s = Some s"
| "link_queue (p # queue) s = do {
     b \<leftarrow> deref (cs_store s) p;
     before \<leftarrow> (case pprev b of None \<Rightarrow> Some 0 | Some q \<Rightarrow> map_option nChainTx (deref (cs_store s) q));
     let bt = modify p (\<lambda>b. b\<lparr>nChainTx := before + nTx b, nSequenceId := nBlockSequenceId s\<rparr>) (cs_tree s);
         worse = (case Tip (chainActive s) of None \<Rightarrow> False | Some tip \<Rightarrow> CBlockIndexWorkComparator (bt_store bt) p tip)
     in link_queue (queue @ map snd (filter (\<lambda>(a, _). a = p) (mapBlocksUnlinked s)))
       (s\<lparr>cs_tree := bt, nBlockSequenceId := nBlockSequenceId s + 1,
          setBlockIndexCandidates := (if worse then setBlockIndexCandidates s
            else candidate_insert (bt_store bt) p (setBlockIndexCandidates s)),
          mapBlocksUnlinked := filter (\<lambda>(a, _). a \<noteq> p) (mapBlocksUnlinked s)\<rparr>) }"
  by pat_completeness auto
termination
proof (relation "measure (\<lambda>(queue, s). length queue + length (mapBlocksUnlinked s))", goal_cases)
  case (2 p queue s b before bt worse)
  have "length (filter (\<lambda>(a, _). a = p) xs) + length (filter (\<lambda>(a, _). a \<noteq> p) xs) = length xs"
    for xs :: "(block_id \<times> block_id) list"
    using sum_length_filter_compl [of "\<lambda>(a, _). a = p" xs] by (simp add: case_prod_unfold)
  from this [of "mapBlocksUnlinked s"] show ?case by simp
qed simp

declare link_queue.simps [simp del]

definition received_entry :: "nat \<Rightarrow> CDiskBlockPos \<Rightarrow> CBlockIndex \<Rightarrow> CBlockIndex" where
  "received_entry n pos b =
     b\<lparr>nTx := word_of_nat n, nChainTx := 0, nFile := pos_nFile pos, nDataPos := pos_nPos pos, nUndoPos := 0,
       nStatus := nStatus b OR BLOCK_HAVE_DATA\<rparr>"

definition ReceivedBlockTransactions ::
    "CBlock \<Rightarrow> block_id \<Rightarrow> CDiskBlockPos \<Rightarrow> chain_state \<Rightarrow> chain_state option" where
  "ReceivedBlockTransactions block p pos s = do {
     b \<leftarrow> deref (cs_store s) p;
     (b', _) \<leftarrow> RaiseValidity (received_entry (length (blk_vtx block)) pos b) BLOCK_VALID_TRANSACTIONS;
     let s = s\<lparr>cs_tree := modify_dirty p (\<lambda>_. b') (cs_tree s)\<rparr> in do {
     prev \<leftarrow> (case pprev b of None \<Rightarrow> Some None | Some q \<Rightarrow> map_option (\<lambda>bq. Some (q, bq)) (deref (cs_store s) q));
     case prev of
       None \<Rightarrow> link_queue [p] s
     | Some (q, bq) \<Rightarrow>
         if nChainTx bq \<noteq> 0 then link_queue [p] s
         else do {
           valid \<leftarrow> IsValid bq BLOCK_VALID_TREE;
           Some (if valid then s\<lparr>mapBlocksUnlinked := mapBlocksUnlinked s @ [(q, p)]\<rparr> else s) } } }"

text \<open>
  Storing a block.  \<open>blockPos\<close> is the place that \<open>FindBlockPos\<close> gives to the block, \<open>None\<close>
  if it finds none or the disk fails; whether the bytes are then written does not matter to
  the state.  The calls of \<open>CheckBlock\<close> and \<open>ContextualCheckBlock\<close> are commented out in the
  source.  The Boolean of the result is \<open>fNewBlock\<close>.
\<close>

definition MIN_BLOCKS_TO_KEEP :: int where "MIN_BLOCKS_TO_KEEP = 288"

definition AcceptBlock ::
    "header_env \<Rightarrow> arith_uint256 \<Rightarrow> bool \<Rightarrow> CDiskBlockPos option \<Rightarrow> CBlock \<Rightarrow> chain_state \<Rightarrow>
     ((check_error + block_id \<times> bool) \<times> chain_state) option" where
  "AcceptBlock env nMinimumChainWork fRequested blockPos block s = do {
     (r, s) \<leftarrow> AcceptBlockHeader env (CBlockHeader.truncate block) s;
     case r of
       Inl e \<Rightarrow> Some (Inl e, s)
     | Inr p \<Rightarrow> do {
         b \<leftarrow> deref (cs_store s) p;
         fHasMoreOrSameWork \<leftarrow> (case Tip (chainActive s) of
            None \<Rightarrow> Some True
          | Some tip \<Rightarrow> map_option (\<lambda>t. CompareTo (nChainWork b) (nChainWork t) \<ge> 0) (deref (cs_store s) tip));
         let fTooFarAhead = (nHeight b > Height (chainActive s) + MIN_BLOCKS_TO_KEEP)
         in if nStatus b AND BLOCK_HAVE_DATA \<noteq> 0 then Some (Inr (p, False), s)
            else if \<not> fRequested \<and> (nTx b \<noteq> 0 \<or> \<not> fHasMoreOrSameWork \<or> fTooFarAhead \<or>
              CompareTo (nChainWork b) nMinimumChainWork < 0)
            then Some (Inr (p, False), s)
            else case blockPos of
              None \<Rightarrow> Some (Inl Check_exception, s)
            | Some pos \<Rightarrow> map_option (\<lambda>s. (Inr (p, True), s)) (ReceivedBlockTransactions block p pos s) } }"

subsection \<open>The chain with the most work\<close>

text \<open>
  The walk from a candidate to the active chain: the first entry that failed or whose data is
  missing.
\<close>

partial_function (option) find_unusable :: "block_store \<Rightarrow> CChain \<Rightarrow> block_id option \<Rightarrow> block_id option option" where
  "find_unusable st active pindexTest =
     (case pindexTest of
        None \<Rightarrow> Some None
      | Some p \<Rightarrow> do {
          on \<leftarrow> Contains st active p;
          if on then Some None
          else do {
            b \<leftarrow> deref st p;
            if nChainTx b = 0 \<and> nHeight b \<noteq> 0 then None
            else if nStatus b AND BLOCK_FAILED_MASK \<noteq> 0 \<or> nStatus b AND BLOCK_HAVE_DATA = 0 then Some (Some p)
            else find_unusable st active (pprev b) } })"

partial_function (option) drop_candidates :: "bool \<Rightarrow> block_id \<Rightarrow> block_id \<Rightarrow> chain_state \<Rightarrow> chain_state option" where
  "drop_candidates fFailedChain pindexTest pindexFailed s =
     (if pindexTest = pindexFailed
      then Some (s\<lparr>setBlockIndexCandidates := removeAll pindexTest (setBlockIndexCandidates s)\<rparr>)
      else do {
        b \<leftarrow> deref (cs_store s) pindexFailed;
        q \<leftarrow> pprev b;
        drop_candidates fFailedChain pindexTest q
          (s\<lparr>cs_tree := (if fFailedChain then modify pindexFailed (fail_with BLOCK_FAILED_CHILD) (cs_tree s) else cs_tree s),
             mapBlocksUnlinked := (if fFailedChain then mapBlocksUnlinked s else mapBlocksUnlinked s @ [(q, pindexFailed)]),
             setBlockIndexCandidates := removeAll pindexFailed (setBlockIndexCandidates s)\<rparr>) })"

partial_function (option) FindMostWorkChain :: "chain_state \<Rightarrow> (block_id option \<times> chain_state) option" where
  "FindMostWorkChain s =
     (if setBlockIndexCandidates s = [] then Some (None, s)
      else let pindexNew = last (setBlockIndexCandidates s) in do {
        unusable \<leftarrow> find_unusable (cs_store s) (chainActive s) (Some pindexNew);
        case unusable of
          None \<Rightarrow> Some (Some pindexNew, s)
        | Some pindexTest \<Rightarrow> do {
            b \<leftarrow> deref (cs_store s) pindexTest;
            let fFailedChain = (nStatus b AND BLOCK_FAILED_MASK \<noteq> 0) in do {
            s \<leftarrow> (if fFailedChain then note_invalid pindexNew s else Some s);
            s \<leftarrow> drop_candidates fFailedChain pindexTest pindexNew s;
            FindMostWorkChain s } } })"

definition PruneBlockIndexCandidates :: "chain_state \<Rightarrow> chain_state option" where
  "PruneBlockIndexCandidates s =
     (case Tip (chainActive s) of
        None \<Rightarrow> None
      | Some tip \<Rightarrow>
          let cs = dropWhile (\<lambda>c. CBlockIndexWorkComparator (cs_store s) c tip) (setBlockIndexCandidates s)
          in if cs = [] then None else Some (s\<lparr>setBlockIndexCandidates := cs\<rparr>))"

end
