(* ===== verification/Chain_State_Props.thy ===== *)
theory Chain_State_Props
  imports Chain_State
begin

text \<open>
  What the handlers of the block tree keep: every header in the tree has passed the checks of
  its proof of work, its difficulty and its time, whatever sequence of headers, blocks,
  failures and resets led there.
\<close>

unbundle bit_operations_syntax

subsection \<open>What the checks of a header depend on\<close>

text \<open>The fields of an entry that no handler changes.\<close>

definition entry_core :: "CBlockIndex \<Rightarrow> CBlockIndex" where
  "entry_core b =
     b\<lparr>nFile := 0, nDataPos := 0, nUndoPos := 0, nTx := 0, nChainTx := 0, nStatus := 0, nSequenceId := 0\<rparr>"

lemma entry_core_eqD:
  assumes "entry_core b = entry_core c"
  shows "phashBlock b = phashBlock c" and "pprev b = pprev c" and "pskip b = pskip c" and "nHeight b = nHeight c"
    and "nChainWork b = nChainWork c" and "nVersion b = nVersion c" and "hashMerkleRoot b = hashMerkleRoot c"
    and "nTime b = nTime c" and "nBits b = nBits c" and "nNonce b = nNonce c" and "nTimeMax b = nTimeMax c"
  using arg_cong [OF assms, of phashBlock] arg_cong [OF assms, of pprev] arg_cong [OF assms, of pskip]
    arg_cong [OF assms, of nHeight] arg_cong [OF assms, of nChainWork] arg_cong [OF assms, of nVersion]
    arg_cong [OF assms, of hashMerkleRoot] arg_cong [OF assms, of nTime] arg_cong [OF assms, of nBits]
    arg_cong [OF assms, of nNonce] arg_cong [OF assms, of nTimeMax]
  by (simp_all add: entry_core_def)

definition extends :: "block_store \<Rightarrow> block_store \<Rightarrow> bool" where
  "extends st st' \<longleftrightarrow> map entry_core (take (length st) st') = map entry_core st"

lemma extendsD:
  assumes "extends st st'" and "p < length st"
  shows "p < length st'" and "entry_core (st' ! p) = entry_core (st ! p)"
proof -
  have "length (take (length st) st') = length st"
    using assms(1) unfolding extends_def by (rule map_eq_imp_length_eq)
  then show p: "p < length st'" using assms(2) by simp
  have "map entry_core (take (length st) st') ! p = map entry_core st ! p" using assms(1) by (simp add: extends_def)
  then show "entry_core (st' ! p) = entry_core (st ! p)" using assms(2) p by simp
qed

lemma extends_append: "extends st (st @ [b])"
  by (simp add: extends_def)

lemma extends_same: "map entry_core st' = map entry_core st \<Longrightarrow> extends st st'"
  using map_eq_imp_length_eq [of entry_core st' entry_core st] by (simp add: extends_def)

lemma walks_extend:
  assumes "extends st st'" and "wf_links st" and "valid_ptr st p"
  shows "median_times st' n p = median_times st n p" and "walk_back st' n p = walk_back st n p"
proof -
  have "median_times st' n p = median_times st n p \<and> walk_back st' n p = walk_back st n p"
    using assms(3)
  proof (induction n arbitrary: p)
    case (Suc n)
    show ?case
    proof (cases p)
      case (Some q)
      with Suc.prems have q: "q < length st" by simp
      note d = extendsD [OF assms(1) q]
      note c = entry_core_eqD [OF d(2)]
      have "valid_ptr st (pprev (st ! q))" using assms(2) q by simp
      from Suc.IH [OF this] show ?thesis using Some q d(1) c by (simp add: GetBlockTime_def)
    qed simp
  qed simp
  then show "median_times st' n p = median_times st n p" "walk_back st' n p = walk_back st n p" by simp_all
qed

lemma GetMedianTimePast_extends:
  "extends st st' \<Longrightarrow> wf_links st \<Longrightarrow> p < length st \<Longrightarrow> GetMedianTimePast st' p = GetMedianTimePast st p"
  by (simp add: GetMedianTimePast_def walks_extend)

lemma eligible_extends:
  assumes "extends st st'" and "wf_links st" and "p < length st"
  shows "eligible st' params algo p = eligible st params algo p"
proof -
  note c = entry_core_eqD [OF extendsD(2) [OF assms(1,3)]]
  have "too_late params (st' ! p) (st' ! q) = too_late params (st ! p) (st ! q)" if "pprev (st ! p) = Some q" for q
    using entry_core_eqD(8) [OF extendsD(2) [OF assms(1)], of q] wf_linkD(3) [OF assms(2,3) that] c
    by (simp add: too_late_def)
  then show ?thesis using c by (auto simp: eligible_def GetAlgo_def split: option.splits)
qed

lemma GetLastBlockIndexForAlgo_extends:
  assumes "extends st st'" and "wf_links st" and "wf_links st'" and "p < length st"
  shows "GetLastBlockIndexForAlgo st' (Some p) params algo = GetLastBlockIndexForAlgo st (Some p) params algo"
  using assms(4)
proof (induction "nat (nHeight (st ! p))" arbitrary: p rule: less_induct)
  case less
  note d = extendsD [OF assms(1) less.prems]
  note c = entry_core_eqD(2) [OF d(2)]
  have "GetLastBlockIndexForAlgo st' (pprev (st ! p)) params algo = GetLastBlockIndexForAlgo st (pprev (st ! p)) params algo"
  proof (cases "pprev (st ! p)")
    case (Some q)
    then have "q < length st" "nHeight (st ! q) = nHeight (st ! p) - 1"
      using wf_linkD(3) [OF assms(2) less.prems] by auto
    then show ?thesis using less.hyps [of q] wf_linkD(1) [OF assms(2), of q] Some by simp
  qed simp
  then show ?case
    using GetLastBlockIndexForAlgo_step [OF assms(2) less.prems] GetLastBlockIndexForAlgo_step [OF assms(3) d(1)]
      eligible_extends [OF assms(1,2) less.prems] c by simp
qed

lemma next_work_extends:
  assumes "extends st st'" and "wf_links st" and "wf_links st'" and "p < length st"
  shows "next_work st' (Some p) params algo nWalk target minTs maxTs nAlgos =
    next_work st (Some p) params algo nWalk target minTs maxTs nAlgos"
proof -
  obtain r where r: "walk_back st (nat nWalk) (Some p) = Some r" "valid_ptr st r"
    using walk_back_pprev_n [OF assms(2), of "Some p"] assms(4) by auto
  obtain a where a: "GetLastBlockIndexForAlgo st (Some p) params algo = Some a" "valid_ptr st a"
    using GetLastBlockIndexForAlgo_nearest [OF assms(2,4), of params algo] by fastforce
  have r': "walk_back st' (nat nWalk) (Some p) = Some r"
    using walks_extend(2) [OF assms(1,2), of "Some p"] r assms(4) by simp
  have a': "GetLastBlockIndexForAlgo st' (Some p) params algo = Some a"
    using GetLastBlockIndexForAlgo_extends [OF assms] a(1) by simp
  have entry: "q < length st' \<and> GetMedianTimePast st' q = GetMedianTimePast st q \<and> nBits (st' ! q) = nBits (st ! q) \<and>
      nHeight (st' ! q) = nHeight (st ! q)" if "q < length st" for q
    using extendsD(1) [OF assms(1) that] GetMedianTimePast_extends [OF assms(1,2) that]
      entry_core_eqD(4,9) [OF extendsD(2) [OF assms(1) that]] by simp
  show ?thesis
    using r a r' a' entry assms(4)
    by (cases a; cases r) (simp_all add: next_work_def split: option.splits)
qed

lemma GetNextWorkRequired_extends:
  assumes "extends st st'" and "wf_links st" and "wf_links st'" and "p < length st"
  shows "GetNextWorkRequired st' (Some p) params algo = GetNextWorkRequired st (Some p) params algo"
  using extendsD(1) [OF assms(1,4)] entry_core_eqD(4) [OF extendsD(2) [OF assms(1,4)]] assms(4)
  by (simp add: GetNextWorkRequired_def GetNextWorkRequiredV1_def GetNextWorkRequiredV2_def
      GetNextWorkRequiredV3_def next_work_extends [OF assms])

subsection \<open>Checked entries\<close>

text \<open>
  An entry with a predecessor is found under the hash of its header, and either its
  proof-of-work hash is that of the genesis block or it passes the check of the proof of work
  with the bits that the chain below it requires, at a time after the median of that chain.
\<close>

definition checked_entry :: "pow_hashes \<Rightarrow> Block_Params \<Rightarrow> block_store \<Rightarrow> CBlockIndex \<Rightarrow> bool" where
  "checked_entry H params st b \<longleftrightarrow>
     (case pprev b of
        None \<Rightarrow> True
      | Some q \<Rightarrow>
          map_option (CBlockHeader_GetHash H) (GetBlockHeader st b) = phashBlock b \<and>
          (GetBlockPoWHash H st b = Some (hashGenesisBlock params) \<or>
           map_option (\<lambda>hash. CheckProofOfWork hash (nBits b) (Params.truncate params)) (GetBlockPoWHash H st b) = Some True \<and>
           GetNextWorkRequired st (Some q) (Params.truncate params) (GetAlgo b) = Some (Inr (nBits b)) \<and>
           map_option (\<lambda>mtp. mtp < GetBlockTime b) (GetMedianTimePast st q) = Some True))"

lemma checked_entry_extends:
  assumes "extends st st'" and "wf_links st" and "wf_links st'" and "p < length st"
    and "checked_entry H params st (st ! p)"
  shows "checked_entry H params st' (st' ! p)"
proof (cases "pprev (st ! p)")
  case None
  then show ?thesis using entry_core_eqD(2) [OF extendsD(2) [OF assms(1,4)]] by (simp add: checked_entry_def)
next
  case (Some q)
  then have q: "q < length st" using wf_linkD(3) [OF assms(2,4)] by auto
  note d = extendsD(1) [OF assms(1) q] extendsD(1) [OF assms(1,4)]
  note c = entry_core_eqD [OF extendsD(2) [OF assms(1,4)]]
  note cq = entry_core_eqD(1) [OF extendsD(2) [OF assms(1) q]]
  have "GetBlockHeader st' (st' ! p) = GetBlockHeader st (st ! p)"
    using Some d q c cq by (simp add: GetBlockHeader_def GetBlockHash_def)
  then show ?thesis
    using assms(5) Some c GetNextWorkRequired_extends [OF assms(1-3) q] GetMedianTimePast_extends [OF assms(1,2) q]
    by (simp add: checked_entry_def GetBlockPoWHash_def GetAlgo_def GetBlockTime_def)
qed

definition headers_ok :: "pow_hashes \<Rightarrow> Block_Params \<Rightarrow> block_tree \<Rightarrow> bool" where
  "headers_ok H params bt \<longleftrightarrow> wf_tree bt \<and> list_all (checked_entry H params (bt_store bt)) (bt_store bt)"

lemma headers_okD:
  assumes "headers_ok H params bt"
  shows "wf_tree bt" and "p < length (bt_store bt) \<Longrightarrow> checked_entry H params (bt_store bt) (bt_store bt ! p)"
  using assms by (simp_all add: headers_ok_def list_all_length)

subsection \<open>Handlers that keep a relation between entries\<close>

text \<open>
  Apart from the addition of headers, the handlers assign to single entries.  A relation
  between an entry and its later value that every kind of assignment respects therefore
  relates the tree before and after each of them.
\<close>

definition entrywise :: "(CBlockIndex \<Rightarrow> CBlockIndex \<Rightarrow> bool) \<Rightarrow> block_tree \<Rightarrow> block_tree \<Rightarrow> bool" where
  "entrywise E bt bt' \<longleftrightarrow> list_all2 E (bt_store bt) (bt_store bt') \<and>
     mapBlockIndex bt' = mapBlockIndex bt \<and> pindexBestHeader bt' = pindexBestHeader bt"

lemma note_invalid_tree: "note_invalid p s = Some s' \<Longrightarrow> cs_tree s' = cs_tree s \<and> g_failed_blocks s' = g_failed_blocks s \<and> chainActive s' = chainActive s"
  by (auto simp: note_invalid_def split: bind_splits if_splits)

locale entry_order =
  fixes E :: "CBlockIndex \<Rightarrow> CBlockIndex \<Rightarrow> bool"
  assumes E_refl: "E b b" and E_trans: "E a b \<Longrightarrow> E b c \<Longrightarrow> E a c"
begin

lemma entrywise_refl: "entrywise E bt bt"
  by (simp add: entrywise_def list_all2_conv_all_nth E_refl)

lemma entrywise_trans: "entrywise E a b \<Longrightarrow> entrywise E b c \<Longrightarrow> entrywise E a c"
  by (auto simp: entrywise_def intro: list_all2_trans E_trans)

lemma entrywise_modify:
  assumes "E (bt_store bt ! p) (f (bt_store bt ! p))"
  shows "entrywise E bt (modify p f bt)" and "entrywise E bt (modify_dirty p f bt)"
proof -
  have "list_all2 E (bt_store bt) ((bt_store bt)[p := f (bt_store bt ! p)])"
    using assms
    by (cases "p < length (bt_store bt)") (auto simp: list_all2_conv_all_nth nth_list_update list_update_beyond E_refl)
  then show "entrywise E bt (modify p f bt)" "entrywise E bt (modify_dirty p f bt)"
    by (simp_all add: entrywise_def modify_def modify_dirty_def)
qed

end

text \<open>Relations that a reset of failure flags respects.\<close>

locale clear_relation = entry_order +
  assumes E_clear: "E b (clear_failed b)"
begin

lemma reset_descendants_entrywise:
  "reset_descendants pindex h ps s = Some s' \<Longrightarrow> entrywise E (cs_tree s) (cs_tree s') \<and> chainActive s' = chainActive s"
proof (induction ps arbitrary: s)
  case (Cons p ps)
  then obtain s1 where s1: "reset_descendant pindex h p s = Some s1" "reset_descendants pindex h ps s1 = Some s'"
    by (auto split: bind_splits)
  have "entrywise E (cs_tree s) (cs_tree s1) \<and> chainActive s1 = chainActive s"
    using s1(1) entrywise_modify(2) [where f = clear_failed, OF E_clear, of "cs_tree s" p]
    by (auto simp: reset_descendant_def Let_def entrywise_refl split: bind_splits if_splits)
  then show ?case using Cons.IH [OF s1(2)] entrywise_trans by metis
qed (simp add: entrywise_refl)

lemma reset_ancestors_entrywise: "reset_ancestors pindex bt = Some bt' \<Longrightarrow> entrywise E bt bt'"
proof (erule reset_ancestors.raw_induct [where P = "\<lambda>_ bt bt'. entrywise E bt bt'", rotated], goal_cases)
  case (1 reset pindex bt bt')
  show ?case
  proof (cases pindex)
    case (Some p)
    with 1(2) have "entrywise E
        (if nStatus (bt_store bt ! p) AND BLOCK_FAILED_MASK \<noteq> 0 then modify_dirty p clear_failed bt else bt) bt'"
      by (auto simp: deref_def dest: 1(1) split: bind_splits if_splits)
    then show ?thesis
      using entrywise_modify(2) [where f = clear_failed, OF E_clear, of bt p] by (auto intro: entrywise_trans split: if_splits)
  qed (use 1(2) entrywise_refl in simp)
qed

lemma ResetBlockFailureFlags_entrywise:
  "ResetBlockFailureFlags p s = Some s' \<Longrightarrow> entrywise E (cs_tree s) (cs_tree s') \<and> chainActive s' = chainActive s"
  by (auto simp: ResetBlockFailureFlags_def dest!: reset_descendants_entrywise reset_ancestors_entrywise
      intro: entrywise_trans split: bind_splits)

end

text \<open>Relations that the linking of blocks respects.\<close>

locale chain_relation = entry_order +
  assumes E_chain: "E b (b\<lparr>nChainTx := n, nSequenceId := i\<rparr>)"
begin

lemma link_queue_entrywise:
  "link_queue queue s = Some s' \<Longrightarrow> entrywise E (cs_tree s) (cs_tree s') \<and> g_failed_blocks s' = g_failed_blocks s \<and> chainActive s' = chainActive s"
proof (induction queue s rule: link_queue.induct)
  case (2 p queue s)
  obtain b n where b: "deref (cs_store s) p = Some b"
    "(case pprev b of None \<Rightarrow> Some 0 | Some q \<Rightarrow> map_option nChainTx (deref (cs_store s) q)) = Some n"
    using 2(2) by (auto simp: link_queue.simps split: bind_splits)
  define bt where "bt = modify p (\<lambda>b. b\<lparr>nChainTx := n + nTx b, nSequenceId := nBlockSequenceId s\<rparr>) (cs_tree s)"
  have "entrywise E (cs_tree s) bt" unfolding bt_def by (rule entrywise_modify) (rule E_chain)
  moreover have "entrywise E bt (cs_tree s') \<and> g_failed_blocks s' = g_failed_blocks s \<and> chainActive s' = chainActive s"
    using 2(1) [OF b bt_def refl] 2(2) b
    by (simp add: link_queue.simps bt_def [symmetric] Let_def cong: if_cong option.case_cong)
  ultimately show ?case using entrywise_trans by blast
qed (simp add: link_queue.simps entrywise_refl)

end

text \<open>Relations that all other assignments respect.\<close>

locale entry_relation = chain_relation +
  assumes E_fail: "E b (fail_with bits b)"
    and E_received: "RaiseValidity (received_entry k pos b) BLOCK_VALID_TRANSACTIONS = Some (b', changed) \<Longrightarrow> E b b'"
begin

lemmas entrywise_fail = entrywise_modify [where f = "fail_with bits" for bits, OF E_fail]

lemma mark_children_entrywise: "mark_children f q bt = Some bt' \<Longrightarrow> entrywise E bt bt'"
proof (erule mark_children.raw_induct [where P = "\<lambda>_ _ bt bt'. entrywise E bt bt'", rotated], goal_cases)
  case (1 mark f q bt bt')
  then have "entrywise E (modify_dirty q (fail_with BLOCK_FAILED_CHILD) bt) bt'" if "q \<noteq> f"
    using that by (auto split: bind_splits)
  then show ?case
    using 1(2) entrywise_fail(2) [of bt q BLOCK_FAILED_CHILD]
    by (cases "q = f") (auto intro: entrywise_trans entrywise_refl)
qed

lemma check_failed_blocks_entrywise:
  "check_failed_blocks q prev s = Some (r, s') \<Longrightarrow>
   entrywise E (cs_tree s) (cs_tree s') \<and> g_failed_blocks s' = g_failed_blocks s \<and> chainActive s' = chainActive s"
  by (auto simp: check_failed_blocks_def entrywise_refl dest: mark_children_entrywise
      split: bind_splits option.splits if_splits)

lemma InvalidBlockFound_entrywise: "InvalidBlockFound p c s = Some s' \<Longrightarrow> entrywise E (cs_tree s) (cs_tree s') \<and> chainActive s' = chainActive s"
  using entrywise_fail(2) [of "cs_tree s" p BLOCK_FAILED_VALID]
  by (auto simp: InvalidBlockFound_def InvalidChainFound_def entrywise_refl dest!: note_invalid_tree
      split: bind_splits if_splits)

lemma ReceivedBlockTransactions_entrywise:
  assumes "ReceivedBlockTransactions block p pos s = Some s'"
  shows "entrywise E (cs_tree s) (cs_tree s') \<and> g_failed_blocks s' = g_failed_blocks s \<and> chainActive s' = chainActive s"
proof -
  obtain b' changed where b: "p < length (cs_store s)"
    "RaiseValidity (received_entry (length (blk_vtx block)) pos (cs_store s ! p)) BLOCK_VALID_TRANSACTIONS = Some (b', changed)"
    using assms by (auto simp: ReceivedBlockTransactions_def deref_def split: bind_splits if_splits)
  define s1 where "s1 = s\<lparr>cs_tree := modify_dirty p (\<lambda>_. b') (cs_tree s)\<rparr>"
  have "entrywise E (cs_tree s) (cs_tree s1)"
    using E_received [OF b(2)] unfolding s1_def by (simp add: entrywise_modify)
  moreover have "entrywise E (cs_tree s1) (cs_tree s') \<and> g_failed_blocks s' = g_failed_blocks s1 \<and> chainActive s' = chainActive s1"
    using assms b unfolding ReceivedBlockTransactions_def
    by (auto simp: Let_def s1_def [symmetric] entrywise_refl dest!: link_queue_entrywise
        split: bind_splits option.splits if_splits)
  moreover have "g_failed_blocks s1 = g_failed_blocks s" "chainActive s1 = chainActive s" by (simp_all add: s1_def)
  ultimately show ?thesis using entrywise_trans by metis
qed

lemma drop_candidates_entrywise:
  "drop_candidates failed t p s = Some s' \<Longrightarrow> entrywise E (cs_tree s) (cs_tree s') \<and> g_failed_blocks s' = g_failed_blocks s \<and> chainActive s' = chainActive s"
proof (erule drop_candidates.raw_induct
    [where P = "\<lambda>_ _ _ s s'. entrywise E (cs_tree s) (cs_tree s') \<and> g_failed_blocks s' = g_failed_blocks s \<and> chainActive s' = chainActive s", rotated], goal_cases)
  case (1 drop failed t p s s')
  show ?case
  proof (cases "t = p")
    case False
    with 1 have "entrywise E
        (if failed then modify p (fail_with BLOCK_FAILED_CHILD) (cs_tree s) else cs_tree s) (cs_tree s') \<and>
        g_failed_blocks s' = g_failed_blocks s \<and> chainActive s' = chainActive s"
      by (auto split: bind_splits if_splits dest!: 1(1))
    then show ?thesis
      using entrywise_fail(1) [of "cs_tree s" p BLOCK_FAILED_CHILD]
      by (auto intro: entrywise_trans split: if_splits)
  qed (use 1(2) entrywise_refl in auto)
qed

lemma FindMostWorkChain_entrywise:
  "FindMostWorkChain s = Some r \<Longrightarrow>
   entrywise E (cs_tree s) (cs_tree (snd r)) \<and> g_failed_blocks (snd r) = g_failed_blocks s \<and> chainActive (snd r) = chainActive s"
proof (erule FindMostWorkChain.raw_induct
    [where P = "\<lambda>s r. entrywise E (cs_tree s) (cs_tree (snd r)) \<and> g_failed_blocks (snd r) = g_failed_blocks s \<and> chainActive (snd r) = chainActive s", rotated],
    goal_cases)
  case (1 find s r)
  then show ?case
    by (auto simp: Let_def entrywise_refl dest!: drop_candidates_entrywise note_invalid_tree dest: 1(1)
        intro: entrywise_trans split: bind_splits if_splits option.splits)
qed

end

text \<open>No handler changes the core of an entry, and only a reset clears the mark of a failed block.\<close>

lemma RaiseValidity_core: "RaiseValidity b v = Some (b', changed) \<Longrightarrow> entry_core b' = entry_core b"
  by (auto simp: RaiseValidity_def entry_core_def split: if_splits)

interpretation core: entry_order "\<lambda>b c. entry_core c = entry_core b"
  by unfold_locales simp_all

interpretation core: clear_relation "\<lambda>b c. entry_core c = entry_core b"
  by unfold_locales (simp add: entry_core_def clear_failed_def)

interpretation core: entry_relation "\<lambda>b c. entry_core c = entry_core b"
  by unfold_locales
    (simp_all add: entry_core_def fail_with_def received_entry_def RaiseValidity_core [unfolded entry_core_def])

definition failed_valid :: "CBlockIndex \<Rightarrow> bool" where
  "failed_valid b \<longleftrightarrow> bit (nStatus b) 5"

lemma failed_valid_iff: "nStatus b AND BLOCK_FAILED_VALID = 0 \<longleftrightarrow> \<not> failed_valid b"
proof -
  have "BLOCK_FAILED_VALID = push_bit 5 1" by (simp add: BLOCK_FAILED_VALID_def)
  then show ?thesis by (simp only: failed_valid_def bit_iff_and_push_bit_not_eq_0 not_not)
qed

interpretation failed: entry_relation "\<lambda>b c. failed_valid b \<longrightarrow> failed_valid c"
proof
  fix b b' :: CBlockIndex and n :: nat and pos :: CDiskBlockPos and changed :: bool
  assume "RaiseValidity (received_entry n pos b) BLOCK_VALID_TRANSACTIONS = Some (b', changed)"
  then show "failed_valid b \<longrightarrow> failed_valid b'"
    by (auto simp: RaiseValidity_def failed_valid_def received_entry_def BLOCK_VALID_MASK_def BLOCK_VALID_TRANSACTIONS_def
        bit_simps split: if_splits)
qed (auto simp: failed_valid_def fail_with_def bit_simps)

abbreviation same_headers :: "block_tree \<Rightarrow> block_tree \<Rightarrow> bool" where
  "same_headers \<equiv> entrywise (\<lambda>b c. entry_core c = entry_core b)"

lemma same_headersD:
  assumes "same_headers bt bt'"
  shows "length (bt_store bt') = length (bt_store bt)" and "extends (bt_store bt) (bt_store bt')"
    and "mapBlockIndex bt' = mapBlockIndex bt" and "pindexBestHeader bt' = pindexBestHeader bt"
proof -
  show len: "length (bt_store bt') = length (bt_store bt)"
    using assms by (auto simp: entrywise_def dest: list_all2_lengthD)
  show "extends (bt_store bt) (bt_store bt')"
    using assms len by (intro extends_same nth_equalityI) (auto simp: entrywise_def list_all2_conv_all_nth)
qed (use assms in \<open>simp_all add: entrywise_def\<close>)

lemma wf_tree_same:
  assumes "same_headers bt bt'" and "wf_tree bt"
  shows "wf_tree bt'"
proof -
  let ?st = "bt_store bt" and ?st' = "bt_store bt'"
  note len = same_headersD(1) [OF assms(1)] and ext = same_headersD(2) [OF assms(1)]
  note c = entry_core_eqD [OF extendsD(2) [OF ext]]
  have "same_links ?st ?st'" using len c by (auto simp: same_links_def intro!: nth_equalityI)
  then have "wf_store ?st'" using wf_treeD(1) [OF assms(2)] by (rule wf_store_same_links)
  moreover have "time_max_ok ?st'"
  proof -
    have "pprev (?st ! p) = Some q \<Longrightarrow> q < length ?st" if "p < length ?st" for p q
      using wf_linkD(3) [OF wf_store_links [OF wf_treeD(1) [OF assms(2)]] that] by blast
    then show ?thesis
      using wf_treeD(2) [OF assms(2)] len c by (auto simp: time_max_ok_def list_all_length split: option.splits)
  qed
  moreover have "list_all (\<lambda>b. length (nChainWork b) = 8) ?st'"
    using wf_treeD(3) [OF assms(2)] len c by (simp add: list_all_length)
  ultimately show ?thesis
    using assms(2) len c same_headersD(3,4) [OF assms(1)] by (auto simp: wf_tree_def valid_ptr_def split: option.splits)
qed

lemma headers_ok_same:
  assumes "same_headers bt bt'" and "headers_ok H params bt"
  shows "headers_ok H params bt'"
proof -
  note wf = headers_okD(1) [OF assms(2)]
  note wf' = wf_tree_same [OF assms(1) wf]
  note ext = same_headersD(2) [OF assms(1)]
  have "checked_entry H params (bt_store bt') (bt_store bt' ! p)" if "p < length (bt_store bt)" for p
    using checked_entry_extends [OF ext _ _ that headers_okD(2) [OF assms(2) that]] wf wf'
    by (simp add: wf_treeD(1) wf_store_links)
  then show ?thesis using wf' same_headersD(1) [OF assms(1)] by (simp add: headers_ok_def list_all_length)
qed

subsection \<open>Accepted headers\<close>

text \<open>What \<open>AcceptBlockHeader\<close> has checked of a header before it is added.\<close>

definition checked_header :: "pow_hashes \<Rightarrow> Block_Params \<Rightarrow> block_tree \<Rightarrow> CBlockHeader \<Rightarrow> bool" where
  "checked_header H params bt block \<longleftrightarrow>
     CBlockHeader_GetPOWHash H block (CBlockHeader_GetAlgo block) = hashGenesisBlock params \<or>
     CheckProofOfWork (CBlockHeader_GetPOWHash H block (CBlockHeader_GetAlgo block)) (hdr_nBits block) (Params.truncate params) \<and>
     (case mapBlockIndex bt (hdr_hashPrevBlock block) of
        None \<Rightarrow> True
      | Some q \<Rightarrow>
          GetNextWorkRequired (bt_store bt) (Some q) (Params.truncate params) (CBlockHeader_GetAlgo block) =
            Some (Inr (hdr_nBits block)) \<and>
          map_option (\<lambda>mtp. mtp < CBlockHeader_GetBlockTime block) (GetMedianTimePast (bt_store bt) q) = Some True)"

lemma header_hashes_cong:
  assumes "header_bytes h = header_bytes h'" and "hdr_hashPrevBlock h = hdr_hashPrevBlock h'"
  shows "CBlockHeader_GetHash H h = CBlockHeader_GetHash H h'"
    and "CBlockHeader_GetPOWHash H h algo = CBlockHeader_GetPOWHash H h' algo"
  using assms by (simp_all add: CBlockHeader_GetHash_def CBlockHeader_GetPOWHash_def CBlockHeader_GetSerializedHash_def)

lemma checked_entry_new:
  assumes wf: "wf_tree bt" and wf': "wf_links (bt_store bt @ [b])" and checked: "checked_header H params bt block"
    and b: "pprev b = mapBlockIndex bt (hdr_hashPrevBlock block)" "phashBlock b = Some (CBlockHeader_GetHash H block)"
      "nTime b = hdr_nTime block" "nBits b = hdr_nBits block" "nVersion b = hdr_nVersion block"
      "hashMerkleRoot b = hdr_hashMerkleRoot block" "nNonce b = hdr_nNonce block"
  shows "checked_entry H params (bt_store bt @ [b]) b"
proof (cases "pprev b")
  case (Some q)
  let ?st = "bt_store bt" and ?st' = "bt_store bt @ [b]"
  have q: "q < length ?st" "GetBlockHash (?st ! q) = hdr_hashPrevBlock block"
    using wf_treeD(4) [OF wf, of "hdr_hashPrevBlock block" q] Some b(1) by (simp_all add: GetBlockHash_def)
  note wl = wf_store_links [OF wf_treeD(1) [OF wf]]
  define h where "h = block\<lparr>hdr_hash := blob_null 32\<rparr>"
  have hdr: "GetBlockHeader ?st' b = Some h"
    using Some q b by (simp add: GetBlockHeader_def h_def nth_append)
  have hb: "header_bytes h = header_bytes block" "hdr_hashPrevBlock h = hdr_hashPrevBlock block"
    "hdr_nVersion h = hdr_nVersion block"
    by (simp_all add: header_bytes_def h_def)
  show ?thesis
    using checked Some b q GetNextWorkRequired_extends [OF extends_append wl wf' q(1)]
      GetMedianTimePast_extends [OF extends_append wl q(1)]
    by (auto simp: checked_entry_def checked_header_def hdr GetBlockPoWHash_def hb header_hashes_cong [OF hb(1,2)]
        GetAlgo_def GetBlockTime_def CBlockHeader_GetAlgo_def CBlockHeader_GetBlockTime_def)
qed (simp add: checked_entry_def)

lemma add_header_ok:
  assumes ok: "headers_ok (he_hashes env) (he_params env) (cs_tree s)"
    and ne: "CBlockHeader_GetHash (he_hashes env) block \<noteq> hdr_hashPrevBlock block"
    and params: "wf_pow_params (Params.truncate (he_params env))" "limit_val (Params.truncate (he_params env)) + 1 < 2 ^ 256"
    and status: "status = BLOCK_VALID_TREE \<or> status = BLOCK_CONFLICT_CHAINLOCK"
    and checked: "checked_header (he_hashes env) (he_params env) (cs_tree s) block"
  obtains p bt where "add_header env block status s = Some (Inr p, s\<lparr>cs_tree := bt\<rparr>)"
    and "headers_ok (he_hashes env) (he_params env) bt" and "\<exists>bs. bt_store bt = cs_store s @ bs"
    and "mapBlockIndex bt (CBlockHeader_GetHash (he_hashes env) block) = Some p"
proof -
  let ?H = "he_hashes env" and ?P = "he_params env" and ?st = "cs_store s"
  note wf = headers_okD(1) [OF ok]
  obtain bt p where add: "AddToBlockIndex ?H (Params.truncate ?P) (cs_tree s) block status = Some (Inr (bt, p))"
    "wf_tree bt" "mapBlockIndex bt (CBlockHeader_GetHash ?H block) = Some p"
    using AddToBlockIndex_wf [OF wf ne params status] by blast
  have "headers_ok ?H ?P bt \<and> (\<exists>bs. bt_store bt = ?st @ bs)"
  proof (cases "mapBlockIndex (cs_tree s) (CBlockHeader_GetHash ?H block)")
    case (Some q)
    then have "bt = cs_tree s" using add(1) by (simp add: AddToBlockIndex_def)
    then show ?thesis using ok by simp
  next
    case None
    obtain bt' b where new: "AddToBlockIndex ?H (Params.truncate ?P) (cs_tree s) block status = Some (Inr (bt', length ?st))"
      "bt_store bt' = ?st @ [b]" "wf_store (?st @ [b])" "phashBlock b = Some (CBlockHeader_GetHash ?H block)"
      "pprev b = mapBlockIndex (cs_tree s) (hdr_hashPrevBlock block)"
      "nTime b = hdr_nTime block" "nBits b = hdr_nBits block" "nVersion b = hdr_nVersion block"
      "hashMerkleRoot b = hdr_hashMerkleRoot block" "nNonce b = hdr_nNonce block"
      using wf ne None params status by (rule AddToBlockIndex_new)
    then have st: "bt_store bt = ?st @ [b]" using add(1) by simp
    note wl = wf_store_links [OF wf_treeD(1) [OF wf]] wf_store_links [OF new(3)]
    have "checked_entry ?H ?P (?st @ [b]) (?st ! p)" if "p < length ?st" for p
      using checked_entry_extends [OF extends_append wl that headers_okD(2) [OF ok that]] that by (simp add: nth_append)
    moreover have "checked_entry ?H ?P (?st @ [b]) b"
      using wf wl(2) checked new(5,4) new(6-) by (rule checked_entry_new)
    ultimately show ?thesis
      using add(2) st by (auto simp: headers_ok_def list_all_length nth_append less_Suc_eq)
  qed
  then show ?thesis using add by (intro that) (simp_all add: add_header_def)
qed

lemma ContextualCheckBlockHeader_ok:
  assumes "ContextualCheckBlockHeader st params block q checkpoint time = None"
  shows "GetNextWorkRequired st (Some q) (Params.truncate params) (CBlockHeader_GetAlgo block) = Some (Inr (hdr_nBits block))"
    and "map_option (\<lambda>mtp. mtp < CBlockHeader_GetBlockTime block) (GetMedianTimePast st q) = Some True"
  using assms by (auto simp: ContextualCheckBlockHeader_def split: option.splits sum.splits if_splits)

lemma CheckBlockHeader_pow:
  "CheckBlockHeader H params block True = None \<Longrightarrow>
   CheckProofOfWork (CBlockHeader_GetPOWHash H block (CBlockHeader_GetAlgo block)) (hdr_nBits block) (Params.truncate params)"
  by (auto simp: CheckBlockHeader_def split: if_splits)

lemma checked_header_same:
  assumes "same_headers bt bt'" and "wf_tree bt" and "checked_header H params bt block"
  shows "checked_header H params bt' block"
proof (cases "mapBlockIndex bt (hdr_hashPrevBlock block)")
  case (Some q)
  have q: "q < length (bt_store bt)" using wf_treeD(4) [OF assms(2) Some] by simp
  note ext = same_headersD(2) [OF assms(1)]
  note wl = wf_store_links [OF wf_treeD(1) [OF assms(2)]] wf_store_links [OF wf_treeD(1) [OF wf_tree_same [OF assms(1,2)]]]
  show ?thesis
    using assms(3) Some same_headersD(3) [OF assms(1)] GetNextWorkRequired_extends [OF ext wl q] GetMedianTimePast_extends [OF ext wl(1) q]
    by (simp add: checked_header_def)
qed (use assms(3) same_headersD(3) [OF assms(1)] in \<open>simp add: checked_header_def\<close>)

text \<open>A state in which the marks of the failed blocks are set.\<close>

definition failed_marked :: "chain_state \<Rightarrow> bool" where
  "failed_marked s \<longleftrightarrow> finite (g_failed_blocks s) \<and>
     (\<forall>p \<in> g_failed_blocks s. p < length (cs_store s) \<and> failed_valid (cs_store s ! p))"

lemma failed_marked_entrywise:
  assumes "entrywise (\<lambda>b c. failed_valid b \<longrightarrow> failed_valid c) (cs_tree s) (cs_tree s')" and "g_failed_blocks s' = g_failed_blocks s"
    and "failed_marked s"
  shows "failed_marked s'"
  using assms by (auto simp: failed_marked_def entrywise_def list_all2_conv_all_nth)

lemma find_failed_total:
  assumes "wf_store st" and "p < length st" and "\<forall>f \<in> set fs. f < length st"
  obtains r where "find_failed st p fs = Some r"
    and "\<And>f. r = Some f \<Longrightarrow> f \<in> set fs \<and> GetAncestor st p (nHeight (st ! f)) = Some (Some f)"
proof -
  have "\<exists>r. find_failed st p fs = Some r \<and>
    (\<forall>f. r = Some f \<longrightarrow> f \<in> set fs \<and> GetAncestor st p (nHeight (st ! f)) = Some (Some f))"
    using assms(3)
  proof (induction fs)
    case (Cons f fs)
    obtain a where "GetAncestor st p (nHeight (st ! f)) = Some a"
      using GetAncestor_correct [OF assms(1,2), of "nHeight (st ! f)"] by (cases "0 \<le> nHeight (st ! f)") auto
    with Cons show ?case by (cases "a = Some f") auto
  qed simp
  with that show ?thesis by blast
qed

lemma mark_children_total:
  assumes "wf_tree bt" and "q < length (bt_store bt)" and "f < length (bt_store bt)"
    and "ancestor_at (bt_store bt) q (nHeight (bt_store bt ! f)) = Some f"
    and "nHeight (bt_store bt ! f) \<le> nHeight (bt_store bt ! q)"
  shows "\<exists>bt'. mark_children f q bt = Some bt'"
  using assms
proof (induction "nat (nHeight (bt_store bt ! q) - nHeight (bt_store bt ! f))" arbitrary: q bt rule: less_induct)
  case less
  let ?st = "bt_store bt"
  note wl = wf_store_links [OF wf_treeD(1) [OF less.prems(1)]]
  show ?case
  proof (cases "q = f")
    case False
    have lt: "nHeight (?st ! f) < nHeight (?st ! q)"
      using False less.prems(4,5) ancestor_at_self [OF less.prems(2)] by (cases "nHeight (?st ! f) = nHeight (?st ! q)") auto
    have "nHeight (?st ! q) \<noteq> 0" using lt wf_linkD(1) [OF wl less.prems(3)] by linarith
    then obtain r where r: "pprev (?st ! q) = Some r" using wf_linkD(2) [OF wl less.prems(2)] by blast
    have r': "r < length ?st" "nHeight (?st ! r) = nHeight (?st ! q) - 1"
      using wf_linkD(3) [OF wl less.prems(2) r] by auto
    define bt1 where "bt1 = modify_dirty q (fail_with BLOCK_FAILED_CHILD) bt"
    have same: "same_headers bt bt1" unfolding bt1_def by (rule core.entrywise_fail)
    note c = entry_core_eqD [OF extendsD(2) [OF same_headersD(2) [OF same]]]
    have "map pprev (bt_store bt1) = map pprev ?st"
      using same_headersD(1) [OF same] c(2) by (auto intro!: nth_equalityI)
    then have "ancestor_at (bt_store bt1) r h = ancestor_at ?st r h" for h
      using pprev_n_cong [of "bt_store bt1" ?st] same_headersD(1) [OF same] c(4) [OF r'(1)] r'(1) by (simp add: ancestor_at_def)
    moreover have "ancestor_at ?st r (nHeight (?st ! f)) = Some f"
      using ancestor_at_trans [OF wl less.prems(2) ancestor_at_prev [OF wl less.prems(2) r], of "nHeight (?st ! f)"]
        less.prems(4) lt wf_linkD(1) [OF wl less.prems(3)] by simp
    ultimately have "\<exists>bt'. mark_children f r bt1 = Some bt'"
      using less.hyps [of bt1 r] lt r' c(4) [OF r'(1)] c(4) [OF less.prems(3)] less.prems(3)
        wf_tree_same [OF same less.prems(1)] same_headersD(1) [OF same] by simp
    then show ?thesis using False less.prems(2) r by (subst mark_children.simps) (simp add: bt1_def)
  qed (simp add: mark_children.simps)
qed

lemma IsValid_total:
  "\<exists>v. IsValid b BLOCK_VALID_TRANSACTIONS = Some v" "\<exists>v. IsValid b BLOCK_VALID_SCRIPTS = Some v"
  by (auto simp: IsValid_def BLOCK_VALID_SCRIPTS_def BLOCK_VALID_TRANSACTIONS_def BLOCK_VALID_MASK_def)

lemma check_failed_blocks_total:
  assumes "wf_tree (cs_tree s)" and "failed_marked s" and "q < length (cs_store s)"
  shows "\<exists>r s'. check_failed_blocks q (cs_store s ! q) s = Some (r, s') \<and> (r = None \<or> r = Some (Reject 100 ''bad-prevblk''))"
proof -
  let ?st = "cs_store s"
  note wf = wf_treeD(1) [OF assms(1)]
  obtain valid where valid: "IsValid (?st ! q) BLOCK_VALID_SCRIPTS = Some valid"
    using IsValid_total(2) by blast
  have "\<forall>f \<in> set (sorted_list_of_set (g_failed_blocks s)). f < length ?st"
    using assms(2) by (simp add: failed_marked_def)
  then obtain r where r: "find_failed ?st q (sorted_list_of_set (g_failed_blocks s)) = Some r"
    and f: "\<And>f. r = Some f \<Longrightarrow> f \<in> g_failed_blocks s \<and> GetAncestor ?st q (nHeight (?st ! f)) = Some (Some f)"
    using find_failed_total [OF wf assms(3)] assms(2) by (metis failed_marked_def set_sorted_list_of_set)
  have "\<exists>bt. mark_children f q (cs_tree s) = Some bt" "failed_valid (?st ! f)" if "r = Some f" for f
  proof -
    show "failed_valid (?st ! f)" using f [OF that] assms(2) by (simp add: failed_marked_def)
    have "f < length ?st" using f [OF that] assms(2) by (simp add: failed_marked_def)
    moreover have "ancestor_at ?st q (nHeight (?st ! f)) = Some f" "nHeight (?st ! f) \<le> nHeight (?st ! q)"
      using f [OF that] GetAncestor_correct [OF wf assms(3), of "nHeight (?st ! f)"]
      by (auto split: if_splits)
    ultimately show "\<exists>bt. mark_children f q (cs_tree s) = Some bt"
      using mark_children_total [OF assms(1,3)] by blast
  qed
  then show ?thesis
    using valid r by (cases valid; cases r) (auto simp: check_failed_blocks_def failed_valid_iff)
qed

text \<open>What a call of \<open>AcceptBlockHeader\<close> that returns can have done.\<close>

lemma check_failed_blocks_None: "check_failed_blocks q prev s = Some (None, s') \<Longrightarrow> s' = s"
  by (auto simp: check_failed_blocks_def split: bind_splits option.splits if_splits)

lemma AcceptBlockHeader_cases:
  assumes accept: "AcceptBlockHeader env block s = Some (r, s')"
  obtains (same) "s' = s"
    | (failed) q prev e where "check_failed_blocks q prev s = Some (Some e, s')"
    | (add) status r' where "add_header env block status s = Some (r', s')"
        and "status = BLOCK_VALID_TREE \<or> status = BLOCK_CONFLICT_CHAINLOCK"
        and "checked_header (he_hashes env) (he_params env) (cs_tree s) block"
proof (cases "CBlockHeader_GetPOWHash (he_hashes env) block (CBlockHeader_GetAlgo block) = hashGenesisBlock (he_params env)")
  case True
  with accept show ?thesis by (intro add [of BLOCK_VALID_TREE r]) (simp_all add: AcceptBlockHeader_def checked_header_def)
next
  case False
  show ?thesis
  proof (cases "mapBlockIndex (cs_tree s) (CBlockHeader_GetPOWHash (he_hashes env) block (CBlockHeader_GetAlgo block)) = None \<and>
      CheckBlockHeader (he_hashes env) (he_params env) block True = None")
    case known: False
    with False accept show ?thesis
      by (intro same) (auto simp: AcceptBlockHeader_def Let_def split: bind_splits option.splits)
  next
    case new: True
    note pow = CheckBlockHeader_pow [OF conjunct2 [OF new]]
    show ?thesis
    proof (cases "mapBlockIndex (cs_tree s) (hdr_hashPrevBlock block)")
      case None
      with new False accept show ?thesis by (intro same) (simp add: AcceptBlockHeader_def)
    next
      case (Some q)
      show ?thesis
      proof (cases "ContextualCheckBlockHeader (cs_store s) (he_params env) block q (he_checkpoint env) (he_adjusted_time env)")
        case None
        have checked: "checked_header (he_hashes env) (he_params env) (cs_tree s) block"
          using pow Some ContextualCheckBlockHeader_ok [OF None] by (simp add: checked_header_def)
        show ?thesis
          using new False accept Some None
          by (auto simp: AcceptBlockHeader_def dest!: check_failed_blocks_None intro: same failed add [OF _ _ checked]
              split: bind_splits option.splits if_splits)
      qed (use new False accept Some in \<open>auto simp: AcceptBlockHeader_def intro: same split: bind_splits if_splits\<close>)
    qed
  qed
qed

lemma AcceptBlockHeader_ok:
  assumes ok: "headers_ok (he_hashes env) (he_params env) (cs_tree s)"
    and ne: "CBlockHeader_GetHash (he_hashes env) block \<noteq> hdr_hashPrevBlock block"
    and params: "wf_pow_params (Params.truncate (he_params env))" "limit_val (Params.truncate (he_params env)) + 1 < 2 ^ 256"
    and accept: "AcceptBlockHeader env block s = Some (r, s')"
  shows "headers_ok (he_hashes env) (he_params env) (cs_tree s')" and "failed_marked s \<Longrightarrow> failed_marked s'"
proof -
  have "headers_ok (he_hashes env) (he_params env) (cs_tree s') \<and> (failed_marked s \<longrightarrow> failed_marked s')"
    using accept
  proof (cases rule: AcceptBlockHeader_cases)
    case (failed q prev e)
    from core.check_failed_blocks_entrywise [OF this] failed.check_failed_blocks_entrywise [OF this]
    show ?thesis using headers_ok_same [OF _ ok] failed_marked_entrywise by blast
  next
    case (add status r')
    obtain p bt where "add_header env block status s = Some (Inr p, s\<lparr>cs_tree := bt\<rparr>)"
      "headers_ok (he_hashes env) (he_params env) bt" "\<exists>bs. bt_store bt = cs_store s @ bs"
      using ok ne params add(2,3) by (rule add_header_ok)
    with add(1) show ?thesis by (fastforce simp: failed_marked_def nth_append)
  qed (use ok in simp)
  then show "headers_ok (he_hashes env) (he_params env) (cs_tree s')" "failed_marked s \<Longrightarrow> failed_marked s'" by simp_all
qed

lemma header_checks_reject:
  "CheckBlockHeader H params block pow = Some e \<Longrightarrow> \<exists>dos reason. e = Reject dos reason"
  "wf_links st \<Longrightarrow> q < length st \<Longrightarrow> wf_pow_params (Params.truncate params) \<Longrightarrow>
   ContextualCheckBlockHeader st params block q checkpoint time = Some e \<Longrightarrow> \<exists>dos reason. e = Reject dos reason"
proof -
  show "CheckBlockHeader H params block pow = Some e \<Longrightarrow> \<exists>dos reason. e = Reject dos reason"
    by (auto simp: CheckBlockHeader_def split: if_splits)
  assume a: "wf_links st" "q < length st" "wf_pow_params (Params.truncate params)"
  obtain c where "GetNextWorkRequired st (Some q) (Params.truncate params) (CBlockHeader_GetAlgo block) = Some (Inr c)"
    using GetNextWorkRequired_valid [OF a(1) _ a(3), of "Some q"] a(2) by auto
  moreover assume "ContextualCheckBlockHeader st params block q checkpoint time = Some e"
  ultimately show "\<exists>dos reason. e = Reject dos reason"
    using a GetMedianTimePast_recent [OF a(1,2)]
    by (auto simp: ContextualCheckBlockHeader_def Let_def split: if_splits)
qed

text \<open>With the marks of the failed blocks in place, the handler returns and no assertion fails.\<close>

definition rejects :: "((check_error + block_id) \<times> chain_state) option \<Rightarrow> bool" where
  "rejects r \<longleftrightarrow> (case r of Some (Inl (Reject _ _), _) \<Rightarrow> True | _ \<Rightarrow> False)"

definition accepts :: "((check_error + block_id) \<times> chain_state) option \<Rightarrow> bool" where
  "accepts r \<longleftrightarrow> (case r of Some (Inr p, s) \<Rightarrow> p < length (cs_store s) | _ \<Rightarrow> False)"

lemma accepts_simps [simp]:
  "accepts (Some (Inr p, s)) \<longleftrightarrow> p < length (cs_store s)" "\<not> accepts None" "\<not> accepts (Some (Inl e, s))"
  "rejects (Some (Inl (Reject dos reason), s))"
  by (simp_all add: accepts_def rejects_def)

lemma acceptsE:
  assumes "accepts r"
  obtains p s where "r = Some (Inr p, s)" and "p < length (cs_store s)"
proof (cases r)
  case (Some x)
  then show ?thesis using assms that by (cases x; cases "fst x") auto
qed (use assms in simp)

lemma add_header_accepts:
  assumes "headers_ok (he_hashes env) (he_params env) (cs_tree s)"
    and "CBlockHeader_GetHash (he_hashes env) block \<noteq> hdr_hashPrevBlock block"
    and "wf_pow_params (Params.truncate (he_params env))" "limit_val (Params.truncate (he_params env)) + 1 < 2 ^ 256"
    and "status = BLOCK_VALID_TREE \<or> status = BLOCK_CONFLICT_CHAINLOCK"
    and "checked_header (he_hashes env) (he_params env) (cs_tree s) block"
  shows "accepts (add_header env block status s)"
proof -
  obtain p bt where "add_header env block status s = Some (Inr p, s\<lparr>cs_tree := bt\<rparr>)"
    and "headers_ok (he_hashes env) (he_params env) bt"
    and "mapBlockIndex bt (CBlockHeader_GetHash (he_hashes env) block) = Some p"
    using assms by (rule add_header_ok)
  then show ?thesis using wf_treeD(4) [OF headers_okD(1)] by auto
qed

lemma AcceptBlockHeader_total:
  assumes ok: "headers_ok (he_hashes env) (he_params env) (cs_tree s)" and marked: "failed_marked s"
    and ne: "CBlockHeader_GetHash (he_hashes env) block \<noteq> hdr_hashPrevBlock block"
    and params: "wf_pow_params (Params.truncate (he_params env))" "limit_val (Params.truncate (he_params env)) + 1 < 2 ^ 256"
  shows "accepts (AcceptBlockHeader env block s) \<or> rejects (AcceptBlockHeader env block s)"
proof (cases "CBlockHeader_GetPOWHash (he_hashes env) block (CBlockHeader_GetAlgo block) = hashGenesisBlock (he_params env)")
  case True
  then have "checked_header (he_hashes env) (he_params env) (cs_tree s) block" by (simp add: checked_header_def)
  with True show ?thesis using add_header_accepts [OF ok ne params] by (simp add: AcceptBlockHeader_def)
next
  case new: False
  let ?hash = "CBlockHeader_GetPOWHash (he_hashes env) block (CBlockHeader_GetAlgo block)"
  note wf = headers_okD(1) [OF ok]
  note wl = wf_store_links [OF wf_treeD(1) [OF wf]]
  note map = wf_treeD(4) [OF wf]
  show ?thesis
  proof (cases "mapBlockIndex (cs_tree s) ?hash = None \<and> CheckBlockHeader (he_hashes env) (he_params env) block True = None")
    case False
    show ?thesis
    proof (cases "mapBlockIndex (cs_tree s) ?hash")
      case None
      with False obtain e where e: "CheckBlockHeader (he_hashes env) (he_params env) block True = Some e" by auto
      with None new header_checks_reject(1) [OF e] show ?thesis by (auto simp: AcceptBlockHeader_def)
    qed (use new map in \<open>simp add: AcceptBlockHeader_def\<close>)
  next
    case checked: True
    show ?thesis
    proof (cases "mapBlockIndex (cs_tree s) (hdr_hashPrevBlock block)")
      case None
      with new checked show ?thesis by (simp add: AcceptBlockHeader_def)
    next
      case (Some q)
      then have q: "q < length (cs_store s)" using map by blast
      show ?thesis
      proof (cases "ContextualCheckBlockHeader (cs_store s) (he_params env) block q (he_checkpoint env) (he_adjusted_time env)")
        case ctx: None
        have "checked_header (he_hashes env) (he_params env) (cs_tree s) block"
          using CheckBlockHeader_pow [OF conjunct2 [OF checked]] Some ContextualCheckBlockHeader_ok [OF ctx]
          by (simp add: checked_header_def)
        note add = add_header_accepts [OF ok ne params disjI1 [OF refl] this] add_header_accepts [OF ok ne params disjI2 [OF refl] this]
        obtain r s' where cf: "check_failed_blocks q (cs_store s ! q) s = Some (r, s')"
            "r = None \<or> r = Some (Reject 100 ''bad-prevblk'')"
          using check_failed_blocks_total [OF wf marked q] by blast
        obtain p s2 where conf: "add_header env block BLOCK_CONFLICT_CHAINLOCK s = Some (Inr p, s2)"
          using add(2) by (rule acceptsE)
        show ?thesis
          using cf(2)
        proof
          assume "r = None"
          then have "s' = s" using cf(1) check_failed_blocks_None by blast
          with \<open>r = None\<close> show ?thesis using new checked Some q ctx cf(1) add(1) conf by (simp add: AcceptBlockHeader_def)
        qed (use new checked Some q ctx cf(1) in \<open>simp add: AcceptBlockHeader_def\<close>)
      next
        case ctx: (Some e)
        obtain dos reason where "e = Reject dos reason" using header_checks_reject(2) [OF wl q params(1) ctx] by blast
        then show ?thesis using new checked Some q ctx by (auto simp: AcceptBlockHeader_def)
      qed
    qed
  qed
qed

end
