(* ===== verification/Chain_Events.thy ===== *)
theory Chain_Events
  imports Chain_State_Props
begin

text \<open>
  Sequences of the events that change the block tree, as a step relation, with what holds in
  every state they reach; and what the reset of failure flags does to the headers that follow.
\<close>

unbundle bit_operations_syntax

subsection \<open>Reachable states\<close>

definition initial_state :: chain_state where
  "initial_state =
     \<lparr>cs_tree = \<lparr>bt_store = [], mapBlockIndex = Map.empty, mapPrevBlockIndex = [], pindexBestHeader = None,
        setDirtyBlockIndex = {}\<rparr>,
      chainActive = [], pindexBestInvalid = None, setBlockIndexCandidates = [], mapBlocksUnlinked = [],
      nBlockSequenceId = 1, g_failed_blocks = {}\<rparr>"

text \<open>
  A header arrives, a block's transactions arrive, a block is found invalid, the flags of a
  failed block are reset (only if \<open>resets\<close>), the best candidate is looked for, the tip moves,
  and worse candidates are dropped.  The clock, the checkpoint and the chain locks may differ
  at every header; no header is assumed to hash to its own predecessor.
\<close>

inductive reachable :: "pow_hashes \<Rightarrow> Block_Params \<Rightarrow> bool \<Rightarrow> chain_state \<Rightarrow> bool" for H params resets where
  start: "reachable H params resets initial_state"
| header: "reachable H params resets s \<Longrightarrow> he_hashes env = H \<Longrightarrow> he_params env = params \<Longrightarrow>
    CBlockHeader_GetHash H block \<noteq> hdr_hashPrevBlock block \<Longrightarrow>
    AcceptBlockHeader env block s = Some (r, s') \<Longrightarrow> reachable H params resets s'"
| transactions: "reachable H params resets s \<Longrightarrow> ReceivedBlockTransactions blk p pos s = Some s' \<Longrightarrow>
    reachable H params resets s'"
| invalid: "reachable H params resets s \<Longrightarrow> InvalidBlockFound p corrupt s = Some s' \<Longrightarrow> reachable H params resets s'"
| reset: "reachable H params resets s \<Longrightarrow> resets \<Longrightarrow> ResetBlockFailureFlags p s = Some s' \<Longrightarrow> reachable H params resets s'"
| most_work: "reachable H params resets s \<Longrightarrow> FindMostWorkChain s = Some (found, s') \<Longrightarrow> reachable H params resets s'"
| tip: "reachable H params resets s \<Longrightarrow> SetTip (cs_store s) (chainActive s) (Some p) = Some vChain \<Longrightarrow>
    reachable H params resets (s\<lparr>chainActive := vChain\<rparr>)"
| prune: "reachable H params resets s \<Longrightarrow> PruneBlockIndexCandidates s = Some s' \<Longrightarrow> reachable H params resets s'"

inductive_cases reachable_stepE: "reachable H params resets s"

text \<open>The active chain stays the path to its tip when the tree grows.\<close>

lemma ancestor_at_extends:
  assumes "extends st st'" and "wf_links st" and "p < length st"
  shows "ancestor_at st' p h = ancestor_at st p h"
proof -
  have "pprev_n st' n p = pprev_n st n p" for n
    using assms(3)
  proof (induction n arbitrary: p)
    case (Suc n)
    then show ?case
      using extendsD [OF assms(1) Suc.prems] entry_core_eqD(2) [OF extendsD(2) [OF assms(1) Suc.prems]]
        wf_linkD(3) [OF assms(2) Suc.prems] by (cases "pprev (st ! p)") simp_all
  qed simp
  then show ?thesis
    using assms(3) extendsD [OF assms(1,3)] entry_core_eqD(4) [OF extendsD(2) [OF assms(1,3)]] by (simp add: ancestor_at_def)
qed

lemma chain_ok_extends:
  assumes "extends st st'" and "wf_links st" and "chain_ok st vChain"
  shows "chain_ok st' vChain"
proof (cases "Tip vChain")
  case (Some p)
  then have p: "p < length st" "on_chain st vChain p" using assms(3) by (simp_all add: chain_ok_def)
  then show ?thesis
    using Some extendsD [OF assms(1) p(1)] entry_core_eqD(4) [OF extendsD(2) [OF assms(1) p(1)]]
      ancestor_at_extends [OF assms(1,2) p(1)] by (simp add: chain_ok_def on_chain_def)
qed (use assms(3) in \<open>simp add: chain_ok_def\<close>)

lemma AcceptBlockHeader_extends:
  assumes ok: "headers_ok (he_hashes env) (he_params env) (cs_tree s)"
    and ne: "CBlockHeader_GetHash (he_hashes env) block \<noteq> hdr_hashPrevBlock block"
    and params: "wf_pow_params (Params.truncate (he_params env))" "limit_val (Params.truncate (he_params env)) + 1 < 2 ^ 256"
    and accept: "AcceptBlockHeader env block s = Some (r, s')"
  shows "extends (cs_store s) (cs_store s') \<and> chainActive s' = chainActive s"
  using accept
proof (cases rule: AcceptBlockHeader_cases)
  case (failed q prev e)
  then show ?thesis using core.check_failed_blocks_entrywise same_headersD(2) by blast
next
  case (add status r')
  obtain p bt where "add_header env block status s = Some (Inr p, s\<lparr>cs_tree := bt\<rparr>)" "\<exists>bs. bt_store bt = cs_store s @ bs"
    using ok ne params add(2,3) by (rule add_header_ok)
  with add(1) show ?thesis by (auto simp: extends_def)
qed (simp add: extends_def)

text \<open>What every reachable state satisfies.\<close>

definition sound_state :: "pow_hashes \<Rightarrow> Block_Params \<Rightarrow> chain_state \<Rightarrow> bool" where
  "sound_state H params s \<longleftrightarrow> headers_ok H params (cs_tree s) \<and> chain_ok (cs_store s) (chainActive s)"

lemma sound_state_same:
  assumes "same_headers (cs_tree s) (cs_tree s') \<and> chainActive s' = chainActive s" and "sound_state H params s"
  shows "sound_state H params s'"
proof -
  have same: "same_headers (cs_tree s) (cs_tree s')" using assms(1) by simp
  have ok: "headers_ok H params (cs_tree s)" using assms(2) by (simp add: sound_state_def)
  then show ?thesis
    using chain_ok_extends [OF same_headersD(2) [OF same] wf_store_links [OF wf_treeD(1) [OF headers_okD(1) [OF ok]]]]
      headers_ok_same [OF same ok] assms by (simp add: sound_state_def)
qed

lemma reachable_sound_state:
  assumes "reachable H params resets s"
    and params: "wf_pow_params (Params.truncate params)" "limit_val (Params.truncate params) + 1 < 2 ^ 256"
  shows "sound_state H params s"
  using assms(1)
proof induction
  case start
  show ?case
    by (simp add: initial_state_def sound_state_def headers_ok_def wf_tree_def wf_store_def wf_links_def time_max_ok_def
        chain_ok_def Tip_def)
next
  case (header s env block r s')
  note wl = wf_store_links [OF wf_treeD(1) [OF headers_okD(1)]]
  show ?case
    using header params AcceptBlockHeader_ok(1) [of env s block r s'] AcceptBlockHeader_extends [of env s block r s']
      chain_ok_extends [OF _ wl] by (auto simp: sound_state_def)
next
  case (transactions s blk p pos s')
  then show ?case using core.ReceivedBlockTransactions_entrywise sound_state_same by blast
next
  case (invalid s p corrupt s')
  then show ?case using core.InvalidBlockFound_entrywise sound_state_same by blast
next
  case (reset s p s')
  then show ?case using core.ResetBlockFailureFlags_entrywise sound_state_same by blast
next
  case (most_work s found s')
  then show ?case using core.FindMostWorkChain_entrywise [OF most_work.hyps(2)] sound_state_same [of s s'] by simp
next
  case (tip s p vChain)
  then have s: "wf_links (cs_store s)" "chain_ok (cs_store s) (chainActive s)" "p < length (cs_store s)"
    by (auto simp: sound_state_def SetTip_def deref_def split: bind_splits if_splits
        intro: wf_store_links dest: headers_okD(1) wf_treeD(1))
  then have "on_chain (cs_store s) vChain p" using SetTip_on_chain [OF s] tip.hyps(2) by simp
  then have "chain_ok (cs_store s) vChain" using on_chain_Tip [OF s(1,3)] s(3) by (simp add: chain_ok_def)
  then show ?case using tip.IH by (simp add: sound_state_def)
next
  case (prune s s')
  then show ?case by (auto simp: PruneBlockIndexCandidates_def sound_state_def Let_def split: option.splits if_splits)
qed

lemma InvalidBlockFound_marked:
  assumes "InvalidBlockFound p corrupt s = Some s'" and "failed_marked s"
  shows "failed_marked s'"
proof (cases corrupt)
  case False
  define s1 where "s1 = s\<lparr>cs_tree := modify_dirty p (fail_with BLOCK_FAILED_VALID) (cs_tree s),
     g_failed_blocks := insert p (g_failed_blocks s), setBlockIndexCandidates := removeAll p (setBlockIndexCandidates s)\<rparr>"
  have p: "p < length (cs_store s)" and s': "cs_tree s' = cs_tree s1" "g_failed_blocks s' = g_failed_blocks s1"
    using assms(1) False
    by (auto simp: InvalidBlockFound_def InvalidChainFound_def s1_def [symmetric] deref_def dest!: note_invalid_tree
        split: bind_splits if_splits)
  have "failed_valid (fail_with BLOCK_FAILED_VALID b)" for b
    by (simp add: failed_valid_def fail_with_def BLOCK_FAILED_VALID_def bit_simps)
  then have "failed_marked s1"
    using assms(2) p
    by (auto simp: failed_marked_def s1_def modify_dirty_def modify_def nth_list_update failed_valid_def fail_with_def bit_simps)
  then show ?thesis using s' by (simp add: failed_marked_def)
qed (use assms in \<open>simp add: InvalidBlockFound_def\<close>)

lemma reachable_marked:
  assumes "reachable H params False s"
    and params: "wf_pow_params (Params.truncate params)" "limit_val (Params.truncate params) + 1 < 2 ^ 256"
  shows "failed_marked s"
  using assms(1)
proof induction
  case start
  show ?case by (simp add: initial_state_def failed_marked_def)
next
  case (header s env block r s')
  then show ?case using params AcceptBlockHeader_ok(2) [of env s block r s'] reachable_sound_state [of H params False s]
    by (simp add: sound_state_def)
next
  case (transactions s blk p pos s')
  then show ?case using failed.ReceivedBlockTransactions_entrywise failed_marked_entrywise by blast
next
  case (invalid s p corrupt s')
  then show ?case by (blast intro: InvalidBlockFound_marked)
next
  case (most_work s found s')
  then show ?case using failed.FindMostWorkChain_entrywise [OF most_work.hyps(2)] failed_marked_entrywise by auto
next
  case (prune s s')
  then show ?case by (auto simp: PruneBlockIndexCandidates_def Let_def failed_marked_def split: option.splits if_splits)
qed (simp_all add: failed_marked_def)

subsection \<open>Resetting failure flags\<close>

text \<open>A reset clears the flags of every ancestor of the block and leaves its ancestors in \<open>g_failed_blocks\<close>.\<close>

definition not_failed :: "CBlockIndex \<Rightarrow> bool" where
  "not_failed b \<longleftrightarrow> nStatus b AND BLOCK_FAILED_MASK = 0"

lemma clear_failed_status:
  "not_failed (clear_failed b)" "clear_failed (clear_failed b) = clear_failed b" "not_failed b \<Longrightarrow> \<not> failed_valid b"
  "nStatus (clear_failed b) AND BLOCK_VALID_MASK = nStatus b AND BLOCK_VALID_MASK"
  "nStatus (clear_failed b) AND BLOCK_CONFLICT_CHAINLOCK = nStatus b AND BLOCK_CONFLICT_CHAINLOCK"
proof -
  show "not_failed (clear_failed b)" by (simp add: not_failed_def clear_failed_def and.assoc)
  show "clear_failed (clear_failed b) = clear_failed b" by (simp add: clear_failed_def and.assoc)
  show "not_failed b \<Longrightarrow> \<not> failed_valid b"
    by (auto simp: not_failed_def failed_valid_iff [symmetric] BLOCK_FAILED_MASK_def bit_eq_iff bit_simps)
  show "nStatus (clear_failed b) AND BLOCK_VALID_MASK = nStatus b AND BLOCK_VALID_MASK"
    "nStatus (clear_failed b) AND BLOCK_CONFLICT_CHAINLOCK = nStatus b AND BLOCK_CONFLICT_CHAINLOCK"
    by (simp_all add: clear_failed_def and.assoc BLOCK_FAILED_MASK_def BLOCK_FAILED_VALID_def BLOCK_FAILED_CHILD_def
        BLOCK_VALID_MASK_def BLOCK_CONFLICT_CHAINLOCK_def)
qed

interpretation cleared: entry_order "\<lambda>b c. c = b \<or> c = clear_failed b"
  by unfold_locales (auto simp: clear_failed_status)

interpretation cleared: clear_relation "\<lambda>b c. c = b \<or> c = clear_failed b"
  by unfold_locales simp

interpretation passed: entry_order "\<lambda>b c. not_failed b \<longrightarrow> not_failed c"
  by unfold_locales auto

interpretation passed: clear_relation "\<lambda>b c. not_failed b \<longrightarrow> not_failed c"
  by unfold_locales (simp add: clear_failed_status)

lemma reset_ancestors_clears:
  assumes "reset_ancestors (Some p) bt = Some bt'" and "wf_tree bt" and "p < length (bt_store bt)"
    and "pprev_n (bt_store bt) n p = Some a"
  shows "not_failed (bt_store bt' ! a)"
  using assms
proof (induction n arbitrary: p bt)
  case (Suc n)
  let ?bt = "if nStatus (bt_store bt ! p) AND BLOCK_FAILED_MASK \<noteq> 0 then modify_dirty p clear_failed bt else bt"
  obtain q where q: "pprev (bt_store bt ! p) = Some q" "pprev_n (bt_store bt) n q = Some a"
    using Suc.prems(3,4) by (auto split: bind_splits)
  have q': "q < length (bt_store bt)"
    using wf_linkD(3) [OF wf_store_links [OF wf_treeD(1) [OF Suc.prems(2)]] Suc.prems(3) q(1)] by simp
  have same: "same_headers bt ?bt"
    using core.entrywise_modify(2) [where f = clear_failed, OF core.E_clear] core.entrywise_refl by simp
  have "map pprev (bt_store ?bt) = map pprev (bt_store bt)"
    using same_headersD(1) [OF same] entry_core_eqD(2) [OF extendsD(2) [OF same_headersD(2) [OF same]]]
    by (auto intro!: nth_equalityI)
  then have "pprev_n (bt_store ?bt) n q = Some a" using pprev_n_cong q(2) by metis
  moreover have "reset_ancestors (Some q) ?bt = Some bt'"
    using Suc.prems(1,3) q(1) by (subst (asm) reset_ancestors.simps) simp
  ultimately show ?case
    using Suc.IH [of q ?bt] wf_tree_same [OF same Suc.prems(2)] same_headersD(1) [OF same] q' by simp
next
  case 0
  let ?bt = "if nStatus (bt_store bt ! p) AND BLOCK_FAILED_MASK \<noteq> 0 then modify_dirty p clear_failed bt else bt"
  have "reset_ancestors (pprev (bt_store bt ! p)) ?bt = Some bt'"
    using 0 by (subst (asm) reset_ancestors.simps) simp
  then have "entrywise (\<lambda>b c. not_failed b \<longrightarrow> not_failed c) ?bt bt'" by (rule passed.reset_ancestors_entrywise)
  moreover have "not_failed (bt_store ?bt ! p)"
    using 0(3) clear_failed_status(1) by (simp add: modify_dirty_def modify_def not_failed_def)
  ultimately show ?case
    using 0 by (auto simp: entrywise_def list_all2_conv_all_nth modify_dirty_def modify_def split: if_splits)
qed

lemma reset_descendants_keeps:
  assumes "reset_descendants p h ps s = Some s'" and "a \<in> g_failed_blocks s" and "a < length (cs_store s)"
    and "nHeight (cs_store s ! a) < h"
  shows "a \<in> g_failed_blocks s'"
  using assms
proof (induction ps arbitrary: s)
  case (Cons q ps)
  then obtain s1 where s1: "reset_descendant p h q s = Some s1" "reset_descendants p h ps s1 = Some s'"
    by (auto split: bind_splits)
  have "a \<in> g_failed_blocks s1"
    using s1(1) Cons.prems(2-)
    by (cases "q = a") (auto simp: reset_descendant_def Let_def GetAncestor_def split: bind_splits if_splits)
  moreover have same: "same_headers (cs_tree s) (cs_tree s1)"
    using core.reset_descendants_entrywise [of p h "[q]" s s1] s1(1) by simp
  ultimately show ?case
    using Cons.IH [OF s1(2)] Cons.prems(3,4) same_headersD(1) [OF same]
      entry_core_eqD(4) [OF extendsD(2) [OF same_headersD(2) [OF same] Cons.prems(3)]] by simp
qed simp

lemma ResetBlockFailureFlags_effect:
  assumes reset: "ResetBlockFailureFlags b s = Some s'" and wf: "wf_tree (cs_tree s)" and b: "b < length (cs_store s)"
    and a: "a \<in> g_failed_blocks s" "a < length (cs_store s)" "nHeight (cs_store s ! a) < nHeight (cs_store s ! b)"
  shows "a \<in> g_failed_blocks s'" and "g_failed_blocks s' \<subseteq> g_failed_blocks s"
    and "pprev_n (cs_store s) n b = Some f \<Longrightarrow> not_failed (cs_store s' ! f)"
proof -
  obtain s1 bt where s1: "reset_descendants b (nHeight (cs_store s ! b)) (indexed (cs_tree s)) s = Some s1"
    "reset_ancestors (Some b) (cs_tree s1) = Some bt" "s' = s1\<lparr>cs_tree := bt\<rparr>"
    using reset b by (auto simp: ResetBlockFailureFlags_def split: bind_splits)
  show "a \<in> g_failed_blocks s'" using reset_descendants_keeps [OF s1(1) a] s1(3) by simp
  have "g_failed_blocks t' \<subseteq> g_failed_blocks t" if "reset_descendants b h ps t = Some t'" for h ps t t'
    using that
  proof (induction ps arbitrary: t)
    case (Cons q ps)
    then show ?case by (fastforce simp: reset_descendant_def Let_def split: bind_splits if_splits)
  qed simp
  from this [OF s1(1)] show "g_failed_blocks s' \<subseteq> g_failed_blocks s" using s1(3) by simp
  have same: "same_headers (cs_tree s) (cs_tree s1)" using core.reset_descendants_entrywise [OF s1(1)] by simp
  have "map pprev (cs_store s1) = map pprev (cs_store s)"
    using same_headersD(1) [OF same] entry_core_eqD(2) [OF extendsD(2) [OF same_headersD(2) [OF same]]]
    by (auto intro!: nth_equalityI)
  then show "not_failed (cs_store s' ! f)" if "pprev_n (cs_store s) n b = Some f"
    using reset_ancestors_clears [OF s1(2) wf_tree_same [OF same wf], of n f] that pprev_n_cong [of "cs_store s1" "cs_store s"]
      same_headersD(1) [OF same] b s1(3) by simp
qed

lemma find_failed_found:
  "find_failed st p fs = Some r \<Longrightarrow> a \<in> set fs \<Longrightarrow> GetAncestor st p (nHeight (st ! a)) = Some (Some a) \<Longrightarrow> r \<noteq> None"
  by (induction fs) (auto simp: deref_def split: bind_splits if_splits)

lemma ContextualCheckBlockHeader_extends:
  assumes "extends st st'" and "wf_links st" and "wf_links st'" and "q < length st"
  shows "ContextualCheckBlockHeader st' params block q checkpoint time = ContextualCheckBlockHeader st params block q checkpoint time"
  using extendsD(1) [OF assms(1,4)] entry_core_eqD(4) [OF extendsD(2) [OF assms(1,4)]] assms(4)
    GetNextWorkRequired_extends [OF assms] GetMedianTimePast_extends [OF assms(1,2,4)]
  by (simp add: ContextualCheckBlockHeader_def split: option.split sum.split)

text \<open>The loop over the failed blocks after a reset of a descendant: it meets a block without its mark.\<close>

lemma check_failed_blocks_reset:
  assumes wf: "wf_tree (cs_tree s)" and marked: "failed_marked s" and b: "b < length (cs_store s)"
    and a: "a \<in> g_failed_blocks s" "ancestor_at (cs_store s) b (nHeight (cs_store s ! a)) = Some a" "a \<noteq> b"
      "nHeight (cs_store s ! a) \<le> nHeight (cs_store s ! b)"
    and reset: "ResetBlockFailureFlags b s = Some s'"
    and unscripted: "nStatus (cs_store s ! b) AND BLOCK_VALID_MASK < BLOCK_VALID_SCRIPTS"
  shows "check_failed_blocks b (cs_store s' ! b) s' = Some (Some Check_assertion, s')"
proof -
  let ?st = "cs_store s" and ?st' = "cs_store s'"
  note wl = wf_store_links [OF wf_treeD(1) [OF wf]]
  have a': "a < length ?st" using marked a(1) by (simp add: failed_marked_def)
  have "nHeight (?st ! a) \<noteq> nHeight (?st ! b)" using a(2,3) ancestor_at_self [OF b] by auto
  then have lt: "nHeight (?st ! a) < nHeight (?st ! b)" using a(4) by simp
  note effect = ResetBlockFailureFlags_effect [OF reset wf b a(1) a' lt]
  have same: "same_headers (cs_tree s) (cs_tree s')" using core.ResetBlockFailureFlags_entrywise [OF reset] by simp
  note d = same_headersD(1,2) [OF same] and c = entry_core_eqD(4) [OF extendsD(2) [OF same_headersD(2) [OF same]]]
  have wf': "wf_store ?st'" using wf_treeD(1) [OF wf_tree_same [OF same wf]] .
  have fin: "finite (g_failed_blocks s')" "\<forall>f \<in> g_failed_blocks s'. f < length ?st'"
    using effect(2) marked d(1) by (auto simp: failed_marked_def intro: finite_subset)
  obtain r where r: "find_failed ?st' b (sorted_list_of_set (g_failed_blocks s')) = Some r"
    "\<And>f. r = Some f \<Longrightarrow> f \<in> g_failed_blocks s' \<and> GetAncestor ?st' b (nHeight (?st' ! f)) = Some (Some f)"
    using find_failed_total [OF wf', of b "sorted_list_of_set (g_failed_blocks s')"] fin d(1) b
    by (metis set_sorted_list_of_set)
  have anc: "GetAncestor ?st' b h = Some (if 0 \<le> h \<and> h \<le> nHeight (?st ! b) then ancestor_at ?st b h else None)" for h
    using GetAncestor_correct [OF wf', of b h] d(1) b c ancestor_at_extends [OF d(2) wl b] by simp
  have "GetAncestor ?st' b (nHeight (?st' ! a)) = Some (Some a)"
    using anc a(2,4) a' c wf_linkD(1) [OF wl a'] by simp
  then obtain f where f: "r = Some f" using find_failed_found [OF r(1), of a] effect(1) fin(1) by auto
  then have "ancestor_at ?st b (nHeight (?st' ! f)) = Some f" using r(2) [OF f] anc by (auto split: if_splits)
  then have "pprev_n ?st (nat (nHeight (?st ! b) - nHeight (?st' ! f))) b = Some f" using b by (simp add: ancestor_at_def)
  then have "\<not> failed_valid (?st' ! f)" using effect(3) clear_failed_status(3) by blast
  moreover have "?st' ! b = ?st ! b \<or> ?st' ! b = clear_failed (?st ! b)"
    using cleared.ResetBlockFailureFlags_entrywise [OF reset] b by (auto simp: entrywise_def list_all2_conv_all_nth)
  then have "IsValid (?st' ! b) BLOCK_VALID_SCRIPTS = Some False"
    using unscripted clear_failed_status(4) [of "?st ! b"]
    by (auto simp: IsValid_def BLOCK_VALID_SCRIPTS_def BLOCK_VALID_MASK_def)
  ultimately show ?thesis using r(1) f by (simp add: check_failed_blocks_def failed_valid_iff)
qed

text \<open>
  \<open>AcceptBlockHeader\<close> looks a header up under its proof-of-work hash, while the index is keyed by
  the hash of the header.  Where the two differ, a header whose entry is marked as failed is
  not refused as a duplicate: it is accepted again with that entry.
\<close>

lemma failed_header_accepted:
  assumes "mapBlockIndex (cs_tree s) (CBlockHeader_GetHash (he_hashes env) block) = Some p"
    and "nStatus (cs_store s ! p) AND BLOCK_FAILED_MASK \<noteq> 0"
    and "CBlockHeader_GetPOWHash (he_hashes env) block (CBlockHeader_GetAlgo block) \<noteq> hashGenesisBlock (he_params env)"
    and "mapBlockIndex (cs_tree s) (CBlockHeader_GetPOWHash (he_hashes env) block (CBlockHeader_GetAlgo block)) = None"
    and "CheckBlockHeader (he_hashes env) (he_params env) block True = None"
    and "mapBlockIndex (cs_tree s) (hdr_hashPrevBlock block) = Some q" and "q < length (cs_store s)"
    and "nStatus (cs_store s ! q) AND BLOCK_FAILED_MASK = 0" and "nStatus (cs_store s ! q) AND BLOCK_CONFLICT_CHAINLOCK = 0"
    and "ContextualCheckBlockHeader (cs_store s) (he_params env) block q (he_checkpoint env) (he_adjusted_time env) = None"
    and "check_failed_blocks q (cs_store s ! q) s = Some (None, s)"
    and "\<not> he_conflicting env (nHeight (cs_store s ! q) + 1)
      (CBlockHeader_GetPOWHash (he_hashes env) block (CBlockHeader_GetAlgo block))"
  shows "AcceptBlockHeader env block s = Some (Inr p, s)"
  using assms by (simp add: AcceptBlockHeader_def add_header_def AddToBlockIndex_def)

subsection \<open>Properties\<close>

text \<open>
  (C4) Every state that the events of the block tree lead to, in any order and number, is
  sound: the index is well formed, the active chain is the path to its tip, and every header
  in the tree that has a predecessor is indexed under its own hash and, unless its
  proof-of-work hash is that of the genesis block, has passed the check of its proof of work,
  carries the bits that the retargeting rules require at its place, and is later than the
  median time of the chain below it.
\<close>

theorem reachable_headers_checked:
  assumes "reachable H params resets s"
    and "wf_pow_params (Params.truncate params)" and "limit_val (Params.truncate params) + 1 < 2 ^ 256"
  shows "wf_tree (cs_tree s) \<and> chain_ok (cs_store s) (chainActive s) \<and>
    list_all (checked_entry H params (cs_store s)) (cs_store s)"
  using reachable_sound_state [OF assms] by (simp add: sound_state_def headers_ok_def)

text \<open>
  (C12) As long as no failure flags are reset, \<open>AcceptBlockHeader\<close> returns for every header:
  the header is accepted with an entry of the tree, or it is refused with a reason; the
  assertion on the failed blocks holds, and every loop ends.
\<close>

theorem AcceptBlockHeader_returns:
  assumes "reachable (he_hashes env) (he_params env) False s"
    and "CBlockHeader_GetHash (he_hashes env) block \<noteq> hdr_hashPrevBlock block"
    and "wf_pow_params (Params.truncate (he_params env))" and "limit_val (Params.truncate (he_params env)) + 1 < 2 ^ 256"
  shows "accepts (AcceptBlockHeader env block s) \<or> rejects (AcceptBlockHeader env block s)"
  using AcceptBlockHeader_total [OF _ reachable_marked [OF assms(1,3,4)] assms(2-4)] reachable_sound_state [OF assms(1,3,4)]
  by (simp add: sound_state_def)

text \<open>
  (C40) Resetting the failure flags of a block below which another block has failed stops the
  node at the next header: \<open>ResetBlockFailureFlags\<close> clears the mark of the ancestor and leaves
  it in \<open>g_failed_blocks\<close>, so that a valid header on top of the block, whose scripts are not
  yet checked, fails the assertion of \<open>AcceptBlockHeader\<close>.
\<close>

theorem reset_aborts_next_header:
  assumes "reachable (he_hashes env) (he_params env) False s"
    and "wf_pow_params (Params.truncate (he_params env))" and "limit_val (Params.truncate (he_params env)) + 1 < 2 ^ 256"
    and "a \<in> g_failed_blocks s" and "a \<noteq> b" and "b < length (cs_store s)"
    and "nHeight (cs_store s ! a) \<le> nHeight (cs_store s ! b)"
    and "ancestor_at (cs_store s) b (nHeight (cs_store s ! a)) = Some a"
    and "nStatus (cs_store s ! b) AND BLOCK_VALID_MASK < BLOCK_VALID_SCRIPTS"
    and "nStatus (cs_store s ! b) AND BLOCK_CONFLICT_CHAINLOCK = 0"
    and "ResetBlockFailureFlags b s = Some s'"
    and "CBlockHeader_GetPOWHash (he_hashes env) block (CBlockHeader_GetAlgo block) \<noteq> hashGenesisBlock (he_params env)"
    and "mapBlockIndex (cs_tree s) (CBlockHeader_GetPOWHash (he_hashes env) block (CBlockHeader_GetAlgo block)) = None"
    and "mapBlockIndex (cs_tree s) (hdr_hashPrevBlock block) = Some b"
    and "CheckBlockHeader (he_hashes env) (he_params env) block True = None"
    and "ContextualCheckBlockHeader (cs_store s) (he_params env) block b (he_checkpoint env) (he_adjusted_time env) = None"
  shows "AcceptBlockHeader env block s' = Some (Inl Check_assertion, s')"
proof -
  have wf: "wf_tree (cs_tree s)" using reachable_sound_state [OF assms(1-3)] by (simp add: sound_state_def headers_ok_def)
  have same: "same_headers (cs_tree s) (cs_tree s')" using core.ResetBlockFailureFlags_entrywise [OF assms(11)] by simp
  note wl = wf_store_links [OF wf_treeD(1) [OF wf]] wf_store_links [OF wf_treeD(1) [OF wf_tree_same [OF same wf]]]
  have a: "a < length (cs_store s)" using reachable_marked [OF assms(1-3)] assms(4) by (simp add: failed_marked_def)
  have "nHeight (cs_store s ! a) < nHeight (cs_store s ! b)"
    using assms(5,7,8) ancestor_at_self [OF assms(6)] by (cases "nHeight (cs_store s ! a) = nHeight (cs_store s ! b)") auto
  from ResetBlockFailureFlags_effect(3) [OF assms(11) wf assms(6,4) a this, of 0 b]
  have "nStatus (cs_store s' ! b) AND BLOCK_FAILED_MASK = 0" by (simp add: not_failed_def)
  moreover have "nStatus (cs_store s' ! b) AND BLOCK_CONFLICT_CHAINLOCK = 0"
    using cleared.ResetBlockFailureFlags_entrywise [OF assms(11)] assms(6,10) clear_failed_status(5)
    by (auto simp: entrywise_def list_all2_conv_all_nth)
  moreover note check_failed_blocks_reset [OF wf reachable_marked [OF assms(1-3)] assms(6,4,8,5,7,11,9)]
    ContextualCheckBlockHeader_extends [OF same_headersD(2) [OF same] wl assms(6)]
  ultimately show ?thesis
    using assms(6,12-16) same_headersD(1,3) [OF same] by (simp add: AcceptBlockHeader_def)
qed

end
