(* ===== verification/Chain_Demo.thy ===== *)
theory Chain_Demo
  imports Chain_Events
begin

text \<open>
  A run of events that builds a chain of three headers, finds its second block invalid and
  resets the third: instances of the theorems on the block tree.
\<close>

unbundle bit_operations_syntax

subsection \<open>Resets return\<close>

lemma reset_ancestors_total:
  assumes "wf_tree bt" and "p < length (bt_store bt)"
  shows "\<exists>bt'. reset_ancestors (Some p) bt = Some bt'"
  using assms
proof (induction "nat (nHeight (bt_store bt ! p))" arbitrary: p bt rule: less_induct)
  case less
  let ?bt = "if nStatus (bt_store bt ! p) AND BLOCK_FAILED_MASK \<noteq> 0 then modify_dirty p clear_failed bt else bt"
  have same: "same_headers bt ?bt"
    using core.entrywise_modify(2) [where f = clear_failed, OF core.E_clear] core.entrywise_refl by simp
  note wl = wf_store_links [OF wf_treeD(1) [OF less.prems(1)]]
  have "\<exists>bt'. reset_ancestors (pprev (bt_store bt ! p)) ?bt = Some bt'"
  proof (cases "pprev (bt_store bt ! p)")
    case None
    then show ?thesis by (simp add: reset_ancestors.simps)
  next
    case (Some q)
    then have q: "q < length (bt_store bt)" "nHeight (bt_store bt ! q) = nHeight (bt_store bt ! p) - 1"
      using wf_linkD(3) [OF wl less.prems(2)] by auto
    have "nat (nHeight (bt_store ?bt ! q)) < nat (nHeight (bt_store bt ! p))"
      using q wf_linkD(1) [OF wl q(1)] entry_core_eqD(4) [OF extendsD(2) [OF same_headersD(2) [OF same] q(1)]] by simp
    then show ?thesis
      using less.hyps [of ?bt q] wf_tree_same [OF same less.prems(1)] same_headersD(1) [OF same] q(1) Some by simp
  qed
  then show ?case using less.prems(2) by (subst reset_ancestors.simps) simp
qed

lemma reset_descendants_total:
  assumes "wf_tree (cs_tree s)" and "Tip (chainActive s) \<noteq> None" and "list_all (\<lambda>p. p < length (cs_store s)) ps"
  shows "\<exists>s'. reset_descendants pindex h ps s = Some s'"
  using assms
proof (induction ps arbitrary: s)
  case (Cons p ps)
  let ?b = "cs_store s ! p"
  have p: "p < length (cs_store s)" using Cons.prems(3) by simp
  obtain v v' where v: "IsValid ?b BLOCK_VALID_TRANSACTIONS = Some v" "IsValid (clear_failed ?b) BLOCK_VALID_TRANSACTIONS = Some v'"
    using IsValid_total by metis
  obtain anc where anc: "GetAncestor (cs_store s) p h = Some anc"
    using GetAncestor_correct [OF wf_treeD(1) [OF Cons.prems(1)] p] by blast
  obtain add where add: "(if v' \<and> nChainTx ?b \<noteq> 0 then better_than_tip s (modify_dirty p clear_failed (cs_tree s)) p else Some False) = Some add"
    using Cons.prems(2) by (cases "v' \<and> nChainTx ?b \<noteq> 0") (auto simp: better_than_tip_def)
  have "\<exists>s1. reset_descendant pindex h p s = Some s1"
    using p v anc add by (cases v; cases "anc = Some pindex") (simp_all add: reset_descendant_def Let_def)
  then obtain s1 where s1: "reset_descendant pindex h p s = Some s1" by blast
  have same: "same_headers (cs_tree s) (cs_tree s1)" "chainActive s1 = chainActive s"
    using core.reset_descendants_entrywise [of pindex h "[p]" s s1] s1 by simp_all
  then show ?case
    using Cons.IH [of s1] Cons.prems wf_tree_same [OF same(1)] same_headersD(1) [OF same(1)] s1 by simp
qed simp

lemma ResetBlockFailureFlags_total:
  assumes "wf_tree (cs_tree s)" and "Tip (chainActive s) \<noteq> None" and "p < length (cs_store s)"
  shows "\<exists>s'. ResetBlockFailureFlags p s = Some s'"
proof -
  have "list_all (\<lambda>p. p < length (cs_store s)) (indexed (cs_tree s))" by (auto simp: indexed_def list_all_iff)
  then obtain s1 where s1: "reset_descendants p (nHeight (cs_store s ! p)) (indexed (cs_tree s)) s = Some s1"
    using reset_descendants_total [OF assms(1,2)] by blast
  have same: "same_headers (cs_tree s) (cs_tree s1)" using core.reset_descendants_entrywise [OF s1] by simp
  then obtain bt where "reset_ancestors (Some p) (cs_tree s1) = Some bt"
    using reset_ancestors_total [OF wf_tree_same [OF same assms(1)]] same_headersD(1) [OF same] assms(3) by auto
  then show ?thesis using s1 assms(3) by (simp add: ResetBlockFailureFlags_def)
qed

subsection \<open>A chain of headers\<close>

definition event_hashes :: pow_hashes where
  "event_hashes = \<lparr>SerializeHash = (\<lambda>bs. take 32 (drop 36 bs)), HashGR = (\<lambda>_ _. blob_null 32), yespower_hash = (\<lambda>_. blob_null 32),
     LYRA2 = (\<lambda>_ _ _ _ _. blob_null 32), scrypt_1024_1_1_256 = (\<lambda>_. blob_null 32)\<rparr>"

definition event_id :: "nat \<Rightarrow> uint256" where
  "event_id i = replicate 32 (word_of_nat (Suc i))"

definition event_params :: Block_Params where
  "event_params = (mainnet_blocks [])\<lparr>hashGenesisBlock := event_id 0\<rparr>"

definition event_env :: header_env where
  "event_env = \<lparr>he_hashes = event_hashes, he_params = event_params, he_checkpoint = None, he_adjusted_time = 10,
     he_conflicting = (\<lambda>_ _. False)\<rparr>"

definition event_header :: "u32 \<Rightarrow> nat \<Rightarrow> CBlockHeader" where
  "event_header bits i = \<lparr>hdr_nVersion = (if i = 0 then BLOCK_VERSION_SHA256D else BLOCK_VERSION_YESPOWER),
     hdr_hashPrevBlock = (if i = 0 then blob_null 32 else event_id (i - 1)), hdr_hashMerkleRoot = event_id i,
     hdr_nTime = word_of_nat (Suc i), hdr_nBits = bits, hdr_nNonce = 0, hdr_hash = blob_null 32\<rparr>"

lemma event_params_facts:
  "Params.truncate event_params = mainnet" "hashGenesisBlock event_params = event_id 0"
  "hashDevnetGenesisBlock event_params = blob_null 32"
  "wf_pow_params (Params.truncate event_params)" "limit_val (Params.truncate event_params) + 1 < 2 ^ 256"
proof -
  show t: "Params.truncate event_params = mainnet"
    by (simp add: event_params_def mainnet_blocks_def mainnet_rewards_def Params.truncate_def Reward_Params.extend_def
        Block_Params.fields_def Params.extend_def Reward_Params.fields_def)
  show "wf_pow_params (Params.truncate event_params)" unfolding t by (simp add: wf_pow_params_def mainnet_timespans)
  show "limit_val (Params.truncate event_params) + 1 < 2 ^ 256" unfolding t by (rule mainnet_limit)
qed (simp_all add: event_params_def mainnet_blocks_def Reward_Params.extend_def Block_Params.fields_def)

lemma event_id_eq: "i < 255 \<Longrightarrow> j < 255 \<Longrightarrow> event_id i = event_id j \<longleftrightarrow> i = j" "i < 255 \<Longrightarrow> event_id i \<noteq> blob_null 32"
  by (auto simp: event_id_def blob_null_def replicate_eq_replicate word_unat_eq_iff unsigned_of_nat take_bit_nat_eq_self
      simp del: of_nat_Suc)

lemma event_header_facts:
  "CBlockHeader_GetHash event_hashes (event_header bits i) = event_id i"
  "hdr_nTime (event_header bits i) = word_of_nat (Suc i)" "hdr_nBits (event_header bits i) = bits"
  "hdr_hashPrevBlock (event_header bits (Suc i)) = event_id i" "hdr_hashPrevBlock (event_header bits 0) = blob_null 32"
  "CBlockHeader_GetAlgo (event_header bits 0) = ALGO_SHA256D" "CBlockHeader_GetAlgo (event_header bits (Suc i)) = ALGO_YESPOWER"
  by (simp_all add: CBlockHeader_GetHash_def event_hashes_def header_bytes_def event_header_def event_id_def blob_null_def
      CBlockHeader_GetAlgo_def GetAlgo_version_def BLOCK_VERSION_defs ALGO_defs WriteLE32_def)

lemma event_pow:
  "CBlockHeader_GetPOWHash event_hashes (event_header bits 0) ALGO_SHA256D = event_id 0"
  "CBlockHeader_GetPOWHash event_hashes h ALGO_YESPOWER = blob_null 32"
  using event_header_facts(1) [of bits 0]
  by (simp_all add: CBlockHeader_GetPOWHash_def CBlockHeader_GetSerializedHash_def CBlockHeader_GetHash_def ALGO_defs event_hashes_def)

text \<open>The compact form of the limit, which short chains require of every header.\<close>

definition limit_bits :: "u32 \<Rightarrow> bool" where
  "limit_bits bits \<longleftrightarrow> GetCompact (UintToArith256 (powLimit mainnet)) False = Some bits \<and>
     valid_bits mainnet bits \<and> 0 < digits_val (fst (SetCompact bits))"

lemma limit_bits_exist: "\<exists>bits. limit_bits bits"
proof -
  let ?a = "UintToArith256 (powLimit mainnet)"
  obtain c v where c: "GetCompact ?a False = Some c" "SetCompact c = (v, False \<and> digits_val ?a \<noteq> 0, False)" "length v = 8"
    and v: "digits_val v = digits_val ?a div 256 ^ (unat (drop_bit 24 c) - 3) * 256 ^ (unat (drop_bit 24 c) - 3)"
    and k: "3 < unat (drop_bit 24 c) \<Longrightarrow> 2 ^ 15 \<le> digits_val ?a div 256 ^ (unat (drop_bit 24 c) - 3)"
    by (rule SetCompact_GetCompact_val [OF length_UintToArith256, of "powLimit mainnet" False]) (rule that)
  have pos: "0 < digits_val ?a" using mainnet_limit_ge by (simp add: limit_val_def)
  have "0 < digits_val v"
  proof (cases "3 < unat (drop_bit 24 c)")
    case True
    then show ?thesis using k by (simp add: v)
  qed (use pos v in simp)
  moreover have "digits_val v \<le> digits_val ?a" by (simp add: v)
  ultimately show ?thesis using c by (auto simp: limit_bits_def valid_bits_def limit_val_def)
qed

definition chain_of :: "nat \<Rightarrow> chain_state \<Rightarrow> bool" where
  "chain_of n s \<longleftrightarrow> reachable event_hashes event_params False s \<and> length (cs_store s) = n \<and>
     g_failed_blocks s = {} \<and> chainActive s = [] \<and> pindexBestInvalid s = None \<and>
     (\<forall>i < n. pprev (cs_store s ! i) = (if i = 0 then None else Some (i - 1)) \<and> nStatus (cs_store s ! i) = BLOCK_VALID_TREE \<and>
        nTime (cs_store s ! i) = word_of_nat (Suc i) \<and> mapBlockIndex (cs_tree s) (event_id i) = Some i) \<and>
     (\<forall>h. mapBlockIndex (cs_tree s) h \<noteq> None \<longrightarrow> (\<exists>i < n. h = event_id i))"

lemma chain_of_height:
  assumes "chain_of n s" and "i < n"
  shows "nHeight (cs_store s ! i) = int i"
  using assms(2)
proof (induction i)
  have "wf_tree (cs_tree s)"
    using reachable_sound_state [OF _ event_params_facts(4,5)] assms(1)
    by (auto simp: chain_of_def sound_state_def headers_ok_def)
  then have wl: "wf_links (cs_store s)" by (intro wf_store_links wf_treeD(1))
  {
    case 0
    then show ?case using wf_linkD(2) [OF wl, of 0] assms(1) by (auto simp: chain_of_def)
  next
    case (Suc i)
    then show ?case using wf_linkD(3) [OF wl, of "Suc i" i] assms(1) by (auto simp: chain_of_def)
  }
qed

lemma event_next_work:
  assumes "wf_links st" and "p < length st" and "nHeight (st ! p) < 5" and "limit_bits bits"
  shows "GetNextWorkRequired st (Some p) mainnet algo = Some (Inr bits)"
proof -
  obtain a where a: "GetLastBlockIndexForAlgo st (Some p) mainnet algo = Some a"
    using GetLastBlockIndexForAlgo_nearest [OF assms(1,2), of mainnet algo] by blast
  have "walk_back st 30 (Some p) = Some None" using walk_back_beyond [OF assms(1,2)] assms(3) by simp
  moreover have "nat (NUM_ALGOS * nAveragingInterval mainnet) = 30" "v2DiffChangeHeight mainnet = 5"
    by (simp_all add: NUM_ALGOS_def mainnet_def Let_def)
  ultimately show ?thesis
    using assms a by (cases a) (simp_all add: GetNextWorkRequired_def GetNextWorkRequiredV1_def next_work_def limit_bits_def)
qed

lemma recent_valid:
  assumes "wf_links st" and "valid_ptr st p" and "q \<in> set (recent st n p)"
  shows "q < length st"
  using assms(2,3)
proof (induction n arbitrary: p)
  case (Suc n)
  show ?case
  proof (cases p)
    case (Some a)
    then show ?thesis using Suc.IH [of "pprev (st ! a)"] Suc.prems assms(1) by auto
  qed (use Suc.prems in simp)
qed simp

lemma GetMedianTimePast_bound:
  assumes "wf_links st" and "p < length st" and "\<And>q. q < length st \<Longrightarrow> GetBlockTime (st ! q) < t"
  shows "map_option (\<lambda>m. m < t) (GetMedianTimePast st p) = Some True"
proof -
  let ?ts = "map (\<lambda>q. GetBlockTime (st ! q)) (recent st 11 (Some p))"
  have "?ts \<noteq> []" using recent_nonempty by simp
  then have "sort ?ts ! (length ?ts div 2) \<in> set (sort ?ts)" by (intro nth_mem) simp
  then have "sort ?ts ! (length ?ts div 2) < t"
    using assms(3) recent_valid [OF assms(1), of "Some p"] assms(2) by auto
  then show ?thesis using GetMedianTimePast_recent [OF assms(1,2)] by (simp add: Let_def)
qed

text \<open>The next header passes the checks and is added.\<close>

lemma event_checks:
  assumes "limit_bits bits"
  shows "CheckBlockHeader event_hashes event_params (event_header bits (Suc i)) True = None"
proof -
  have "CheckProofOfWork (blob_null 32) bits mainnet"
    using assms by (simp add: CheckProofOfWork_val limit_bits_def UintToArith256_val blob_null_def)
  moreover have "hdr_nVersion (event_header bits (Suc i)) = BLOCK_VERSION_YESPOWER" by (simp add: event_header_def)
  ultimately show ?thesis
    by (simp add: CheckBlockHeader_def event_params_facts(1-3) event_header_facts event_pow blob_IsNull_def blob_null_def
        BLOCK_VERSION_defs list_all_iff)
qed

lemma chain_of_tree:
  assumes "chain_of n s"
  shows "wf_tree (cs_tree s)" and "wf_links (cs_store s)" and "length (cs_store s) = n"
    and "n < 255 \<Longrightarrow> mapBlockIndex (cs_tree s) (blob_null 32) = None"
    and "n < 255 \<Longrightarrow> mapBlockIndex (cs_tree s) (event_id n) = None"
proof -
  show wf: "wf_tree (cs_tree s)"
    using reachable_sound_state [OF _ event_params_facts(4,5)] assms
    by (auto simp: chain_of_def sound_state_def headers_ok_def)
  then show "wf_links (cs_store s)" by (intro wf_store_links wf_treeD(1))
  show "length (cs_store s) = n" using assms by (simp add: chain_of_def)
  have only: "\<exists>i < n. h = event_id i" if "mapBlockIndex (cs_tree s) h \<noteq> None" for h
    using assms that unfolding chain_of_def by blast
  show "mapBlockIndex (cs_tree s) (blob_null 32) = None" if "n < 255"
    using only [of "blob_null 32"] event_id_eq(2) that by (metis less_trans)
  show "mapBlockIndex (cs_tree s) (event_id n) = None" if "n < 255"
    using only [of "event_id n"] event_id_eq(1) that by (metis less_trans nat_neq_iff)
qed

lemma event_ne: "n < 4 \<Longrightarrow> CBlockHeader_GetHash event_hashes (event_header bits n) \<noteq> hdr_hashPrevBlock (event_header bits n)"
  using event_id_eq by (cases n) (auto simp: event_header_facts)

lemma event_add:
  assumes chain: "chain_of n s" and n: "n < 4"
  obtains bt where "add_header event_env (event_header bits n) BLOCK_VALID_TREE s = Some (Inr n, s\<lparr>cs_tree := bt\<rparr>)"
    and "reachable event_hashes event_params False (s\<lparr>cs_tree := bt\<rparr>) \<Longrightarrow> chain_of (Suc n) (s\<lparr>cs_tree := bt\<rparr>)"
proof -
  let ?block = "event_header bits n" and ?st = "cs_store s"
  note tree = chain_of_tree [OF chain]
  note ne = event_ne [OF n, of bits]
  have new: "mapBlockIndex (cs_tree s) (CBlockHeader_GetHash event_hashes ?block) = None"
    using tree(5) n by (simp add: event_header_facts)
  have prev: "mapBlockIndex (cs_tree s) (hdr_hashPrevBlock ?block) = (if n = 0 then None else Some (n - 1))"
    using chain tree(4) n by (cases n) (auto simp: event_header_facts chain_of_def)
  obtain bt b where "AddToBlockIndex event_hashes (Params.truncate event_params) (cs_tree s) ?block BLOCK_VALID_TREE =
      Some (Inr (bt, length ?st))"
    and b: "bt_store bt = ?st @ [b]" "mapBlockIndex bt = (mapBlockIndex (cs_tree s))(CBlockHeader_GetHash event_hashes ?block \<mapsto> length ?st)"
      "pprev b = mapBlockIndex (cs_tree s) (hdr_hashPrevBlock ?block)" "nTime b = hdr_nTime ?block"
      "nStatus b = (if BLOCK_VALID_TREE = BLOCK_CONFLICT_CHAINLOCK then BLOCK_VALID_TREE OR BLOCK_CONFLICT_CHAINLOCK else BLOCK_VALID_TREE)"
    using tree(1) ne new event_params_facts(4,5) disjI1 [OF refl] by (rule AddToBlockIndex_new)
  then have "add_header event_env ?block BLOCK_VALID_TREE s = Some (Inr n, s\<lparr>cs_tree := bt\<rparr>)"
    using tree(3) by (simp add: add_header_def event_env_def)
  moreover have "chain_of (Suc n) (s\<lparr>cs_tree := bt\<rparr>)" if "reachable event_hashes event_params False (s\<lparr>cs_tree := bt\<rparr>)"
  proof -
    have "BLOCK_VALID_TREE \<noteq> BLOCK_CONFLICT_CHAINLOCK" by (simp add: BLOCK_VALID_TREE_def BLOCK_CONFLICT_CHAINLOCK_def)
    moreover have "event_id i = event_id n \<longleftrightarrow> i = n" if "i < n" for i using n that event_id_eq(1) by simp
    ultimately show ?thesis
      using chain b prev that by (auto simp: chain_of_def event_header_facts nth_append less_Suc_eq)
  qed
  ultimately show ?thesis by (rule that)
qed

lemma event_context:
  assumes chain: "chain_of (Suc m) s" and m: "m < 4" and bits: "limit_bits bits"
  shows "ContextualCheckBlockHeader (cs_store s) event_params (event_header bits (Suc m)) m None 10 = None"
proof -
  note tree = chain_of_tree [OF chain]
  have time: "GetBlockTime (cs_store s ! q) < int (Suc (Suc m))" if "q < length (cs_store s)" for q
  proof -
    have "nTime (cs_store s ! q) = word_of_nat (Suc q)" "q < Suc m" using chain that by (simp_all add: chain_of_def del: of_nat_Suc)
    then show ?thesis
      using m by (simp add: GetBlockTime_def unsigned_of_nat take_bit_nat_eq_self del: of_nat_Suc)
  qed
  obtain mtp where mtp: "GetMedianTimePast (cs_store s) m = Some mtp" "mtp < int (Suc (Suc m))"
    using GetMedianTimePast_bound [OF tree(2) _ time] tree(3) by auto
  have "CBlockHeader_GetBlockTime (event_header bits (Suc m)) = int (Suc (Suc m))"
    using m by (simp add: CBlockHeader_GetBlockTime_def event_header_facts unsigned_of_nat take_bit_nat_eq_self del: of_nat_Suc)
  moreover have "GetNextWorkRequired (cs_store s) (Some m) mainnet ALGO_YESPOWER = Some (Inr bits)"
    using event_next_work [OF tree(2) _ _ bits, of m] tree(3) chain_of_height [OF chain, of m] m by simp
  ultimately show ?thesis
    using mtp m tree(3) by (simp add: ContextualCheckBlockHeader_def event_params_facts(1) event_header_facts MAX_FUTURE_BLOCK_TIME_def)
qed

lemma event_step:
  assumes chain: "chain_of n s" and n: "n < 4" and bits: "limit_bits bits"
  obtains s' where "AcceptBlockHeader event_env (event_header bits n) s = Some (Inr n, s')" and "chain_of (Suc n) s'"
proof -
  let ?block = "event_header bits n"
  obtain bt where bt: "add_header event_env ?block BLOCK_VALID_TREE s = Some (Inr n, s\<lparr>cs_tree := bt\<rparr>)"
    "reachable event_hashes event_params False (s\<lparr>cs_tree := bt\<rparr>) \<Longrightarrow> chain_of (Suc n) (s\<lparr>cs_tree := bt\<rparr>)"
    by (rule event_add [OF chain n, of bits]) (rule that)
  have accept: "AcceptBlockHeader event_env ?block s = add_header event_env ?block BLOCK_VALID_TREE s"
  proof (cases n)
    case 0
    then show ?thesis by (simp add: AcceptBlockHeader_def event_env_def event_header_facts event_pow event_params_facts)
  next
    case (Suc m)
    have prev: "mapBlockIndex (cs_tree s) (event_id m) = Some m" "nStatus (cs_store s ! m) = BLOCK_VALID_TREE" "m < length (cs_store s)"
      "g_failed_blocks s = {}"
      using chain Suc by (simp_all add: chain_of_def)
    have "check_failed_blocks m (cs_store s ! m) s = Some (None, s)"
      using IsValid_total(2) [of "cs_store s ! m"] prev(4) by (auto simp: check_failed_blocks_def)
    moreover have "nStatus (cs_store s ! m) AND BLOCK_FAILED_MASK = 0" "nStatus (cs_store s ! m) AND BLOCK_CONFLICT_CHAINLOCK = 0"
      by (simp_all add: prev BLOCK_VALID_TREE_def BLOCK_FAILED_MASK_def BLOCK_FAILED_VALID_def BLOCK_FAILED_CHILD_def
          BLOCK_CONFLICT_CHAINLOCK_def)
    ultimately show ?thesis
      using Suc prev event_checks [OF bits, of m] event_context [of m s bits] chain n bits chain_of_tree(4) [OF chain] event_id_eq(2) [of 0]
      by (simp add: AcceptBlockHeader_def event_env_def event_header_facts event_pow event_params_facts)
  qed
  have "reachable event_hashes event_params False (s\<lparr>cs_tree := bt\<rparr>)"
  proof (rule reachable.header [OF _ _ _ event_ne [OF n, of bits]])
    show "reachable event_hashes event_params False s" using chain by (simp add: chain_of_def)
    show "AcceptBlockHeader event_env ?block s = Some (Inr n, s\<lparr>cs_tree := bt\<rparr>)" using accept bt(1) by simp
  qed (simp_all add: event_env_def)
  then show ?thesis using bt accept by (intro that) simp_all
qed

lemma event_chain: "limit_bits bits \<Longrightarrow> n \<le> 4 \<Longrightarrow> \<exists>s. chain_of n s"
proof (induction n)
  case 0
  have "chain_of 0 initial_state" by (simp add: chain_of_def reachable.start) (simp add: initial_state_def)
  then show ?case by blast
next
  case (Suc n)
  then show ?case using event_step [of n _ bits] by (metis Suc_le_eq less_or_eq_imp_le)
qed

lemma event_chain3:
  obtains bits s where "limit_bits bits" and "chain_of 3 s"
proof -
  obtain bits where bits: "limit_bits bits" using limit_bits_exist by blast
  moreover obtain s where "chain_of 3 s" using event_chain [OF bits, of 3] by auto
  ultimately show ?thesis by (rule that)
qed

lemma reachable_mono: "reachable H params False s \<Longrightarrow> reachable H params True s"
  by (induction rule: reachable.induct) (auto intro: reachable.intros)

subsection \<open>Instances\<close>

theorem reachable_headers_checked_witness:
  "\<exists>s. length (cs_store s) = 3 \<and> wf_tree (cs_tree s) \<and> chain_ok (cs_store s) (chainActive s) \<and>
     list_all (checked_entry event_hashes event_params (cs_store s)) (cs_store s)"
proof -
  obtain bits s where "limit_bits bits" and s: "chain_of 3 s" by (rule event_chain3)
  then have "reachable event_hashes event_params False s" by (simp add: chain_of_def)
  from reachable_headers_checked [OF this event_params_facts(4,5)] show ?thesis using s by (auto simp: chain_of_def)
qed

theorem AcceptBlockHeader_returns_witness:
  "\<exists>s bits. length (cs_store s) = 3 \<and>
     (accepts (AcceptBlockHeader event_env (event_header bits 3) s) \<or> rejects (AcceptBlockHeader event_env (event_header bits 3) s))"
proof -
  obtain bits s where "limit_bits bits" and s: "chain_of 3 s" by (rule event_chain3)
  have env: "he_hashes event_env = event_hashes" "he_params event_env = event_params" by (simp_all add: event_env_def)
  from s have "reachable (he_hashes event_env) (he_params event_env) False s" by (simp add: chain_of_def env)
  from AcceptBlockHeader_returns [OF this] event_ne [of 3 bits] event_params_facts(4,5)
  have "accepts (AcceptBlockHeader event_env (event_header bits 3) s) \<or> rejects (AcceptBlockHeader event_env (event_header bits 3) s)"
    by (simp add: env)
  then show ?thesis using s by (auto simp: chain_of_def)
qed

text \<open>The second of three blocks is found invalid while the first is the tip.\<close>

lemma event_invalid:
  assumes "chain_of 3 s"
  obtains s' where "reachable event_hashes event_params False s'" and "same_headers (cs_tree s) (cs_tree s')"
    and "g_failed_blocks s' = {1}" and "Tip (chainActive s') \<noteq> None" and "nStatus (cs_store s' ! 2) = BLOCK_VALID_TREE"
proof -
  note tree = chain_of_tree [OF assms]
  have s: "chain_ok (cs_store s) (chainActive s)" "reachable event_hashes event_params False s"
    using assms by (simp_all add: chain_of_def chain_ok_def Tip_def)
  obtain v where v: "SetTip (cs_store s) (chainActive s) (Some 0) = Some v" "Tip v = Some 0"
    using SetTip_on_chain [OF tree(2) s(1), of 0] on_chain_Tip [OF tree(2)] tree(3) by auto
  define s1 where "s1 = s\<lparr>chainActive := v\<rparr>"
  have r1: "reachable event_hashes event_params False s1" unfolding s1_def by (rule reachable.tip [OF s(2) v(1)])
  define s2 where "s2 = s1\<lparr>cs_tree := modify_dirty 1 (fail_with BLOCK_FAILED_VALID) (cs_tree s1), g_failed_blocks := insert 1 (g_failed_blocks s1),
     setBlockIndexCandidates := removeAll 1 (setBlockIndexCandidates s1), pindexBestInvalid := Some 1\<rparr>"
  have "InvalidBlockFound 1 False s1 = Some s2"
    using assms v(2) tree(3)
    by (simp add: InvalidBlockFound_def InvalidChainFound_def note_invalid_def s1_def s2_def chain_of_def modify_dirty_def modify_def)
  then have "reachable event_hashes event_params False s2" by (rule reachable.invalid [OF r1])
  then show ?thesis
  proof (rule that)
    show "same_headers (cs_tree s) (cs_tree s2)" using core.entrywise_fail(2) by (simp add: s2_def s1_def)
  qed (use assms v(2) in \<open>simp_all add: s2_def s1_def chain_of_def modify_dirty_def modify_def\<close>)
qed

theorem reset_aborts_next_header_witness:
  "\<exists>bits s. reachable event_hashes event_params True s \<and>
     AcceptBlockHeader event_env (event_header bits 3) s = Some (Inl Check_assertion, s)"
proof -
  obtain bits s0 where bits: "limit_bits bits" and s0: "chain_of 3 s0" by (rule event_chain3)
  obtain s where r: "reachable event_hashes event_params False s" and same: "same_headers (cs_tree s0) (cs_tree s)"
    and failed: "g_failed_blocks s = {1}" and tip: "Tip (chainActive s) \<noteq> None" and status: "nStatus (cs_store s ! 2) = BLOCK_VALID_TREE"
    using s0 by (rule event_invalid)
  note tree = chain_of_tree [OF s0] and d = same_headersD [OF same]
  note c = entry_core_eqD(2,4) [OF extendsD(2) [OF d(2)]]
  have wf: "wf_tree (cs_tree s)" using wf_tree_same [OF same tree(1)] .
  have st: "length (cs_store s) = 3" "nHeight (cs_store s ! 1) = 1" "nHeight (cs_store s ! 2) = 2" "pprev (cs_store s ! 2) = Some 1"
    using d(1) tree(3) c chain_of_height [OF s0] s0 by (simp_all add: chain_of_def)
  obtain s' where reset: "ResetBlockFailureFlags 2 s = Some s'" using ResetBlockFailureFlags_total [OF wf tip, of 2] st by auto
  have env: "he_hashes event_env = event_hashes" "he_params event_env = event_params" "he_checkpoint event_env = None"
    "he_adjusted_time event_env = 10" by (simp_all add: event_env_def)
  have three: "event_header bits 3 = event_header bits (Suc 2)" by (simp add: numeral_3_eq_3 numeral_2_eq_2)
  have map: "mapBlockIndex (cs_tree s0) (blob_null 32) = None" "mapBlockIndex (cs_tree s0) (event_id 2) = Some 2"
    using tree(4) s0 by (simp_all add: chain_of_def)
  have flags: "nStatus (cs_store s ! 2) AND BLOCK_VALID_MASK < BLOCK_VALID_SCRIPTS" "nStatus (cs_store s ! 2) AND BLOCK_CONFLICT_CHAINLOCK = 0"
    unfolding status by (simp_all add: BLOCK_VALID_TREE_def BLOCK_VALID_MASK_def BLOCK_VALID_SCRIPTS_def BLOCK_CONFLICT_CHAINLOCK_def)
  have ctx: "ContextualCheckBlockHeader (cs_store s) event_params (event_header bits (Suc 2)) 2 None 10 = None"
    using ContextualCheckBlockHeader_extends [OF d(2) tree(2) wf_store_links [OF wf_treeD(1) [OF wf]], of 2]
      event_context [of 2 s0 bits] s0 bits tree(3) by (simp add: numeral_3_eq_3)
  have anc: "ancestor_at (cs_store s) 2 (nHeight (cs_store s ! 1)) = Some 1"
    using ancestor_at_prev [OF wf_store_links [OF wf_treeD(1) [OF wf]], of 2 1] st by simp
  have "AcceptBlockHeader event_env (event_header bits 3) s' = Some (Inl Check_assertion, s')"
    unfolding three
    by (rule reset_aborts_next_header [where env = event_env and s = s and a = 1 and b = 2 and block = "event_header bits (Suc 2)", unfolded env event_header_facts event_pow event_params_facts(2) d(3) failed st(1-3),
          OF r event_params_facts(4,5) _ _ _ _ _ flags reset _ map(1) map(2) event_checks [OF bits] ctx])
      (use anc st event_id_eq(2) [of 0] in simp_all)
  moreover have "reachable event_hashes event_params True s'" using reachable.reset [OF reachable_mono [OF r] TrueI reset] .
  ultimately show ?thesis by blast
qed

end
