(* ===== verification/Accept_Block.thy ===== *)
theory Accept_Block
  imports Chain_Demo
begin

text \<open>
  Blocks that arrive with their transactions (\<open>AcceptBlock\<close>): what they do to the tree, and
  what is not asked of them.
\<close>

unbundle bit_operations_syntax

subsection \<open>Unlinked blocks\<close>

text \<open>The blocks that wait for the data of a predecessor are entries of the tree.\<close>

definition unlinked_ok :: "chain_state \<Rightarrow> bool" where
  "unlinked_ok s \<longleftrightarrow> list_all (\<lambda>(_, p). p < length (cs_store s)) (mapBlocksUnlinked s)"

lemma unlinked_ok_mono:
  assumes "unlinked_ok s" and "length (cs_store s) \<le> length (cs_store s')" and "set (mapBlocksUnlinked s') \<subseteq> set (mapBlocksUnlinked s)"
  shows "unlinked_ok s'"
  using assms by (fastforce simp: unlinked_ok_def list_all_iff)

interpretation stored: chain_relation "\<lambda>b c. nTx c = nTx b \<and> nStatus c = nStatus b"
  by unfold_locales simp_all

lemma link_queue_total:
  assumes "wf_tree (cs_tree s)" and "unlinked_ok s" and "list_all (\<lambda>p. p < length (cs_store s)) queue"
  shows "\<exists>s'. link_queue queue s = Some s' \<and> set (mapBlocksUnlinked s') \<subseteq> set (mapBlocksUnlinked s)"
  using assms
proof (induction queue s rule: link_queue.induct)
  case (2 p queue s)
  let ?st = "cs_store s"
  have p: "p < length ?st" using 2(4) by simp
  define n where "n = (case pprev (?st ! p) of None \<Rightarrow> 0 | Some q \<Rightarrow> nChainTx (?st ! q))"
  have b: "deref ?st p = Some (?st ! p)" using p by simp
  have n: "(case pprev (?st ! p) of None \<Rightarrow> Some 0 | Some q \<Rightarrow> map_option nChainTx (deref ?st q)) = Some n"
    using wf_linkD(3) [OF wf_store_links [OF wf_treeD(1) [OF 2(2)]] p] by (cases "pprev (?st ! p)") (simp_all add: n_def)
  define bt where "bt = modify p (\<lambda>b. b\<lparr>nChainTx := n + nTx b, nSequenceId := nBlockSequenceId s\<rparr>) (cs_tree s)"
  define worse where "worse = (case Tip (chainActive s) of None \<Rightarrow> False | Some tip \<Rightarrow> CBlockIndexWorkComparator (bt_store bt) p tip)"
  define s1 where "s1 = s\<lparr>cs_tree := bt, nBlockSequenceId := nBlockSequenceId s + 1,
     setBlockIndexCandidates := (if worse then setBlockIndexCandidates s else candidate_insert (bt_store bt) p (setBlockIndexCandidates s)),
     mapBlocksUnlinked := filter (\<lambda>(a, _). a \<noteq> p) (mapBlocksUnlinked s)\<rparr>"
  define q1 where "q1 = queue @ map snd (filter (\<lambda>(a, _). a = p) (mapBlocksUnlinked s))"
  have same: "same_headers (cs_tree s) bt" unfolding bt_def by (rule core.entrywise_modify) (simp add: entry_core_def)
  have len: "length (cs_store s1) = length ?st" using same_headersD(1) [OF same] by (simp add: s1_def)
  have "wf_tree (cs_tree s1)" using wf_tree_same [OF same 2(2)] by (simp add: s1_def)
  moreover have "unlinked_ok s1" by (rule unlinked_ok_mono [OF 2(3)]) (use len in \<open>auto simp: s1_def\<close>)
  moreover have "list_all (\<lambda>p. p < length (cs_store s1)) q1"
    using 2(3,4) unfolding len by (auto simp: q1_def unlinked_ok_def list_all_iff)
  ultimately obtain s' where s': "link_queue q1 s1 = Some s'" "set (mapBlocksUnlinked s') \<subseteq> set (mapBlocksUnlinked s1)"
    using 2(1) [OF b n bt_def worse_def] unfolding s1_def q1_def by blast
  have "link_queue (p # queue) s = Some s'"
    using s'(1) b n unfolding s1_def q1_def worse_def bt_def
    by (simp add: link_queue.simps(2) [of p] Let_def cong: if_cong option.case_cong)
  moreover have "set (mapBlocksUnlinked s1) \<subseteq> set (mapBlocksUnlinked s)" by (auto simp: s1_def)
  ultimately show ?case using s'(2) by blast
qed (simp add: link_queue.simps)

lemma mask_set: "a AND m = a \<Longrightarrow> ((x AND NOT m) OR a) AND m = (a :: u32)"
proof (rule bit_word_eqI)
  fix n assume "a AND m = a" "n < LENGTH(32)"
  then have "bit a n \<Longrightarrow> bit m n" by (metis bit_and_iff)
  with \<open>n < LENGTH(32)\<close> show "bit (((x AND NOT m) OR a) AND m) n = bit a n" by (auto simp: bit_simps)
qed

lemma have_data_iff: "x AND BLOCK_HAVE_DATA \<noteq> 0 \<longleftrightarrow> bit x 3"
proof -
  have "BLOCK_HAVE_DATA = push_bit 3 1" by (simp add: BLOCK_HAVE_DATA_def)
  then show ?thesis by (simp only: bit_iff_and_push_bit_not_eq_0)
qed

lemma received_failed: "nStatus (received_entry n pos b) AND BLOCK_FAILED_MASK = nStatus b AND BLOCK_FAILED_MASK"
proof -
  have "BLOCK_HAVE_DATA AND BLOCK_FAILED_MASK = 0"
    by (simp add: BLOCK_HAVE_DATA_def BLOCK_FAILED_MASK_def BLOCK_FAILED_VALID_def BLOCK_FAILED_CHILD_def)
  then show ?thesis by (simp add: received_entry_def bit.conj_disj_distrib2)
qed

lemma RaiseValidity_received:
  obtains b' changed where "RaiseValidity (received_entry n pos b) BLOCK_VALID_TRANSACTIONS = Some (b', changed)"
    and "nStatus b' AND BLOCK_HAVE_DATA \<noteq> 0" and "nTx b' = word_of_nat n" and "pprev b' = pprev b"
    and "nStatus b AND BLOCK_FAILED_MASK = 0 \<Longrightarrow> BLOCK_VALID_TRANSACTIONS \<le> nStatus b' AND BLOCK_VALID_MASK"
proof -
  let ?r = "received_entry n pos b"
  have m: "BLOCK_VALID_TRANSACTIONS AND NOT BLOCK_VALID_MASK = 0" "BLOCK_VALID_TRANSACTIONS AND BLOCK_VALID_MASK = BLOCK_VALID_TRANSACTIONS"
    by (simp_all add: BLOCK_VALID_TRANSACTIONS_def BLOCK_VALID_MASK_def)
  have d: "bit (nStatus ?r) 3" by (simp add: received_entry_def BLOCK_HAVE_DATA_def bit_simps)
  have f: "nTx ?r = word_of_nat n" "pprev ?r = pprev b" by (simp_all add: received_entry_def)
  show ?thesis
  proof (cases "nStatus b AND BLOCK_FAILED_MASK = 0 \<and> nStatus ?r AND BLOCK_VALID_MASK < BLOCK_VALID_TRANSACTIONS")
    case True
    let ?s = "(nStatus ?r AND NOT BLOCK_VALID_MASK) OR BLOCK_VALID_TRANSACTIONS"
    show ?thesis
    proof (rule that)
      show "RaiseValidity ?r BLOCK_VALID_TRANSACTIONS = Some (?r\<lparr>nStatus := ?s\<rparr>, True)"
        using True m received_failed [of n pos b] by (simp add: RaiseValidity_def)
      have "bit ?s 3" using d by (simp add: bit_simps BLOCK_VALID_MASK_def BLOCK_VALID_TRANSACTIONS_def)
      then show "nStatus (?r\<lparr>nStatus := ?s\<rparr>) AND BLOCK_HAVE_DATA \<noteq> 0" by (simp add: have_data_iff)
      have "?s AND BLOCK_VALID_MASK = BLOCK_VALID_TRANSACTIONS" using m(2) by (rule mask_set)
      then show "BLOCK_VALID_TRANSACTIONS \<le> nStatus (?r\<lparr>nStatus := ?s\<rparr>) AND BLOCK_VALID_MASK" by simp
    qed (simp_all add: f)
  next
    case False
    then have "RaiseValidity ?r BLOCK_VALID_TRANSACTIONS = Some (?r, False)"
      using m received_failed [of n pos b] by (auto simp: RaiseValidity_def)
    then show ?thesis using False d f by (intro that) (auto simp: have_data_iff not_less)
  qed
qed

lemma ReceivedBlockTransactions_total:
  assumes wf: "wf_tree (cs_tree s)" and unl: "unlinked_ok s" and p: "p < length (cs_store s)"
  shows "\<exists>s'. ReceivedBlockTransactions block p pos s = Some s' \<and> unlinked_ok s' \<and> nStatus (cs_store s' ! p) AND BLOCK_HAVE_DATA \<noteq> 0 \<and>
    nTx (cs_store s' ! p) = word_of_nat (length (blk_vtx block)) \<and>
    (nStatus (cs_store s ! p) AND BLOCK_FAILED_MASK = 0 \<longrightarrow> BLOCK_VALID_TRANSACTIONS \<le> nStatus (cs_store s' ! p) AND BLOCK_VALID_MASK)"
proof -
  let ?b = "received_entry (length (blk_vtx block)) pos (cs_store s ! p)"
  obtain b' changed where b': "RaiseValidity ?b BLOCK_VALID_TRANSACTIONS = Some (b', changed)"
    and st: "nStatus b' AND BLOCK_HAVE_DATA \<noteq> 0" "nTx b' = word_of_nat (length (blk_vtx block))" "pprev b' = pprev (cs_store s ! p)"
      "nStatus (cs_store s ! p) AND BLOCK_FAILED_MASK = 0 \<Longrightarrow> BLOCK_VALID_TRANSACTIONS \<le> nStatus b' AND BLOCK_VALID_MASK"
    by (rule RaiseValidity_received [of "length (blk_vtx block)" pos "cs_store s ! p"]) (rule that)
  define s1 where "s1 = s\<lparr>cs_tree := modify_dirty p (\<lambda>_. b') (cs_tree s)\<rparr>"
  have "entry_core b' = entry_core (cs_store s ! p)" using core.E_received [OF b'] .
  then have same: "same_headers (cs_tree s) (cs_tree s1)" unfolding s1_def by (simp add: core.entrywise_modify)
  have wf1: "wf_tree (cs_tree s1)" using wf_tree_same [OF same wf] .
  have len: "length (cs_store s1) = length (cs_store s)" using same_headersD(1) [OF same] .
  have unl1: "unlinked_ok s1" by (rule unlinked_ok_mono [OF unl]) (use len in \<open>simp_all add: s1_def\<close>)
  have entry: "cs_store s1 ! p = b'" using p by (simp add: s1_def modify_dirty_def modify_def)
  obtain s' where s': "link_queue [p] s1 = Some s'" "set (mapBlocksUnlinked s') \<subseteq> set (mapBlocksUnlinked s1)"
    using link_queue_total [OF wf1 unl1, of "[p]"] p len by auto
  have e': "length (cs_store s') = length (cs_store s1)" "nTx (cs_store s' ! p) = nTx b'" "nStatus (cs_store s' ! p) = nStatus b'"
    using stored.link_queue_entrywise [OF s'(1)] p len entry by (auto simp: entrywise_def list_all2_conv_all_nth)
  have "unlinked_ok s'" by (rule unlinked_ok_mono [OF unl1]) (use e' s'(2) in simp_all)
  have prev: "q < length (cs_store s)" if "pprev (cs_store s ! p) = Some q" for q
    using wf_linkD(3) [OF wf_store_links [OF wf_treeD(1) [OF wf]] p that] by blast
  show ?thesis
  proof (cases "case pprev (cs_store s ! p) of None \<Rightarrow> True | Some q \<Rightarrow> nChainTx (cs_store s1 ! q) \<noteq> 0")
    case True
    then have "ReceivedBlockTransactions block p pos s = Some s'"
      using s'(1) p b' prev len unfolding s1_def
      by (cases "pprev (cs_store s ! p)") (simp_all add: ReceivedBlockTransactions_def Let_def)
    then show ?thesis using \<open>unlinked_ok s'\<close> e' st by simp
  next
    case False
    then obtain q where q: "pprev (cs_store s ! p) = Some q" "nChainTx (cs_store s1 ! q) = 0" by (auto split: option.splits)
    obtain valid where v: "IsValid (cs_store s1 ! q) BLOCK_VALID_TREE = Some valid"
      by (cases "nStatus (cs_store s1 ! q) AND BLOCK_FAILED_MASK = 0") (auto simp: IsValid_def BLOCK_VALID_TREE_def BLOCK_VALID_MASK_def)
    define s2 where "s2 = (if valid then s1\<lparr>mapBlocksUnlinked := mapBlocksUnlinked s1 @ [(q, p)]\<rparr> else s1)"
    have "ReceivedBlockTransactions block p pos s = Some s2"
      using p b' q v prev len unfolding s2_def s1_def by (simp add: ReceivedBlockTransactions_def Let_def)
    moreover have "unlinked_ok s2" "cs_store s2 = cs_store s1" using unl1 p len by (auto simp: s2_def unlinked_ok_def)
    ultimately show ?thesis using st entry by simp
  qed
qed

lemma check_failed_blocks_unlinked: "check_failed_blocks q prev s = Some (r, s') \<Longrightarrow> mapBlocksUnlinked s' = mapBlocksUnlinked s"
  by (auto simp: check_failed_blocks_def split: bind_splits option.splits if_splits)

lemma AcceptBlockHeader_unlinked:
  assumes "AcceptBlockHeader env block s = Some (r, s')"
  shows "mapBlocksUnlinked s' = mapBlocksUnlinked s"
  using assms
proof (cases rule: AcceptBlockHeader_cases)
  case (failed q prev e)
  then show ?thesis using check_failed_blocks_unlinked by blast
next
  case (add status r')
  then show ?thesis by (auto simp: add_header_def map_option_case split: option.splits sum.splits)
qed simp

lemma drop_candidates_unlinked:
  "drop_candidates failed t p s = Some s' \<Longrightarrow> unlinked_ok s \<longrightarrow> unlinked_ok s'"
proof (erule drop_candidates.raw_induct [where P = "\<lambda>_ _ _ s s'. unlinked_ok s \<longrightarrow> unlinked_ok s'", rotated], goal_cases)
  case (1 drop failed t p s s')
  show ?case
  proof (cases "t = p")
    case False
    then show ?thesis
      using 1(2) by (auto simp: unlinked_ok_def modify_def deref_def dest!: 1(1) split: bind_splits if_splits)
  qed (use 1(2) in \<open>auto simp: unlinked_ok_def\<close>)
qed

lemma FindMostWorkChain_unlinked:
  "FindMostWorkChain s = Some r \<Longrightarrow> unlinked_ok s \<longrightarrow> unlinked_ok (snd r)"
proof (erule FindMostWorkChain.raw_induct [where P = "\<lambda>s r. unlinked_ok s \<longrightarrow> unlinked_ok (snd r)", rotated], goal_cases)
  case (1 find s r)
  have "note_invalid p s = Some s1 \<Longrightarrow> unlinked_ok s \<Longrightarrow> unlinked_ok s1" for p s1
    by (auto simp: note_invalid_def unlinked_ok_def split: bind_splits if_splits)
  with 1 show ?case
    by (auto simp: Let_def dest: 1(1) drop_candidates_unlinked split: bind_splits if_splits option.splits)
qed

lemma reset_descendants_unlinked: "reset_descendants pindex h ps s = Some s' \<Longrightarrow> mapBlocksUnlinked s' = mapBlocksUnlinked s"
  by (induction ps arbitrary: s) (auto simp: reset_descendant_def Let_def split: bind_splits if_splits)

lemma ReceivedBlockTransactions_valid: "ReceivedBlockTransactions block p pos s = Some s' \<Longrightarrow> p < length (cs_store s)"
  by (auto simp: ReceivedBlockTransactions_def deref_def split: bind_splits if_splits)

lemma reachable_unlinked:
  assumes "reachable H params resets s"
    and params: "wf_pow_params (Params.truncate params)" "limit_val (Params.truncate params) + 1 < 2 ^ 256"
  shows "unlinked_ok s"
  using assms(1)
proof induction
  case start
  show ?case by (simp add: initial_state_def unlinked_ok_def)
next
  case (header s env block r s')
  then have "headers_ok (he_hashes env) (he_params env) (cs_tree s)"
    using reachable_sound_state [OF header.hyps(1) params] by (simp add: sound_state_def)
  then have "extends (cs_store s) (cs_store s')"
    using AcceptBlockHeader_extends [of env s block r s'] header.hyps params by simp
  then have "length (cs_store s) \<le> length (cs_store s')" using extendsD(1) by (meson leI less_irrefl)
  then show ?case using unlinked_ok_mono [OF header.IH] AcceptBlockHeader_unlinked [OF header.hyps(5)] by simp
next
  case (transactions s blk p pos s')
  have "wf_tree (cs_tree s)" using reachable_sound_state [OF transactions.hyps(1) params] by (simp add: sound_state_def headers_ok_def)
  then show ?case
    using ReceivedBlockTransactions_total [OF _ transactions.IH ReceivedBlockTransactions_valid [OF transactions.hyps(2)], of blk pos]
      transactions.hyps(2) by auto
next
  case (invalid s p corrupt s')
  have "mapBlocksUnlinked s' = mapBlocksUnlinked s"
    using invalid.hyps(2)
    by (auto simp: InvalidBlockFound_def InvalidChainFound_def note_invalid_def split: bind_splits if_splits)
  then show ?case
    using unlinked_ok_mono [OF invalid.IH] core.InvalidBlockFound_entrywise [OF invalid.hyps(2)] same_headersD(1) by (metis order_refl)
next
  case (reset s p s')
  have "mapBlocksUnlinked s' = mapBlocksUnlinked s"
    using reset.hyps(3) by (auto simp: ResetBlockFailureFlags_def dest: reset_descendants_unlinked split: bind_splits)
  then show ?case
    using unlinked_ok_mono [OF reset.IH] core.ResetBlockFailureFlags_entrywise [OF reset.hyps(3)] same_headersD(1) by (metis order_refl)
next
  case (most_work s found s')
  then show ?case using FindMostWorkChain_unlinked [OF most_work.hyps(2)] by simp
next
  case (tip s p vChain)
  then show ?case by (simp add: unlinked_ok_def)
next
  case (prune s s')
  then show ?case by (auto simp: PruneBlockIndexCandidates_def unlinked_ok_def Let_def split: option.splits if_splits)
qed

subsection \<open>Accepting a block\<close>

lemma AcceptBlockHeader_entry:
  assumes wf: "wf_tree (cs_tree s)" and ne: "CBlockHeader_GetHash (he_hashes env) block \<noteq> hdr_hashPrevBlock block"
    and params: "wf_pow_params (Params.truncate (he_params env))" "limit_val (Params.truncate (he_params env)) + 1 < 2 ^ 256"
    and accept: "AcceptBlockHeader env block s = Some (Inr p, s1)"
  shows "p < length (cs_store s1)"
proof -
  let ?hash = "CBlockHeader_GetPOWHash (he_hashes env) block (CBlockHeader_GetAlgo block)"
  have add: "p < length (cs_store s1)" if a: "add_header env block BLOCK_VALID_TREE s = Some (Inr p, s1)"
  proof -
    obtain bt q where "AddToBlockIndex (he_hashes env) (Params.truncate (he_params env)) (cs_tree s) block BLOCK_VALID_TREE = Some (Inr (bt, q))"
      "wf_tree bt" "mapBlockIndex bt (CBlockHeader_GetHash (he_hashes env) block) = Some q"
      using AddToBlockIndex_wf [OF wf ne params disjI1 [OF refl]] by blast
    then show ?thesis using a wf_treeD(4) by (auto simp: add_header_def)
  qed
  show ?thesis
  proof (cases "?hash = hashGenesisBlock (he_params env)")
    case True
    then show ?thesis using accept add by (simp add: AcceptBlockHeader_def)
  next
    case new: False
    show ?thesis
    proof (cases "mapBlockIndex (cs_tree s) ?hash")
      case (Some q)
      then show ?thesis using new accept wf_treeD(4) [OF wf Some]
        by (auto simp: AcceptBlockHeader_def split: bind_splits if_splits)
    next
      case None
      then have "add_header env block BLOCK_VALID_TREE s = Some (Inr p, s1)"
        using new accept
        by (auto simp: AcceptBlockHeader_def map_option_case dest!: check_failed_blocks_None
            split: bind_splits option.splits if_splits sum.splits)
      then show ?thesis by (rule add)
    qed
  qed
qed

lemma ReceivedBlockTransactions_count:
  "length vtx = length (blk_vtx block) \<Longrightarrow>
   ReceivedBlockTransactions (block\<lparr>blk_vtx := vtx\<rparr>) p pos s = ReceivedBlockTransactions block p pos s"
  by (simp add: ReceivedBlockTransactions_def)

lemma AcceptBlock_requested:
  assumes "AcceptBlockHeader env (CBlockHeader.truncate block) s = Some (Inr p, s1)" and "p < length (cs_store s1)"
    and "chain_ok (cs_store s1) (chainActive s1)" and "nStatus (cs_store s1 ! p) AND BLOCK_HAVE_DATA = 0"
  shows "AcceptBlock env work True (Some pos) block s =
    map_option (\<lambda>s. (Inr (p, True), s)) (ReceivedBlockTransactions block p pos s1)"
  using assms by (cases "Tip (chainActive s1)") (simp_all add: AcceptBlock_def chain_ok_def)

text \<open>
  (C39) Blocks are stored unchecked.  After any events, a block that was asked for, whose header
  is accepted and whose data the node does not have, is stored: \<open>AcceptBlock\<close> returns, and
  the entry of the block is marked as having its data and, unless it has failed before, as
  having valid transactions.  The transactions play no part in it but for their number: any
  others, final or not, of whatever type and size, give the same state, since the calls of
  \<open>CheckBlock\<close> and \<open>ContextualCheckBlock\<close> are commented out.
\<close>

theorem AcceptBlock_stores_unchecked:
  assumes "reachable (he_hashes env) (he_params env) resets s"
    and "CBlockHeader_GetHash (he_hashes env) (CBlockHeader.truncate block) \<noteq> hdr_hashPrevBlock (CBlockHeader.truncate block)"
    and "wf_pow_params (Params.truncate (he_params env))" and "limit_val (Params.truncate (he_params env)) + 1 < 2 ^ 256"
    and "AcceptBlockHeader env (CBlockHeader.truncate block) s = Some (Inr p, s1)"
    and "nStatus (cs_store s1 ! p) AND BLOCK_HAVE_DATA = 0"
  shows "\<exists>s'. AcceptBlock env work True (Some pos) block s = Some (Inr (p, True), s') \<and>
    reachable (he_hashes env) (he_params env) resets s' \<and>
    nStatus (cs_store s' ! p) AND BLOCK_HAVE_DATA \<noteq> 0 \<and> nTx (cs_store s' ! p) = word_of_nat (length (blk_vtx block)) \<and>
    (nStatus (cs_store s1 ! p) AND BLOCK_FAILED_MASK = 0 \<longrightarrow> BLOCK_VALID_TRANSACTIONS \<le> nStatus (cs_store s' ! p) AND BLOCK_VALID_MASK) \<and>
    (\<forall>vtx. length vtx = length (blk_vtx block) \<longrightarrow>
      AcceptBlock env work True (Some pos) (block\<lparr>blk_vtx := vtx\<rparr>) s = Some (Inr (p, True), s'))"
proof -
  have r: "reachable (he_hashes env) (he_params env) resets s1" using assms(1,2,5) by (blast intro: reachable.header)
  have s: "sound_state (he_hashes env) (he_params env) s" "sound_state (he_hashes env) (he_params env) s1"
    using reachable_sound_state [OF _ assms(3,4)] assms(1) r by blast+
  have wf: "wf_tree (cs_tree s1)" and chain: "chain_ok (cs_store s1) (chainActive s1)"
    using s(2) by (simp_all add: sound_state_def headers_ok_def)
  have p: "p < length (cs_store s1)"
    using AcceptBlockHeader_entry [OF _ assms(2-5)] s(1) by (simp add: sound_state_def headers_ok_def)
  obtain s' where s': "ReceivedBlockTransactions block p pos s1 = Some s'" "nStatus (cs_store s' ! p) AND BLOCK_HAVE_DATA \<noteq> 0"
    "nTx (cs_store s' ! p) = word_of_nat (length (blk_vtx block))"
    "nStatus (cs_store s1 ! p) AND BLOCK_FAILED_MASK = 0 \<longrightarrow> BLOCK_VALID_TRANSACTIONS \<le> nStatus (cs_store s' ! p) AND BLOCK_VALID_MASK"
    using ReceivedBlockTransactions_total [OF wf reachable_unlinked [OF r assms(3,4)] p, of block pos] by blast
  have "AcceptBlock env work True (Some pos) (block\<lparr>blk_vtx := vtx\<rparr>) s = Some (Inr (p, True), s')"
    if "length vtx = length (blk_vtx block)" for vtx
    using AcceptBlock_requested [OF _ p chain assms(6), of env "block\<lparr>blk_vtx := vtx\<rparr>" s work pos] assms(5) s'(1) that
    by (simp add: ReceivedBlockTransactions_count CBlockHeader.truncate_def)
  moreover from this [of "blk_vtx block"] have "AcceptBlock env work True (Some pos) block s = Some (Inr (p, True), s')" by simp
  ultimately show ?thesis using s' reachable.transactions [OF r s'(1)] by blast
qed

definition event_block :: "u32 \<Rightarrow> nat \<Rightarrow> CTransaction list \<Rightarrow> CBlock" where
  "event_block bits i vtx = CBlockHeader.extend (event_header bits i) (CBlock.fields vtx False)"

theorem AcceptBlock_stores_unchecked_witness:
  "\<exists>bits s s'. \<forall>tx. AcceptBlock event_env (base_uint_of_u64 8 0) True (Some \<lparr>pos_nFile = 0, pos_nPos = 8\<rparr>) (event_block bits 3 [tx]) s =
       Some (Inr (3, True), s') \<and> nStatus (cs_store s' ! 3) AND BLOCK_HAVE_DATA \<noteq> 0"
proof -
  obtain bits s where bits: "limit_bits bits" and s: "chain_of 3 s" by (rule event_chain3)
  obtain s1 where s1: "AcceptBlockHeader event_env (event_header bits 3) s = Some (Inr 3, s1)" "chain_of (Suc 3) s1"
    by (rule event_step [OF s _ bits]) simp_all
  have env: "he_hashes event_env = event_hashes" "he_params event_env = event_params" by (simp_all add: event_env_def)
  have t: "CBlockHeader.truncate (event_block bits 3 vtx) = event_header bits 3" "blk_vtx (event_block bits 3 vtx) = vtx"
    "(event_block bits 3 vtx)\<lparr>blk_vtx := vtx'\<rparr> = event_block bits 3 vtx'" for vtx vtx'
    by (simp_all add: event_block_def event_header_def CBlockHeader.truncate_def CBlockHeader.extend_def CBlock.fields_def)
  have "reachable (he_hashes event_env) (he_params event_env) False s" using s by (simp add: chain_of_def env)
  moreover have "nStatus (cs_store s1 ! 3) AND BLOCK_HAVE_DATA = 0"
    using s1(2) by (simp add: chain_of_def BLOCK_VALID_TREE_def BLOCK_HAVE_DATA_def)
  ultimately obtain s' where s': "nStatus (cs_store s' ! 3) AND BLOCK_HAVE_DATA \<noteq> 0"
    "\<And>vtx. length vtx = length [tx0] \<Longrightarrow> AcceptBlock event_env (base_uint_of_u64 8 0) True (Some \<lparr>pos_nFile = 0, pos_nPos = 8\<rparr>)
       (event_block bits 3 vtx) s = Some (Inr (3, True), s')" for tx0 :: CTransaction
    using AcceptBlock_stores_unchecked [of event_env False s "event_block bits 3 [tx0]" 3 s1 "base_uint_of_u64 8 0" "\<lparr>pos_nFile = 0, pos_nPos = 8\<rparr>"]
      s1(1) event_ne [of 3 bits] event_params_facts(4,5)
    unfolding t env by auto
  have "AcceptBlock event_env (base_uint_of_u64 8 0) True (Some \<lparr>pos_nFile = 0, pos_nPos = 8\<rparr>) (event_block bits 3 [tx]) s =
       Some (Inr (3, True), s')" for tx using s'(2) [of "[tx]"] by simp
  with s'(1) show ?thesis by blast
qed

end
