(* ===== verification/Most_Work.thy ===== *)
theory Most_Work
  imports Chain_State_Props
begin

text \<open>
  The search for the chain with the most work: \<open>FindMostWorkChain\<close> returns, and what it
  returns is the greatest candidate that can be connected.
\<close>

unbundle bit_operations_syntax

subsection \<open>Usable candidates\<close>

text \<open>The entries from a candidate back to the active chain.\<close>

inductive off_chain :: "block_store \<Rightarrow> CChain \<Rightarrow> block_id \<Rightarrow> block_id \<Rightarrow> bool" for st active where
  here: "Contains st active p = Some False \<Longrightarrow> off_chain st active p p"
| before: "Contains st active p = Some False \<Longrightarrow> pprev (st ! p) = Some q \<Longrightarrow> off_chain st active q r \<Longrightarrow> off_chain st active p r"

inductive_simps off_chain_iff: "off_chain st active p r"

definition unusable :: "CBlockIndex \<Rightarrow> bool" where
  "unusable b \<longleftrightarrow> nStatus b AND BLOCK_FAILED_MASK \<noteq> 0 \<or> nStatus b AND BLOCK_HAVE_DATA = 0"

definition usable :: "block_store \<Rightarrow> CChain \<Rightarrow> block_id \<Rightarrow> bool" where
  "usable st active p \<longleftrightarrow> (\<forall>q. off_chain st active p q \<longrightarrow> \<not> unusable (st ! q))"

lemma off_chain_Contains: "off_chain st active p q \<Longrightarrow> Contains st active p = Some False"
  by (erule off_chain.cases) simp_all

lemma off_chain_valid: "off_chain st active p q \<Longrightarrow> p < length st \<and> q < length st"
  by (induction rule: off_chain.induct) (auto simp: Contains_def deref_def split: bind_splits if_splits)

lemma off_chain_trans: "off_chain st active p q \<Longrightarrow> off_chain st active q r \<Longrightarrow> off_chain st active p r"
  by (induction rule: off_chain.induct) (auto intro: off_chain.before)

lemma Contains_total: "p < length st \<Longrightarrow> Contains st active p = Some (chain_at active (nHeight (st ! p)) = Some p)"
  by (simp add: Contains_def)

text \<open>The walk of the search finds the first entry that is not usable.\<close>

lemma find_unusable_spec:
  assumes wf: "wf_links st" and p: "p < length st"
    and chaintx: "\<And>q. off_chain st active p q \<Longrightarrow> nChainTx (st ! q) \<noteq> 0 \<or> nHeight (st ! q) = 0"
  obtains r where "find_unusable st active (Some p) = Some r" and "r = None \<Longrightarrow> usable st active p"
    and "\<And>t. r = Some t \<Longrightarrow> off_chain st active p t \<and> unusable (st ! t)"
proof -
  have "\<exists>r. find_unusable st active (Some p) = Some r \<and> (r = None \<longrightarrow> usable st active p) \<and>
    (\<forall>t. r = Some t \<longrightarrow> off_chain st active p t \<and> unusable (st ! t))"
    using p chaintx
  proof (induction "nat (nHeight (st ! p))" arbitrary: p rule: less_induct)
    case less
    note C = Contains_total [OF less.prems(1), of active]
    show ?case
    proof (cases "Contains st active p = Some True \<or> unusable (st ! p)")
      case True
      then show ?thesis
        using C less.prems off_chain.here [of st active p] off_chain_Contains [of st active p]
        by (subst find_unusable.simps) (auto simp: usable_def unusable_def)
    next
      case False
      then have off: "off_chain st active p p" using C by (intro off_chain.here) auto
      have tx: "nChainTx (st ! p) \<noteq> 0 \<or> nHeight (st ! p) = 0" using less.prems(2) [OF off] .
      show ?thesis
      proof (cases "pprev (st ! p)")
        case None
        have "usable st active p"
          using False None by (auto simp: usable_def off_chain_iff [of st active p])
        then show ?thesis using False None C tx less.prems(1)
          by (subst find_unusable.simps) (auto simp: unusable_def find_unusable.simps [of st active None])
      next
        case (Some q)
        then have q: "q < length st" "nHeight (st ! q) = nHeight (st ! p) - 1"
          using wf_linkD(3) [OF wf less.prems(1)] by auto
        have step: "off_chain st active p r" if "off_chain st active q r" for r
          using off_chain.before [OF off_chain_Contains [OF off] Some that] .
        have "\<exists>r. find_unusable st active (Some q) = Some r \<and> (r = None \<longrightarrow> usable st active q) \<and>
            (\<forall>t. r = Some t \<longrightarrow> off_chain st active q t \<and> unusable (st ! t))"
          using less.hyps [of q] q wf_linkD(1) [OF wf q(1)] less.prems(2) step by simp
        then obtain r where r: "find_unusable st active (Some q) = Some r" "r = None \<longrightarrow> usable st active q"
            "\<forall>t. r = Some t \<longrightarrow> off_chain st active q t \<and> unusable (st ! t)" by blast
        have "find_unusable st active (Some p) = Some r"
          using False C tx less.prems(1) Some r(1) by (subst find_unusable.simps) (auto simp: unusable_def)
        moreover have "usable st active p" if "usable st active q"
          using that False Some by (auto simp: usable_def off_chain_iff [of st active p])
        ultimately show ?thesis using r step by blast
      qed
    qed
  qed
  then show ?thesis using that by blast
qed

subsection \<open>Removing a chain from the candidates\<close>

text \<open>A store in which some entries that lead to \<open>t\<close> have been marked.\<close>

definition marks :: "block_store \<Rightarrow> CChain \<Rightarrow> block_id \<Rightarrow> block_store \<Rightarrow> bool" where
  "marks st active t st' \<longleftrightarrow> length st' = length st \<and>
     (\<forall>q < length st. st' ! q = st ! q \<or> st' ! q = fail_with BLOCK_FAILED_CHILD (st ! q) \<and> off_chain st active q t)"

lemma fail_with_fields [simp]:
  "pprev (fail_with bits b) = pprev b" "nHeight (fail_with bits b) = nHeight b" "nChainTx (fail_with bits b) = nChainTx b"
  "nChainWork (fail_with bits b) = nChainWork b" "nSequenceId (fail_with bits b) = nSequenceId b"
  "fail_with bits (fail_with bits b) = fail_with bits b"
  by (simp_all add: fail_with_def or.assoc)

lemma unusable_fail: "unusable (fail_with BLOCK_FAILED_CHILD b)"
proof -
  have "bit (nStatus (fail_with BLOCK_FAILED_CHILD b) AND BLOCK_FAILED_MASK) 6"
    by (simp add: fail_with_def BLOCK_FAILED_CHILD_def BLOCK_FAILED_MASK_def BLOCK_FAILED_VALID_def bit_simps)
  then show ?thesis unfolding unusable_def by (metis bit_0_eq bot_apply bot_bool_def)
qed

lemma marksD:
  assumes "marks st active t st'" and "q < length st"
  shows "q < length st'" and "pprev (st' ! q) = pprev (st ! q)" and "nHeight (st' ! q) = nHeight (st ! q)"
    and "nChainTx (st' ! q) = nChainTx (st ! q)" and "nChainWork (st' ! q) = nChainWork (st ! q)"
    and "nSequenceId (st' ! q) = nSequenceId (st ! q)"
    and "unusable (st ! q) \<Longrightarrow> unusable (st' ! q)"
    and "unusable (st' ! q) \<Longrightarrow> unusable (st ! q) \<or> off_chain st active q t"
  using assms unusable_fail by (auto simp: marks_def)

lemma off_chain_marks:
  assumes "marks st active t st'"
  shows "off_chain st' active p q \<longleftrightarrow> off_chain st active p q"
proof
  have C: "Contains st' active r = Contains st active r" for r
    using assms marksD(3) [OF assms, of r] by (simp add: Contains_def deref_def marks_def)
  show "off_chain st active p q" if "off_chain st' active p q"
    using that
  proof induction
    case (before p q r)
    then have "p < length st'" by (auto simp: Contains_def deref_def split: if_splits bind_splits)
    then have "pprev (st ! p) = Some q" using before.hyps(2) marksD(2) [OF assms, of p] assms by (simp add: marks_def)
    then show ?case by (rule off_chain.before [OF before.hyps(1) [unfolded C] _ before.IH])
  qed (simp add: C off_chain.here)
  show "off_chain st' active p q" if "off_chain st active p q"
    using that
  proof induction
    case (before p q r)
    then have "p < length st" by (auto simp: Contains_def deref_def split: if_splits bind_splits)
    then have "pprev (st' ! p) = Some q" using before.hyps(2) marksD(2) [OF assms, of p] by simp
    then show ?case by (rule off_chain.before [OF before.hyps(1) [folded C] _ before.IH])
  qed (simp add: C off_chain.here)
qed

lemma usable_marks:
  assumes "marks st active t st'" and "unusable (st ! t)"
  shows "usable st' active p \<longleftrightarrow> usable st active p"
proof -
  have "unusable (st' ! q) \<longleftrightarrow> unusable (st ! q) \<or> unusable (st' ! q) \<and> off_chain st active q t" if "off_chain st active p q" for q
    using marksD(7,8) [OF assms(1), of q] off_chain_valid [OF that] by blast
  then show ?thesis
    using assms(2) off_chain_trans [of st active p] unfolding usable_def off_chain_marks [OF assms(1)] by blast
qed

lemma comparator_marks:
  assumes "marks st active t st'" and "p < length st" and "q < length st"
  shows "CBlockIndexWorkComparator st' p q = CBlockIndexWorkComparator st p q"
  using marksD(5,6) [OF assms(1,2)] marksD(5,6) [OF assms(1,3)] by (simp add: CBlockIndexWorkComparator_def Let_def)

lemma marks_fail:
  assumes "marks st active t st'" and "off_chain st active p t"
  shows "marks st active t (st'[p := fail_with BLOCK_FAILED_CHILD (st' ! p)])"
  using assms off_chain_valid [OF assms(2)]
  by (auto simp: marks_def nth_list_update)

lemma drop_candidates_spec:
  assumes "off_chain st active p t" and "marks st active t (cs_store s)"
  shows "\<exists>s' R. drop_candidates failed t p s = Some s' \<and> marks st active t (cs_store s') \<and>
    chainActive s' = chainActive s \<and> pindexBestInvalid s' = pindexBestInvalid s \<and>
    setBlockIndexCandidates s' = filter (\<lambda>c. c \<notin> R) (setBlockIndexCandidates s) \<and> p \<in> R \<and>
    (\<forall>c \<in> R. off_chain st active c t)"
  using assms
proof (induction p t arbitrary: s)
  case (here p)
  then show ?case
    by (intro exI [of _ "s\<lparr>setBlockIndexCandidates := removeAll p (setBlockIndexCandidates s)\<rparr>"] exI [of _ "{p}"])
      (auto simp: drop_candidates.simps removeAll_filter_not_eq intro: off_chain.here intro!: filter_cong)
next
  case (before p q t)
  have off: "off_chain st active p t" using before.hyps by (rule off_chain.before)
  show ?case
  proof (cases "t = p")
    case True
    then show ?thesis using off before.prems
      by (intro exI [of _ "s\<lparr>setBlockIndexCandidates := removeAll p (setBlockIndexCandidates s)\<rparr>"] exI [of _ "{p}"])
        (auto simp: drop_candidates.simps removeAll_filter_not_eq intro!: filter_cong)
  next
    case False
    have p: "p < length (cs_store s)" "pprev (cs_store s ! p) = Some q"
      using off_chain_valid [OF off] marksD(1,2) [OF before.prems, of p] before.hyps(2) by auto
    define s1 where "s1 = s\<lparr>cs_tree := (if failed then modify p (fail_with BLOCK_FAILED_CHILD) (cs_tree s) else cs_tree s),
      mapBlocksUnlinked := (if failed then mapBlocksUnlinked s else mapBlocksUnlinked s @ [(q, p)]),
      setBlockIndexCandidates := removeAll p (setBlockIndexCandidates s)\<rparr>"
    have "marks st active t (cs_store s1)"
      using marks_fail [OF before.prems off] before.prems by (simp add: s1_def modify_def)
    from before.IH [OF this] obtain s' R where s': "drop_candidates failed t q s1 = Some s'" "marks st active t (cs_store s')"
      "chainActive s' = chainActive s1" "pindexBestInvalid s' = pindexBestInvalid s1"
      "setBlockIndexCandidates s' = filter (\<lambda>c. c \<notin> R) (setBlockIndexCandidates s1)" "\<forall>c \<in> R. off_chain st active c t" by blast
    moreover have "drop_candidates failed t p s = drop_candidates failed t q s1"
      using False p by (subst drop_candidates.simps) (simp add: s1_def)
    ultimately show ?thesis
      using off by (intro exI [of _ s'] exI [of _ "insert p R"])
        (auto simp: s1_def removeAll_filter_not_eq intro!: filter_cong)
  qed
qed

subsection \<open>The search\<close>

text \<open>
  The candidates are entries in the order of the set, and every entry between a candidate and
  the active chain has its transactions, as the assertion of the search requires.
\<close>

definition candidates_ok :: "chain_state \<Rightarrow> bool" where
  "candidates_ok s \<longleftrightarrow> wf_tree (cs_tree s) \<and> valid_ptr (cs_store s) (pindexBestInvalid s) \<and>
     sorted_wrt (CBlockIndexWorkComparator (cs_store s)) (setBlockIndexCandidates s) \<and>
     (\<forall>c \<in> set (setBlockIndexCandidates s). c < length (cs_store s) \<and>
        (\<forall>q. off_chain (cs_store s) (chainActive s) c q \<longrightarrow> nChainTx (cs_store s ! q) \<noteq> 0 \<or> nHeight (cs_store s ! q) = 0))"

definition best_candidate :: "block_store \<Rightarrow> CChain \<Rightarrow> block_id list \<Rightarrow> block_id option \<Rightarrow> bool" where
  "best_candidate st active cs r \<longleftrightarrow>
     (case r of
        None \<Rightarrow> (\<forall>c \<in> set cs. \<not> usable st active c)
      | Some p \<Rightarrow> p \<in> set cs \<and> usable st active p \<and>
          (\<forall>c \<in> set cs. usable st active c \<longrightarrow> c = p \<or> CBlockIndexWorkComparator st c p))"

lemma note_invalid_total:
  assumes "p < length (cs_store s)" and "valid_ptr (cs_store s) (pindexBestInvalid s)"
  obtains s' where "note_invalid p s = Some s'" and "cs_tree s' = cs_tree s" and "chainActive s' = chainActive s"
    and "setBlockIndexCandidates s' = setBlockIndexCandidates s" and "valid_ptr (cs_store s') (pindexBestInvalid s')"
  using assms by (cases "pindexBestInvalid s") (auto simp: note_invalid_def)

lemma candidates_ok_marks:
  assumes ok: "candidates_ok s" and marks: "marks (cs_store s) (chainActive s) t (cs_store s')"
    and tree: "wf_tree (cs_tree s')" and best: "valid_ptr (cs_store s) (pindexBestInvalid s')"
    and same: "chainActive s' = chainActive s" "setBlockIndexCandidates s' = filter P (setBlockIndexCandidates s)"
  shows "candidates_ok s'"
proof -
  let ?st = "cs_store s" and ?st' = "cs_store s'"
  have valid: "c < length ?st" if "c \<in> set (setBlockIndexCandidates s)" for c using ok that by (simp add: candidates_ok_def)
  have "sorted_wrt (CBlockIndexWorkComparator ?st) (setBlockIndexCandidates s')"
    using ok same(2) by (simp add: candidates_ok_def sorted_wrt_filter)
  then have "sorted_wrt (CBlockIndexWorkComparator ?st') (setBlockIndexCandidates s')"
    by (rule sorted_wrt_mono_rel [rotated]) (use same(2) valid comparator_marks [OF marks] in auto)
  moreover have "nChainTx (?st' ! q) \<noteq> 0 \<or> nHeight (?st' ! q) = 0"
    if "c \<in> set (setBlockIndexCandidates s')" "off_chain ?st' (chainActive s') c q" for c q
    using that same ok off_chain_marks [OF marks] marksD(3,4) [OF marks, of q] off_chain_valid [of ?st "chainActive s" c q]
    by (auto simp: candidates_ok_def)
  moreover have "valid_ptr ?st' (pindexBestInvalid s')" "length ?st' = length ?st"
    using best marks by (auto simp: marks_def valid_ptr_def split: option.splits)
  ultimately show ?thesis using tree same(2) valid by (auto simp: candidates_ok_def)
qed

lemma best_candidate_marks:
  assumes ok: "candidates_ok s" and marks: "marks (cs_store s) (chainActive s) t st'" and bad: "unusable (cs_store s ! t)"
    and R: "\<forall>c \<in> R. off_chain (cs_store s) (chainActive s) c t"
    and best: "best_candidate st' (chainActive s) (filter (\<lambda>c. c \<notin> R) (setBlockIndexCandidates s)) r"
  shows "best_candidate (cs_store s) (chainActive s) (setBlockIndexCandidates s) r"
proof -
  let ?st = "cs_store s" and ?active = "chainActive s"
  have "\<not> usable ?st ?active c" if "c \<in> R" for c using R bad that by (auto simp: usable_def)
  moreover have "c < length ?st" if "c \<in> set (setBlockIndexCandidates s)" for c using ok that by (simp add: candidates_ok_def)
  ultimately show ?thesis
    using best usable_marks [OF marks bad] comparator_marks [OF marks]
    unfolding best_candidate_def by (cases r) auto
qed

lemma FindMostWorkChain_search:
  assumes "candidates_ok s"
  shows "\<exists>r s'. FindMostWorkChain s = Some (r, s') \<and>
    best_candidate (cs_store s) (chainActive s) (setBlockIndexCandidates s) r"
  using assms
proof (induction "length (setBlockIndexCandidates s)" arbitrary: s rule: less_induct)
  case less
  let ?st = "cs_store s" and ?active = "chainActive s" and ?cs = "setBlockIndexCandidates s"
  note ok = less.prems
  show ?case
  proof (cases "?cs = []")
    case True
    then show ?thesis by (simp add: FindMostWorkChain.simps [of s] best_candidate_def)
  next
    case False
    let ?p = "last ?cs"
    have wf: "wf_tree (cs_tree s)" "valid_ptr ?st (pindexBestInvalid s)" and p: "?p < length ?st"
      and chaintx: "\<And>q. off_chain ?st ?active ?p q \<Longrightarrow> nChainTx (?st ! q) \<noteq> 0 \<or> nHeight (?st ! q) = 0"
      using ok False by (auto simp: candidates_ok_def)
    obtain r where r: "find_unusable ?st ?active (Some ?p) = Some r" "r = None \<Longrightarrow> usable ?st ?active ?p"
      "\<And>t. r = Some t \<Longrightarrow> off_chain ?st ?active ?p t \<and> unusable (?st ! t)"
      by (rule find_unusable_spec [OF wf_store_links [OF wf_treeD(1) [OF wf(1)]] p, of ?active])
        (erule chaintx, rule that)
    show ?thesis
    proof (cases r)
      case None
      have "sorted_wrt (CBlockIndexWorkComparator ?st) (butlast ?cs @ [?p])" using ok False by (simp add: candidates_ok_def)
      then have "\<forall>c \<in> set (butlast ?cs). CBlockIndexWorkComparator ?st c ?p" by (simp add: sorted_wrt_append)
      moreover have "set ?cs = insert ?p (set (butlast ?cs))" using False by (metis append_butlast_last_id list.simps(15) rotate1.simps(2) set_rotate1)
      ultimately have "best_candidate ?st ?active ?cs (Some ?p)" using r(2) [OF None] False by (auto simp: best_candidate_def)
      then show ?thesis using False r(1) None by (auto simp: FindMostWorkChain.simps [of s] Let_def)
    next
      case (Some t)
      note t = r(3) [OF Some]
      have t': "t < length ?st" using off_chain_valid t by blast
      let ?failed = "nStatus (?st ! t) AND BLOCK_FAILED_MASK \<noteq> 0"
      obtain sn where sn: "note_invalid ?p s = Some sn" "cs_tree sn = cs_tree s" "chainActive sn = ?active"
        "setBlockIndexCandidates sn = ?cs" "valid_ptr (cs_store sn) (pindexBestInvalid sn)"
        using p wf(2) by (rule note_invalid_total)
      define s1 where "s1 = (if ?failed then sn else s)"
      have s1: "(if ?failed then note_invalid ?p s else Some s) = Some s1" "cs_tree s1 = cs_tree s" "chainActive s1 = ?active"
        "setBlockIndexCandidates s1 = ?cs" "valid_ptr ?st (pindexBestInvalid s1)"
        using sn wf(2) by (simp_all add: s1_def)
      have "marks ?st ?active t (cs_store s1)" using s1(2) by (simp add: marks_def)
      from drop_candidates_spec [OF conjunct1 [OF t] this, of ?failed] obtain s2 R where s2:
        "drop_candidates ?failed t ?p s1 = Some s2" "marks ?st ?active t (cs_store s2)" "chainActive s2 = ?active"
        "pindexBestInvalid s2 = pindexBestInvalid s1" "setBlockIndexCandidates s2 = filter (\<lambda>c. c \<notin> R) ?cs"
        "?p \<in> R" "\<forall>c \<in> R. off_chain ?st ?active c t" using s1 by auto
      have "wf_tree (cs_tree s2)"
        using wf_tree_same [OF conjunct1 [OF core.drop_candidates_entrywise [OF s2(1)]]] s1(2) wf(1) by simp
      then have "candidates_ok s2" using candidates_ok_marks [OF ok s2(2) _ _ s2(3,5)] s1(5) s2(4) by simp
      moreover have "length (setBlockIndexCandidates s2) < length ?cs"
        using s2(5,6) False by (auto intro!: length_filter_less [of ?p])
      ultimately obtain r' s' where r': "FindMostWorkChain s2 = Some (r', s')"
        "best_candidate (cs_store s2) ?active (setBlockIndexCandidates s2) r'"
        using less.hyps [of s2] s2(3) by auto
      have "FindMostWorkChain s = FindMostWorkChain s2"
        using False r(1) Some t' s1(1) s2(1) by (subst FindMostWorkChain.simps) (simp add: Let_def)
      then show ?thesis using best_candidate_marks [OF ok s2(2) _ s2(7)] t r' s2(5) by auto
    qed
  qed
qed

subsection \<open>Property\<close>

text \<open>
  (C5) The search for the chain with the most work always returns.  It returns the candidate
  that comes last in the order of work, time of arrival and address among those whose blocks
  off the active chain all have their data and none of which has failed; it returns a null
  pointer only if there is no such candidate.
\<close>

theorem FindMostWorkChain_best:
  assumes "candidates_ok s"
  shows "\<exists>r s'. FindMostWorkChain s = Some (r, s') \<and>
    best_candidate (cs_store s) (chainActive s) (setBlockIndexCandidates s) r"
  using assms by (rule FindMostWorkChain_search)

definition work_entry :: "CBlockIndex \<Rightarrow> CBlockIndex" where
  "work_entry b = b\<lparr>nStatus := BLOCK_HAVE_DATA, nTx := 1, nChainTx := 1\<rparr>"

definition work_state :: chain_state where
  "work_state =
     \<lparr>cs_tree = \<lparr>bt_store = map work_entry two_blocks, mapBlockIndex = Map.empty, mapPrevBlockIndex = [], pindexBestHeader = None,
        setDirtyBlockIndex = {}\<rparr>,
      chainActive = [Some 0], pindexBestInvalid = None, setBlockIndexCandidates = [1], mapBlocksUnlinked = [],
      nBlockSequenceId = 1, g_failed_blocks = {}\<rparr>"

theorem FindMostWorkChain_best_witness:
  "\<exists>r s'. FindMostWorkChain work_state = Some (r, s') \<and>
    best_candidate (cs_store work_state) (chainActive work_state) (setBlockIndexCandidates work_state) r"
proof (rule FindMostWorkChain_best)
  let ?st = "map work_entry two_blocks"
  have "same_links two_blocks ?st" by (simp add: same_links_def work_entry_def)
  then have "wf_store ?st" using two_blocks_wf by (rule wf_store_same_links)
  moreover have "time_max_ok ?st"
    by (simp add: time_max_ok_def work_entry_def two_blocks_def child_entry_def genesis_entry_def CBlockIndex_SetNull_def)
  moreover have "list_all (\<lambda>b. length (nChainWork b) = 8) ?st"
    by (simp add: work_entry_def two_blocks_def child_entry_def genesis_entry_def CBlockIndex_SetNull_def base_uint_zero_def)
  ultimately have "wf_tree (cs_tree work_state)" by (simp add: wf_tree_def work_state_def)
  moreover have "nChainTx (?st ! q) \<noteq> 0" if "q < length ?st" for q using that by (simp add: work_entry_def)
  ultimately show "candidates_ok work_state"
    using two_blocks_simps(1) off_chain_valid [of ?st "[Some 0]"] by (fastforce simp: candidates_ok_def work_state_def)
qed

end
