(* ===== verification/Spec2Isabelle.thy ===== *)
theory Spec2Isabelle
  imports Block_Tree Bit_Sets Script_Props Interpreter_Verify Sighash_Props Tx_Verify_Props Connect_Demo Accept_Block Most_Work
begin

text \<open>
  \<^bold>\<open>Verification of the consensus core of the But node.\<close>

  But is a node of a proof-of-work currency with several mining algorithms, smartnodes and
  founder payments, written in C++ on the Bitcoin and Dash code.  The development models the
  part of \<open>src/\<close> that decides which headers, blocks and transactions are valid and what they
  do to the block tree and to the set of unspent coins.  Paths below are relative to the
  code's \<open>src/\<close> directory.

  \<^bold>\<open>How the parts interact.\<close>  Bytes from the network are decoded (\<open>serialize.h\<close>, \<open>primitives/\<close>)
  into headers, transactions and blocks.  A header goes through \<open>AcceptBlockHeader\<close>: its
  proof of work is compared with the bits it carries (\<open>pow.cpp\<close> on the arithmetic of
  \<open>arith_uint256.cpp\<close>), its bits with the retargeting rule, its time with the median, and it
  becomes an entry of the block tree (\<open>chain.h\<close>, \<open>chain.cpp\<close>).  A block goes through
  \<open>AcceptBlock\<close>, which stores it and makes it a candidate for the tip once the data of all its
  ancestors are there; \<open>FindMostWorkChain\<close> picks the best candidate.  \<open>ConnectBlock\<close> then checks
  the block (\<open>CheckBlock\<close>, Merkle root), each transaction (\<open>consensus/tx_verify.cpp\<close>) and
  each script (\<open>script/interpreter.cpp\<close>) and applies the transactions to the coin cache
  (\<open>coins.cpp\<close>), which is flushed to the coin database (\<open>txdb.cpp\<close>, \<open>dbwrapper.h\<close>) in the
  compressed form of \<open>compressor.cpp\<close>; \<open>DisconnectBlock\<close> takes a block back with the undo
  data.

  \<^bold>\<open>How the code is represented.\<close>
  \<^item> Integers that may wrap are words of their width; signed integers whose range the code
    keeps are \<open>int\<close>, with \<open>s64\<close> where they wrap (\<open>But_Prelude\<close>).  Structures
    are records, enumerations datatypes or words, byte arrays lists of bytes.
  \<^item> A pointer to an index entry is a position in a list, the store; \<open>mapBlockIndex\<close> maps
    hashes to positions.  Ordered sets are sorted lists, multimaps lists of pairs.
  \<^item> A writer returns bytes, a parser the value with the remaining bytes or the exception.
    Validation code returns the rejection (code and reason of \<open>CValidationState\<close>) or the new
    state.  Failed assertions, null dereferences and loops that do not return are \<open>None\<close>, or
    an error of their own in \<open>arith_uint256\<close>.
  \<^item> Structural loops are recursive functions with termination proofs.  Loops along pointers,
    which end only on well-formed trees, are \<open>partial_function (option)\<close>: there is no fuel, and
    the theorems prove that these loops return (C5, C6, C12, C15, C24, C39) rather than assuming it.
  \<^item> Code outside the development (proof-of-work hashes, the curve library, the clock, chain
    locks, special transactions, the disk) is an argument of the definitions; what a theorem needs of
    it is a hypothesis, such as \<open>decompresses\<close> for the curve library, shown satisfiable in the witness.

  \<^bold>\<open>Theories, bottom up.\<close>
  \<^descr>[\<open>But_Prelude\<close>, \<open>Bytes\<close>] machine types, shared lemmas; \<open>crypto/common.h\<close>, \<open>uint256.h\<close>.
  \<^descr>[\<open>Arith_Uint256\<close>] all of \<open>base_uint\<close> that the node computes with, limb by limb.
    \<open>Arith_Uint256_Props\<close>, \<open>_Div\<close> and \<open>_Compact\<close> show that the limb loops are arithmetic on
    numbers: ring operations modulo the width (C18), long division (C11), roots (C19) and the
    compact form of targets (C16).
  \<^descr>[\<open>Serialize\<close>, \<open>Bit_Sets\<close>] the formats of \<open>serialize.h\<close>.  The locale \<open>codec\<close> states what a
    writer and a parser promise each other, \<open>canonical_codec\<close> that only written bytes are
    read; they are interpreted for integers, CompactSize, VarInt, vectors, outpoints,
    inputs, outputs and bit sets (C32), and compose to transactions (C28).
  \<^descr>[\<open>Script\<close>, \<open>Script_Props\<close>] \<open>script/script.h\<close>, \<open>script/script.cpp\<close>: opcodes, numbers (C29), reading and
    building scripts, \<open>FindAndDelete\<close>, counts of signature operations.
  \<^descr>[\<open>Hash_Stream\<close>, \<open>Hash_Functions\<close>, \<open>Hash_Keyed\<close>, \<open>SHA256_D64\<close>, \<open>Merkle\<close>] the hashers of
    \<open>crypto/\<close> with their buffers over the locale \<open>block_size\<close> (C30), SipHash and MurmurHash3 of \<open>hash.cpp\<close> (C31), the
    unrolled double hash (C10) and \<open>consensus/merkle.cpp\<close> (C9).
  \<^descr>[\<open>Transaction\<close>, \<open>Pub_Key\<close>, \<open>Compressor\<close>, \<open>Compressor_Props\<close>] transactions, the bytes of
    keys, and the compressed outputs of the database (C35, C36).
  \<^descr>[\<open>Interpreter\<close>, \<open>Interpreter_Props\<close>, \<open>Interpreter_Verify\<close>] every opcode, the loop of
    \<open>EvalScript\<close> and \<open>VerifyScript\<close>, over an arbitrary signature checker: limits (C17), flags
    only restrict (C7), the usual payment (C14), assertions (C26), unspendable outputs (C27).
  \<^descr>[\<open>Sighash\<close>, \<open>Sighash_Props\<close>] \<open>SignatureHash\<close> and the transaction signature checker: agreement with
    the older routine of \<open>test/sighash_tests.cpp\<close> (C8), what is signed (C34) and what is not (C33).
  \<^descr>[\<open>Consensus_Params\<close>, \<open>Block_Header\<close>, \<open>Block_Index\<close>, \<open>Pow\<close>] the parameters of the main
    network, headers and their hashes, index entries with skip pointers, and \<open>pow.cpp\<close>: the next work is always
    computed and in range (C6), its exact value (C20), what the main network makes of it (C22),
    and the test of a hash (C21).  The locale \<open>scaling\<close> is the arithmetic the rules rely on.
  \<^descr>[\<open>Chain\<close>, \<open>Chain_Props\<close>, \<open>Block_Tree\<close>] \<open>CChain\<close>, locators, forks, block work and
    \<open>AddToBlockIndex\<close>: the invariant of the tree (C23), ancestors over the locale \<open>ancestry\<close>
    (C15, C24), and block work (C25).
  \<^descr>[\<open>Coins\<close>, \<open>Coins_View\<close>, \<open>DB_Wrapper\<close>, \<open>Tx_DB\<close>] coin caches and the coin database.  The
    locale \<open>coins_view\<close> is the contract of a view as a partial function from outpoints to
    coins; it is interpreted for the database and for a cache on it, and gives the refinement
    to a set of coins (C3) and recovery after an interrupted write (C13).
  \<^descr>[\<open>Rewards\<close>, \<open>Tx_Verify\<close>, \<open>Tx_Verify_Props\<close>] subsidy (C37) and payments, and
    \<open>consensus/tx_verify.cpp\<close> with the meaning of lock times (C38).
  \<^descr>[\<open>Check_Block\<close>, \<open>Update_Coins\<close>, \<open>Connect_Block\<close>, \<open>Connect_Props\<close>, \<open>Connect_Demo\<close>]
    the checks of blocks, \<open>UpdateCoins\<close>, \<open>ApplyTxInUndo\<close>, \<open>DisconnectBlock\<close> and
    \<open>ConnectBlock\<close>.  \<open>apply_block\<close> is the abstract effect of a block on a set of coins;
    \<open>ConnectBlock\<close> implements it without inflation (C1) and is undone (C2).
  \<^descr>[\<open>Chain_State\<close>, \<open>Chain_State_Props\<close>, \<open>Chain_Events\<close>, \<open>Chain_Demo\<close>, \<open>Accept_Block\<close>, \<open>Most_Work\<close>]
    the state of \<open>validation.cpp\<close> behind the tip and its handlers.  \<open>reachable\<close> is the step relation of their
    events in any order; all headers in a reachable tree are checked (C4), headers are answered (C12)
    unless a reset came before (C40), blocks are stored without their checks (C39), and
    \<open>FindMostWorkChain\<close> returns the best usable candidate (C5).  The locales \<open>entry_order\<close>,
    \<open>chain_relation\<close>, \<open>clear_relation\<close> and \<open>entry_relation\<close> lift a relation between an entry before and after to
    all handlers; they are interpreted for fixed fields, failure flags and stored data.

  \<^bold>\<open>What the theorems rely on.\<close>  Heights lie below \<open>2 ^ 31\<close>; the proof-of-work limit plus one fits
  256 bits and the parameters of a rule are positive (\<open>wf_pow_params\<close>), as for the main network; no header
  hashes to its own predecessor; identifiers of new transactions do not occur among the coins.
  Merkle roots bind up to a collision of the hash, which C9 exhibits; what a signature binds is stated of
  the bytes that are hashed.

  \<^bold>\<open>Not modelled.\<close>  Activation of the best chain (\<open>ActivateBestChain\<close>, \<open>ConnectTip\<close>, \<open>DisconnectTip\<close>) and block files,
  which interleave with the memory pool, the disk and listeners; the memory pool, policy,
  mining and the network, which are not consensus; the proof-of-work hash functions, the curve and BLS
  libraries and LevelDB, which are arguments or maps; special transactions, quorums, chain
  locks, governance and sporks, whose verdicts are arguments; vectorised hash routines; the
  optional address and spent indexes; wallet, RPC, graphical interface and start-up.  Concurrency is
  left out: every modelled handler runs under \<open>cs_main\<close>.
\<close>

end
